(* ===== verification/Tds_Prelude.thy ===== *)
theory Tds_Prelude
  imports Main "HOL-Library.Word"
begin

text \<open>
  Shared vocabulary of the development: bytes and byte buffers, the outcome type of a
  routine that reads an untrusted buffer, bounds-checked reads, little- and big-endian
  composition of bytes into machine words as the C++ writes it (casts, shifts and bitwise
  or), and the generic lemmas on lists and words that the component theories share.

  A buffer \<open>(const uint8_t *data, size_t length)\<close> is a byte list, so \<open>data + k\<close> with
  \<open>length - k\<close> is \<open>drop k\<close>. Offsets and sizes (\<open>size_t\<close>) are natural numbers: they are
  bounded by the length of an existing buffer plus a 32-bit length field and never wrap in
  64 bits; where the source argues about that wrap-around explicitly the sum is kept at
  its width. Every read of a buffer goes through \<open>rd\<close>, which yields \<open>OOB\<close> when the index is
  outside the buffer: that a routine never yields \<open>OOB\<close> is its memory safety.
\<close>

unbundle bit_operations_syntax

type_synonym byte = "8 word"
type_synonym u16 = "16 word"
type_synonym u32 = "32 word"
type_synonym u64 = "64 word"

named_theorems res_simps \<open>unfolding rules for the outcome monad\<close>
named_theorems le_simps \<open>values of little-endian words as sums of bytes\<close>

subsection \<open>Outcomes of a parsing routine\<close>

text \<open>
  \<open>Ret\<close>: the routine succeeded. \<open>More\<close>: it returned \<open>false\<close> (or 0), which the code reads as
  \<open>need more data\<close>. \<open>Throw\<close>: it threw \<open>std::runtime_error\<close>. \<open>OOB\<close>: it read outside its buffer
  (undefined behaviour of the C++ program).
\<close>

datatype 'a res = Ret 'a | More | Throw string | OOB

fun bind_res :: "'a res \<Rightarrow> ('a \<Rightarrow> 'b res) \<Rightarrow> 'b res" where
  "bind_res (Ret x) f = f x"
| "bind_res More f = More"
| "bind_res (Throw m) f = Throw m"
| "bind_res OOB f = OOB"

fun map_res :: "('a \<Rightarrow> 'b) \<Rightarrow> 'a res \<Rightarrow> 'b res" where
  "map_res f (Ret x) = Ret (f x)"
| "map_res f More = More"
| "map_res f (Throw m) = Throw m"
| "map_res f OOB = OOB"

fun mapM_res :: "('a \<Rightarrow> 'b res) \<Rightarrow> 'a list \<Rightarrow> 'b list res" where
  "mapM_res f [] = Ret []"
| "mapM_res f (x # xs) = bind_res (f x) (\<lambda>y. bind_res (mapM_res f xs) (\<lambda>ys. Ret (y # ys)))"

definition need :: "bool \<Rightarrow> 'a res \<Rightarrow> 'a res" where
  "need c r = (if c then r else More)"

fun is_ret :: "'a res \<Rightarrow> bool" where
  "is_ret (Ret x) = True"
| "is_ret r = False"

lemma bind_res_Ret_iff [res_simps]:
  "bind_res r f = Ret y \<longleftrightarrow> (\<exists>x. r = Ret x \<and> f x = Ret y)"
  by (cases r) auto

lemma bind_res_OOB_iff [res_simps]:
  "bind_res r f = OOB \<longleftrightarrow> r = OOB \<or> (\<exists>x. r = Ret x \<and> f x = OOB)"
  by (cases r) auto

lemma bind_res_Throw_iff [res_simps]:
  "bind_res r f = Throw m \<longleftrightarrow> r = Throw m \<or> (\<exists>x. r = Ret x \<and> f x = Throw m)"
  by (cases r) auto

lemma bind_res_More_iff [res_simps]:
  "bind_res r f = More \<longleftrightarrow> r = More \<or> (\<exists>x. r = Ret x \<and> f x = More)"
  by (cases r) auto

lemma need_simps [simp]:
  "need True r = r" "need False r = More"
  by (simp_all add: need_def)

lemma need_Ret_iff [res_simps]: "need c r = Ret x \<longleftrightarrow> c \<and> r = Ret x"
  by (simp add: need_def)

lemma need_OOB_iff [res_simps]: "need c r = OOB \<longleftrightarrow> c \<and> r = OOB"
  by (simp add: need_def)

lemma need_Throw_iff [res_simps]: "need c r = Throw m \<longleftrightarrow> c \<and> r = Throw m"
  by (simp add: need_def)

lemma map_res_iffs [res_simps]:
  "map_res f r = Ret y \<longleftrightarrow> (\<exists>x. r = Ret x \<and> y = f x)"
  "map_res f r = OOB \<longleftrightarrow> r = OOB"
  "map_res f r = More \<longleftrightarrow> r = More"
  "map_res f r = Throw m \<longleftrightarrow> r = Throw m"
  by (cases r; auto)+

lemma need_cong [fundef_cong]: "c = c' \<Longrightarrow> (c' \<Longrightarrow> r = r') \<Longrightarrow> need c r = need c' r'"
  by (simp add: need_def)

lemma bind_res_cong [fundef_cong]:
  "m = m' \<Longrightarrow> (\<And>x. m' = Ret x \<Longrightarrow> f x = g x) \<Longrightarrow> bind_res m f = bind_res m' g"
  by (cases m') auto

text \<open>A byte count of 0 is the other way the row routines say \<open>need more data\<close>.\<close>

definition zero_more :: "nat \<Rightarrow> nat res" where
  "zero_more n = (if n = 0 then More else Ret n)"

lemma mapM_res_Ret:
  "(\<And>x. x \<in> set xs \<Longrightarrow> f x = Ret (g x)) \<Longrightarrow> mapM_res f xs = Ret (map g xs)"
  by (induction xs) auto

lemma mapM_res_cong:
  "(\<And>x. x \<in> set xs \<Longrightarrow> f x = g x) \<Longrightarrow> mapM_res f xs = mapM_res g xs"
  by (induction xs) auto

subsection \<open>Bounds-checked reads\<close>

definition rd :: "byte list \<Rightarrow> nat \<Rightarrow> byte res" where
  "rd data i = (if i < length data then Ret (data ! i) else OOB)"

lemma rd_in [simp]: "i < length data \<Longrightarrow> rd data i = Ret (data ! i)"
  by (simp add: rd_def)

lemma rd_append: "i < length data \<Longrightarrow> rd (data @ e) i = rd data i"
  by (simp add: rd_def nth_append)

lemma rd_take: "i < n \<Longrightarrow> rd (take n data) i = rd data i"
  by (simp add: rd_def)

text \<open>A block copy \<open>[data + from, data + from + n)\<close>, as \<open>memcpy\<close> and \<open>vector::assign\<close> read it.\<close>

definition rd_block :: "byte list \<Rightarrow> nat \<Rightarrow> nat \<Rightarrow> byte list res" where
  "rd_block data i n = (if i + n \<le> length data then Ret (take n (drop i data)) else OOB)"

lemma rd_block_in [simp]: "i + n \<le> length data \<Longrightarrow> rd_block data i n = Ret (take n (drop i data))"
  by (simp add: rd_block_def)

subsection \<open>Bytes as machine words\<close>

text \<open>The value of a byte list read least significant byte first.\<close>

fun le_nat :: "byte list \<Rightarrow> nat" where
  "le_nat [] = 0"
| "le_nat (b # bs) = unat b + 256 * le_nat bs"

text \<open>
  The shift-and-or compositions of the source: \<open>static_cast<uintN_t>(data[0]) |
  (static_cast<uintN_t>(data[1]) << 8) | \<dots>\<close>; \<open>memcpy\<close> into an integer on a little-endian
  host is the same value.
\<close>

definition u16le :: "byte \<Rightarrow> byte \<Rightarrow> u16" where
  "u16le b0 b1 = ucast b0 OR push_bit 8 (ucast b1)"

definition u32le :: "byte \<Rightarrow> byte \<Rightarrow> byte \<Rightarrow> byte \<Rightarrow> u32" where
  "u32le b0 b1 b2 b3 =
     ucast b0 OR push_bit 8 (ucast b1) OR push_bit 16 (ucast b2) OR push_bit 24 (ucast b3)"

definition u64le :: "byte \<Rightarrow> byte \<Rightarrow> byte \<Rightarrow> byte \<Rightarrow> byte \<Rightarrow> byte \<Rightarrow> byte \<Rightarrow> byte \<Rightarrow> u64" where
  "u64le b0 b1 b2 b3 b4 b5 b6 b7 =
     ucast b0 OR push_bit 8 (ucast b1) OR push_bit 16 (ucast b2) OR push_bit 24 (ucast b3) OR
     push_bit 32 (ucast b4) OR push_bit 40 (ucast b5) OR push_bit 48 (ucast b6) OR
     push_bit 56 (ucast b7)"

definition u16be :: "byte \<Rightarrow> byte \<Rightarrow> u16" where
  "u16be b0 b1 = push_bit 8 (ucast b0) OR ucast b1"

definition rd_u16le :: "byte list \<Rightarrow> nat \<Rightarrow> u16 res" where
  "rd_u16le data i = bind_res (rd data i) (\<lambda>a. bind_res (rd data (i + 1)) (\<lambda>b. Ret (u16le a b)))"

definition rd_u32le :: "byte list \<Rightarrow> nat \<Rightarrow> u32 res" where
  "rd_u32le data i =
     bind_res (rd data i) (\<lambda>a. bind_res (rd data (i + 1)) (\<lambda>b.
     bind_res (rd data (i + 2)) (\<lambda>c. bind_res (rd data (i + 3)) (\<lambda>d. Ret (u32le a b c d)))))"

definition rd_u64le :: "byte list \<Rightarrow> nat \<Rightarrow> u64 res" where
  "rd_u64le data i =
     bind_res (rd data i) (\<lambda>a. bind_res (rd data (i + 1)) (\<lambda>b.
     bind_res (rd data (i + 2)) (\<lambda>c. bind_res (rd data (i + 3)) (\<lambda>d.
     bind_res (rd data (i + 4)) (\<lambda>e. bind_res (rd data (i + 5)) (\<lambda>f.
     bind_res (rd data (i + 6)) (\<lambda>g. bind_res (rd data (i + 7)) (\<lambda>h.
       Ret (u64le a b c d e f g h)))))))))"

text \<open>The byte sequences the builders push: least or most significant byte first.\<close>

definition le16 :: "u16 \<Rightarrow> byte list" where
  "le16 v = [ucast (v AND 0xFF), ucast (drop_bit 8 v AND 0xFF)]"

definition be16 :: "u16 \<Rightarrow> byte list" where
  "be16 v = [ucast (drop_bit 8 v AND 0xFF), ucast (v AND 0xFF)]"

definition le32 :: "u32 \<Rightarrow> byte list" where
  "le32 v = [ucast (v AND 0xFF), ucast (drop_bit 8 v AND 0xFF),
             ucast (drop_bit 16 v AND 0xFF), ucast (drop_bit 24 v AND 0xFF)]"

definition be32 :: "u32 \<Rightarrow> byte list" where
  "be32 v = [ucast (drop_bit 24 v AND 0xFF), ucast (drop_bit 16 v AND 0xFF),
             ucast (drop_bit 8 v AND 0xFF), ucast (v AND 0xFF)]"

lemma byte_less: "unat (b :: byte) < 256"
  using unsigned_less[of b, where ?'a = nat] by simp

lemma u16_less: "unat (w :: u16) < 65536"
  using unsigned_less[of w, where ?'a = nat] by simp

lemma u32_less: "unat (w :: u32) < 4294967296"
  using unsigned_less[of w, where ?'a = nat] by simp

lemma u16_unat: "n < 65536 \<Longrightarrow> unat (of_nat n :: u16) = n"
  by (simp add: unat_of_nat take_bit_nat_eq_self_iff)

lemma byte_unat: "n < 256 \<Longrightarrow> unat (of_nat n :: byte) = n"
  by (simp add: unat_of_nat take_bit_nat_eq_self_iff)

lemma u32_unat: "n < 4294967296 \<Longrightarrow> unat (of_nat n :: u32) = n"
  by (simp add: unat_of_nat take_bit_nat_eq_self)

lemma le_nat_bound: "le_nat bs < 2 ^ (8 * length bs)"
proof (induction bs)
  case (Cons b bs)
  then show ?case using byte_less[of b] by (simp add: power_add)
qed simp

lemma le_nat_append: "le_nat (xs @ ys) = le_nat xs + 2 ^ (8 * length xs) * le_nat ys"
  by (induction xs) (auto simp: power_add algebra_simps)

lemma nat_or_shift: "a OR push_bit n b = a + 2 ^ n * (b :: nat)" if "a < 2 ^ n"
proof -
  from that have t: "take_bit n a = a" by (simp add: take_bit_nat_eq_self_iff)
  have "a AND push_bit n b = 0"
    by (subst t [symmetric]) (auto simp: bit_eq_iff bit_simps)
  then have "a + push_bit n b = a OR push_bit n b"
    by (rule disjunctive_add_eq_or)
  then show ?thesis by (simp add: push_bit_eq_mult mult.commute)
qed

lemma nat_or_shift_left: "a OR (push_bit n b OR c) = (a + 2 ^ n * b) OR (c :: nat)" if "a < 2 ^ n"
  using that by (metis nat_or_shift or.assoc)

lemma unat_ucast_byte: "unat (ucast (b :: byte) :: 'a word) = unat b" if "8 \<le> LENGTH('a::len)"
proof -
  from that have "(2::nat) ^ 8 \<le> 2 ^ LENGTH('a)" by (intro power_increasing) auto
  with byte_less[of b] have "unat b < 2 ^ LENGTH('a)" by simp
  then show ?thesis by (simp add: unsigned_ucast_eq take_bit_nat_eq_self_iff)
qed

lemma unat_shift_byte:
  "unat (push_bit n (ucast (b :: byte) :: 'a word)) = push_bit n (unat b)" if "n + 8 \<le> LENGTH('a::len)"
proof -
  have "push_bit n (unat b) < 2 ^ n * 2 ^ 8" using byte_less[of b] by (simp add: push_bit_eq_mult)
  also have "\<dots> \<le> 2 ^ LENGTH('a)" unfolding power_add [symmetric] using that by (intro power_increasing) auto
  finally show ?thesis using that
    by (simp add: unsigned_push_bit_eq unat_ucast_byte take_bit_nat_eq_self_iff)
qed

lemmas unat_or_bytes = unsigned_or_eq unat_ucast_byte unat_shift_byte nat_or_shift nat_or_shift_left

lemma unat_u16le [le_simps]: "unat (u16le b0 b1) = le_nat [b0, b1]"
  using byte_less[of b0] byte_less[of b1] by (simp add: u16le_def unat_or_bytes)

lemma unat_u32le [le_simps]: "unat (u32le b0 b1 b2 b3) = le_nat [b0, b1, b2, b3]"
  using byte_less[of b0] byte_less[of b1] byte_less[of b2] by (simp add: u32le_def unat_or_bytes)

lemma unat_u64le [le_simps]:
  "unat (u64le b0 b1 b2 b3 b4 b5 b6 b7) = le_nat [b0, b1, b2, b3, b4, b5, b6, b7]"
  using byte_less[of b0] byte_less[of b1] byte_less[of b2] byte_less[of b3] byte_less[of b4]
    byte_less[of b5] byte_less[of b6]
  by (simp add: u64le_def unat_or_bytes)

lemma u16be_swap: "u16be a b = u16le b a"
  by (simp add: u16be_def u16le_def or.commute)

lemma length_le_be [simp]:
  "length (le16 v) = 2" "length (be16 v) = 2" "length (le32 w) = 4" "length (be32 w) = 4"
  by (simp_all add: le16_def be16_def le32_def be32_def)

lemma u16le_le16: "u16le (ucast (v AND 0xFF)) (ucast (drop_bit 8 v AND 0xFF)) = v"
proof (rule bit_word_eqI)
  fix n assume n: "n < LENGTH(16)"
  have m: "(0xFF :: u16) = mask 8" by (simp add: mask_eq_exp_minus_1)
  show "bit (u16le (ucast (v AND 0xFF)) (ucast (drop_bit 8 v AND 0xFF))) n = bit v n"
    using n unfolding u16le_def m by (cases "n < 8") (simp_all add: bit_simps less_diff_conv2)
qed

lemma u16be_be16: "u16be (ucast (drop_bit 8 v AND 0xFF)) (ucast (v AND 0xFF)) = v"
  by (simp add: u16be_swap u16le_le16)

lemma u32le_le32:
  "u32le (ucast (v AND 0xFF)) (ucast (drop_bit 8 v AND 0xFF))
     (ucast (drop_bit 16 v AND 0xFF)) (ucast (drop_bit 24 v AND 0xFF)) = v"
proof (rule bit_word_eqI)
  fix n assume n: "n < LENGTH(32)"
  have m: "(0xFF :: u32) = mask 8" by (simp add: mask_eq_exp_minus_1)
  show "bit (u32le (ucast (v AND 0xFF)) (ucast (drop_bit 8 v AND 0xFF))
     (ucast (drop_bit 16 v AND 0xFF)) (ucast (drop_bit 24 v AND 0xFF))) n = bit v n"
    using n unfolding u32le_def m by (cases "n < 8"; cases "n < 16"; cases "n < 24") (simp_all add: bit_simps less_diff_conv2)
qed

lemma rd_u16le_in [simp]:
  "i + 1 < length data \<Longrightarrow> rd_u16le data i = Ret (u16le (data ! i) (data ! (i + 1)))"
  by (simp add: rd_u16le_def)

lemma rd_u32le_in [simp]:
  "i + 3 < length data \<Longrightarrow>
     rd_u32le data i = Ret (u32le (data ! i) (data ! (i + 1)) (data ! (i + 2)) (data ! (i + 3)))"
  by (simp add: rd_u32le_def)

lemma rd_u64le_in [simp]:
  "i + 7 < length data \<Longrightarrow>
     rd_u64le data i = Ret (u64le (data ! i) (data ! (i + 1)) (data ! (i + 2)) (data ! (i + 3))
       (data ! (i + 4)) (data ! (i + 5)) (data ! (i + 6)) (data ! (i + 7)))"
  by (simp add: rd_u64le_def)

lemma rd_u16le_append: "i + 1 < length d \<Longrightarrow> rd_u16le (d @ e) i = rd_u16le d i"
  by (simp add: nth_append)

lemma rd_u32le_append: "i + 3 < length d \<Longrightarrow> rd_u32le (d @ e) i = rd_u32le d i"
  by (simp add: nth_append)

subsection \<open>Text\<close>

text \<open>
  A \<open>std::string\<close> holds bytes. Decoded text is kept as its UTF-8 bytes; the messages the
  code composes from literals are character lists.
\<close>

definition str_of_bytes :: "byte list \<Rightarrow> string" where
  "str_of_bytes bs = map (\<lambda>b. char_of (unat b)) bs"

definition bytes_of_str :: "string \<Rightarrow> byte list" where
  "bytes_of_str s = map (\<lambda>c. of_nat (of_char c)) s"

text \<open>\<open>std::to_string\<close> on an unsigned value: decimal digits.\<close>

fun to_string :: "nat \<Rightarrow> string" where
  "to_string n = (if n < 10 then [char_of (48 + n)] else to_string (n div 10) @ [char_of (48 + n mod 10)])"

declare to_string.simps [simp del]

subsection \<open>Lists\<close>

text \<open>\<open>std::vector::resize\<close>, and a block write into an array of fixed size.\<close>

definition resize :: "nat \<Rightarrow> 'a \<Rightarrow> 'a list \<Rightarrow> 'a list" where
  "resize n x xs = take n xs @ replicate (n - length xs) x"

lemma length_resize [simp]: "length (resize n x xs) = n"
  by (simp add: resize_def)

definition wr_block :: "'a list \<Rightarrow> nat \<Rightarrow> 'a list \<Rightarrow> 'a list res" where
  "wr_block buf i bs = (if i + length bs \<le> length buf then Ret (take i buf @ bs @ drop (i + length bs) buf) else OOB)"

lemma take_drop_append_le: "i + n \<le> length d \<Longrightarrow> take n (drop i (d @ e)) = take n (drop i d)"
  by simp

lemma drop_take_split: "n \<le> length d \<Longrightarrow> d = take n d @ drop n d"
  by simp

end
