(* ===== verification/Tds_Types.thy ===== *)
theory Tds_Types
  imports Tds_Prelude
begin

text \<open>
  The protocol vocabulary of \<open>src/include/tds/tds_types.hpp\<close>. Enumerations that the code fills
  from wire bytes with \<open>static_cast\<close> (packet types and statuses, token types, SQL Server type
  ids, encryption options) range over every byte, so they are bytes with named constants;
  \<open>ConnectionState\<close>, which is only ever assigned its enumerators, is a datatype.
\<close>

subsection \<open>Wire constants\<close>

abbreviation (input) TDS_VERSION_7_4 :: u32 where "TDS_VERSION_7_4 \<equiv> 0x74000004"
abbreviation (input) PacketType_SQL_BATCH :: byte where "PacketType_SQL_BATCH \<equiv> 1"
abbreviation (input) PacketType_RPC :: byte where "PacketType_RPC \<equiv> 3"
abbreviation (input) PacketType_TABULAR_RESULT :: byte where "PacketType_TABULAR_RESULT \<equiv> 4"
abbreviation (input) PacketType_ATTENTION :: byte where "PacketType_ATTENTION \<equiv> 6"
abbreviation (input) PacketType_BULK_LOAD :: byte where "PacketType_BULK_LOAD \<equiv> 7"
abbreviation (input) PacketType_FEDAUTH_TOKEN :: byte where "PacketType_FEDAUTH_TOKEN \<equiv> 8"
abbreviation (input) PacketType_TRANSACTION :: byte where "PacketType_TRANSACTION \<equiv> 14"
abbreviation (input) PacketType_LOGIN7 :: byte where "PacketType_LOGIN7 \<equiv> 16"
abbreviation (input) PacketType_SSPI :: byte where "PacketType_SSPI \<equiv> 17"
abbreviation (input) PacketType_PRELOGIN :: byte where "PacketType_PRELOGIN \<equiv> 18"
abbreviation (input) PacketStatus_NORMAL :: byte where "PacketStatus_NORMAL \<equiv> 0x00"
abbreviation (input) PacketStatus_END_OF_MESSAGE :: byte where "PacketStatus_END_OF_MESSAGE \<equiv> 0x01"
abbreviation (input) PacketStatus_IGNORE_EVENT :: byte where "PacketStatus_IGNORE_EVENT \<equiv> 0x02"
abbreviation (input) PacketStatus_RESET_CONNECTION :: byte where "PacketStatus_RESET_CONNECTION \<equiv> 0x08"
abbreviation (input) PacketStatus_RESET_SKIP_TRAN :: byte where "PacketStatus_RESET_SKIP_TRAN \<equiv> 0x10"
abbreviation (input) PreloginOption_VERSION :: byte where "PreloginOption_VERSION \<equiv> 0"
abbreviation (input) PreloginOption_ENCRYPTION :: byte where "PreloginOption_ENCRYPTION \<equiv> 1"
abbreviation (input) PreloginOption_INSTOPT :: byte where "PreloginOption_INSTOPT \<equiv> 2"
abbreviation (input) PreloginOption_THREADID :: byte where "PreloginOption_THREADID \<equiv> 3"
abbreviation (input) PreloginOption_MARS :: byte where "PreloginOption_MARS \<equiv> 4"
abbreviation (input) PreloginOption_TRACEID :: byte where "PreloginOption_TRACEID \<equiv> 5"
abbreviation (input) PreloginOption_FEDAUTHREQUIRED :: byte where "PreloginOption_FEDAUTHREQUIRED \<equiv> 6"
abbreviation (input) PreloginOption_NONCEOPT :: byte where "PreloginOption_NONCEOPT \<equiv> 7"
abbreviation (input) PreloginOption_TERMINATOR :: byte where "PreloginOption_TERMINATOR \<equiv> 0xFF"
abbreviation (input) EncryptionOption_ENCRYPT_OFF :: byte where "EncryptionOption_ENCRYPT_OFF \<equiv> 0x00"
abbreviation (input) EncryptionOption_ENCRYPT_ON :: byte where "EncryptionOption_ENCRYPT_ON \<equiv> 0x01"
abbreviation (input) EncryptionOption_ENCRYPT_NOT_SUP :: byte where "EncryptionOption_ENCRYPT_NOT_SUP \<equiv> 0x02"
abbreviation (input) EncryptionOption_ENCRYPT_REQ :: byte where "EncryptionOption_ENCRYPT_REQ \<equiv> 0x03"
abbreviation (input) FeatureExtId_SESSIONRECOVERY :: byte where "FeatureExtId_SESSIONRECOVERY \<equiv> 0x01"
abbreviation (input) FeatureExtId_FEDAUTH :: byte where "FeatureExtId_FEDAUTH \<equiv> 0x02"
abbreviation (input) FeatureExtId_COLUMNENCRYPTION :: byte where "FeatureExtId_COLUMNENCRYPTION \<equiv> 0x04"
abbreviation (input) FeatureExtId_GLOBALTRANSACTIONS :: byte where "FeatureExtId_GLOBALTRANSACTIONS \<equiv> 0x05"
abbreviation (input) FeatureExtId_AZURESQLSUPPORT :: byte where "FeatureExtId_AZURESQLSUPPORT \<equiv> 0x08"
abbreviation (input) FeatureExtId_DATACLASSIFICATION :: byte where "FeatureExtId_DATACLASSIFICATION \<equiv> 0x09"
abbreviation (input) FeatureExtId_UTF8SUPPORT :: byte where "FeatureExtId_UTF8SUPPORT \<equiv> 0x0A"
abbreviation (input) FeatureExtId_AZURESQLDNSCACHING :: byte where "FeatureExtId_AZURESQLDNSCACHING \<equiv> 0x0B"
abbreviation (input) FeatureExtId_TERMINATOR :: byte where "FeatureExtId_TERMINATOR \<equiv> 0xFF"
abbreviation (input) FEDAUTH_LIBRARY_SECURITYTOKEN :: byte where "FEDAUTH_LIBRARY_SECURITYTOKEN \<equiv> 0x01"
abbreviation (input) FEDAUTH_LIBRARY_ADAL :: byte where "FEDAUTH_LIBRARY_ADAL \<equiv> 0x02"
abbreviation (input) FEDAUTH_ADAL_WORKFLOW_PASSWORD :: byte where "FEDAUTH_ADAL_WORKFLOW_PASSWORD \<equiv> 0x01"
abbreviation (input) FEDAUTHINFO_OPT_STS_URL :: byte where "FEDAUTHINFO_OPT_STS_URL \<equiv> 0x01"
abbreviation (input) FEDAUTHINFO_OPT_SPN :: byte where "FEDAUTHINFO_OPT_SPN \<equiv> 0x02"
abbreviation (input) TokenType_TABNAME :: byte where "TokenType_TABNAME \<equiv> 0x04"
abbreviation (input) TokenType_COLINFO :: byte where "TokenType_COLINFO \<equiv> 0xA5"
abbreviation (input) TokenType_DONE :: byte where "TokenType_DONE \<equiv> 0xFD"
abbreviation (input) TokenType_DONEPROC :: byte where "TokenType_DONEPROC \<equiv> 0xFE"
abbreviation (input) TokenType_DONEINPROC :: byte where "TokenType_DONEINPROC \<equiv> 0xFF"
abbreviation (input) TokenType_ERROR_TOKEN :: byte where "TokenType_ERROR_TOKEN \<equiv> 0xAA"
abbreviation (input) TokenType_INFO :: byte where "TokenType_INFO \<equiv> 0xAB"
abbreviation (input) TokenType_LOGINACK :: byte where "TokenType_LOGINACK \<equiv> 0xAD"
abbreviation (input) TokenType_ENVCHANGE :: byte where "TokenType_ENVCHANGE \<equiv> 0xE3"
abbreviation (input) TokenType_COLMETADATA :: byte where "TokenType_COLMETADATA \<equiv> 0x81"
abbreviation (input) TokenType_ROW :: byte where "TokenType_ROW \<equiv> 0xD1"
abbreviation (input) TokenType_NBCROW :: byte where "TokenType_NBCROW \<equiv> 0xD2"
abbreviation (input) TokenType_RETURNSTATUS :: byte where "TokenType_RETURNSTATUS \<equiv> 0x79"
abbreviation (input) TokenType_ORDER :: byte where "TokenType_ORDER \<equiv> 0xA9"
abbreviation (input) TokenType_RETURNVALUE :: byte where "TokenType_RETURNVALUE \<equiv> 0xAC"
abbreviation (input) TokenType_SSPI :: byte where "TokenType_SSPI \<equiv> 0xED"
abbreviation (input) TokenType_FEATUREEXTACK :: byte where "TokenType_FEATUREEXTACK \<equiv> 0xAE"
abbreviation (input) TokenType_FEDAUTHINFO :: byte where "TokenType_FEDAUTHINFO \<equiv> 0xEE"
abbreviation (input) DoneStatus_DONE_FINAL :: u16 where "DoneStatus_DONE_FINAL \<equiv> 0x0000"
abbreviation (input) DoneStatus_DONE_MORE :: u16 where "DoneStatus_DONE_MORE \<equiv> 0x0001"
abbreviation (input) DoneStatus_DONE_ERROR :: u16 where "DoneStatus_DONE_ERROR \<equiv> 0x0002"
abbreviation (input) DoneStatus_DONE_INXACT :: u16 where "DoneStatus_DONE_INXACT \<equiv> 0x0004"
abbreviation (input) DoneStatus_DONE_COUNT :: u16 where "DoneStatus_DONE_COUNT \<equiv> 0x0010"
abbreviation (input) DoneStatus_DONE_ATTN :: u16 where "DoneStatus_DONE_ATTN \<equiv> 0x0020"
abbreviation (input) DoneStatus_DONE_SRVERROR :: u16 where "DoneStatus_DONE_SRVERROR \<equiv> 0x0100"
abbreviation (input) TDS_TYPE_NULL :: byte where "TDS_TYPE_NULL \<equiv> 0x1F"
abbreviation (input) TDS_TYPE_TINYINT :: byte where "TDS_TYPE_TINYINT \<equiv> 0x30"
abbreviation (input) TDS_TYPE_BIT :: byte where "TDS_TYPE_BIT \<equiv> 0x32"
abbreviation (input) TDS_TYPE_SMALLINT :: byte where "TDS_TYPE_SMALLINT \<equiv> 0x34"
abbreviation (input) TDS_TYPE_INT :: byte where "TDS_TYPE_INT \<equiv> 0x38"
abbreviation (input) TDS_TYPE_SMALLDATETIME :: byte where "TDS_TYPE_SMALLDATETIME \<equiv> 0x3A"
abbreviation (input) TDS_TYPE_REAL :: byte where "TDS_TYPE_REAL \<equiv> 0x3B"
abbreviation (input) TDS_TYPE_MONEY :: byte where "TDS_TYPE_MONEY \<equiv> 0x3C"
abbreviation (input) TDS_TYPE_DATETIME :: byte where "TDS_TYPE_DATETIME \<equiv> 0x3D"
abbreviation (input) TDS_TYPE_FLOAT :: byte where "TDS_TYPE_FLOAT \<equiv> 0x3E"
abbreviation (input) TDS_TYPE_SMALLMONEY :: byte where "TDS_TYPE_SMALLMONEY \<equiv> 0x7A"
abbreviation (input) TDS_TYPE_BIGINT :: byte where "TDS_TYPE_BIGINT \<equiv> 0x7F"
abbreviation (input) TDS_TYPE_INTN :: byte where "TDS_TYPE_INTN \<equiv> 0x26"
abbreviation (input) TDS_TYPE_BITN :: byte where "TDS_TYPE_BITN \<equiv> 0x68"
abbreviation (input) TDS_TYPE_FLOATN :: byte where "TDS_TYPE_FLOATN \<equiv> 0x6D"
abbreviation (input) TDS_TYPE_MONEYN :: byte where "TDS_TYPE_MONEYN \<equiv> 0x6E"
abbreviation (input) TDS_TYPE_DATETIMEN :: byte where "TDS_TYPE_DATETIMEN \<equiv> 0x6F"
abbreviation (input) TDS_TYPE_DECIMAL :: byte where "TDS_TYPE_DECIMAL \<equiv> 0x6A"
abbreviation (input) TDS_TYPE_NUMERIC :: byte where "TDS_TYPE_NUMERIC \<equiv> 0x6C"
abbreviation (input) TDS_TYPE_UNIQUEIDENTIFIER :: byte where "TDS_TYPE_UNIQUEIDENTIFIER \<equiv> 0x24"
abbreviation (input) TDS_TYPE_BIGCHAR :: byte where "TDS_TYPE_BIGCHAR \<equiv> 0xAF"
abbreviation (input) TDS_TYPE_BIGVARCHAR :: byte where "TDS_TYPE_BIGVARCHAR \<equiv> 0xA7"
abbreviation (input) TDS_TYPE_NCHAR :: byte where "TDS_TYPE_NCHAR \<equiv> 0xEF"
abbreviation (input) TDS_TYPE_NVARCHAR :: byte where "TDS_TYPE_NVARCHAR \<equiv> 0xE7"
abbreviation (input) TDS_TYPE_BIGBINARY :: byte where "TDS_TYPE_BIGBINARY \<equiv> 0xAD"
abbreviation (input) TDS_TYPE_BIGVARBINARY :: byte where "TDS_TYPE_BIGVARBINARY \<equiv> 0xA5"
abbreviation (input) TDS_TYPE_DATE :: byte where "TDS_TYPE_DATE \<equiv> 0x28"
abbreviation (input) TDS_TYPE_TIME :: byte where "TDS_TYPE_TIME \<equiv> 0x29"
abbreviation (input) TDS_TYPE_DATETIME2 :: byte where "TDS_TYPE_DATETIME2 \<equiv> 0x2A"
abbreviation (input) TDS_TYPE_DATETIMEOFFSET :: byte where "TDS_TYPE_DATETIMEOFFSET \<equiv> 0x2B"
abbreviation (input) TDS_TYPE_XML :: byte where "TDS_TYPE_XML \<equiv> 0xF1"
abbreviation (input) TDS_TYPE_UDT :: byte where "TDS_TYPE_UDT \<equiv> 0xF0"
abbreviation (input) TDS_TYPE_SQL_VARIANT :: byte where "TDS_TYPE_SQL_VARIANT \<equiv> 0x62"
abbreviation (input) TDS_TYPE_IMAGE :: byte where "TDS_TYPE_IMAGE \<equiv> 0x22"
abbreviation (input) TDS_TYPE_TEXT :: byte where "TDS_TYPE_TEXT \<equiv> 0x23"
abbreviation (input) TDS_TYPE_NTEXT :: byte where "TDS_TYPE_NTEXT \<equiv> 0x63"
abbreviation (input) COL_FLAG_NULLABLE :: u16 where "COL_FLAG_NULLABLE \<equiv> 0x0001"
abbreviation (input) COL_FLAG_CASE_SENSITIVE :: u16 where "COL_FLAG_CASE_SENSITIVE \<equiv> 0x0002"
abbreviation (input) COL_FLAG_IDENTITY :: u16 where "COL_FLAG_IDENTITY \<equiv> 0x0010"
abbreviation (input) COL_FLAG_COMPUTED :: u16 where "COL_FLAG_COMPUTED \<equiv> 0x0020"
abbreviation (input) TDS_HEADER_SIZE :: nat where "TDS_HEADER_SIZE \<equiv> 8"
abbreviation (input) TDS_MIN_PACKET_SIZE :: nat where "TDS_MIN_PACKET_SIZE \<equiv> 512"
abbreviation (input) TDS_DEFAULT_PACKET_SIZE :: nat where "TDS_DEFAULT_PACKET_SIZE \<equiv> 4096"
abbreviation (input) TDS_MAX_PACKET_SIZE :: nat where "TDS_MAX_PACKET_SIZE \<equiv> 32767"
abbreviation (input) DEFAULT_IDLE_TIMEOUT :: int where "DEFAULT_IDLE_TIMEOUT \<equiv> 300"
abbreviation (input) DEFAULT_ACQUIRE_TIMEOUT :: int where "DEFAULT_ACQUIRE_TIMEOUT \<equiv> 30"
abbreviation (input) DEFAULT_CONNECTION_LIMIT :: nat where "DEFAULT_CONNECTION_LIMIT \<equiv> 64"
abbreviation (input) DEFAULT_MIN_CONNECTIONS :: nat where "DEFAULT_MIN_CONNECTIONS \<equiv> 0"
abbreviation (input) DEFAULT_CONNECTION_CACHE :: bool where "DEFAULT_CONNECTION_CACHE \<equiv> True"
abbreviation (input) TDS_RECV_BUFFER_TARGET_BYTES :: nat where "TDS_RECV_BUFFER_TARGET_BYTES \<equiv> 65536"
abbreviation (input) TDS_RECV_MIN_FRAMES :: u32 where "TDS_RECV_MIN_FRAMES \<equiv> 2"
abbreviation (input) DEFAULT_CONNECTION_TIMEOUT :: int where "DEFAULT_CONNECTION_TIMEOUT \<equiv> 30"
abbreviation (input) CANCELLATION_TIMEOUT :: int where "CANCELLATION_TIMEOUT \<equiv> 5"
abbreviation (input) LONG_IDLE_THRESHOLD :: int where "LONG_IDLE_THRESHOLD \<equiv> 60"

subsection \<open>Connection states\<close>

datatype ConnectionState = Disconnected | Authenticating | Idle | Executing | Cancelling

fun ConnectionStateToString :: "ConnectionState \<Rightarrow> string" where
  "ConnectionStateToString Disconnected = ''Disconnected''"
| "ConnectionStateToString Authenticating = ''Authenticating''"
| "ConnectionStateToString Idle = ''Idle''"
| "ConnectionStateToString Executing = ''Executing''"
| "ConnectionStateToString Cancelling = ''Cancelling''"

lemma ConnectionStateToString_inj: "ConnectionStateToString s = ConnectionStateToString t \<longleftrightarrow> s = t"
  by (cases s; cases t) simp_all

text \<open>\<open>size_t\<close> subtraction: wraps modulo \<open>2 ^ 64\<close>.\<close>

definition size_sub :: "nat \<Rightarrow> nat \<Rightarrow> nat" where
  "size_sub a b = (if b \<le> a then a - b else 2 ^ 64 + a - b)"

lemma size_sub_le [simp]: "b \<le> a \<Longrightarrow> size_sub a b = a - b"
  by (simp add: size_sub_def)

end
