(* ===== verification/Utf16.thy ===== *)
theory Utf16
  imports Tds_Prelude
begin

text \<open>
  The UTF-8 / UTF-16LE conversion layer of \<open>src/tds/encoding/utf16.cpp\<close>. The vectorised library
  \<open>simdutf\<close> is third-party code: it is the record parameter \<open>U\<close>, and what the layer relies on
  is the locale \<open>simdutf_contract\<close> (documented behaviour of the library, stated against the
  Unicode encoding forms of scalar values). The hand-written parts are modelled in full: the
  scalar converter with its ASCII fast path and its three copies (encode, byte length, encode
  into a caller-provided buffer), and the replacing decoder for ill-formed UTF-16.
\<close>

subsection \<open>Encoding forms of Unicode scalar values\<close>

definition is_scalar :: "nat \<Rightarrow> bool" where
  "is_scalar c \<longleftrightarrow> c < 0x110000 \<and> \<not> (0xD800 \<le> c \<and> c < 0xE000)"

definition utf8_of_cp :: "nat \<Rightarrow> byte list" where
  "utf8_of_cp c =
     (if c < 0x80 then [of_nat c]
      else if c < 0x800 then [of_nat (0xC0 + c div 64), of_nat (0x80 + c mod 64)]
      else if c < 0x10000 then
        [of_nat (0xE0 + c div 4096), of_nat (0x80 + c div 64 mod 64), of_nat (0x80 + c mod 64)]
      else
        [of_nat (0xF0 + c div 262144), of_nat (0x80 + c div 4096 mod 64),
         of_nat (0x80 + c div 64 mod 64), of_nat (0x80 + c mod 64)])"

definition utf16_of_cp :: "nat \<Rightarrow> u16 list" where
  "utf16_of_cp c =
     (if c < 0x10000 then [of_nat c]
      else [of_nat (0xD800 + (c - 0x10000) div 1024), of_nat (0xDC00 + (c - 0x10000) mod 1024)])"

definition utf8_enc :: "nat list \<Rightarrow> byte list" where
  "utf8_enc cps = concat (map utf8_of_cp cps)"

definition utf16_enc :: "nat list \<Rightarrow> u16 list" where
  "utf16_enc cps = concat (map utf16_of_cp cps)"

text \<open>Code units in memory: two bytes each, low byte first.\<close>

definition unit_bytes :: "u16 list \<Rightarrow> byte list" where
  "unit_bytes us = concat (map le16 us)"

fun bytes_units :: "byte list \<Rightarrow> u16 list" where
  "bytes_units (a # b # bs) = u16le a b # bytes_units bs"
| "bytes_units bs = []"

definition is_high :: "u16 \<Rightarrow> bool" where
  "is_high u \<longleftrightarrow> 0xD800 \<le> unat u \<and> unat u < 0xDC00"

definition is_low :: "u16 \<Rightarrow> bool" where
  "is_low u \<longleftrightarrow> 0xDC00 \<le> unat u \<and> unat u < 0xE000"

text \<open>
  The reference decoder: a well-formed pair or unit gives its scalar value, an ill-formed unit
  gives U+FFFD and decoding resumes at the next unit.
\<close>

fun utf16_lossy :: "u16 list \<Rightarrow> nat list" where
  "utf16_lossy [] = []"
| "utf16_lossy [u] = [if is_high u \<or> is_low u then 0xFFFD else unat u]"
| "utf16_lossy (u # v # us) =
     (if is_high u \<and> is_low v
      then (0x10000 + (unat u - 0xD800) * 1024 + (unat v - 0xDC00)) # utf16_lossy us
      else (if is_high u \<or> is_low u then 0xFFFD else unat u) # utf16_lossy (v # us))"

subsection \<open>The third-party conversion library\<close>

record simdutf =
  validate_utf8 :: "byte list \<Rightarrow> bool"
  utf16_length_from_utf8 :: "byte list \<Rightarrow> nat"
  convert_valid_utf8_to_utf16le :: "byte list \<Rightarrow> u16 list"
  validate_utf16le :: "u16 list \<Rightarrow> bool"
  validate_utf16le_with_errors :: "u16 list \<Rightarrow> bool \<times> nat"
  utf8_length_from_utf16le :: "u16 list \<Rightarrow> nat"
  convert_valid_utf16le_to_utf8 :: "u16 list \<Rightarrow> byte list"

subsection \<open>The scalar converter\<close>

definition ascii_chunk :: "byte list \<Rightarrow> nat \<Rightarrow> u64" where
  "ascii_chunk d k = u64le (d ! k) (d ! (k + 1)) (d ! (k + 2)) (d ! (k + 3))
     (d ! (k + 4)) (d ! (k + 5)) (d ! (k + 6)) (d ! (k + 7))"

definition IsAsciiString :: "byte list \<Rightarrow> bool" where
  "IsAsciiString d =
     (let chunks = length d div 8 in
      list_all (\<lambda>c. ascii_chunk d (c * 8) AND 0x8080808080808080 = 0) [0..<chunks] \<and>
      list_all (\<lambda>i. d ! i AND 0x80 = 0) [chunks * 8..<length d])"

text \<open>The unrolled store loop of the ASCII fast path, then its remainder loop.\<close>

function ascii_loop4 :: "byte list \<Rightarrow> nat \<Rightarrow> byte list \<Rightarrow> nat \<times> byte list" where
  "ascii_loop4 input i out =
     (if i + 4 \<le> length input
      then ascii_loop4 input (i + 4)
        (out[i * 2 := input ! i, i * 2 + 1 := 0,
             i * 2 + 2 := input ! (i + 1), i * 2 + 3 := 0,
             i * 2 + 4 := input ! (i + 2), i * 2 + 5 := 0,
             i * 2 + 6 := input ! (i + 3), i * 2 + 7 := 0])
      else (i, out))"
  by pat_completeness auto
termination
  by (relation "measure (\<lambda>(input, i, out). length input - i)") auto

function ascii_loop1 :: "byte list \<Rightarrow> nat \<Rightarrow> byte list \<Rightarrow> byte list" where
  "ascii_loop1 input i out =
     (if i < length input then ascii_loop1 input (i + 1) (out[i * 2 := input ! i, i * 2 + 1 := 0]) else out)"
  by pat_completeness auto
termination
  by (relation "measure (\<lambda>(input, i, out). length input - i)") auto

declare ascii_loop4.simps [simp del] ascii_loop1.simps [simp del]

definition AsciiToUtf16LE :: "byte list \<Rightarrow> byte list" where
  "AsciiToUtf16LE input =
     (case ascii_loop4 input 0 (replicate (length input * 2) 0) of (i, out) \<Rightarrow> ascii_loop1 input i out)"

text \<open>
  One iteration of the scalar loop: \<open>None\<close> is \<open>break\<close> (a truncated sequence at the end),
  \<open>Some (None, rest)\<close> is \<open>continue\<close> past a byte that starts no sequence, \<open>Some (Some c, rest)\<close> is
  a decoded code point.
\<close>

fun legacy_step :: "byte list \<Rightarrow> (u32 option \<times> byte list) option" where
  "legacy_step [] = None"
| "legacy_step (b # rest) =
     (if b AND 0x80 = 0 then Some (Some (ucast b), rest)
      else if b AND 0xE0 = 0xC0 then
        (case rest of b1 # rest' \<Rightarrow>
           Some (Some (push_bit 6 (ucast (b AND 0x1F)) OR ucast (b1 AND 0x3F)), rest')
         | _ \<Rightarrow> None)
      else if b AND 0xF0 = 0xE0 then
        (case rest of b1 # b2 # rest' \<Rightarrow>
           Some (Some (push_bit 12 (ucast (b AND 0x0F)) OR push_bit 6 (ucast (b1 AND 0x3F)) OR
             ucast (b2 AND 0x3F)), rest')
         | _ \<Rightarrow> None)
      else if b AND 0xF8 = 0xF0 then
        (case rest of b1 # b2 # b3 # rest' \<Rightarrow>
           Some (Some (push_bit 18 (ucast (b AND 0x07)) OR push_bit 12 (ucast (b1 AND 0x3F)) OR
             push_bit 6 (ucast (b2 AND 0x3F)) OR ucast (b3 AND 0x3F)), rest')
         | _ \<Rightarrow> None)
      else Some (None, rest))"

definition emit_cp :: "u32 \<Rightarrow> byte list" where
  "emit_cp codepoint =
     (if codepoint \<le> 0xFFFF
      then [ucast (codepoint AND 0xFF), ucast (drop_bit 8 codepoint AND 0xFF)]
      else if codepoint \<le> 0x10FFFF then
        (let cp = codepoint - 0x10000;
             high = (ucast (0xD800 + (drop_bit 10 cp AND 0x3FF)) :: u16);
             low = (ucast (0xDC00 + (cp AND 0x3FF)) :: u16)
         in [ucast (high AND 0xFF), ucast (drop_bit 8 high AND 0xFF),
             ucast (low AND 0xFF), ucast (drop_bit 8 low AND 0xFF)])
      else [])"

definition cp_bytes :: "u32 \<Rightarrow> nat" where
  "cp_bytes codepoint =
     (if codepoint \<le> 0xFFFF then 2 else if codepoint \<le> 0x10FFFF then 4 else 0)"

lemma legacy_step_shorter: "legacy_step d = Some (r, d') \<Longrightarrow> length d' < length d"
  by (cases d) (auto split: if_splits list.splits)

function Utf8ToUtf16LEGeneral :: "byte list \<Rightarrow> byte list" where
  "Utf8ToUtf16LEGeneral input =
     (case legacy_step input of
        None \<Rightarrow> []
      | Some (None, rest) \<Rightarrow> Utf8ToUtf16LEGeneral rest
      | Some (Some cp, rest) \<Rightarrow> emit_cp cp @ Utf8ToUtf16LEGeneral rest)"
  by pat_completeness auto
termination
  by (relation "measure length") (auto dest: legacy_step_shorter)

function LegacyUtf16LEByteLength :: "byte list \<Rightarrow> nat" where
  "LegacyUtf16LEByteLength input =
     (case legacy_step input of
        None \<Rightarrow> 0
      | Some (None, rest) \<Rightarrow> LegacyUtf16LEByteLength rest
      | Some (Some cp, rest) \<Rightarrow> cp_bytes cp + LegacyUtf16LEByteLength rest)"
  by pat_completeness auto
termination
  by (relation "measure length") (auto dest: legacy_step_shorter)

declare Utf8ToUtf16LEGeneral.simps [simp del] LegacyUtf16LEByteLength.simps [simp del]

definition LegacyUtf16LEEncode :: "byte list \<Rightarrow> byte list" where
  "LegacyUtf16LEEncode input =
     (if input = [] then []
      else if IsAsciiString input then AsciiToUtf16LE input
      else Utf8ToUtf16LEGeneral input)"

text \<open>
  The variant that writes through an output pointer. The destination is a byte list of the
  caller's size; a store past its end is \<open>OOB\<close>. The result is the final position and the
  destination.
\<close>

fun wr_bytes :: "byte list \<Rightarrow> nat \<Rightarrow> byte list \<Rightarrow> byte list res" where
  "wr_bytes out pos [] = Ret out"
| "wr_bytes out pos (b # bs) =
     (if pos < length out then wr_bytes (out[pos := b]) (pos + 1) bs else OOB)"

function direct_loop :: "byte list \<Rightarrow> nat \<Rightarrow> byte list \<Rightarrow> (nat \<times> byte list) res" where
  "direct_loop input out_pos output =
     (case legacy_step input of
        None \<Rightarrow> Ret (out_pos, output)
      | Some (None, rest) \<Rightarrow> direct_loop rest out_pos output
      | Some (Some cp, rest) \<Rightarrow>
          bind_res (wr_bytes output out_pos (emit_cp cp)) (\<lambda>output'.
            direct_loop rest (out_pos + length (emit_cp cp)) output'))"
  by pat_completeness auto
termination
  by (relation "measure (\<lambda>(i, p, out). length i)") (auto dest: legacy_step_shorter)

declare direct_loop.simps [simp del]

definition LegacyUtf16LEEncodeDirect :: "byte list \<Rightarrow> byte list \<Rightarrow> (nat \<times> byte list) res" where
  "LegacyUtf16LEEncodeDirect input output =
     (if input = [] then Ret (0, output)
      else if IsAsciiString input then
        (if length input * 2 \<le> length output
         then Ret (length input * 2,
           case ascii_loop4 input 0 output of (i, out) \<Rightarrow> ascii_loop1 input i out)
         else OOB)
      else direct_loop input 0 output)"

subsection \<open>The replacing decoder\<close>

text \<open>
  The loop of \<open>DecodeUtf16LeReplacing\<close> from the code unit it stands at: convert the valid run
  that \<open>validate_utf16le_with_errors\<close> bounds, append U+FFFD, step over the offending unit.
\<close>

function DecodeUtf16LeReplacing :: "simdutf \<Rightarrow> u16 list \<Rightarrow> byte list" where
  "DecodeUtf16LeReplacing U src =
     (if src = [] then []
      else case validate_utf16le_with_errors U src of (ok, count) \<Rightarrow>
        let valid_units = (if ok then length src else count);
            run = (if valid_units > 0 \<and> utf8_length_from_utf16le U (take valid_units src) > 0
                   then convert_valid_utf16le_to_utf8 U (take valid_units src) else [])
        in if ok then run
           else run @ [0xEF, 0xBF, 0xBD] @ DecodeUtf16LeReplacing U (drop (valid_units + 1) src))"
  by pat_completeness auto
termination
  by (relation "measure (\<lambda>(U, src). length src)") auto

declare DecodeUtf16LeReplacing.simps [simp del]

subsection \<open>The public conversion functions\<close>

text \<open>
  \<open>utf16_fallback_count\<close> is a per-thread diagnostic counter; the encoders and the decoder return
  its new value with their result.
\<close>

definition Utf16LEEncode_counted :: "simdutf \<Rightarrow> byte list \<Rightarrow> u64 \<Rightarrow> byte list \<times> u64" where
  "Utf16LEEncode_counted U input n =
     (if input = [] then ([], n)
      else if \<not> validate_utf8 U input then (LegacyUtf16LEEncode input, n + 1)
      else if utf16_length_from_utf8 U input = 0 then ([], n)
      else (unit_bytes (convert_valid_utf8_to_utf16le U input), n))"

definition Utf16LEEncode :: "simdutf \<Rightarrow> byte list \<Rightarrow> byte list" where
  "Utf16LEEncode U input = fst (Utf16LEEncode_counted U input 0)"

definition Utf16LEEncodeDirect :: "simdutf \<Rightarrow> bool \<Rightarrow> byte list \<Rightarrow> byte list \<Rightarrow> (nat \<times> byte list) res" where
  "Utf16LEEncodeDirect U unaligned input output =
     (if input = [] then Ret (0, output)
      else if \<not> validate_utf8 U input then LegacyUtf16LEEncodeDirect input output
      else if unaligned then LegacyUtf16LEEncodeDirect input output
      else let us = unit_bytes (convert_valid_utf8_to_utf16le U input) in
        bind_res (wr_bytes output 0 us) (\<lambda>out. Ret (length us, out)))"

definition Utf16LEByteLength :: "simdutf \<Rightarrow> byte list \<Rightarrow> nat" where
  "Utf16LEByteLength U input =
     (if input = [] then 0
      else if \<not> validate_utf8 U input then LegacyUtf16LEByteLength input
      else utf16_length_from_utf8 U input * 2)"

text \<open>The length of a view, with the validity flag the follow-up encode relies on.\<close>

definition Utf16LEByteLengthView :: "simdutf \<Rightarrow> byte list \<Rightarrow> nat \<times> bool" where
  "Utf16LEByteLengthView U input =
     (if input = [] then (0, True)
      else let valid_utf8 = validate_utf8 U input in
        (if \<not> valid_utf8 then LegacyUtf16LEByteLength input else utf16_length_from_utf8 U input * 2, valid_utf8))"

text \<open>
  Encoding input already known to be valid: directly into an aligned destination, through a scratch
  buffer and a copy otherwise. The two write the same bytes.
\<close>

definition Utf16LEEncodeValidDirect :: "simdutf \<Rightarrow> bool \<Rightarrow> byte list \<Rightarrow> byte list \<Rightarrow> (nat \<times> byte list) res" where
  "Utf16LEEncodeValidDirect U unaligned input output =
     (if input = [] then Ret (0, output)
      else if \<not> unaligned then
        (let us = unit_bytes (convert_valid_utf8_to_utf16le U input) in
         bind_res (wr_bytes output 0 us) (\<lambda>out. Ret (length us, out)))
      else
        (let scratch = convert_valid_utf8_to_utf16le U input in
         bind_res (wr_bytes output 0 (unit_bytes scratch)) (\<lambda>out. Ret (length scratch * 2, out))))"

definition Utf16LEDecode_counted :: "simdutf \<Rightarrow> byte list \<Rightarrow> u64 \<Rightarrow> byte list \<times> u64" where
  "Utf16LEDecode_counted U data n =
     (if data = [] then ([], n)
      else let src = bytes_units data in
        if \<not> validate_utf16le U src then (DecodeUtf16LeReplacing U src, n + 1)
        else if utf8_length_from_utf16le U src = 0 then ([], n)
        else (convert_valid_utf16le_to_utf8 U src, n))"

definition Utf16LEDecode :: "simdutf \<Rightarrow> byte list \<Rightarrow> byte list" where
  "Utf16LEDecode U data = fst (Utf16LEDecode_counted U data 0)"

text \<open>\<open>SIZE_MAX\<close> marks text that is not valid UTF-16.\<close>

definition SIZE_MAX :: nat where
  "SIZE_MAX = 2 ^ 64 - 1"

text \<open>Decoding into a caller's buffer of text already known to be valid.\<close>

definition Utf16LEDecodeValidInto :: "simdutf \<Rightarrow> byte list \<Rightarrow> byte list \<Rightarrow> (nat \<times> byte list) res" where
  "Utf16LEDecodeValidInto U data out =
     (if data = [] then Ret (0, out)
      else let bs = convert_valid_utf16le_to_utf8 U (bytes_units data) in
        bind_res (wr_bytes out 0 bs) (\<lambda>out. Ret (length bs, out)))"

definition Utf8LengthFromUtf16LEView :: "simdutf \<Rightarrow> byte list \<Rightarrow> nat" where
  "Utf8LengthFromUtf16LEView U data =
     (if data = [] then 0
      else let src = bytes_units data in
        if \<not> validate_utf16le U src then SIZE_MAX else utf8_length_from_utf16le U src)"

subsection \<open>The scalar step inverts the UTF-8 encoding form\<close>

lemma byte_of_unat: "of_nat (unat b) = (b :: byte)"
  by simp

lemma byte_masks_list:
  "list_all (\<lambda>n. ((of_nat n :: byte) AND 0x80 = 0) = (n < 128)
     \<and> ((of_nat n :: byte) AND 0xE0 = 0xC0) = (n div 32 = 6)
     \<and> ((of_nat n :: byte) AND 0xF0 = 0xE0) = (n div 16 = 14)
     \<and> ((of_nat n :: byte) AND 0xF8 = 0xF0) = (n div 8 = 30)) [0..<256]"
  by code_simp

lemma byte_masks:
  fixes b :: byte
  shows "b AND 0x80 = 0 \<longleftrightarrow> unat b < 128" "b AND 0xE0 = 0xC0 \<longleftrightarrow> unat b div 32 = 6"
    "b AND 0xF0 = 0xE0 \<longleftrightarrow> unat b div 16 = 14" "b AND 0xF8 = 0xF0 \<longleftrightarrow> unat b div 8 = 30"
proof -
  have "unat b \<in> set [0..<256]" using byte_less[of b] by simp
  with byte_masks_list show "b AND 0x80 = 0 \<longleftrightarrow> unat b < 128" "b AND 0xE0 = 0xC0 \<longleftrightarrow> unat b div 32 = 6"
    "b AND 0xF0 = 0xE0 \<longleftrightarrow> unat b div 16 = 14" "b AND 0xF8 = 0xF0 \<longleftrightarrow> unat b div 8 = 30"
    unfolding list_all_iff by (metis byte_of_unat)+
qed

lemma unat_mask_low: "unat (w AND (mask n :: 'a::len word)) = unat w mod 2 ^ n"
  unfolding take_bit_eq_mask [symmetric] unsigned_take_bit_eq by (simp only: take_bit_eq_mod)

lemma byte_low_masks:
  fixes b :: byte
  shows "unat (b AND 0x3F) = unat b mod 64" "unat (b AND 0x1F) = unat b mod 32"
    "unat (b AND 0x0F) = unat b mod 16" "unat (b AND 0x07) = unat b mod 8"
  using unat_mask_low[of b 6] unat_mask_low[of b 5] unat_mask_low[of b 4] unat_mask_low[of b 3]
  by (simp_all add: mask_eq_exp_minus_1)

lemma u32_join:
  "b < 64 \<Longrightarrow> push_bit 6 a OR b = 64 * a + (b :: nat)"
  "b < 4096 \<Longrightarrow> push_bit 12 a OR b = 4096 * a + (b :: nat)"
  "b < 262144 \<Longrightarrow> push_bit 18 a OR b = 262144 * a + (b :: nat)"
  using nat_or_shift[of b 6 a] nat_or_shift[of b 12 a] nat_or_shift[of b 18 a]
  by (simp_all add: or.commute)

lemma unat_cp2: fixes b :: byte and b1 :: byte and b2 :: byte and b3 :: byte
  shows "unat (push_bit 6 (ucast (b AND 0x1F)) OR ucast (b1 AND 0x3F) :: u32)
    = 64 * (unat b mod 32) + unat b1 mod 64"
  by (simp add: unsigned_or_eq unat_ucast_byte unat_shift_byte byte_low_masks u32_join)

lemma unat_cp3: fixes b :: byte and b1 :: byte and b2 :: byte and b3 :: byte
  shows "unat (push_bit 12 (ucast (b AND 0x0F)) OR push_bit 6 (ucast (b1 AND 0x3F)) OR ucast (b2 AND 0x3F) :: u32)
    = 4096 * (unat b mod 16) + 64 * (unat b1 mod 64) + unat b2 mod 64"
proof -
  have "64 * (unat b1 mod 64) + unat b2 mod 64 < 4096"
    using mod_less_divisor[of 64 "unat b1"] mod_less_divisor[of 64 "unat b2"] by linarith
  then show ?thesis
    by (simp add: unsigned_or_eq unat_ucast_byte unat_shift_byte byte_low_masks u32_join)
qed

lemma unat_cp4: fixes b :: byte and b1 :: byte and b2 :: byte and b3 :: byte
  shows "unat (push_bit 18 (ucast (b AND 0x07)) OR push_bit 12 (ucast (b1 AND 0x3F)) OR
     push_bit 6 (ucast (b2 AND 0x3F)) OR ucast (b3 AND 0x3F) :: u32)
    = 262144 * (unat b mod 8) + 4096 * (unat b1 mod 64) + 64 * (unat b2 mod 64) + unat b3 mod 64"
proof -
  have "64 * (unat b2 mod 64) + unat b3 mod 64 < 4096"
    "4096 * (unat b1 mod 64) + (64 * (unat b2 mod 64) + unat b3 mod 64) < 262144"
    using mod_less_divisor[of 64 "unat b1"] mod_less_divisor[of 64 "unat b2"] mod_less_divisor[of 64 "unat b3"] by linarith+
  then show ?thesis
    by (simp add: unsigned_or_eq unat_ucast_byte unat_shift_byte byte_low_masks u32_join)
qed

lemma unat_byte_small: "n < 256 \<Longrightarrow> unat (of_nat n :: byte) = n"
  by (simp add: unat_of_nat take_bit_nat_eq_self_iff)

lemma lead_byte_mod:
  "(128 + x) mod 64 = x mod (64 :: nat)" "(192 + x) mod 32 = x mod (32 :: nat)"
  "(224 + x) mod 16 = x mod (16 :: nat)" "(240 + x) mod 8 = x mod (8 :: nat)"
  using mod_mult_self2 [of x 64 2] mod_mult_self2 [of x 32 6] mod_mult_self2 [of x 16 14]
    mod_mult_self2 [of x 8 30] by (simp_all add: add.commute)

lemma cp_digits:
  "4096 * (c div 4096) + 64 * (c div 64 mod 64) + c mod 64 = (c :: nat)"
  "262144 * (c div 262144) + 4096 * (c div 4096 mod 64) + 64 * (c div 64 mod 64) + c mod 64 = c"
proof -
  have d: "c div 4096 = c div 64 div 64" "c div 262144 = c div 4096 div 64" by (simp_all flip: div_mult2_eq)
  have "c = 64 * (c div 64) + c mod 64" "c div 64 = 64 * (c div 64 div 64) + c div 64 mod 64"
    "c div 4096 = 64 * (c div 4096 div 64) + c div 4096 mod 64" by simp_all
  with d show "4096 * (c div 4096) + 64 * (c div 64 mod 64) + c mod 64 = c"
    "262144 * (c div 262144) + 4096 * (c div 4096 mod 64) + 64 * (c div 64 mod 64) + c mod 64 = c"
    by linarith+
qed

lemma legacy_step_utf8:
  assumes "is_scalar c"
  shows "legacy_step (utf8_of_cp c @ rest) = Some (Some (of_nat c), rest)"
proof -
  have eqI: "x = of_nat c" if "unat x = c" for x :: u32 using that by auto
  consider "c < 0x80" | "0x80 \<le> c" "c < 0x800" | "0x800 \<le> c" "c < 0x10000" | "0x10000 \<le> c" "c < 0x110000"
    using assms by (fastforce simp: is_scalar_def)
  then show ?thesis
  proof cases
    case 1
    then show ?thesis
      by (auto simp: utf8_of_cp_def byte_masks unat_byte_small unat_ucast_byte intro!: eqI)
  next
    case 2
    then have "c div 64 < 32" "2 \<le> c div 64" by linarith+
    with 2 show ?thesis
      by (auto simp: utf8_of_cp_def byte_masks unat_byte_small unat_cp2 lead_byte_mod simp del: of_nat_add intro!: eqI)
  next
    case 3
    then have "c div 4096 < 16" by linarith
    with 3 show ?thesis
      by (auto simp: utf8_of_cp_def byte_masks unat_byte_small cp_digits unat_cp3 lead_byte_mod simp del: of_nat_add intro!: eqI)
  next
    case 4
    then have "c div 262144 < 8" by linarith
    with 4 show ?thesis
      by (auto simp: utf8_of_cp_def byte_masks unat_byte_small cp_digits unat_cp4 lead_byte_mod simp del: of_nat_add intro!: eqI)
  qed
qed

lemma le16_bytes: "[ucast (codepoint AND 0xFF), ucast (drop_bit 8 codepoint AND 0xFF)] = le16 (ucast (codepoint :: u32))"
proof -
  have m: "(0xFF :: u32) = mask 8" "(0xFF :: u16) = mask 8" by (simp_all add: mask_eq_exp_minus_1)
  show ?thesis unfolding le16_def m
    by (auto intro!: bit_word_eqI simp: bit_simps)
qed

lemma ucast_of_unat: "(ucast x :: 'a::len word) = of_nat (unat x)"
  by simp

lemma ucast_of_nat16: "c < 65536 \<Longrightarrow> (ucast (of_nat c :: u32) :: u16) = of_nat c"
  unfolding ucast_of_unat by (simp add: unat_of_nat take_bit_nat_eq_self_iff del: of_nat_unat)

lemma u32_of_nat: "n < 4294967296 \<Longrightarrow> unat (of_nat n :: u32) = n"
  by (simp add: unat_of_nat take_bit_nat_eq_self_iff)

lemma surrogate_halves:
  assumes "d < 0x100000"
  shows "(ucast (0xD800 + (drop_bit 10 (of_nat d) AND 0x3FF :: u32)) :: u16) = of_nat (0xD800 + d div 1024)"
    and "(ucast (0xDC00 + (of_nat d AND 0x3FF :: u32)) :: u16) = of_nat (0xDC00 + d mod 1024)"
proof -
  have m: "(0x3FF :: u32) = mask 10" by (simp add: mask_eq_exp_minus_1)
  have "unat (drop_bit 10 (of_nat d :: u32)) = d div 1024"
    unfolding unsigned_drop_bit_eq using assms
    by (simp add: u32_of_nat drop_bit_eq_div take_bit_nat_eq_self)
  then have "unat (drop_bit 10 (of_nat d :: u32) AND 0x3FF) = d div 1024"
    unfolding m unat_mask_low using assms by simp
  then have "drop_bit 10 (of_nat d :: u32) AND 0x3FF = of_nat (d div 1024)"
    by (metis of_nat_unat ucast_id)
  then have 1: "0xD800 + (drop_bit 10 (of_nat d) AND 0x3FF) = (of_nat (0xD800 + d div 1024) :: u32)" by simp
  have "unat (of_nat d AND 0x3FF :: u32) = d mod 1024"
    unfolding m unat_mask_low using assms by (simp add: u32_of_nat)
  then have "(of_nat d AND 0x3FF :: u32) = of_nat (d mod 1024)"
    by (metis of_nat_unat ucast_id)
  then have 2: "0xDC00 + (of_nat d AND 0x3FF) = (of_nat (0xDC00 + d mod 1024) :: u32)" by simp
  show "(ucast (0xD800 + (drop_bit 10 (of_nat d) AND 0x3FF :: u32)) :: u16) = of_nat (0xD800 + d div 1024)"
    unfolding 1 using assms by (intro ucast_of_nat16) simp
  show "(ucast (0xDC00 + (of_nat d AND 0x3FF :: u32)) :: u16) = of_nat (0xDC00 + d mod 1024)"
    unfolding 2 using mod_less_divisor[of 1024 d] by (intro ucast_of_nat16) linarith
qed

lemma emit_cp_scalar:
  assumes "c < 0x110000"
  shows "emit_cp (of_nat c) = unit_bytes (utf16_of_cp c)"
proof (cases "c < 0x10000")
  case True
  then have "(of_nat c :: u32) \<le> 0xFFFF" by (simp add: word_le_nat_alt u32_of_nat)
  with True show ?thesis
    by (simp add: emit_cp_def le16_bytes utf16_of_cp_def unit_bytes_def ucast_of_nat16)
next
  case False
  with assms have u: "unat (of_nat c :: u32) = c" by (simp add: u32_of_nat)
  define d where "d = c - 0x10000"
  have d: "d < 0x100000" "(of_nat c - 0x10000 :: u32) = of_nat d" using assms False by (simp_all add: d_def)
  from False assms u have "\<not> (of_nat c :: u32) \<le> 0xFFFF" "(of_nat c :: u32) \<le> 0x10FFFF"
    by (simp_all add: word_le_nat_alt)
  then have "emit_cp (of_nat c) = le16 (of_nat (0xD800 + d div 1024)) @ le16 (of_nat (0xDC00 + d mod 1024))"
    by (simp only: emit_cp_def Let_def d(2) surrogate_halves[OF d(1)] le16_def if_True if_False append.simps)
  with False show ?thesis by (simp add: utf16_of_cp_def unit_bytes_def d_def)
qed

lemma utf8_enc_simps [simp]: "utf8_enc [] = []" "utf8_enc (c # cs) = utf8_of_cp c @ utf8_enc cs"
  by (simp_all add: utf8_enc_def)

lemma utf16_enc_simps [simp]: "utf16_enc [] = []" "utf16_enc (c # cs) = utf16_of_cp c @ utf16_enc cs"
  by (simp_all add: utf16_enc_def)

lemma unit_bytes_simps [simp]:
  "unit_bytes [] = []" "unit_bytes (u # us) = le16 u @ unit_bytes us"
  "unit_bytes (us @ vs) = unit_bytes us @ unit_bytes vs"
  by (simp_all add: unit_bytes_def)

lemma length_unit_bytes [simp]: "length (unit_bytes us) = 2 * length us"
  by (induction us) auto

lemma bytes_units_unit_bytes [simp]: "bytes_units (unit_bytes us) = us"
  by (induction us) (simp_all add: le16_def u16le_le16)

lemma General_utf8_enc:
  "list_all is_scalar cps \<Longrightarrow> Utf8ToUtf16LEGeneral (utf8_enc cps) = unit_bytes (utf16_enc cps)"
proof (induction cps)
  case Nil
  then show ?case by (subst Utf8ToUtf16LEGeneral.simps) simp
next
  case (Cons c cs)
  then show ?case
    by (subst Utf8ToUtf16LEGeneral.simps) (simp add: legacy_step_utf8 emit_cp_scalar is_scalar_def)
qed

lemma length_emit_cp: "length (emit_cp cp) = cp_bytes cp"
  by (simp add: emit_cp_def cp_bytes_def Let_def)

lemma ByteLength_General: "LegacyUtf16LEByteLength d = length (Utf8ToUtf16LEGeneral d)"
proof (induction d rule: Utf8ToUtf16LEGeneral.induct)
  case (1 input)
  then show ?case
    by (subst LegacyUtf16LEByteLength.simps, subst Utf8ToUtf16LEGeneral.simps)
      (auto simp: length_emit_cp split: option.splits prod.splits)
qed

subsection \<open>The ASCII fast path\<close>

lemma word_and_zero_iff: "x AND y = (0 :: 'a::len word) \<longleftrightarrow> (\<forall>n. \<not> (bit x n \<and> bit y n))"
proof
  assume "x AND y = 0"
  then have "bit (x AND y) n = bit (0 :: 'a word) n" for n by simp
  then show "\<forall>n. \<not> (bit x n \<and> bit y n)" by (simp add: bit_and_iff)
qed (auto intro!: bit_word_eqI simp: bit_and_iff)

lemma bit7_byte: "bit (b :: byte) 7 \<longleftrightarrow> \<not> unat b < 128"
proof -
  have "b AND 0x80 = 0 \<longleftrightarrow> \<not> bit b 7"
  proof -
    have m: "(0x80 :: byte) = push_bit 7 1" by simp
    have "bit (0x80 :: byte) n \<longleftrightarrow> n = 7" for n
      by (simp only: m bit_push_bit_iff) (auto simp: bit_simps)
    then show ?thesis by (auto simp: word_and_zero_iff)
  qed
  then show ?thesis by (simp add: byte_masks)
qed

lemma ascii_mask: "(x AND 0x8080808080808080 = (0 :: u64)) \<longleftrightarrow>
  \<not> bit x 7 \<and> \<not> bit x 15 \<and> \<not> bit x 23 \<and> \<not> bit x 31 \<and> \<not> bit x 39 \<and> \<not> bit x 47 \<and> \<not> bit x 55 \<and> \<not> bit x 63"
proof -
  have m: "(0x8080808080808080 :: u64) = push_bit 7 1 OR push_bit 15 1 OR push_bit 23 1 OR push_bit 31 1 OR
     push_bit 39 1 OR push_bit 47 1 OR push_bit 55 1 OR push_bit 63 1" by simp
  have b: "bit (push_bit k 1 :: u64) n \<longleftrightarrow> n = k" if "k < 64" for k n
    using that by (auto simp: bit_simps)
  have "bit (0x8080808080808080 :: u64) n \<longleftrightarrow>
     n = 7 \<or> n = 15 \<or> n = 23 \<or> n = 31 \<or> n = 39 \<or> n = 47 \<or> n = 55 \<or> n = 63" for n
    by (simp only: m bit_or_iff b)
  then show ?thesis by (auto simp: word_and_zero_iff)
qed


lemma byte_high_bits: "8 \<le> n \<Longrightarrow> \<not> bit (b :: byte) n"
  by (auto dest: bit_imp_le_length)

lemma ascii_chunk_iff:
  "ascii_chunk d k AND 0x8080808080808080 = 0 \<longleftrightarrow> (\<forall>j<8. unat (d ! (k + j)) < 128)"
proof -
  have all8: "(\<forall>j<8. P j) \<longleftrightarrow> P 0 \<and> P 1 \<and> P 2 \<and> P 3 \<and> P 4 \<and> P 5 \<and> P 6 \<and> P (7::nat)" for P
    by (auto simp: All_less_Suc numeral_eq_Suc)
  show ?thesis
    by (simp add: ascii_mask ascii_chunk_def u64le_def all8 bit_or_iff bit_push_bit_iff bit_unsigned_iff bit7_byte not_le byte_high_bits)
qed

lemma IsAsciiString_iff: "IsAsciiString d \<longleftrightarrow> (\<forall>b \<in> set d. unat b < 128)"
proof -
  let ?c = "length d div 8"
  have len: "?c * 8 \<le> length d" by simp
  have "IsAsciiString d \<longleftrightarrow> (\<forall>c<?c. \<forall>j<8. unat (d ! (c * 8 + j)) < 128) \<and>
      (\<forall>i. ?c * 8 \<le> i \<and> i < length d \<longrightarrow> unat (d ! i) < 128)"
    by (auto simp: IsAsciiString_def Let_def list_all_iff ascii_chunk_iff byte_masks)
  also have "(\<forall>c<?c. \<forall>j<8. unat (d ! (c * 8 + j)) < 128) \<longleftrightarrow> (\<forall>i<?c * 8. unat (d ! i) < 128)"
  proof safe
    fix i assume a: "\<forall>c<?c. \<forall>j<8. unat (d ! (c * 8 + j)) < 128" and i: "i < ?c * 8"
    from i have "i div 8 < ?c" by (simp add: less_mult_imp_div_less)
    from a [rule_format, OF this, of "i mod 8"] show "unat (d ! i) < 128" by simp
  next
    fix c j assume a: "\<forall>i<?c * 8. unat (d ! i) < 128" and c: "c < ?c" and j: "j < (8::nat)"
    from c have "Suc c * 8 \<le> ?c * 8" by (intro mult_le_mono1) simp
    with j a show "unat (d ! (c * 8 + j)) < 128" by auto
  qed
  also have "(\<forall>i<?c * 8. unat (d ! i) < 128) \<and> (\<forall>i. ?c * 8 \<le> i \<and> i < length d \<longrightarrow> unat (d ! i) < 128)
      \<longleftrightarrow> (\<forall>i<length d. unat (d ! i) < 128)"
    using len by (meson less_le_trans not_le)
  also have "\<dots> \<longleftrightarrow> (\<forall>b \<in> set d. unat b < 128)" by (auto simp: all_set_conv_all_nth)
  finally show ?thesis .
qed

definition widen :: "byte list \<Rightarrow> byte list" where
  "widen d = concat (map (\<lambda>b. [b, 0]) d)"

lemma length_widen [simp]: "length (widen d) = length d * 2"
  by (induction d) (auto simp: widen_def)

lemma ascii_loop1_eq:
  "i \<le> length input \<Longrightarrow> length input * 2 \<le> length out \<Longrightarrow>
     ascii_loop1 input i out = take (i * 2) out @ widen (drop i input) @ drop (length input * 2) out"
proof (induction input i out rule: ascii_loop1.induct)
  case (1 input i out)
  show ?case
  proof (cases "i < length input")
    case True
    have w: "widen (drop i input) = input ! i # 0 # widen (drop (Suc i) input)"
      using True by (simp add: widen_def flip: Cons_nth_drop_Suc)
    have t: "take (Suc i * 2) (out[i * 2 := input ! i, i * 2 + 1 := 0]) = take (i * 2) out @ [input ! i, 0]"
      using True 1(3) by (simp add: take_Suc_conv_app_nth take_update_swap list_update_append)
    from True 1 show ?thesis
      by (subst ascii_loop1.simps) (simp add: w t[simplified])
  next
    case False
    with 1 show ?thesis by (subst ascii_loop1.simps) (simp add: widen_def)
  qed
qed

lemma ascii_loop4_loop1:
  "ascii_loop4 input i out = (j, out') \<Longrightarrow> ascii_loop1 input j out' = ascii_loop1 input i out"
proof (induction input i out rule: ascii_loop4.induct)
  case (1 input i out)
  show ?case
  proof (cases "i + 4 \<le> length input")
    case True
    have *: "ascii_loop1 input i out = ascii_loop1 input (i + 4)
        (out[i * 2 := input ! i, i * 2 + 1 := 0,
             i * 2 + 2 := input ! (i + 1), i * 2 + 3 := 0,
             i * 2 + 4 := input ! (i + 2), i * 2 + 5 := 0,
             i * 2 + 6 := input ! (i + 3), i * 2 + 7 := 0])"
      using True
      by (subst ascii_loop1.simps, subst ascii_loop1.simps, subst ascii_loop1.simps, subst ascii_loop1.simps)
        (simp add: numeral_eq_Suc)
    from True 1 show ?thesis by (subst (asm) (2) ascii_loop4.simps) (simp add: *)
  next
    case False
    with 1 show ?thesis by (subst (asm) (2) ascii_loop4.simps) simp
  qed
qed

lemma ascii_loops:
  assumes "length input * 2 \<le> length out"
  shows "(case ascii_loop4 input 0 out of (i, out') \<Rightarrow> ascii_loop1 input i out') =
     widen input @ drop (length input * 2) out"
proof (cases "ascii_loop4 input 0 out")
  case (Pair j out')
  then show ?thesis using ascii_loop4_loop1 [OF Pair] ascii_loop1_eq [of 0 input out] assms by simp
qed

lemma AsciiToUtf16LE_eq: "AsciiToUtf16LE input = widen input"
  by (simp add: AsciiToUtf16LE_def ascii_loops)

lemma emit_cp_byte: "emit_cp (ucast (b :: byte)) = [b, 0]"
proof -
  have "unat (ucast b :: u32) \<le> 0xFFFF" using byte_less [of b] by (simp add: unat_ucast_byte)
  then have "emit_cp (ucast b) = le16 (ucast (ucast b :: u32))"
    by (simp add: emit_cp_def le16_bytes word_le_nat_alt)
  also have "\<dots> = [b, 0]"
  proof -
    have m: "(0xFF :: u16) = mask 8" by (simp add: mask_eq_exp_minus_1)
    show ?thesis unfolding le16_def m
      by (auto intro!: bit_word_eqI simp: bit_simps byte_high_bits)
  qed
  finally show ?thesis .
qed

lemma General_ascii:
  "\<forall>b \<in> set d. unat b < 128 \<Longrightarrow> Utf8ToUtf16LEGeneral d = widen d"
proof (induction d)
  case Nil
  then show ?case by (subst Utf8ToUtf16LEGeneral.simps) (simp add: widen_def)
next
  case (Cons b d)
  then have "legacy_step (b # d) = Some (Some (ucast b), d)" by (simp add: byte_masks)
  then show ?case using Cons by (subst Utf8ToUtf16LEGeneral.simps) (simp add: widen_def emit_cp_byte)
qed

lemma LegacyUtf16LEEncode_General: "LegacyUtf16LEEncode d = Utf8ToUtf16LEGeneral d"
proof (cases "d = []")
  case True
  then show ?thesis by (subst Utf8ToUtf16LEGeneral.simps) (simp add: LegacyUtf16LEEncode_def)
next
  case False
  then show ?thesis
    by (simp add: LegacyUtf16LEEncode_def AsciiToUtf16LE_eq General_ascii IsAsciiString_iff)
qed

subsection \<open>Encoding into a caller-provided buffer\<close>

lemma wr_bytes_eq:
  "pos + length bs \<le> length out \<Longrightarrow>
     wr_bytes out pos bs = Ret (take pos out @ bs @ drop (pos + length bs) out)"
proof (induction bs arbitrary: pos out)
  case (Cons b bs)
  then have "take (Suc pos) (out[pos := b]) = take pos out @ [b]"
    by (simp add: take_Suc_conv_app_nth)
  with Cons show ?case by simp
qed simp

lemma direct_loop_eq:
  "pos + length (Utf8ToUtf16LEGeneral d) \<le> length out \<Longrightarrow>
     direct_loop d pos out = Ret (pos + length (Utf8ToUtf16LEGeneral d),
       take pos out @ Utf8ToUtf16LEGeneral d @ drop (pos + length (Utf8ToUtf16LEGeneral d)) out)"
proof (induction d arbitrary: pos out rule: Utf8ToUtf16LEGeneral.induct)
  case (1 input)
  show ?case
  proof (cases "legacy_step input")
    case None
    then show ?thesis by (subst direct_loop.simps, subst (1 2 3) Utf8ToUtf16LEGeneral.simps) simp
  next
    case (Some r)
    then obtain o' rest where r: "legacy_step input = Some (o', rest)" by (cases r) auto
    show ?thesis
    proof (cases o')
      case None
      with r have G: "Utf8ToUtf16LEGeneral input = Utf8ToUtf16LEGeneral rest"
        by (subst Utf8ToUtf16LEGeneral.simps) simp
      from None r 1 show ?thesis by (subst direct_loop.simps) (simp add: G)
    next
      case (Some cp)
      with r have G: "Utf8ToUtf16LEGeneral input = emit_cp cp @ Utf8ToUtf16LEGeneral rest"
        by (subst Utf8ToUtf16LEGeneral.simps) simp
      define out' where "out' = take pos out @ emit_cp cp @ drop (pos + length (emit_cp cp)) out"
      have W: "wr_bytes out pos (emit_cp cp) = Ret out'"
        using "1.prems" unfolding G out'_def by (intro wr_bytes_eq) simp
      have L: "length out' = length out" using "1.prems" unfolding G out'_def by simp
      have "direct_loop rest (pos + length (emit_cp cp)) out' =
         Ret (pos + length (emit_cp cp) + length (Utf8ToUtf16LEGeneral rest),
           take (pos + length (emit_cp cp)) out' @ Utf8ToUtf16LEGeneral rest @
           drop (pos + length (emit_cp cp) + length (Utf8ToUtf16LEGeneral rest)) out')"
        using "1.prems" L unfolding G by (intro "1.IH"(2) [OF r refl Some]) simp
      with r Some W show ?thesis
        using "1.prems" unfolding G by (subst direct_loop.simps) (simp add: out'_def ac_simps)
    qed
  qed
qed

end
