(* ===== verification/Utf16_Contract.thy ===== *)
theory Utf16_Contract
  imports Utf16
begin

text \<open>
  What the conversion layer relies on of \<open>simdutf\<close>, as the locale \<open>simdutf_contract\<close>, the
  functional specification of the public conversion functions under that contract, and an
  executable reference instance that shows the contract can hold. The laws are the documented
  ones: validation accepts exactly the encodings of scalar value sequences, conversion of valid
  input is exact, the length functions count the converted units, and
  \<open>validate_utf16le_with_errors\<close> reports the index of the first ill-formed code unit.
\<close>

subsection \<open>The reference decoder\<close>

definition ill_formed :: "u16 \<Rightarrow> u16 list \<Rightarrow> bool" where
  "ill_formed u rest \<longleftrightarrow>
     is_low u \<or> is_high u \<and> (case rest of [] \<Rightarrow> True | v # _ \<Rightarrow> \<not> is_low v)"

lemma u16_of_nat: "n < 65536 \<Longrightarrow> unat (of_nat n :: u16) = n"
  by (simp add: unat_of_nat take_bit_nat_eq_self_iff)

lemma not_high_low [simp]: "is_high u \<Longrightarrow> \<not> is_low u"
  by (simp add: is_high_def is_low_def)

lemma utf16_lossy_bmp:
  "\<not> is_high u \<Longrightarrow> \<not> is_low u \<Longrightarrow> utf16_lossy (u # us) = unat u # utf16_lossy us"
  by (cases us) auto

lemma utf16_lossy_bad: "ill_formed u us \<Longrightarrow> utf16_lossy (u # us) = 0xFFFD # utf16_lossy us"
  by (cases us) (auto simp: ill_formed_def)

lemma utf16_lossy_cp:
  assumes "is_scalar c"
  shows "utf16_lossy (utf16_of_cp c @ us) = c # utf16_lossy us"
proof (cases "c < 0x10000")
  case True
  with assms have "\<not> is_high (of_nat c)" "\<not> is_low (of_nat c)"
    by (auto simp: is_scalar_def is_high_def is_low_def u16_of_nat)
  with True show ?thesis by (simp add: utf16_of_cp_def utf16_lossy_bmp u16_of_nat)
next
  case False
  define d where "d = c - 0x10000"
  from assms False have d: "d div 1024 < 1024" "c = 0x10000 + d"
    by (auto simp: is_scalar_def d_def)
  have h: "unat (of_nat (0xD800 + d div 1024) :: u16) = 0xD800 + d div 1024"
    using d by (intro u16_of_nat) simp
  have l: "unat (of_nat (0xDC00 + d mod 1024) :: u16) = 0xDC00 + d mod 1024"
    using mod_less_divisor [of 1024 d] by (intro u16_of_nat) linarith
  have "is_high (of_nat (0xD800 + d div 1024))" "is_low (of_nat (0xDC00 + d mod 1024))"
    unfolding is_high_def is_low_def h l using d by auto
  then show ?thesis
    using False d h l by (simp add: utf16_of_cp_def del: of_nat_add)
qed

lemma utf16_lossy_enc:
  "list_all is_scalar cps \<Longrightarrow> utf16_lossy (utf16_enc cps @ us) = cps @ utf16_lossy us"
  by (induction cps) (auto simp: utf16_lossy_cp)

lemma utf16_lossy_enc' [simp]: "list_all is_scalar cps \<Longrightarrow> utf16_lossy (utf16_enc cps) = cps"
  using utf16_lossy_enc [of cps "[]"] by simp

lemma utf16_enc_append [simp]: "utf16_enc (a @ b) = utf16_enc a @ utf16_enc b"
  by (simp add: utf16_enc_def)

lemma utf8_enc_append [simp]: "utf8_enc (a @ b) = utf8_enc a @ utf8_enc b"
  by (simp add: utf8_enc_def)

lemma utf8_replacement: "utf8_of_cp 0xFFFD = [0xEF, 0xBF, 0xBD]"
  by (simp add: utf8_of_cp_def)

lemma utf8_of_cp_ne [simp]: "utf8_of_cp c \<noteq> []"
  by (simp add: utf8_of_cp_def)

lemma utf8_enc_Nil_iff [simp]: "utf8_enc cps = [] \<longleftrightarrow> cps = []"
  by (cases cps) auto

lemma utf16_of_cp_ne [simp]: "utf16_of_cp c \<noteq> []"
  by (simp add: utf16_of_cp_def)

lemma utf16_enc_Nil_iff [simp]: "utf16_enc cps = [] \<longleftrightarrow> cps = []" "[] = utf16_enc cps \<longleftrightarrow> cps = []"
  by (cases cps; auto)+

subsection \<open>The contract and the specification of the layer under it\<close>

locale simdutf_contract =
  fixes U :: simdutf
  assumes validate_utf8_iff:
      "validate_utf8 U d \<longleftrightarrow> (\<exists>cps. list_all is_scalar cps \<and> d = utf8_enc cps)"
    and convert_utf8:
      "list_all is_scalar cps \<Longrightarrow> convert_valid_utf8_to_utf16le U (utf8_enc cps) = utf16_enc cps"
    and length_utf8:
      "list_all is_scalar cps \<Longrightarrow> utf16_length_from_utf8 U (utf8_enc cps) = length (utf16_enc cps)"
    and validate_utf16_iff:
      "validate_utf16le U us \<longleftrightarrow> (\<exists>cps. list_all is_scalar cps \<and> us = utf16_enc cps)"
    and convert_utf16:
      "list_all is_scalar cps \<Longrightarrow> convert_valid_utf16le_to_utf8 U (utf16_enc cps) = utf8_enc cps"
    and length_utf16:
      "list_all is_scalar cps \<Longrightarrow> utf8_length_from_utf16le U (utf16_enc cps) = length (utf8_enc cps)"
    and with_errors_ok:
      "fst (validate_utf16le_with_errors U us) \<longleftrightarrow> validate_utf16le U us"
    and with_errors_count:
      "validate_utf16le_with_errors U us = (False, n) \<Longrightarrow>
         \<exists>cps u rest. list_all is_scalar cps \<and> us = utf16_enc cps @ u # rest \<and>
           n = length (utf16_enc cps) \<and> ill_formed u rest"
begin

lemma Replacing_eq: "DecodeUtf16LeReplacing U src = utf8_enc (utf16_lossy src)"
proof (induction src rule: length_induct)
  case (1 src)
  obtain ok n where v: "validate_utf16le_with_errors U src = (ok, n)" by (cases "validate_utf16le_with_errors U src")
  show ?case
  proof (cases "src = [] \<or> ok")
    case True
    show ?thesis
    proof (cases "src = []")
      case True
      then show ?thesis by (subst DecodeUtf16LeReplacing.simps) simp
    next
      case False
      with True v with_errors_ok [of src] validate_utf16_iff [of src] obtain cps
        where "list_all is_scalar cps" "src = utf16_enc cps" by auto
      with False True v show ?thesis
        by (subst DecodeUtf16LeReplacing.simps) (auto simp: convert_utf16 length_utf16)
    qed
  next
    case False
    with v have "validate_utf16le_with_errors U src = (False, n)" by simp
    from with_errors_count [OF this] obtain cps u rest where s: "list_all is_scalar cps"
      "src = utf16_enc cps @ u # rest" "n = length (utf16_enc cps)" "ill_formed u rest" by blast
    have "take n src = utf16_enc cps" using s by simp
    then have conv': "(if cps \<noteq> [] \<and>
        0 < utf8_length_from_utf16le U (utf16_enc cps) then convert_valid_utf16le_to_utf8 U (take (length (utf16_enc cps)) src) else []) = utf8_enc cps"
      using s(3) convert_utf16 [OF s(1)] length_utf16 [OF s(1)] by (cases cps) (auto simp: utf16_of_cp_def)
    from s 1 have "DecodeUtf16LeReplacing U rest = utf8_enc (utf16_lossy rest)" by simp
    with False v s show ?thesis
      by (subst DecodeUtf16LeReplacing.simps)
        (simp add: utf16_lossy_enc utf16_lossy_bad utf8_replacement conv' split del: if_split)
  qed
qed

lemma Decode_eq: "Utf16LEDecode U data = utf8_enc (utf16_lossy (bytes_units data))"
proof (cases "validate_utf16le U (bytes_units data)")
  case True
  then obtain cps where "list_all is_scalar cps" "bytes_units data = utf16_enc cps"
    by (auto simp: validate_utf16_iff)
  with True show ?thesis
    by (cases "data = []") (auto simp: Utf16LEDecode_def Utf16LEDecode_counted_def convert_utf16 length_utf16 Let_def)
next
  case False
  then show ?thesis by (auto simp: Utf16LEDecode_def Utf16LEDecode_counted_def Replacing_eq Let_def)
qed

lemma Encode_eq: "Utf16LEEncode U d = Utf8ToUtf16LEGeneral d"
proof (cases "validate_utf8 U d")
  case True
  then obtain cps where "list_all is_scalar cps" "d = utf8_enc cps" by (auto simp: validate_utf8_iff)
  with True show ?thesis
    by (auto simp: Utf16LEEncode_def Utf16LEEncode_counted_def convert_utf8 length_utf8 General_utf8_enc)
next
  case False
  then show ?thesis
    using General_utf8_enc [of "[]"]
    by (auto simp: Utf16LEEncode_def Utf16LEEncode_counted_def LegacyUtf16LEEncode_General)
qed

lemma Encode_scalars: "list_all is_scalar cps \<Longrightarrow> Utf16LEEncode U (utf8_enc cps) = unit_bytes (utf16_enc cps)"
  by (simp add: Encode_eq General_utf8_enc)

lemma ByteLength_eq: "Utf16LEByteLength U d = length (Utf16LEEncode U d)"
proof (cases "validate_utf8 U d")
  case True
  then obtain cps where "list_all is_scalar cps" "d = utf8_enc cps" by (auto simp: validate_utf8_iff)
  with True show ?thesis by (auto simp: Utf16LEByteLength_def length_utf8 Encode_scalars)
next
  case False
  then show ?thesis
    using General_utf8_enc [of "[]"] by (simp add: Utf16LEByteLength_def ByteLength_General Encode_eq)
qed

lemma LegacyDirect_eq:
  assumes "length (Utf8ToUtf16LEGeneral d) \<le> length out"
  shows "LegacyUtf16LEEncodeDirect d out =
     Ret (length (Utf8ToUtf16LEGeneral d),
       Utf8ToUtf16LEGeneral d @ drop (length (Utf8ToUtf16LEGeneral d)) out)"
proof (cases "IsAsciiString d")
  case True
  then have G: "Utf8ToUtf16LEGeneral d = widen d" by (simp add: General_ascii IsAsciiString_iff)
  from True assms show ?thesis
    unfolding G by (cases "d = []") (auto simp: LegacyUtf16LEEncodeDirect_def ascii_loops, simp add: widen_def)
next
  case False
  then show ?thesis
    using direct_loop_eq [of 0 d out] assms General_utf8_enc [of "[]"]
    by (auto simp: LegacyUtf16LEEncodeDirect_def)
qed

lemma EncodeDirect_eq:
  assumes "Utf16LEByteLength U d \<le> length out"
  shows "Utf16LEEncodeDirect U unaligned d out =
     Ret (Utf16LEByteLength U d, Utf16LEEncode U d @ drop (Utf16LEByteLength U d) out)"
proof (cases "validate_utf8 U d \<and> \<not> unaligned")
  case True
  then obtain cps where c: "list_all is_scalar cps" "d = utf8_enc cps" by (auto simp: validate_utf8_iff)
  with True assms show ?thesis
    using wr_bytes_eq [of 0 "unit_bytes (utf16_enc cps)" out]
    by (auto simp: Utf16LEEncodeDirect_def convert_utf8 ByteLength_eq Encode_scalars Let_def)
next
  case False
  with assms LegacyDirect_eq [of d out] General_utf8_enc [of "[]"] show ?thesis
    by (auto simp: Utf16LEEncodeDirect_def ByteLength_eq Encode_eq)
qed

text \<open>The two-step protocol of the bulk writer: measure, then encode valid input directly.\<close>

lemma ByteLengthView_eq: "fst (Utf16LEByteLengthView U d) = Utf16LEByteLength U d"
  by (simp add: Utf16LEByteLengthView_def Utf16LEByteLength_def Let_def)

lemma EncodeValidDirect_eq:
  assumes "Utf16LEByteLengthView U d = (n, True)" and "n \<le> length out"
  shows "Utf16LEEncodeValidDirect U unaligned d out = Ret (n, Utf16LEEncode U d @ drop n out)"
proof (cases "d = []")
  case True
  with assms show ?thesis
    by (simp add: Utf16LEEncodeValidDirect_def Utf16LEByteLengthView_def Utf16LEEncode_def Utf16LEEncode_counted_def)
next
  case False
  with assms(1) have "validate_utf8 U d" by (auto simp: Utf16LEByteLengthView_def Let_def)
  then obtain cps where c: "list_all is_scalar cps" "d = utf8_enc cps" by (auto simp: validate_utf8_iff)
  have n: "n = 2 * length (utf16_enc cps)"
    using ByteLengthView_eq [of d] assms(1) c by (simp add: ByteLength_eq Encode_scalars)
  show ?thesis
    using False c n assms(2) wr_bytes_eq [of 0 "unit_bytes (utf16_enc cps)" out]
    by (simp add: Utf16LEEncodeValidDirect_def convert_utf8 Encode_scalars Let_def mult.commute)
qed

lemma DecodeValidInto_eq:
  assumes "validate_utf16le U (bytes_units data)" and "length (Utf16LEDecode U data) \<le> length out"
  shows "Utf16LEDecodeValidInto U data out =
     Ret (length (Utf16LEDecode U data), Utf16LEDecode U data @ drop (length (Utf16LEDecode U data)) out)"
proof -
  from assms(1) obtain cps where c: "list_all is_scalar cps" "bytes_units data = utf16_enc cps"
    by (auto simp: validate_utf16_iff)
  then have d: "Utf16LEDecode U data = utf8_enc cps" by (simp add: Decode_eq)
  from c assms(2) wr_bytes_eq [of 0 "utf8_enc cps" out] show ?thesis
    unfolding d by (cases "data = []") (auto simp: Utf16LEDecodeValidInto_def convert_utf16 Let_def)
qed

lemma View_length:
  "validate_utf16le U (bytes_units data) \<Longrightarrow>
     Utf8LengthFromUtf16LEView U data = length (Utf16LEDecode U data)"
  by (auto simp: Utf8LengthFromUtf16LEView_def Decode_eq validate_utf16_iff length_utf16 Let_def)

end

subsection \<open>A reference instance\<close>

function utf8_dec :: "byte list \<Rightarrow> nat list" where
  "utf8_dec d =
     (case legacy_step d of Some (Some cp, rest) \<Rightarrow> unat cp # utf8_dec rest | _ \<Rightarrow> [])"
  by pat_completeness auto
termination
  by (relation "measure length") (auto dest: legacy_step_shorter)

declare utf8_dec.simps [simp del]

fun utf16_bad :: "u16 list \<Rightarrow> nat option" where
  "utf16_bad [] = None"
| "utf16_bad (u # us) =
     (if ill_formed u us then Some 0
      else if is_high u then map_option (\<lambda>n. n + 2) (utf16_bad (tl us))
      else map_option Suc (utf16_bad us))"

definition ref_simdutf :: simdutf where
  "ref_simdutf = \<lparr>
     validate_utf8 = (\<lambda>d. list_all is_scalar (utf8_dec d) \<and> utf8_enc (utf8_dec d) = d),
     utf16_length_from_utf8 = (\<lambda>d. length (utf16_enc (utf8_dec d))),
     convert_valid_utf8_to_utf16le = (\<lambda>d. utf16_enc (utf8_dec d)),
     validate_utf16le = (\<lambda>us. utf16_bad us = None),
     validate_utf16le_with_errors =
       (\<lambda>us. case utf16_bad us of None \<Rightarrow> (True, length us) | Some n \<Rightarrow> (False, n)),
     utf8_length_from_utf16le = (\<lambda>us. length (utf8_enc (utf16_lossy us))),
     convert_valid_utf16le_to_utf8 = (\<lambda>us. utf8_enc (utf16_lossy us)) \<rparr>"

lemma utf8_dec_enc: "list_all is_scalar cps \<Longrightarrow> utf8_dec (utf8_enc cps) = cps"
proof (induction cps)
  case Nil
  then show ?case by (subst utf8_dec.simps) simp
next
  case (Cons c cs)
  then show ?case
    by (subst utf8_dec.simps) (simp add: legacy_step_utf8 u32_of_nat is_scalar_def)
qed

lemma surrogate_pair_enc:
  assumes "is_high u" "is_low v"
  shows "\<exists>c. is_scalar c \<and> utf16_of_cp c = [u, v]"
proof -
  define c where "c = 0x10000 + ((unat u - 0xD800) * 1024 + (unat v - 0xDC00))"
  have l: "unat v - 0xDC00 < 1024" and h: "unat u - 0xD800 < 1024"
    using assms by (auto simp: is_high_def is_low_def)
  have "(c - 0x10000) div 1024 = unat u - 0xD800" "(c - 0x10000) mod 1024 = unat v - 0xDC00"
    using l by (auto simp: c_def)
  then have "utf16_of_cp c = [of_nat (0xD800 + (unat u - 0xD800)), of_nat (0xDC00 + (unat v - 0xDC00))]"
    by (simp add: utf16_of_cp_def) (simp add: c_def)
  moreover have "0xD800 + (unat u - 0xD800) = unat u" "0xDC00 + (unat v - 0xDC00) = unat v"
    using assms by (auto simp: is_high_def is_low_def)
  ultimately have "utf16_of_cp c = [u, v]" by (simp only: of_nat_unat ucast_id)
  moreover have "is_scalar c" using l h by (auto simp: is_scalar_def c_def)
  ultimately show ?thesis by blast
qed

lemma bmp_enc:
  assumes "\<not> is_high u" "\<not> is_low u"
  shows "is_scalar (unat u) \<and> utf16_of_cp (unat u) = [u]"
  using assms u16_less [of u] by (auto simp: is_scalar_def is_high_def is_low_def utf16_of_cp_def)

lemma utf16_bad_None:
  "utf16_bad us = None \<Longrightarrow> \<exists>cps. list_all is_scalar cps \<and> us = utf16_enc cps"
proof (induction us rule: utf16_bad.induct)
  case 1
  then show ?case by (auto intro: exI [of _ "[]"])
next
  case (2 u us)
  show ?case
  proof (cases "is_high u")
    case True
    with "2.prems" obtain v vs where v: "us = v # vs" "is_low v" "\<not> ill_formed u us"
      by (cases us) (auto simp: ill_formed_def split: if_splits)
    from surrogate_pair_enc [OF True v(2)] obtain c where "is_scalar c" "utf16_of_cp c = [u, v]" by blast
    moreover from "2.IH"(1) [OF v(3) True] "2.prems" v True obtain cps
      where "list_all is_scalar cps" "vs = utf16_enc cps" by auto
    ultimately show ?thesis using v by (intro exI [of _ "c # cps"]) simp
  next
    case False
    with "2.prems" have u: "\<not> ill_formed u us" by (auto split: if_splits)
    with False have "\<not> is_low u" by (simp add: ill_formed_def)
    moreover from "2.IH"(2) [OF u False] "2.prems" u False obtain cps
      where "list_all is_scalar cps" "us = utf16_enc cps" by auto
    ultimately show ?thesis using bmp_enc [OF False] by (intro exI [of _ "unat u # cps"]) simp
  qed
qed

lemma utf16_bad_Some:
  "utf16_bad us = Some n \<Longrightarrow> \<exists>cps u rest. list_all is_scalar cps \<and>
     us = utf16_enc cps @ u # rest \<and> n = length (utf16_enc cps) \<and> ill_formed u rest"
proof (induction us arbitrary: n rule: utf16_bad.induct)
  case (2 u us)
  show ?case
  proof (cases "ill_formed u us")
    case True
    with "2.prems" show ?thesis by (auto intro!: exI [of _ "[]"])
  next
    case good: False
    show ?thesis
    proof (cases "is_high u")
      case True
      with good obtain v vs where v: "us = v # vs" "is_low v"
        by (cases us) (auto simp: ill_formed_def)
      from "2.prems" good True v obtain m where m: "utf16_bad vs = Some m" "n = m + 2" by auto
      from "2.IH"(1) [OF good True, of m] m v obtain cps w rest where
        "list_all is_scalar cps" "vs = utf16_enc cps @ w # rest" "m = length (utf16_enc cps)" "ill_formed w rest"
        by auto
      moreover from surrogate_pair_enc [OF True v(2)] obtain c where "is_scalar c" "utf16_of_cp c = [u, v]" by blast
      ultimately show ?thesis using m v by (intro exI [of _ "c # cps"] exI [of _ w] exI [of _ rest]) simp
    next
      case False
      with good have "\<not> is_low u" by (simp add: ill_formed_def)
      from "2.prems" good False obtain m where m: "utf16_bad us = Some m" "n = Suc m" by auto
      from "2.IH"(2) [OF good False, of m] m obtain cps w rest where
        "list_all is_scalar cps" "us = utf16_enc cps @ w # rest" "m = length (utf16_enc cps)" "ill_formed w rest"
        by auto
      with m bmp_enc [OF False \<open>\<not> is_low u\<close>] show ?thesis
        by (intro exI [of _ "unat u # cps"] exI [of _ w] exI [of _ rest]) simp
    qed
  qed
qed simp

lemma utf16_bad_enc: "list_all is_scalar cps \<Longrightarrow> utf16_bad (utf16_enc cps) = None"
proof (rule ccontr)
  assume c: "list_all is_scalar cps" and "utf16_bad (utf16_enc cps) \<noteq> None"
  then obtain n where "utf16_bad (utf16_enc cps) = Some n" by auto
  from utf16_bad_Some [OF this] obtain cs u rest where s: "list_all is_scalar cs"
    "utf16_enc cps = utf16_enc cs @ u # rest" "ill_formed u rest" by auto
  with utf16_lossy_enc [OF s(1), of "u # rest"] utf16_lossy_enc' [OF c]
  have "cps = cs @ 0xFFFD # utf16_lossy rest" by (simp add: utf16_lossy_bad)
  with s(2) have "u = 0xFFFD" by (simp add: utf16_of_cp_def)
  with s(3) show False by (simp add: ill_formed_def is_high_def is_low_def)
qed

interpretation ref: simdutf_contract ref_simdutf
proof unfold_locales
  fix us n
  assume "validate_utf16le_with_errors ref_simdutf us = (False, n)"
  then show "\<exists>cps u rest. list_all is_scalar cps \<and> us = utf16_enc cps @ u # rest \<and>
      n = length (utf16_enc cps) \<and> ill_formed u rest"
    by (intro utf16_bad_Some) (auto simp: ref_simdutf_def split: option.splits)
qed (auto simp: ref_simdutf_def utf8_dec_enc utf16_bad_enc dest: utf16_bad_None split: option.splits)

subsection \<open>Properties of the conversion layer\<close>

text \<open>C29: for every input, valid UTF-8 or not, the vectorised encoder, the scalar converter with its
  ASCII fast path, the length function and the encoder into a caller's buffer agree: a buffer of
  \<open>Utf16LEByteLength\<close> bytes is written in bounds, holds exactly the bytes \<open>Utf16LEEncode\<close> returns, and
  what lies behind them is untouched, whether or not the destination is aligned.\<close>

theorem Utf16LEEncodeDirect_correct:
  assumes "simdutf_contract U" and "Utf16LEByteLength U d \<le> length out"
  shows "Utf16LEEncodeDirect U unaligned d out =
           Ret (Utf16LEByteLength U d, Utf16LEEncode U d @ drop (Utf16LEByteLength U d) out) \<and>
         Utf16LEByteLength U d = length (Utf16LEEncode U d) \<and>
         Utf16LEEncode U d = LegacyUtf16LEEncode d \<and>
         LegacyUtf16LEEncode d = Utf8ToUtf16LEGeneral d"
  using assms(2) simdutf_contract.EncodeDirect_eq [OF assms(1)]
    simdutf_contract.ByteLength_eq [OF assms(1)] simdutf_contract.Encode_eq [OF assms(1)]
  by (simp add: LegacyUtf16LEEncode_General)

theorem Utf16LEEncodeDirect_correct_witness:
  "Utf16LEEncodeDirect ref_simdutf True [0x41, 0xFF, 0x42] [1, 2, 3, 4, 5] =
     Ret (4, [0x41, 0, 0x42, 0, 5])"
proof -
  have e: "Utf16LEEncode ref_simdutf [0x41, 0xFF, 0x42] = [0x41, 0, 0x42, 0]"
    by (simp add: ref.Encode_eq Utf8ToUtf16LEGeneral.simps emit_cp_def)
  then have n: "Utf16LEByteLength ref_simdutf [0x41, 0xFF, 0x42] = 4" by (simp add: ref.ByteLength_eq)
  from e Utf16LEEncodeDirect_correct [OF ref.simdutf_contract_axioms, of "[0x41, 0xFF, 0x42]" "[1, 2, 3, 4, 5]" True]
  show ?thesis unfolding n by simp
qed

text \<open>C30: text survives the trip to the server and back: decoding the encoding of any sequence of
  Unicode scalar values gives its UTF-8 bytes again.\<close>

theorem Utf16LE_roundtrip:
  assumes "simdutf_contract U" and "list_all is_scalar cps"
  shows "Utf16LEDecode U (Utf16LEEncode U (utf8_enc cps)) = utf8_enc cps"
  using assms simdutf_contract.Decode_eq [OF assms(1)] simdutf_contract.Encode_scalars [OF assms]
  by simp

theorem Utf16LE_roundtrip_witness:
  "Utf16LEDecode ref_simdutf (Utf16LEEncode ref_simdutf [0x41, 0xC3, 0xA9, 0xF0, 0x9F, 0x98, 0x80]) =
     [0x41, 0xC3, 0xA9, 0xF0, 0x9F, 0x98, 0x80]"
proof -
  have "utf8_enc [0x41, 0xE9, 0x1F600] = [0x41, 0xC3, 0xA9, 0xF0, 0x9F, 0x98, 0x80]"
    by (simp add: utf8_of_cp_def)
  with Utf16LE_roundtrip [OF ref.simdutf_contract_axioms, of "[0x41, 0xE9, 0x1F600]"]
  show ?thesis by (simp add: is_scalar_def)
qed

text \<open>the decoder of every inbound string is total and never drops text: well-formed pairs and
  units give their scalar values, every unpaired surrogate gives exactly one U+FFFD, and decoding
  resumes behind it.\<close>

theorem Utf16LEDecode_replaces:
  assumes "simdutf_contract U"
  shows "Utf16LEDecode U data = utf8_enc (utf16_lossy (bytes_units data))"
  by (rule simdutf_contract.Decode_eq [OF assms])

theorem Utf16LEDecode_replaces_witness:
  "Utf16LEDecode ref_simdutf [0x00, 0xD8, 0x42, 0x00, 0x01, 0xDC] = [0xEF, 0xBF, 0xBD, 0x42, 0xEF, 0xBF, 0xBD]"
proof -
  have "utf8_enc (utf16_lossy (bytes_units [0x00, 0xD8, 0x42, 0x00, 0x01, 0xDC])) =
      [0xEF, 0xBF, 0xBD, 0x42, 0xEF, 0xBF, 0xBD]"
    by (simp add: u16le_def is_high_def is_low_def utf8_of_cp_def)
  with Utf16LEDecode_replaces [OF ref.simdutf_contract_axioms] show ?thesis by simp
qed

end
