(* ===== verification/Incremental.thy ===== *)
theory Incremental
  imports Tds_Prelude
begin

text \<open>
  The interface between the token parser and the routines that bound and read one item
  (a value, a row, a column list) of a partially received stream. Such a routine may be
  called again and again on a growing buffer, so what the token parser relies on is: it never
  reads outside the buffer; what it reports as consumed lies inside the buffer; its result
  depends on the consumed bytes only; and an error is not undone by more data. From these laws
  it follows that the way the network cuts the stream into chunks is invisible.

  \<open>walk\<close> is the loop all row routines share: apply a routine per column at the running offset,
  stop at the first one that is not complete.
\<close>

subsection \<open>The contract of an incremental parsing routine\<close>

locale incremental =
  fixes parse :: "byte list \<Rightarrow> 'a res" and used :: "'a \<Rightarrow> nat"
  assumes no_oob: "parse d \<noteq> OOB"
    and used_le: "parse d = Ret r \<Longrightarrow> used r \<le> length d"
    and own_bytes: "parse d = Ret r \<Longrightarrow> parse (take (used r) d @ e) = Ret r"
    and throw_append: "parse d = Throw m \<Longrightarrow> parse (d @ e) = Throw m"

fun poll :: "(byte list \<Rightarrow> 'a res) \<Rightarrow> byte list \<Rightarrow> byte list list \<Rightarrow> 'a res" where
  "poll p buf [] = p buf"
| "poll p buf (c # cs) = (case p buf of More \<Rightarrow> poll p (buf @ c) cs | r \<Rightarrow> r)"

context incremental begin

lemma ret_append: "parse d = Ret r \<Longrightarrow> parse (d @ e) = Ret r"
  using own_bytes [of d r "drop (used r) d @ e"] by (simp flip: append_assoc)

lemma more_prefix: "parse (d @ e) = More \<Longrightarrow> parse d = More"
  by (cases "parse d") (auto simp: ret_append throw_append no_oob)

lemma ret_exact: "parse d = Ret r \<Longrightarrow> parse (take (used r) d) = Ret r"
  using own_bytes [of d r "[]"] by simp

lemma ret_unique: "parse d = Ret r \<Longrightarrow> parse (d @ e) = Ret s \<Longrightarrow> s = r"
  by (simp add: ret_append)

text \<open>Any proper prefix of an item is answered with \<open>need more data\<close>.\<close>

lemma partial_is_more:
  assumes "parse d = Ret r" and "n < used r"
  shows "parse (take n d) = More"
proof (cases "parse (take n d)")
  case (Ret s)
  with ret_append [of "take n d" s "drop n d"] assms used_le [of "take n d" s] show ?thesis by simp
next
  case (Throw m)
  with throw_append [of "take n d" m "drop n d"] assms show ?thesis by simp
qed (auto simp: no_oob)

lemma poll_eq: "poll parse buf cs = parse (buf @ concat cs)"
proof (induction cs arbitrary: buf)
  case (Cons c cs)
  show ?case
    by (cases "parse buf") (auto simp: Cons.IH ret_append throw_append no_oob)
qed simp

lemma chunking_invisible: "concat cs = concat ds \<Longrightarrow> poll parse [] cs = poll parse [] ds"
  by (simp add: poll_eq)

end

locale incremental_item = incremental +
  assumes used_pos: "parse d = Ret r \<Longrightarrow> 0 < used r"
begin

lemma item_nonempty: "parse d = Ret r \<Longrightarrow> d \<noteq> []"
  using used_le used_pos by fastforce

lemma drop_shorter: "parse d = Ret r \<Longrightarrow> length (drop (used r) d) < length d"
  using used_pos [of d r] item_nonempty [of d r] by (cases d) auto

end

subsection \<open>The column loop\<close>

text \<open>
  \<open>for (col_idx = 0; col_idx < columns.size(); col_idx++) { consumed = f(data + offset, length -
  offset, col_idx); if (consumed == 0) return false; offset += consumed; }\<close>, collecting the
  per-column results; the first component is the final offset.
\<close>

fun walk :: "('c \<Rightarrow> byte list \<Rightarrow> 'a res) \<Rightarrow> ('a \<Rightarrow> nat) \<Rightarrow> 'c list \<Rightarrow> byte list \<Rightarrow> nat \<Rightarrow> (nat \<times> 'a list) res" where
  "walk f used [] data off = Ret (off, [])"
| "walk f used (c # cs) data off =
     bind_res (f c (drop off data)) (\<lambda>r.
     bind_res (walk f used cs data (off + used r)) (\<lambda>(n, rs). Ret (n, r # rs)))"

lemma walk_shift:
  "walk f used cs data off = map_res (\<lambda>(n, rs). (n + off, rs)) (walk f used cs (drop off data) 0)"
proof (induction cs arbitrary: off data)
  case (Cons c cs)
  have eq: "walk f used cs data (off + k) =
      map_res (\<lambda>(n, rs). (n + (off + k), rs)) (walk f used cs (drop (off + k) data) 0)" for k
    by (rule Cons.IH)
  have eq': "walk f used cs (drop off data) k =
      map_res (\<lambda>(n, rs). (n + k, rs)) (walk f used cs (drop (off + k) data) 0)" for k
    by (subst Cons.IH) (simp add: add.commute)
  show ?case
  proof (cases "f c (drop off data)")
    case (Ret r)
    then show ?thesis
      by (cases "walk f used cs (drop (off + used r) data) 0") (auto simp: eq eq')
  qed auto
qed simp

lemma walk_Cons:
  "walk f used (c # cs) d 0 =
     bind_res (f c d) (\<lambda>r. map_res (\<lambda>(n, rs). (n + used r, r # rs)) (walk f used cs (drop (used r) d) 0))"
proof (cases "f c d")
  case (Ret r)
  have "walk f used cs d (used r) =
      map_res (\<lambda>(n, rs). (n + used r, rs)) (walk f used cs (drop (used r) d) 0)"
    by (rule walk_shift)
  with Ret show ?thesis
    by (cases "walk f used cs (drop (used r) d) 0") auto
qed auto

lemma walk_cong:
  "(\<And>c d. c \<in> set cs \<Longrightarrow> f c d = g c d) \<Longrightarrow> walk f used cs data off = walk g used cs data off"
  by (induction cs arbitrary: off) auto

lemma walk_length: "walk f used cs d off = Ret (n, rs) \<Longrightarrow> length rs = length cs"
  by (induction cs arbitrary: off n rs) (auto simp: res_simps)

text \<open>Two routines that report the same consumption walk to the same offset.\<close>

lemma walk_map_res:
  assumes "\<And>c d. c \<in> set cs \<Longrightarrow> map_res v (f c d) = map_res u (g c d)"
  shows "map_res fst (walk f v cs data off) = map_res fst (walk g u cs data off)"
  using assms
proof (induction cs arbitrary: off)
  case (Cons c cs)
  from Cons.prems have e: "map_res v (f c (drop off data)) = map_res u (g c (drop off data))" by simp
  from Cons have IH: "map_res fst (walk f v cs data k) = map_res fst (walk g u cs data k)" for k
    by simp
  show ?case
  proof (cases "f c (drop off data)")
    case (Ret r)
    with e obtain s where s: "g c (drop off data) = Ret s" "u s = v r"
      by (cases "g c (drop off data)") auto
    with Ret IH [of "off + v r"] show ?thesis
      by (cases "walk f v cs data (off + v r)"; cases "walk g u cs data (off + v r)") auto
  qed (use e in \<open>cases "g c (drop off data)"; auto\<close>)+
qed simp

lemma walk_all:
  "walk f u cs d off = Ret (n, rs) \<Longrightarrow> (\<And>c d r. f c d = Ret r \<Longrightarrow> P r) \<Longrightarrow> list_all P rs"
  by (induction cs arbitrary: off n rs) (auto simp: res_simps)

lemma walk_append:
  assumes "\<And>c rest. c \<in> set cs \<Longrightarrow> f (k c) (enc c @ rest) = Ret (r c)" "\<And>c. c \<in> set cs \<Longrightarrow> u (r c) = length (enc c)"
  shows "walk f u (map k cs) (concat (map enc cs) @ rest) 0 = Ret (length (concat (map enc cs)), map r cs)"
  using assms
proof (induction cs)
  case (Cons c cs)
  then show ?case by (simp add: walk_Cons del: walk.simps)
qed simp

locale column_parser =
  fixes step :: "'c \<Rightarrow> byte list \<Rightarrow> 'a res" and used :: "'a \<Rightarrow> nat"
  assumes step_incremental: "incremental (step c) used"
begin

lemma walk_no_oob: "walk step used cs d 0 \<noteq> OOB"
proof (induction cs arbitrary: d)
  case (Cons c cs)
  show ?case using Cons incremental.no_oob [OF step_incremental]
    by (auto simp: walk_Cons res_simps simp del: walk.simps)
qed simp

lemma walk_used_le: "walk step used cs d 0 = Ret (n, rs) \<Longrightarrow> n \<le> length d"
proof (induction cs arbitrary: d n rs)
  case (Cons c cs)
  then obtain r m ts where r: "step c d = Ret r"
    and w: "walk step used cs (drop (used r) d) 0 = Ret (m, ts)" and n: "n = m + used r"
    by (auto simp: walk_Cons res_simps simp del: walk.simps)
  from Cons.IH [OF w] n incremental.used_le [OF step_incremental r] show ?case by simp
qed simp

lemma walk_own_bytes:
  "walk step used cs d 0 = Ret (n, rs) \<Longrightarrow> walk step used cs (take n d @ e) 0 = Ret (n, rs)"
proof (induction cs arbitrary: d n rs)
  case (Cons c cs)
  then obtain r m ts where r: "step c d = Ret r" "rs = r # ts"
    and w: "walk step used cs (drop (used r) d) 0 = Ret (m, ts)" and n: "n = m + used r"
    by (auto simp: walk_Cons res_simps simp del: walk.simps)
  have split: "take n d @ e = take (used r) d @ (take m (drop (used r) d) @ e)"
    by (simp add: n add.commute [of m] take_add)
  have "step c (take n d @ e) = Ret r"
    unfolding split by (rule incremental.own_bytes [OF step_incremental r(1)])
  moreover have "drop (used r) (take n d @ e) = take m (drop (used r) d) @ e"
    unfolding split using incremental.used_le [OF step_incremental r(1)] by simp
  ultimately show ?case
    using Cons.IH [OF w] r(2) n by (simp add: walk_Cons del: walk.simps)
qed simp

lemma walk_throw_append:
  "walk step used cs d 0 = Throw m \<Longrightarrow> walk step used cs (d @ e) 0 = Throw m"
proof (induction cs arbitrary: d)
  case (Cons c cs)
  show ?case
  proof (cases "step c d")
    case (Ret r)
    with Cons.prems have "walk step used cs (drop (used r) d) 0 = Throw m"
      by (auto simp: walk_Cons res_simps simp del: walk.simps)
    from Cons.IH [OF this] Ret show ?thesis
      using incremental.ret_append [OF step_incremental Ret] incremental.used_le [OF step_incremental Ret]
      by (simp add: walk_Cons del: walk.simps)
  next
    case (Throw m')
    with Cons.prems show ?thesis
      using incremental.throw_append [OF step_incremental Throw]
      by (simp add: walk_Cons del: walk.simps)
  qed (use Cons.prems in \<open>auto simp: walk_Cons simp del: walk.simps\<close>)
qed simp

lemma walk_incremental: "incremental (\<lambda>d. walk step used cs d 0) fst"
  by unfold_locales
    (auto simp: walk_no_oob walk_own_bytes walk_throw_append dest: walk_used_le)

end

subsection \<open>Routines that read at absolute offsets\<close>

text \<open>
  \<open>reads used n p\<close>: once the first \<open>n\<close> bytes of the buffer are known to be present, the rest \<open>p\<close> of
  a routine stays in bounds, and its result depends only on the bytes it reports as used. The
  rules follow the source text of a routine: a bounds check raises \<open>n\<close>, a read below \<open>n\<close> is safe,
  a result reports exactly \<open>n\<close>.
\<close>

named_theorems reads_intros \<open>rules for the bounds discipline of parsing routines\<close>

definition reads :: "('a \<Rightarrow> nat) \<Rightarrow> nat \<Rightarrow> (byte list \<Rightarrow> 'a res) \<Rightarrow> bool" where
  "reads used n p \<longleftrightarrow>
     (\<forall>d. n \<le> length d \<longrightarrow> p d \<noteq> OOB \<and>
        (\<forall>r. p d = Ret r \<longrightarrow> n \<le> used r \<and> used r \<le> length d \<and> (\<forall>e. p (take (used r) d @ e) = Ret r)) \<and>
        (\<forall>m e. p d = Throw m \<longrightarrow> p (d @ e) = Throw m))"

lemma reads_incremental: "reads used 0 p \<Longrightarrow> incremental p used"
  by unfold_locales (auto simp: reads_def)

lemma reads_incremental_item: "reads used 0 p \<Longrightarrow> (\<And>d r. p d = Ret r \<Longrightarrow> 0 < used r) \<Longrightarrow> incremental_item p used"
  by (intro incremental_item.intro reads_incremental incremental_item_axioms.intro)

lemma reads_used: "reads used n p \<Longrightarrow> p d = Ret r \<Longrightarrow> n \<le> length d \<Longrightarrow> n \<le> used r \<and> used r \<le> length d"
  by (simp add: reads_def)

lemma reads_Ret [reads_intros]: "used r = n \<Longrightarrow> reads used n (\<lambda>d. Ret r)"
  by (simp add: reads_def)

lemma reads_More [reads_intros]: "reads used n (\<lambda>d. More)"
  by (simp add: reads_def)

lemma reads_Throw [reads_intros]: "reads used n (\<lambda>d. Throw m)"
  by (simp add: reads_def)

lemma reads_if [reads_intros]:
  "(c \<Longrightarrow> reads used n p) \<Longrightarrow> (\<not> c \<Longrightarrow> reads used n q) \<Longrightarrow> reads used n (\<lambda>d. if c then p d else q d)"
  by (cases c) simp_all

lemma reads_Let [reads_intros]:
  "reads used n (\<lambda>d. p x d) \<Longrightarrow> reads used n (\<lambda>d. let y = x in p y d)"
  by simp

lemma reads_need [reads_intros]:
  assumes "reads used (max n m) p"
  shows "reads used n (\<lambda>d. need (m \<le> length d) (p d))"
proof -
  have "n \<le> length d \<Longrightarrow> m \<le> length d \<Longrightarrow> p d \<noteq> OOB \<and>
        (\<forall>r. p d = Ret r \<longrightarrow> max n m \<le> used r \<and> used r \<le> length d \<and> (\<forall>e. p (take (used r) d @ e) = Ret r)) \<and>
        (\<forall>m e. p d = Throw m \<longrightarrow> p (d @ e) = Throw m)" for d
    using assms by (simp add: reads_def)
  then show ?thesis by (auto simp: reads_def res_simps intro: trans_le_add1)
qed

lemma reads_need_less [reads_intros]:
  "reads used (max n (Suc m)) p \<Longrightarrow> reads used n (\<lambda>d. need (m < length d) (p d))"
  using reads_need [of used n "Suc m" p] by (simp add: Suc_le_eq)

text \<open>A read of bytes below the known bound returns the same value on every extension.\<close>

lemma reads_bind_local:
  assumes q: "\<And>d. n \<le> length d \<Longrightarrow> q d = Ret (g (take n d))"
    and p: "\<And>d. n \<le> length d \<Longrightarrow> reads used n (p (g (take n d)))"
  shows "reads used n (\<lambda>d. bind_res (q d) (\<lambda>x. p x d))"
  unfolding reads_def
proof (intro allI impI conjI)
  fix d :: "byte list" assume n: "n \<le> length d"
  from p [OF n] n show "bind_res (q d) (\<lambda>x. p x d) \<noteq> OOB" using q by (simp add: reads_def)
  fix r assume "bind_res (q d) (\<lambda>x. p x d) = Ret r"
  with q [OF n] have r: "p (g (take n d)) d = Ret r" by simp
  with p [OF n] n have u: "n \<le> used r" "used r \<le> length d"
    "p (g (take n d)) (take (used r) d @ e) = Ret r" for e
    by (auto simp: reads_def)
  from u show "n \<le> used r" "used r \<le> length d" by blast+
  fix e
  have "q (take (used r) d @ e) = Ret (g (take n d))" using q [of "take (used r) d @ e"] u n
    by (simp add: min_absorb1)
  with u show "bind_res (q (take (used r) d @ e)) (\<lambda>x. p x (take (used r) d @ e)) = Ret r" by simp
next
  fix d :: "byte list" and m e assume n: "n \<le> length d" and t: "bind_res (q d) (\<lambda>x. p x d) = Throw m"
  from q [of "d @ e"] n have "q (d @ e) = Ret (g (take n d))" by simp
  with q [OF n] t n p [OF n] show "bind_res (q (d @ e)) (\<lambda>x. p x (d @ e)) = Throw m"
    by (auto simp: reads_def)
qed

lemma reads_rd [reads_intros]:
  "i < n \<Longrightarrow> (\<And>x. reads used n (p x)) \<Longrightarrow> reads used n (\<lambda>d. bind_res (rd d i) (\<lambda>x. p x d))"
  by (rule reads_bind_local [where g = "\<lambda>t. t ! i"]) simp_all

lemma reads_rd_u16le [reads_intros]:
  "i + 1 < n \<Longrightarrow> (\<And>x. reads used n (p x)) \<Longrightarrow> reads used n (\<lambda>d. bind_res (rd_u16le d i) (\<lambda>x. p x d))"
  by (rule reads_bind_local [where g = "\<lambda>t. u16le (t ! i) (t ! (i + 1))"]) simp_all

lemma reads_rd_u32le [reads_intros]:
  "i + 3 < n \<Longrightarrow> (\<And>x. reads used n (p x)) \<Longrightarrow> reads used n (\<lambda>d. bind_res (rd_u32le d i) (\<lambda>x. p x d))"
  by (rule reads_bind_local [where g = "\<lambda>t. u32le (t ! i) (t ! (i + 1)) (t ! (i + 2)) (t ! (i + 3))"])
    simp_all

lemma reads_rd_u64le [reads_intros]:
  "i + 7 < n \<Longrightarrow> (\<And>x. reads used n (p x)) \<Longrightarrow> reads used n (\<lambda>d. bind_res (rd_u64le d i) (\<lambda>x. p x d))"
  by (rule reads_bind_local [where g = "\<lambda>t. u64le (t ! i) (t ! (i + 1)) (t ! (i + 2)) (t ! (i + 3))
       (t ! (i + 4)) (t ! (i + 5)) (t ! (i + 6)) (t ! (i + 7))"]) simp_all

lemma reads_rd_block [reads_intros]:
  "i + k \<le> n \<Longrightarrow> (\<And>x. length x = k \<Longrightarrow> reads used n (p x)) \<Longrightarrow>
     reads used n (\<lambda>d. bind_res (rd_block d i k) (\<lambda>x. p x d))"
  by (rule reads_bind_local [where g = "\<lambda>t. take k (drop i t)"]) (simp_all add: drop_take min_absorb1)

text \<open>A call of a routine that continues at the known bound and reports its new offset.\<close>

lemma reads_call:
  assumes q: "reads u n q" and p: "\<And>x. n \<le> u x \<Longrightarrow> reads used (u x) (p x)"
  shows "reads used n (\<lambda>d. bind_res (q d) (\<lambda>x. p x d))"
  unfolding reads_def
proof (intro allI impI conjI)
  fix d :: "byte list" assume n: "n \<le> length d"
  have x: "q d = Ret x \<Longrightarrow> n \<le> u x \<and> u x \<le> length d \<and> (\<forall>e. q (take (u x) d @ e) = Ret x)" for x
    using q n by (simp add: reads_def)
  have "q d \<noteq> OOB" using q n by (simp add: reads_def)
  then show "bind_res (q d) (\<lambda>x. p x d) \<noteq> OOB"
    using x p n by (cases "q d") (auto simp: reads_def)
  fix r assume "bind_res (q d) (\<lambda>x. p x d) = Ret r"
  then obtain y where y: "q d = Ret y" "p y d = Ret r" by (auto simp: res_simps)
  with x p [of y] have u: "u y \<le> used r" "used r \<le> length d" "p y (take (used r) d @ e) = Ret r" for e
    by (auto simp: reads_def)
  from x [OF y(1)] u show "n \<le> used r" "used r \<le> length d" by linarith+
  fix e
  have "take (used r) d = take (u y) d @ drop (u y) (take (used r) d)"
    using u by (metis append_take_drop_id min.absorb1 take_take)
  with x [OF y(1)] have "q (take (used r) d @ e) = Ret y" by (metis append.assoc)
  with u show "bind_res (q (take (used r) d @ e)) (\<lambda>x. p x (take (used r) d @ e)) = Ret r" by simp
next
  fix d :: "byte list" and m e assume n: "n \<le> length d" and t: "bind_res (q d) (\<lambda>x. p x d) = Throw m"
  show "bind_res (q (d @ e)) (\<lambda>x. p x (d @ e)) = Throw m"
  proof (cases "q d")
    case (Ret x)
    with q n have u: "n \<le> u x" "u x \<le> length d" "q (take (u x) d @ e) = Ret x" for e
      by (auto simp: reads_def)
    from u(3) [of "drop (u x) d @ e"] have "q (d @ e) = Ret x" by (simp flip: append_assoc)
    with Ret t u p [of x] show ?thesis by (auto simp: reads_def)
  qed (use t q n in \<open>auto simp: reads_def\<close>)
qed

lemma reads_call_at:
  "(\<And>k. reads u k (\<lambda>d. q d k)) \<Longrightarrow> m = n \<Longrightarrow> (\<And>x. m \<le> u x \<Longrightarrow> reads used (u x) (p x)) \<Longrightarrow>
     reads used n (\<lambda>d. bind_res (q d m) (\<lambda>x. p x d))"
  using reads_call by blast

text \<open>A call on the rest of the buffer, \<open>f(data + n, length - n)\<close>.\<close>

lemma reads_drop:
  assumes "incremental f u"
  shows "reads (\<lambda>r. n + u r) n (\<lambda>d. f (drop n d))"
  unfolding reads_def
proof (intro allI impI conjI)
  fix d :: "byte list" assume n: "n \<le> length d"
  show "f (drop n d) \<noteq> OOB" by (rule incremental.no_oob [OF assms])
  fix r assume r: "f (drop n d) = Ret r"
  from incremental.used_le [OF assms r] n show "n + u r \<le> length d" by simp
  then show "f (drop n (take (n + u r) d @ e)) = Ret r" for e
    using incremental.own_bytes [OF assms r, of e] n by (simp add: take_add)
qed (use incremental.throw_append [OF assms] in auto)

lemma reads_map_res: "reads (\<lambda>r. u (g r)) n p \<Longrightarrow> reads u n (\<lambda>d. map_res g (p d))"
  unfolding reads_def by (fastforce simp: res_simps)

text \<open>The column loop started behind the first \<open>n\<close> bytes.\<close>

context column_parser begin

lemma reads_walk: "reads fst n (\<lambda>d. walk step used cs d n)"
proof -
  have "reads (\<lambda>r. n + fst r) n (\<lambda>d. walk step used cs (drop n d) 0)"
    by (rule reads_drop [OF walk_incremental])
  then have "reads (\<lambda>r. fst (case r of (k, rs) \<Rightarrow> (k + n, rs))) n (\<lambda>d. walk step used cs (drop n d) 0)"
    by (simp add: case_prod_beta add.commute)
  then show ?thesis by (subst walk_shift) (rule reads_map_res)
qed

end

end
