(* ===== verification/Column_Metadata.thy ===== *)
theory Column_Metadata
  imports Tds_Types Utf16_Contract Incremental
begin

text \<open>
  Column descriptions and the COLMETADATA parser, \<open>src/tds/tds_column_metadata.cpp\<close>. Every routine
  of the parser reads at a running offset of the token buffer and answers \<open>More\<close> where the source
  returns \<open>false\<close>; an unsupported type or a fractional-second scale above 7 is a \<open>Throw\<close>. Column
  names are decoded by \<open>Utf16LEDecode U\<close>.
\<close>

record ColumnMetadata =
  col_name :: "byte list"
  type_id :: byte
  max_length :: u16
  precision :: byte
  scale :: byte
  collation :: u32
  col_flags :: u16

definition fresh_column :: ColumnMetadata where
  "fresh_column = \<lparr> col_name = [], type_id = 0, max_length = 0, precision = 0, scale = 0,
     collation = 0, col_flags = 0 \<rparr>"

definition IsNullable :: "ColumnMetadata \<Rightarrow> bool" where
  "IsNullable c \<longleftrightarrow> col_flags c AND COL_FLAG_NULLABLE \<noteq> 0"

definition IsIdentity :: "ColumnMetadata \<Rightarrow> bool" where
  "IsIdentity c \<longleftrightarrow> col_flags c AND COL_FLAG_IDENTITY \<noteq> 0"

definition IsComputed :: "ColumnMetadata \<Rightarrow> bool" where
  "IsComputed c \<longleftrightarrow> col_flags c AND COL_FLAG_COMPUTED \<noteq> 0"

definition type_names :: "(byte \<times> string) list" where
  "type_names =
     [(TDS_TYPE_NULL, ''NULL''), (TDS_TYPE_TINYINT, ''TINYINT''), (TDS_TYPE_BIT, ''BIT''),
      (TDS_TYPE_SMALLINT, ''SMALLINT''), (TDS_TYPE_INT, ''INT''), (TDS_TYPE_BIGINT, ''BIGINT''),
      (TDS_TYPE_REAL, ''REAL''), (TDS_TYPE_FLOAT, ''FLOAT''), (TDS_TYPE_MONEY, ''MONEY''),
      (TDS_TYPE_SMALLMONEY, ''SMALLMONEY''), (TDS_TYPE_DATETIME, ''DATETIME''),
      (TDS_TYPE_SMALLDATETIME, ''SMALLDATETIME''), (TDS_TYPE_INTN, ''INTN''), (TDS_TYPE_BITN, ''BITN''),
      (TDS_TYPE_FLOATN, ''FLOATN''), (TDS_TYPE_MONEYN, ''MONEYN''), (TDS_TYPE_DATETIMEN, ''DATETIMEN''),
      (TDS_TYPE_DECIMAL, ''DECIMAL''), (TDS_TYPE_NUMERIC, ''NUMERIC''),
      (TDS_TYPE_UNIQUEIDENTIFIER, ''UNIQUEIDENTIFIER''), (TDS_TYPE_BIGCHAR, ''CHAR''),
      (TDS_TYPE_BIGVARCHAR, ''VARCHAR''), (TDS_TYPE_NCHAR, ''NCHAR''), (TDS_TYPE_NVARCHAR, ''NVARCHAR''),
      (TDS_TYPE_BIGBINARY, ''BINARY''), (TDS_TYPE_BIGVARBINARY, ''VARBINARY''), (TDS_TYPE_DATE, ''DATE''),
      (TDS_TYPE_TIME, ''TIME''), (TDS_TYPE_DATETIME2, ''DATETIME2''),
      (TDS_TYPE_DATETIMEOFFSET, ''DATETIMEOFFSET''), (TDS_TYPE_XML, ''XML''), (TDS_TYPE_UDT, ''UDT''),
      (TDS_TYPE_SQL_VARIANT, ''SQL_VARIANT''), (TDS_TYPE_IMAGE, ''IMAGE''), (TDS_TYPE_TEXT, ''TEXT''),
      (TDS_TYPE_NTEXT, ''NTEXT'')]"

definition GetTypeName :: "ColumnMetadata \<Rightarrow> string" where
  "GetTypeName c = (case map_of type_names (type_id c) of
     Some s \<Rightarrow> s | None \<Rightarrow> ''UNKNOWN(0x'' @ to_string (unat (type_id c)) @ '')'')"

definition IsVariableLength :: "ColumnMetadata \<Rightarrow> bool" where
  "IsVariableLength c \<longleftrightarrow> type_id c \<in>
     {TDS_TYPE_BIGCHAR, TDS_TYPE_BIGVARCHAR, TDS_TYPE_NCHAR, TDS_TYPE_NVARCHAR, TDS_TYPE_BIGBINARY,
      TDS_TYPE_BIGVARBINARY}"

definition IsNullableVariant :: "ColumnMetadata \<Rightarrow> bool" where
  "IsNullableVariant c \<longleftrightarrow> type_id c \<in>
     {TDS_TYPE_INTN, TDS_TYPE_BITN, TDS_TYPE_FLOATN, TDS_TYPE_MONEYN, TDS_TYPE_DATETIMEN}"

definition IsPLPType :: "ColumnMetadata \<Rightarrow> bool" where
  "IsPLPType c =
     (if type_id c = TDS_TYPE_XML then True
      else if max_length c \<noteq> 0xFFFF then False
      else type_id c \<in>
        {TDS_TYPE_BIGCHAR, TDS_TYPE_BIGVARCHAR, TDS_TYPE_NCHAR, TDS_TYPE_NVARCHAR,
         TDS_TYPE_BIGBINARY, TDS_TYPE_BIGVARBINARY})"

definition GetFixedSize :: "ColumnMetadata \<Rightarrow> nat" where
  "GetFixedSize c = (case map_of
     [(TDS_TYPE_TINYINT, 1), (TDS_TYPE_BIT, 1), (TDS_TYPE_SMALLINT, 2), (TDS_TYPE_INT, 4),
      (TDS_TYPE_BIGINT, 8), (TDS_TYPE_REAL, 4), (TDS_TYPE_FLOAT, 8), (TDS_TYPE_MONEY, 8),
      (TDS_TYPE_SMALLMONEY, 4), (TDS_TYPE_DATETIME, 8), (TDS_TYPE_SMALLDATETIME, 4),
      (TDS_TYPE_DATE, 3)] (type_id c) of Some n \<Rightarrow> n | None \<Rightarrow> 0)"

subsection \<open>The COLMETADATA parser\<close>

text \<open>
  Skipping a B_VARCHAR and a US_VARCHAR (a one- or two-byte character count, then that many
  UTF-16 units), and the loops over them.
\<close>

definition skip_b_varchar :: "byte list \<Rightarrow> nat \<Rightarrow> nat res" where
  "skip_b_varchar data offset =
     need (offset < length data) (
     bind_res (rd data offset) (\<lambda>char_count.
     let offset = offset + 1; byte_len = unat char_count * 2 in
     need (offset + byte_len \<le> length data) (Ret (offset + byte_len))))"

definition skip_us_varchar :: "byte list \<Rightarrow> nat \<Rightarrow> nat res" where
  "skip_us_varchar data offset =
     need (offset + 2 \<le> length data) (
     bind_res (rd_u16le data offset) (\<lambda>char_count.
     let offset = offset + 2; byte_len = unat char_count * 2 in
     need (offset + byte_len \<le> length data) (Ret (offset + byte_len))))"

fun skip_us_varchars :: "nat \<Rightarrow> byte list \<Rightarrow> nat \<Rightarrow> nat res" where
  "skip_us_varchars 0 data offset = Ret offset"
| "skip_us_varchars (Suc k) data offset =
     bind_res (skip_us_varchar data offset) (\<lambda>offset. skip_us_varchars k data offset)"

definition scale_message :: "ColumnMetadata \<Rightarrow> string" where
  "scale_message column = ''Column '' @ [CHR 0x27] @ str_of_bytes (col_name column) @ [CHR 0x27] @
     '' declares fractional-second scale '' @ to_string (unat (scale column)) @
     ''; TIME, DATETIME2 and DATETIMEOFFSET allow 0..7. The TDS stream is malformed.''"

definition ParseTypeInfo :: "byte list \<Rightarrow> nat \<Rightarrow> ColumnMetadata \<Rightarrow> (ColumnMetadata \<times> nat) res" where
  "ParseTypeInfo data offset column =
     need (offset < length data) (
     bind_res (rd data offset) (\<lambda>t.
     let offset = offset + 1;
         column = column\<lparr>type_id := t, max_length := 0, precision := 0, scale := 0, collation := 0\<rparr>
     in
     if t \<in> {TDS_TYPE_NULL, TDS_TYPE_TINYINT, TDS_TYPE_BIT, TDS_TYPE_SMALLINT, TDS_TYPE_INT,
              TDS_TYPE_BIGINT, TDS_TYPE_REAL, TDS_TYPE_FLOAT, TDS_TYPE_MONEY, TDS_TYPE_SMALLMONEY,
              TDS_TYPE_DATETIME, TDS_TYPE_SMALLDATETIME}
     then Ret (column, offset)
     else if t \<in> {TDS_TYPE_INTN, TDS_TYPE_BITN, TDS_TYPE_FLOATN, TDS_TYPE_MONEYN, TDS_TYPE_DATETIMEN} then
       need (offset < length data) (
       bind_res (rd data offset) (\<lambda>b. Ret (column\<lparr>max_length := ucast b\<rparr>, offset + 1)))
     else if t \<in> {TDS_TYPE_DECIMAL, TDS_TYPE_NUMERIC} then
       need (offset + 3 \<le> length data) (
       bind_res (rd data offset) (\<lambda>b. bind_res (rd data (offset + 1)) (\<lambda>p.
       bind_res (rd data (offset + 2)) (\<lambda>s.
         Ret (column\<lparr>max_length := ucast b, precision := p, scale := s\<rparr>, offset + 3)))))
     else if t = TDS_TYPE_UNIQUEIDENTIFIER then
       need (offset < length data) (
       bind_res (rd data offset) (\<lambda>b. Ret (column\<lparr>max_length := ucast b\<rparr>, offset + 1)))
     else if t \<in> {TDS_TYPE_BIGCHAR, TDS_TYPE_BIGVARCHAR, TDS_TYPE_NCHAR, TDS_TYPE_NVARCHAR} then
       need (offset + 7 \<le> length data) (
       bind_res (rd_u16le data offset) (\<lambda>m. bind_res (rd_u32le data (offset + 2)) (\<lambda>coll.
         Ret (column\<lparr>max_length := m, collation := coll\<rparr>, offset + 2 + 5))))
     else if t \<in> {TDS_TYPE_BIGBINARY, TDS_TYPE_BIGVARBINARY} then
       need (offset + 2 \<le> length data) (
       bind_res (rd_u16le data offset) (\<lambda>m. Ret (column\<lparr>max_length := m\<rparr>, offset + 2)))
     else if t = TDS_TYPE_DATE then Ret (column, offset)
     else if t \<in> {TDS_TYPE_TIME, TDS_TYPE_DATETIME2, TDS_TYPE_DATETIMEOFFSET} then
       need (offset < length data) (
       bind_res (rd data offset) (\<lambda>s.
         let column = column\<lparr>scale := s\<rparr> in
         if s > 7 then Throw (scale_message column) else Ret (column, offset + 1)))
     else if t = TDS_TYPE_XML then
       (let column = column\<lparr>max_length := 0xFFFF\<rparr> in
        need (offset < length data) (
        bind_res (rd data offset) (\<lambda>schema_present.
          let offset = offset + 1 in
          if schema_present \<noteq> 0 then
            bind_res (skip_b_varchar data offset) (\<lambda>offset.
            bind_res (skip_b_varchar data offset) (\<lambda>offset.
            bind_res (skip_us_varchar data offset) (\<lambda>offset. Ret (column, offset))))
          else Ret (column, offset))))
     else if t \<in> {TDS_TYPE_TEXT, TDS_TYPE_NTEXT, TDS_TYPE_IMAGE} then
       need (offset + 4 \<le> length data) (
       let offset = offset + 4; column = column\<lparr>max_length := 0xFFFF\<rparr> in
       bind_res (if t \<noteq> TDS_TYPE_IMAGE then
           need (offset + 5 \<le> length data) (
           bind_res (rd_u32le data offset) (\<lambda>coll. Ret (column\<lparr>collation := coll\<rparr>, offset + 5)))
         else Ret (column, offset)) (\<lambda>co.
       need (snd co < length data) (
       bind_res (rd data (snd co)) (\<lambda>num_parts.
       bind_res (skip_us_varchars (unat num_parts) data (snd co + 1)) (\<lambda>offset.
         Ret (fst co, offset))))))
     else Throw (''Unsupported SQL Server type: '' @ GetTypeName column)))"

definition ParseColumnName :: "simdutf \<Rightarrow> byte list \<Rightarrow> nat \<Rightarrow> (byte list \<times> nat) res" where
  "ParseColumnName U data offset =
     need (offset < length data) (
     bind_res (rd data offset) (\<lambda>char_count.
     let offset = offset + 1; byte_length = unat char_count * 2 in
     need (offset + byte_length \<le> length data) (
     bind_res (rd_block data offset byte_length) (\<lambda>bytes.
       Ret (Utf16LEDecode U bytes, offset + byte_length)))))"

text \<open>The result of \<open>ParseColumn\<close> is the column and the number of bytes it took.\<close>

definition ParseColumn :: "simdutf \<Rightarrow> byte list \<Rightarrow> (ColumnMetadata \<times> nat) res" where
  "ParseColumn U data =
     need (4 \<le> length data) (
     let local_offset = 4 in
     need (local_offset + 2 \<le> length data) (
     bind_res (rd_u16le data local_offset) (\<lambda>fl.
     let column = fresh_column\<lparr>col_flags := fl\<rparr>; local_offset = local_offset + 2 in
     bind_res (ParseTypeInfo data local_offset column) (\<lambda>ct.
     bind_res (ParseColumnName U data (snd ct)) (\<lambda>nt.
       Ret ((fst ct)\<lparr>col_name := fst nt\<rparr>, snd nt))))))"

text \<open>
  The column loop fills the caller's vector as it goes: the columns parsed before the data ran out
  (or before a throw) stay in it, so the result carries the vector next to the outcome.
\<close>

fun parse_columns :: "simdutf \<Rightarrow> nat \<Rightarrow> byte list \<Rightarrow> nat \<Rightarrow> ColumnMetadata list \<Rightarrow> nat res \<times> ColumnMetadata list" where
  "parse_columns U 0 data offset columns = (Ret offset, columns)"
| "parse_columns U (Suc k) data offset columns =
     (case ParseColumn U (drop offset data) of
        Ret (column, n) \<Rightarrow> parse_columns U k data (offset + n) (columns @ [column])
      | More \<Rightarrow> (More, columns)
      | Throw m \<Rightarrow> (Throw m, columns)
      | OOB \<Rightarrow> (OOB, columns))"

definition ParseColMetadata_columns :: "simdutf \<Rightarrow> byte list \<Rightarrow> nat res \<times> ColumnMetadata list" where
  "ParseColMetadata_columns U data =
     (if length data < 2 then (More, [])
      else case rd_u16le data 0 of
        Ret count \<Rightarrow>
          if count = 0xFFFF then (Ret 2, []) else parse_columns U (unat count) data 2 []
      | _ \<Rightarrow> (OOB, []))"

text \<open>The outcome and the vector of a completed parse in one value.\<close>

definition ParseColumns :: "simdutf \<Rightarrow> byte list \<Rightarrow> (nat \<times> ColumnMetadata list) res" where
  "ParseColumns U data =
     (case ParseColMetadata_columns U data of (r, cols) \<Rightarrow> map_res (\<lambda>n. (n, cols)) r)"

subsection \<open>Bounds discipline\<close>

lemma reads_skip_b_varchar: "reads (\<lambda>x. x) n (\<lambda>d. skip_b_varchar d n)"
  unfolding skip_b_varchar_def Let_def by (intro reads_intros) auto

lemma reads_skip_us_varchar: "reads (\<lambda>x. x) n (\<lambda>d. skip_us_varchar d n)"
  unfolding skip_us_varchar_def Let_def by (intro reads_intros) auto

lemma reads_skip_us_varchars: "reads (\<lambda>x. x) n (\<lambda>d. skip_us_varchars k d n)"
proof (induction k arbitrary: n)
  case (Suc k)
  show ?case unfolding skip_us_varchars.simps
    using Suc by (intro reads_call [OF reads_skip_us_varchar]) simp
qed (auto intro!: reads_intros)

lemma reads_ParseColumnName: "reads snd n (\<lambda>d. ParseColumnName U d n)"
  unfolding ParseColumnName_def Let_def by (intro reads_intros) auto

lemmas skip_calls =
  reads_call_at [OF reads_skip_b_varchar] reads_call_at [OF reads_skip_us_varchar]
  reads_call_at [OF reads_skip_us_varchars]

lemma reads_ParseTypeInfo: "reads snd n (\<lambda>d. ParseTypeInfo d n column)"
  unfolding ParseTypeInfo_def Let_def
  by (intro reads_intros skip_calls reads_call [where u = snd]) auto

lemma ParseColumn_reads: "reads snd 0 (ParseColumn U)"
  unfolding ParseColumn_def Let_def
  by (intro reads_intros reads_call_at [where u = snd] reads_ParseTypeInfo reads_ParseColumnName) auto

lemma ParseColumn_min:
  assumes "ParseColumn U d = Ret r"
  shows "6 \<le> snd r"
proof -
  from assms obtain ct nt fl where 1: "6 \<le> length d" "ParseTypeInfo d 6 (fresh_column\<lparr>col_flags := fl\<rparr>) = Ret ct"
    and 2: "ParseColumnName U d (snd ct) = Ret nt" and r: "snd r = snd nt"
    by (auto simp: ParseColumn_def res_simps Let_def)
  have "6 \<le> snd ct \<and> snd ct \<le> length d" by (rule reads_used [OF reads_ParseTypeInfo 1(2,1)])
  with reads_used [OF reads_ParseColumnName 2] r show ?thesis by simp
qed

interpretation column: incremental_item "ParseColumn U" snd for U
  by (rule reads_incremental_item [OF ParseColumn_reads]) (use ParseColumn_min in fastforce)

text \<open>The column loop is the generic walk over as many columns as the count field announces.\<close>

lemma parse_columns_walk:
  "parse_columns U k data off cols = (r, cs) \<Longrightarrow>
     map_res (\<lambda>n. (n, cs)) r =
     map_res (\<lambda>(n, rs). (n, cols @ map fst rs)) (walk (\<lambda>_. ParseColumn U) snd (replicate k ()) data off)"
proof (induction k arbitrary: off cols)
  case (Suc k)
  show ?case
  proof (cases "ParseColumn U (drop off data)")
    case (Ret x)
    then obtain c n where x: "ParseColumn U (drop off data) = Ret (c, n)" by (cases x) auto
    with Suc show ?thesis
      by (cases "walk (\<lambda>_. ParseColumn U) snd (replicate k ()) data (off + n)") auto
  qed (use Suc.prems in auto)
qed auto

lemma ParseColumns_eq:
  "ParseColumns U d =
     need (2 \<le> length d) (bind_res (rd_u16le d 0) (\<lambda>count.
       if count = 0xFFFF then Ret (2, [])
       else map_res (\<lambda>(n, rs). (n, map fst rs)) (walk (\<lambda>_. ParseColumn U) snd (replicate (unat count) ()) d 2)))"
proof (cases "length d < 2")
  case False
  then show ?thesis
    using parse_columns_walk [of U _ d 2 "[]"]
    by (auto simp: ParseColumns_def ParseColMetadata_columns_def not_less split: prod.splits)
qed (simp add: ParseColumns_def ParseColMetadata_columns_def)

interpretation columns: column_parser "\<lambda>_. ParseColumn U" snd for U
  by unfold_locales

lemma ParseColumns_reads: "reads fst 0 (ParseColumns U)"
  unfolding ParseColumns_eq [abs_def]
  by (intro reads_intros reads_map_res) (auto simp: case_prod_beta intro: columns.reads_walk)

lemma ParseColumns_min: "ParseColumns U d = Ret r \<Longrightarrow> 2 \<le> fst r"
  by (auto simp: ParseColumns_eq res_simps split: if_splits dest!: reads_used [OF columns.reads_walk])

interpretation metadata: incremental_item "ParseColumns U" fst for U
  by (rule reads_incremental_item [OF ParseColumns_reads]) (use ParseColumns_min in fastforce)

subsection \<open>Accepted columns are well formed, and every well-formed description is read back\<close>

definition fixed_info_types :: "byte set" where
  "fixed_info_types = {TDS_TYPE_NULL, TDS_TYPE_TINYINT, TDS_TYPE_BIT, TDS_TYPE_SMALLINT, TDS_TYPE_INT,
     TDS_TYPE_BIGINT, TDS_TYPE_REAL, TDS_TYPE_FLOAT, TDS_TYPE_MONEY, TDS_TYPE_SMALLMONEY,
     TDS_TYPE_DATETIME, TDS_TYPE_SMALLDATETIME, TDS_TYPE_DATE}"

text \<open>What the parser promises of every column it accepts: a supported type, and the attributes
  that type carries on the wire (a one-byte length, a scale of at most 7, \<dots>), the others zero.\<close>

definition wf_column :: "ColumnMetadata \<Rightarrow> bool" where
  "wf_column c \<longleftrightarrow>
     (let t = type_id c in
      if t \<in> fixed_info_types then
        max_length c = 0 \<and> precision c = 0 \<and> scale c = 0 \<and> collation c = 0
      else if t \<in> {TDS_TYPE_INTN, TDS_TYPE_BITN, TDS_TYPE_FLOATN, TDS_TYPE_MONEYN, TDS_TYPE_DATETIMEN,
                   TDS_TYPE_UNIQUEIDENTIFIER} then
        unat (max_length c) < 256 \<and> precision c = 0 \<and> scale c = 0 \<and> collation c = 0
      else if t \<in> {TDS_TYPE_DECIMAL, TDS_TYPE_NUMERIC} then
        unat (max_length c) < 256 \<and> collation c = 0
      else if t \<in> {TDS_TYPE_BIGCHAR, TDS_TYPE_BIGVARCHAR, TDS_TYPE_NCHAR, TDS_TYPE_NVARCHAR} then
        precision c = 0 \<and> scale c = 0
      else if t \<in> {TDS_TYPE_BIGBINARY, TDS_TYPE_BIGVARBINARY} then
        precision c = 0 \<and> scale c = 0 \<and> collation c = 0
      else if t \<in> {TDS_TYPE_TIME, TDS_TYPE_DATETIME2, TDS_TYPE_DATETIMEOFFSET} then
        max_length c = 0 \<and> precision c = 0 \<and> scale c \<le> 7 \<and> collation c = 0
      else if t \<in> {TDS_TYPE_XML, TDS_TYPE_IMAGE} then
        max_length c = 0xFFFF \<and> precision c = 0 \<and> scale c = 0 \<and> collation c = 0
      else if t \<in> {TDS_TYPE_TEXT, TDS_TYPE_NTEXT} then
        max_length c = 0xFFFF \<and> precision c = 0 \<and> scale c = 0
      else False)"

lemma ucast_byte_less: "unat (ucast (b :: byte) :: u16) < 256"
  using byte_less [of b] by (simp add: unat_ucast_byte)

lemma wf_column_name [simp]: "wf_column (c\<lparr>col_name := n\<rparr>) = wf_column c"
  by (simp add: wf_column_def)

lemma ParseTypeInfo_wf:
  assumes "ParseTypeInfo d off c = Ret r"
  shows "wf_column (fst r)"
proof -
  have "off < length d" using assms by (simp add: ParseTypeInfo_def res_simps)
  with assms show ?thesis
    unfolding ParseTypeInfo_def Let_def
    apply (simp only: need_simps rd_in bind_res.simps)
    apply (split if_split_asm, fastforce simp: wf_column_def fixed_info_types_def res_simps ucast_byte_less)+
    apply (split if_split_asm,
      (auto simp: wf_column_def fixed_info_types_def res_simps not_less split: if_splits)[1])+
    apply simp
    done
qed

lemma ParseColumn_wf: "ParseColumn U d = Ret r \<Longrightarrow> wf_column (fst r)"
  by (auto simp: ParseColumn_def res_simps Let_def dest: ParseTypeInfo_wf)

text \<open>The server's side: the COLMETADATA bytes for given columns (no XML schema, no table name
  parts), names given by their scalar values.\<close>

definition enc_type_info :: "ColumnMetadata \<Rightarrow> byte list" where
  "enc_type_info c =
     (let t = type_id c in t #
      (if t \<in> fixed_info_types then []
       else if t \<in> {TDS_TYPE_DECIMAL, TDS_TYPE_NUMERIC} then [ucast (max_length c), precision c, scale c]
       else if t \<in> {TDS_TYPE_BIGCHAR, TDS_TYPE_BIGVARCHAR, TDS_TYPE_NCHAR, TDS_TYPE_NVARCHAR} then
         le16 (max_length c) @ le32 (collation c) @ [0]
       else if t \<in> {TDS_TYPE_BIGBINARY, TDS_TYPE_BIGVARBINARY} then le16 (max_length c)
       else if t \<in> {TDS_TYPE_TIME, TDS_TYPE_DATETIME2, TDS_TYPE_DATETIMEOFFSET} then [scale c]
       else if t = TDS_TYPE_XML then [0]
       else if t = TDS_TYPE_IMAGE then [0xFF, 0xFF, 0xFF, 0x7F, 0]
       else if t \<in> {TDS_TYPE_TEXT, TDS_TYPE_NTEXT} then
         [0xFF, 0xFF, 0xFF, 0x7F] @ le32 (collation c) @ [0, 0]
       else [ucast (max_length c)]))"

definition enc_column :: "ColumnMetadata \<times> nat list \<Rightarrow> byte list" where
  "enc_column cn = [0, 0, 0, 0] @ le16 (col_flags (fst cn)) @ enc_type_info (fst cn) @
     [of_nat (length (utf16_enc (snd cn)))] @ unit_bytes (utf16_enc (snd cn))"

definition enc_columns :: "(ColumnMetadata \<times> nat list) list \<Rightarrow> byte list" where
  "enc_columns cns = le16 (of_nat (length cns)) @ concat (map enc_column cns)"

lemma u16_byte_id: "unat (m :: u16) < 256 \<Longrightarrow> (ucast (ucast m :: byte) :: u16) = m"
  by (rule unsigned_word_eqI [where ?'a = nat])
    (simp add: unsigned_ucast_eq unsigned_take_bit_eq take_bit_nat_eq_self_iff)

lemma ParseTypeInfo_enc:
  assumes "wf_column c" and "length pre = off"
  shows "ParseTypeInfo (pre @ enc_type_info c @ rest) off c0 =
     Ret (c\<lparr>col_name := col_name c0, col_flags := col_flags c0\<rparr>, off + length (enc_type_info c))"
proof -
  consider "type_id c \<in> fixed_info_types"
    | "type_id c \<in> {TDS_TYPE_INTN, TDS_TYPE_BITN, TDS_TYPE_FLOATN, TDS_TYPE_MONEYN, TDS_TYPE_DATETIMEN,
                   TDS_TYPE_UNIQUEIDENTIFIER}"
    | "type_id c \<in> {TDS_TYPE_DECIMAL, TDS_TYPE_NUMERIC}"
    | "type_id c \<in> {TDS_TYPE_BIGCHAR, TDS_TYPE_BIGVARCHAR, TDS_TYPE_NCHAR, TDS_TYPE_NVARCHAR}"
    | "type_id c \<in> {TDS_TYPE_BIGBINARY, TDS_TYPE_BIGVARBINARY}"
    | "type_id c \<in> {TDS_TYPE_TIME, TDS_TYPE_DATETIME2, TDS_TYPE_DATETIMEOFFSET}"
    | "type_id c \<in> {TDS_TYPE_XML, TDS_TYPE_IMAGE}" | "type_id c \<in> {TDS_TYPE_TEXT, TDS_TYPE_NTEXT}"
    using assms(1) unfolding wf_column_def Let_def by argo
  then show ?thesis
  proof cases
    case 1
    then show ?thesis using assms
      by (cases c) (simp add: wf_column_def fixed_info_types_def; elim disjE;
        simp add: ParseTypeInfo_def enc_type_info_def fixed_info_types_def nth_append )
  next
    case 2
    then show ?thesis using assms
      by (cases c) (simp add: wf_column_def fixed_info_types_def; elim disjE;
        simp add: ParseTypeInfo_def enc_type_info_def fixed_info_types_def nth_append u16_byte_id)
  next
    case 3
    then show ?thesis using assms
      by (cases c) (simp add: wf_column_def fixed_info_types_def; elim disjE;
        simp add: ParseTypeInfo_def enc_type_info_def fixed_info_types_def nth_append u16_byte_id)
  next
    case 4
    then show ?thesis using assms
      by (cases c) (simp add: wf_column_def fixed_info_types_def; elim disjE;
        simp add: ParseTypeInfo_def enc_type_info_def fixed_info_types_def nth_append le16_def le32_def u16le_le16 u32le_le32)
  next
    case 5
    then show ?thesis using assms
      by (cases c) (simp add: wf_column_def fixed_info_types_def; elim disjE;
        simp add: ParseTypeInfo_def enc_type_info_def fixed_info_types_def nth_append le16_def le32_def u16le_le16 u32le_le32)
  next
    case 6
    then show ?thesis using assms
      by (cases c) (simp add: wf_column_def fixed_info_types_def; elim disjE;
        simp add: ParseTypeInfo_def enc_type_info_def fixed_info_types_def nth_append Let_def leD)
  next
    case 7
    then show ?thesis using assms
      by (cases c) (simp add: wf_column_def fixed_info_types_def; elim disjE;
        simp add: ParseTypeInfo_def enc_type_info_def fixed_info_types_def nth_append )
  next
    case 8
    then show ?thesis using assms
      by (cases c) (simp add: wf_column_def fixed_info_types_def; elim disjE;
        simp add: ParseTypeInfo_def enc_type_info_def fixed_info_types_def nth_append le16_def le32_def u16le_le16 u32le_le32)
  qed
qed

definition encodable :: "ColumnMetadata \<times> nat list \<Rightarrow> bool" where
  "encodable cn \<longleftrightarrow> wf_column (fst cn) \<and> list_all is_scalar (snd cn) \<and>
     length (utf16_enc (snd cn)) < 256 \<and> col_name (fst cn) = utf8_enc (snd cn)"

lemma ParseColumn_enc:
  assumes "simdutf_contract U" and "encodable cn"
  shows "ParseColumn U (enc_column cn @ rest) = Ret (fst cn, length (enc_column cn))"
proof -
  obtain c cps where cn: "cn = (c, cps)" by (cases cn)
  let ?us = "utf16_enc cps" let ?ti = "enc_type_info c"
  let ?h = "[0, 0, 0, 0] @ le16 (col_flags c)"
  let ?d = "enc_column cn @ rest"
  from assms(2) cn have w: "wf_column c" "list_all is_scalar cps" "length ?us < 256" "col_name c = utf8_enc cps"
    by (auto simp: encodable_def)
  have d: "?d = ?h @ ?ti @ ([of_nat (length ?us)] @ unit_bytes ?us @ rest)" "?d = (?h @ ?ti) @ of_nat (length ?us) # unit_bytes ?us @ rest"
    by (simp_all add: enc_column_def cn)
  have l: "length (enc_column cn) = 7 + length ?ti + 2 * length ?us" by (simp add: enc_column_def cn)
  have f: "rd_u16le ?d 4 = Ret (col_flags c)"
    by (simp add: enc_column_def cn le16_def u16le_le16)
  have 1: "ParseTypeInfo ?d 6 c0 = Ret (c\<lparr>col_name := col_name c0, col_flags := col_flags c0\<rparr>, 6 + length ?ti)" for c0
    using ParseTypeInfo_enc [OF w(1), of ?h 6] unfolding d(1) by simp
  have n: "unat (of_nat (length ?us) :: byte) = length ?us" using w(3) by (rule unat_byte_small)
  have "?d ! (6 + length ?ti) = of_nat (length ?us)" unfolding d(2) by (simp add: nth_append)
  moreover have "take (2 * length ?us) (drop (7 + length ?ti) ?d) = unit_bytes ?us"
  proof -
    have d3: "?d = (?h @ ?ti @ [of_nat (length ?us)]) @ unit_bytes ?us @ rest" using d(2) by simp
    have "length (?h @ ?ti @ [of_nat (length ?us)]) = 7 + length ?ti" by simp
    then have "drop (7 + length ?ti) ?d = unit_bytes ?us @ rest" unfolding d3 by (metis append_eq_conv_conj)
    then show ?thesis by simp
  qed
  ultimately have 2: "ParseColumnName U ?d (6 + length ?ti) = Ret (utf8_enc cps, length (enc_column cn))"
    using l n w(2) simdutf_contract.Decode_eq [OF assms(1)]
    by (simp add: ParseColumnName_def Let_def mult.commute)
  from 1 2 f l w(4) show ?thesis by (simp add: ParseColumn_def Let_def fresh_column_def cn)
qed

lemma ParseColumns_enc:
  assumes "simdutf_contract U" and "list_all encodable cns" and "length cns < 0xFFFF"
  shows "ParseColumns U (enc_columns cns @ rest) = Ret (length (enc_columns cns), map fst cns)"
proof -
  have w: "walk (\<lambda>_. ParseColumn U) snd (map (\<lambda>_. ()) cns) (concat (map enc_column cns) @ rest) 0 =
     Ret (length (concat (map enc_column cns)), map (\<lambda>cn. (fst cn, length (enc_column cn))) cns)"
    using assms(1,2) by (intro walk_append) (auto simp: list_all_iff ParseColumn_enc)
  have c: "unat (of_nat (length cns) :: u16) = length cns" "(of_nat (length cns) :: u16) \<noteq> 0xFFFF"
    using assms(3) by (auto simp: u16_of_nat dest: arg_cong [where f = unat])
  have r: "rd_u16le (enc_columns cns @ rest) 0 = Ret (of_nat (length cns))"
    by (simp add: enc_columns_def le16_def u16le_le16)
  have dr: "drop 2 (enc_columns cns @ rest) = concat (map enc_column cns) @ rest" by (simp add: enc_columns_def)
  show ?thesis
    unfolding ParseColumns_eq walk_shift [where off = 2] r dr
    using c w by (simp add: map_replicate_const enc_columns_def)
qed

text \<open>C28: every column the parser accepts is of a supported type and carries exactly the attributes
  of that type; in particular a TIME, DATETIME2 or DATETIMEOFFSET column has a fractional-second
  scale of at most 7, which is what the value decoders rely on when they scale by powers of ten.\<close>

theorem ParseColumns_accepts_wf:
  assumes "ParseColumns U d = Ret (n, cols)"
  shows "list_all wf_column cols \<and> 2 \<le> n \<and> n \<le> length d"
proof -
  have "list_all wf_column cols"
    using assms walk_all [where f = "\<lambda>_. ParseColumn U" and P = "\<lambda>r. wf_column (fst r)"]
    by (fastforce simp: ParseColumns_eq res_simps list_all_iff dest: ParseColumn_wf split: if_splits)
  with assms ParseColumns_min [OF assms] metadata.used_le [OF assms] show ?thesis by simp
qed

text \<open>C27: the COLMETADATA parser reads back every well-formed column list: on the bytes a server sends
  for the columns, followed by anything, it returns exactly these columns and consumes exactly
  these bytes.\<close>

theorem ParseColumns_roundtrip:
  assumes "simdutf_contract U" and "list_all encodable cns" and "length cns < 0xFFFF"
  shows "ParseColumns U (enc_columns cns @ rest) = Ret (length (enc_columns cns), map fst cns)"
  using assms by (rule ParseColumns_enc)

definition sample_column :: ColumnMetadata where
  "sample_column = \<lparr> col_name = [0x69, 0x64], type_id = TDS_TYPE_NVARCHAR, max_length = 100, precision = 0,
     scale = 0, collation = 0x00D00409, col_flags = 9 \<rparr>"

lemma sample_encodable: "encodable (sample_column, [0x69, 0x64])"
  by (simp add: encodable_def sample_column_def wf_column_def fixed_info_types_def is_scalar_def
      utf16_of_cp_def utf8_of_cp_def)

theorem ParseColumns_roundtrip_witness:
  "ParseColumns ref_simdutf (enc_columns [(sample_column, [0x69, 0x64])] @ [0xFD]) = Ret (21, [sample_column])"
  using ParseColumns_roundtrip [OF ref.simdutf_contract_axioms, of "[(sample_column, [0x69, 0x64])]" "[0xFD]"]
    sample_encodable
  by (simp add: enc_columns_def enc_column_def enc_type_info_def sample_column_def fixed_info_types_def utf16_of_cp_def)

theorem ParseColumns_accepts_wf_witness:
  "list_all wf_column [sample_column] \<and> 2 \<le> (21 :: nat) \<and>
     21 \<le> length (enc_columns [(sample_column, [0x69, 0x64])])"
proof (rule ParseColumns_accepts_wf [of ref_simdutf])
  show "ParseColumns ref_simdutf (enc_columns [(sample_column, [0x69, 0x64])]) = Ret (21, [sample_column])"
    using ParseColumns_enc [OF ref.simdutf_contract_axioms, of "[(sample_column, [0x69, 0x64])]" "[]"]
      sample_encodable
    by (simp add: enc_columns_def enc_column_def enc_type_info_def sample_column_def fixed_info_types_def utf16_of_cp_def)
qed

end
