(* ===== verification/Row_Reader.thy ===== *)
theory Row_Reader
  imports Column_Metadata
begin

text \<open>
  The row reader, \<open>src/tds/tds_row_reader.cpp\<close>: for each column type the routine that copies one
  value out of the token buffer and the routine that only measures it, the loops over the columns
  of a ROW and of an NBCROW, and the precomputed skip forms that replace the per-value type switch
  on the hot path. A routine takes the rest of the buffer and returns the number of bytes it
  consumed; the source's 0 (\<open>need more data\<close>) is \<open>More\<close>.

  The debug printing of the PLP reader and the capacity hints (\<open>reserve\<close>) have no counterpart.
\<close>

subsection \<open>Rows\<close>

record RowData =
  row_values :: "byte list list"
  null_mask :: "bool list"

definition row_Clear :: "RowData \<Rightarrow> RowData" where
  "row_Clear row = \<lparr> row_values = map (\<lambda>_. []) (row_values row), null_mask = map (\<lambda>_. False) (null_mask row) \<rparr>"

definition Prepare :: "nat \<Rightarrow> RowData \<Rightarrow> RowData" where
  "Prepare num_columns row =
     (if length (row_values row) \<noteq> num_columns
      then \<lparr> row_values = resize num_columns [] (row_values row),
             null_mask = resize num_columns False (null_mask row) \<rparr>
      else row_Clear row)"

subsection \<open>Values\<close>

text \<open>A value routine returns the bytes consumed, the value and the NULL flag.\<close>

type_synonym value_res = "(nat \<times> byte list \<times> bool) res"

definition MAX_LOB_VALUE_BYTES :: u32 where
  "MAX_LOB_VALUE_BYTES = 2147483647"

definition PLP_NULL_MARKER :: u64 where
  "PLP_NULL_MARKER = 0xFFFFFFFFFFFFFFFF"

definition fixed_type_size :: "byte \<Rightarrow> nat option" where
  "fixed_type_size t =
     (if t \<in> {TDS_TYPE_TINYINT, TDS_TYPE_BIT} then Some 1
      else if t = TDS_TYPE_SMALLINT then Some 2
      else if t \<in> {TDS_TYPE_INT, TDS_TYPE_REAL, TDS_TYPE_SMALLMONEY, TDS_TYPE_SMALLDATETIME} then Some 4
      else if t \<in> {TDS_TYPE_BIGINT, TDS_TYPE_FLOAT, TDS_TYPE_MONEY, TDS_TYPE_DATETIME} then Some 8
      else None)"

definition ReadFixedType :: "byte list \<Rightarrow> byte \<Rightarrow> value_res" where
  "ReadFixedType data t =
     (case fixed_type_size t of
        None \<Rightarrow> Throw (''Unknown fixed type: '' @ to_string (unat t))
      | Some sz \<Rightarrow>
          need (sz \<le> length data) (bind_res (rd_block data 0 sz) (\<lambda>v. Ret (sz, v, False))))"

text \<open>The one-byte length prefix, 0 for NULL: the body six of the readers share.\<close>

definition read_prefix1 :: "byte list \<Rightarrow> value_res" where
  "read_prefix1 data =
     need (1 \<le> length data) (
     bind_res (rd data 0) (\<lambda>data_length.
     if data_length = 0 then Ret (1, [], True)
     else need (1 + unat data_length \<le> length data) (
       bind_res (rd_block data 1 (unat data_length)) (\<lambda>v. Ret (1 + unat data_length, v, False)))))"

definition ReadNullableFixedType :: "byte list \<Rightarrow> byte \<Rightarrow> byte \<Rightarrow> value_res" where
  "ReadNullableFixedType data t declared_length = read_prefix1 data"

definition ReadVariableLengthType :: "byte list \<Rightarrow> byte \<Rightarrow> value_res" where
  "ReadVariableLengthType data t =
     need (2 \<le> length data) (
     bind_res (rd_u16le data 0) (\<lambda>data_length.
     if data_length = 0xFFFF then Ret (2, [], True)
     else need (2 + unat data_length \<le> length data) (
       bind_res (rd_block data 2 (unat data_length)) (\<lambda>v. Ret (2 + unat data_length, v, False)))))"

definition ReadDecimalType :: "byte list \<Rightarrow> value_res" where
  "ReadDecimalType data = read_prefix1 data"

definition ReadDateType :: "byte list \<Rightarrow> value_res" where
  "ReadDateType data = read_prefix1 data"

definition ReadTimeType :: "byte list \<Rightarrow> byte \<Rightarrow> value_res" where
  "ReadTimeType data sc = read_prefix1 data"

definition ReadDateTime2Type :: "byte list \<Rightarrow> byte \<Rightarrow> value_res" where
  "ReadDateTime2Type data sc = read_prefix1 data"

definition ReadDateTimeOffsetType :: "byte list \<Rightarrow> byte \<Rightarrow> value_res" where
  "ReadDateTimeOffsetType data sc = read_prefix1 data"

definition ReadGuidType :: "byte list \<Rightarrow> value_res" where
  "ReadGuidType data =
     need (1 \<le> length data) (
     bind_res (rd data 0) (\<lambda>data_length.
     if data_length = 0 then Ret (1, [], True)
     else need (1 + 16 \<le> length data) (
       bind_res (rd_block data 1 16) (\<lambda>v. Ret (1 + 16, v, False)))))"

text \<open>The PLP chunk loop: \<open>while (true)\<close>, left at the zero-length terminator.\<close>

function plp_read_loop :: "byte list \<Rightarrow> nat \<Rightarrow> byte list \<Rightarrow> (nat \<times> byte list) res" where
  "plp_read_loop data offset val =
     need (offset + 4 \<le> length data) (
     bind_res (rd_u32le data offset) (\<lambda>chunk_length.
     if chunk_length = 0 then Ret (offset + 4, val)
     else need (offset + 4 + unat chunk_length \<le> length data) (
       bind_res (rd_block data (offset + 4) (unat chunk_length)) (\<lambda>chunk.
         plp_read_loop data (offset + 4 + unat chunk_length) (val @ chunk)))))"
  by pat_completeness auto
termination
  by (relation "measure (\<lambda>(data, offset, val). length data - offset)") auto

function plp_skip_loop :: "byte list \<Rightarrow> nat \<Rightarrow> nat res" where
  "plp_skip_loop data offset =
     need (offset + 4 \<le> length data) (
     bind_res (rd_u32le data offset) (\<lambda>chunk_length.
     if chunk_length = 0 then Ret (offset + 4)
     else need (offset + 4 + unat chunk_length \<le> length data)
       (plp_skip_loop data (offset + 4 + unat chunk_length))))"
  by pat_completeness auto
termination
  by (relation "measure (\<lambda>(data, offset). length data - offset)") auto

declare plp_read_loop.simps [simp del] plp_skip_loop.simps [simp del]

definition ReadPLPType :: "byte list \<Rightarrow> value_res" where
  "ReadPLPType data =
     need (8 \<le> length data) (
     bind_res (rd_u64le data 0) (\<lambda>total_length.
     if total_length = PLP_NULL_MARKER then Ret (8, [], True)
     else map_res (\<lambda>(offset, val). (offset, val, False)) (plp_read_loop data 8 [])))"

definition SkipPLPType :: "byte list \<Rightarrow> nat res" where
  "SkipPLPType data =
     need (8 \<le> length data) (
     bind_res (rd_u64le data 0) (\<lambda>total_length.
     if total_length = PLP_NULL_MARKER then Ret 8 else plp_skip_loop data 8))"

definition fixed_value_types :: "byte set" where
  "fixed_value_types =
     {TDS_TYPE_TINYINT, TDS_TYPE_BIT, TDS_TYPE_SMALLINT, TDS_TYPE_INT, TDS_TYPE_BIGINT, TDS_TYPE_REAL,
      TDS_TYPE_FLOAT, TDS_TYPE_MONEY, TDS_TYPE_SMALLMONEY, TDS_TYPE_DATETIME, TDS_TYPE_SMALLDATETIME}"

definition nullable_fixed_types :: "byte set" where
  "nullable_fixed_types = {TDS_TYPE_INTN, TDS_TYPE_BITN, TDS_TYPE_FLOATN, TDS_TYPE_MONEYN, TDS_TYPE_DATETIMEN}"

definition varlen_types :: "byte set" where
  "varlen_types =
     {TDS_TYPE_BIGCHAR, TDS_TYPE_BIGVARCHAR, TDS_TYPE_NCHAR, TDS_TYPE_NVARCHAR, TDS_TYPE_BIGBINARY,
      TDS_TYPE_BIGVARBINARY}"

definition lob_types :: "byte set" where
  "lob_types = {TDS_TYPE_TEXT, TDS_TYPE_NTEXT, TDS_TYPE_IMAGE}"

definition ReadValue :: "ColumnMetadata \<Rightarrow> byte list \<Rightarrow> value_res" where
  "ReadValue col data =
     (let t = type_id col in
      if t \<in> fixed_value_types then ReadFixedType data t
      else if t \<in> nullable_fixed_types then ReadNullableFixedType data t (ucast (max_length col))
      else if t = TDS_TYPE_XML then ReadPLPType data
      else if t \<in> varlen_types then
        (if IsPLPType col then ReadPLPType data else ReadVariableLengthType data t)
      else if t \<in> {TDS_TYPE_DECIMAL, TDS_TYPE_NUMERIC} then ReadDecimalType data
      else if t = TDS_TYPE_DATE then ReadDateType data
      else if t = TDS_TYPE_TIME then ReadTimeType data (scale col)
      else if t = TDS_TYPE_DATETIME2 then ReadDateTime2Type data (scale col)
      else if t = TDS_TYPE_DATETIMEOFFSET then ReadDateTimeOffsetType data (scale col)
      else if t = TDS_TYPE_UNIQUEIDENTIFIER then ReadGuidType data
      else Throw (''Unsupported type in RowReader: '' @ GetTypeName col))"

text \<open>In an NBCROW the NULL bitmap has spoken already: a zero prefix is an empty value.\<close>

definition read_prefix1_nbc :: "byte list \<Rightarrow> value_res" where
  "read_prefix1_nbc data =
     need (1 \<le> length data) (
     bind_res (rd data 0) (\<lambda>data_length.
     need (1 + unat data_length \<le> length data) (
     bind_res (rd_block data 1 (unat data_length)) (\<lambda>v. Ret (1 + unat data_length, v, False)))))"

definition ReadValueNBC :: "ColumnMetadata \<Rightarrow> byte list \<Rightarrow> value_res" where
  "ReadValueNBC col data =
     (let t = type_id col in
      if t \<in> fixed_value_types then ReadFixedType data t
      else if t \<in> nullable_fixed_types then read_prefix1_nbc data
      else if t = TDS_TYPE_XML then ReadPLPType data
      else if t \<in> varlen_types then
        (if IsPLPType col then ReadPLPType data else ReadVariableLengthType data t)
      else if t \<in> {TDS_TYPE_DECIMAL, TDS_TYPE_NUMERIC} then read_prefix1_nbc data
      else if t = TDS_TYPE_DATE then read_prefix1_nbc data
      else if t = TDS_TYPE_TIME then read_prefix1_nbc data
      else if t = TDS_TYPE_DATETIME2 then read_prefix1_nbc data
      else if t = TDS_TYPE_DATETIMEOFFSET then read_prefix1_nbc data
      else if t = TDS_TYPE_UNIQUEIDENTIFIER then read_prefix1_nbc data
      else Throw (''Unsupported type in NBC RowReader: '' @ GetTypeName col))"

definition skip_prefix1 :: "byte list \<Rightarrow> nat res" where
  "skip_prefix1 data =
     need (1 \<le> length data) (
     bind_res (rd data 0) (\<lambda>data_length.
       zero_more (if 1 + unat data_length \<le> length data then 1 + unat data_length else 0)))"

definition skip_prefix2 :: "byte list \<Rightarrow> nat res" where
  "skip_prefix2 data =
     need (2 \<le> length data) (
     bind_res (rd_u16le data 0) (\<lambda>data_length.
     if data_length = 0xFFFF then Ret 2
     else zero_more (if 2 + unat data_length \<le> length data then 2 + unat data_length else 0)))"

definition skip_lob :: "byte list \<Rightarrow> nat res" where
  "skip_lob data =
     need (1 \<le> length data) (
     bind_res (rd data 0) (\<lambda>p.
     let pointer_len = unat p in
     if pointer_len = 0 then Ret 1
     else let header = 1 + pointer_len + 8 + 4 in
       need (header \<le> length data) (
       bind_res (rd_u32le data (1 + pointer_len + 8)) (\<lambda>data_length.
       if data_length > MAX_LOB_VALUE_BYTES then
         Throw (''TEXT/NTEXT/IMAGE value declares '' @ to_string (unat data_length) @
           '' bytes, past the '' @ to_string (unat MAX_LOB_VALUE_BYTES) @
           ''-byte maximum for the type. The TDS stream is malformed.'')
       else let total = header + unat data_length in
         zero_more (if total \<le> length data then total else 0)))))"

definition skip_fixed :: "nat \<Rightarrow> byte list \<Rightarrow> nat res" where
  "skip_fixed n data = zero_more (if n \<le> length data then n else 0)"

definition prefix1_types :: "byte set" where
  "prefix1_types =
     {TDS_TYPE_INTN, TDS_TYPE_BITN, TDS_TYPE_FLOATN, TDS_TYPE_MONEYN, TDS_TYPE_DATETIMEN, TDS_TYPE_DECIMAL,
      TDS_TYPE_NUMERIC, TDS_TYPE_DATE, TDS_TYPE_TIME, TDS_TYPE_DATETIME2, TDS_TYPE_DATETIMEOFFSET,
      TDS_TYPE_UNIQUEIDENTIFIER}"

definition SkipValue :: "ColumnMetadata \<Rightarrow> byte list \<Rightarrow> nat res" where
  "SkipValue col data =
     (let t = type_id col in
      if t \<in> {TDS_TYPE_TINYINT, TDS_TYPE_BIT} then skip_fixed 1 data
      else if t = TDS_TYPE_SMALLINT then skip_fixed 2 data
      else if t \<in> {TDS_TYPE_INT, TDS_TYPE_REAL, TDS_TYPE_SMALLMONEY, TDS_TYPE_SMALLDATETIME} then skip_fixed 4 data
      else if t \<in> {TDS_TYPE_BIGINT, TDS_TYPE_FLOAT, TDS_TYPE_MONEY, TDS_TYPE_DATETIME} then skip_fixed 8 data
      else if t \<in> prefix1_types then skip_prefix1 data
      else if t \<in> lob_types then skip_lob data
      else if t = TDS_TYPE_XML then SkipPLPType data
      else if t \<in> varlen_types then (if IsPLPType col then SkipPLPType data else skip_prefix2 data)
      else More)"

definition SkipValueNBC :: "ColumnMetadata \<Rightarrow> byte list \<Rightarrow> nat res" where
  "SkipValueNBC col data =
     (let t = type_id col in
      if t \<in> {TDS_TYPE_TINYINT, TDS_TYPE_BIT} then skip_fixed 1 data
      else if t = TDS_TYPE_SMALLINT then skip_fixed 2 data
      else if t \<in> {TDS_TYPE_INT, TDS_TYPE_REAL, TDS_TYPE_SMALLMONEY, TDS_TYPE_SMALLDATETIME} then skip_fixed 4 data
      else if t \<in> {TDS_TYPE_BIGINT, TDS_TYPE_FLOAT, TDS_TYPE_MONEY, TDS_TYPE_DATETIME} then skip_fixed 8 data
      else if t \<in> nullable_fixed_types then skip_prefix1 data
      else if t \<in> lob_types then skip_lob data
      else if t = TDS_TYPE_XML then SkipPLPType data
      else if t \<in> varlen_types then (if IsPLPType col then SkipPLPType data else skip_prefix2 data)
      else if t \<in> {TDS_TYPE_DECIMAL, TDS_TYPE_NUMERIC} then skip_prefix1 data
      else if t = TDS_TYPE_DATE then skip_prefix1 data
      else if t = TDS_TYPE_TIME then skip_prefix1 data
      else if t = TDS_TYPE_DATETIME2 then skip_prefix1 data
      else if t = TDS_TYPE_DATETIMEOFFSET then skip_prefix1 data
      else if t = TDS_TYPE_UNIQUEIDENTIFIER then skip_prefix1 data
      else More)"

subsection \<open>Precomputed skip forms\<close>

datatype SkipForm = FIXED | PREFIX1 | PREFIX2 | SLOW

record SkipDesc =
  form :: SkipForm
  width :: byte

definition ResolveSkipForm :: "ColumnMetadata \<Rightarrow> SkipDesc" where
  "ResolveSkipForm col =
     (let t = type_id col in
      if t \<in> {TDS_TYPE_TINYINT, TDS_TYPE_BIT} then \<lparr> form = FIXED, width = 1 \<rparr>
      else if t = TDS_TYPE_SMALLINT then \<lparr> form = FIXED, width = 2 \<rparr>
      else if t \<in> {TDS_TYPE_INT, TDS_TYPE_REAL, TDS_TYPE_SMALLMONEY, TDS_TYPE_SMALLDATETIME}
        then \<lparr> form = FIXED, width = 4 \<rparr>
      else if t \<in> {TDS_TYPE_BIGINT, TDS_TYPE_FLOAT, TDS_TYPE_MONEY, TDS_TYPE_DATETIME}
        then \<lparr> form = FIXED, width = 8 \<rparr>
      else if t \<in> prefix1_types then \<lparr> form = PREFIX1, width = 0 \<rparr>
      else if t \<in> varlen_types then
        (if IsPLPType col then \<lparr> form = SLOW, width = 0 \<rparr> else \<lparr> form = PREFIX2, width = 0 \<rparr>)
      else \<lparr> form = SLOW, width = 0 \<rparr>)"

definition SkipByForm :: "byte list \<Rightarrow> SkipDesc \<Rightarrow> nat res" where
  "SkipByForm data desc =
     (case form desc of
        FIXED \<Rightarrow> zero_more (if unat (width desc) \<le> length data then unat (width desc) else 0)
      | PREFIX1 \<Rightarrow>
          need (1 \<le> length data) (
          bind_res (rd data 0) (\<lambda>data_length.
            zero_more (if 1 + unat data_length \<le> length data then 1 + unat data_length else 0)))
      | PREFIX2 \<Rightarrow>
          need (2 \<le> length data) (
          bind_res (rd_u16le data 0) (\<lambda>data_length.
          if data_length = 0xFFFF then Ret 2
          else zero_more (if 2 + unat data_length \<le> length data then 2 + unat data_length else 0)))
      | SLOW \<Rightarrow> More)"

subsection \<open>Rows\<close>

text \<open>The loops over the columns; \<open>col_idx\<close> is the index of the first of the remaining columns.\<close>

fun read_row_loop :: "ColumnMetadata list \<Rightarrow> nat \<Rightarrow> byte list \<Rightarrow> nat \<Rightarrow> RowData \<Rightarrow> (nat \<times> RowData) res" where
  "read_row_loop [] col_idx data offset row = Ret (offset, row)"
| "read_row_loop (c # cs) col_idx data offset row =
     bind_res (ReadValue c (drop offset data)) (\<lambda>(consumed, v, is_null).
       read_row_loop cs (col_idx + 1) data (offset + consumed)
         \<lparr> row_values = (row_values row)[col_idx := v], null_mask = (null_mask row)[col_idx := is_null] \<rparr>)"

definition ReadRow :: "ColumnMetadata list \<Rightarrow> byte list \<Rightarrow> RowData \<Rightarrow> (nat \<times> RowData) res" where
  "ReadRow columns data row = read_row_loop columns 0 data 0 (Prepare (length columns) row)"

fun skip_row_loop :: "SkipDesc list option \<Rightarrow> ColumnMetadata list \<Rightarrow> nat \<Rightarrow> byte list \<Rightarrow> nat \<Rightarrow> nat res" where
  "skip_row_loop descs [] col_idx data offset = Ret offset"
| "skip_row_loop descs (c # cs) col_idx data offset =
     bind_res
       (case descs of
          None \<Rightarrow> SkipValue c (drop offset data)
        | Some ds \<Rightarrow>
            if col_idx < length ds then
              (if form (ds ! col_idx) = SLOW then SkipValue c (drop offset data)
               else SkipByForm (drop offset data) (ds ! col_idx))
            else OOB)
       (\<lambda>consumed. skip_row_loop descs cs (col_idx + 1) data (offset + consumed))"

definition SkipRow :: "SkipDesc list option \<Rightarrow> ColumnMetadata list \<Rightarrow> byte list \<Rightarrow> nat res" where
  "SkipRow descs columns data = skip_row_loop descs columns 0 data 0"

definition bitmap_bit :: "byte list \<Rightarrow> nat \<Rightarrow> bool res" where
  "bitmap_bit data col_idx =
     bind_res (rd data (col_idx div 8)) (\<lambda>b. Ret (b AND push_bit (col_idx mod 8) 1 \<noteq> 0))"

fun read_nbc_loop :: "ColumnMetadata list \<Rightarrow> nat \<Rightarrow> byte list \<Rightarrow> nat \<Rightarrow> RowData \<Rightarrow> (nat \<times> RowData) res" where
  "read_nbc_loop [] col_idx data offset row = Ret (offset, row)"
| "read_nbc_loop (c # cs) col_idx data offset row =
     (if null_mask row ! col_idx then read_nbc_loop cs (col_idx + 1) data offset row
      else bind_res (ReadValueNBC c (drop offset data)) (\<lambda>(consumed, v, is_null).
        read_nbc_loop cs (col_idx + 1) data (offset + consumed)
          (row\<lparr>row_values := (row_values row)[col_idx := v]\<rparr>)))"

definition ReadNBCRow :: "ColumnMetadata list \<Rightarrow> byte list \<Rightarrow> RowData \<Rightarrow> (nat \<times> RowData) res" where
  "ReadNBCRow columns data row =
     (let row = Prepare (length columns) row; bitmap_bytes = (length columns + 7) div 8 in
      need (bitmap_bytes \<le> length data) (
      bind_res (mapM_res (bitmap_bit data) [0..<length columns]) (\<lambda>bits.
        read_nbc_loop columns 0 data bitmap_bytes (row\<lparr>null_mask := bits\<rparr>))))"

fun skip_nbc_loop :: "SkipDesc list option \<Rightarrow> ColumnMetadata list \<Rightarrow> nat \<Rightarrow> byte list \<Rightarrow> nat \<Rightarrow> nat res" where
  "skip_nbc_loop descs [] col_idx data offset = Ret offset"
| "skip_nbc_loop descs (c # cs) col_idx data offset =
     bind_res (bitmap_bit data col_idx) (\<lambda>is_null.
     if is_null then skip_nbc_loop descs cs (col_idx + 1) data offset
     else bind_res
       (case descs of
          None \<Rightarrow> SkipValueNBC c (drop offset data)
        | Some ds \<Rightarrow>
            if col_idx < length ds then
              (if form (ds ! col_idx) \<noteq> SLOW then SkipByForm (drop offset data) (ds ! col_idx)
               else SkipValueNBC c (drop offset data))
            else OOB)
       (\<lambda>consumed. skip_nbc_loop descs cs (col_idx + 1) data (offset + consumed)))"

definition SkipNBCRow :: "SkipDesc list option \<Rightarrow> ColumnMetadata list \<Rightarrow> byte list \<Rightarrow> nat res" where
  "SkipNBCRow descs columns data =
     (let bitmap_bytes = (length columns + 7) div 8 in
      need (bitmap_bytes \<le> length data) (skip_nbc_loop descs columns 0 data bitmap_bytes))"

subsection \<open>Measuring agrees with reading\<close>

lemma map_res_id [simp]: "map_res (\<lambda>n. n) r = r"
  by (cases r) auto

lemma zero_more_simps [simp]: "zero_more (Suc n) = Ret (Suc n)" "zero_more 0 = More"
  by (simp_all add: zero_more_def)

lemma zero_more_if: "zero_more (if c then n else 0) = need (c \<and> n \<noteq> 0) (Ret n)"
  by (simp add: zero_more_def need_def)

lemmas type_sets = fixed_value_types_def nullable_fixed_types_def varlen_types_def lob_types_def prefix1_types_def

lemma SkipValueNBC_eq: "SkipValueNBC col data = SkipValue col data"
proof (cases "type_id col \<in> prefix1_types")
  case True
  then show ?thesis
    by (simp add: prefix1_types_def; elim disjE; simp add: SkipValueNBC_def SkipValue_def type_sets)
next
  case False
  then have "type_id col \<notin> nullable_fixed_types"
    "type_id col \<notin> {TDS_TYPE_DECIMAL, TDS_TYPE_NUMERIC}" "type_id col \<noteq> TDS_TYPE_DATE"
    "type_id col \<noteq> TDS_TYPE_TIME" "type_id col \<noteq> TDS_TYPE_DATETIME2"
    "type_id col \<noteq> TDS_TYPE_DATETIMEOFFSET" "type_id col \<noteq> TDS_TYPE_UNIQUEIDENTIFIER"
    by (auto simp: type_sets)
  with False show ?thesis unfolding SkipValueNBC_def SkipValue_def Let_def by (simp only: if_False)
qed

lemma SkipByForm_eq:
  "form (ResolveSkipForm col) \<noteq> SLOW \<Longrightarrow> SkipByForm data (ResolveSkipForm col) = SkipValue col data"
proof -
  assume "form (ResolveSkipForm col) \<noteq> SLOW"
  moreover have "type_id col \<in> varlen_types \<Longrightarrow> type_id col \<notin> lob_types \<and> type_id col \<noteq> TDS_TYPE_XML"
    by (auto simp: lob_types_def varlen_types_def)
  ultimately show ?thesis
    by (auto simp: ResolveSkipForm_def SkipByForm_def SkipValue_def skip_fixed_def skip_prefix1_def
        skip_prefix2_def Let_def split: if_splits)
qed

lemma plp_skip_read: "plp_skip_loop data offset = map_res fst (plp_read_loop data offset val)"
proof (induction data offset val rule: plp_read_loop.induct)
  case (1 data offset val)
  show ?case
  proof (cases "offset + 4 \<le> length data")
    case True
    then obtain w where w: "rd_u32le data offset = Ret w" by simp
    have IH: "w \<noteq> 0 \<Longrightarrow> offset + 4 + unat w \<le> length data \<Longrightarrow>
       plp_skip_loop data (offset + 4 + unat w) =
       map_res fst (plp_read_loop data (offset + 4 + unat w) (val @ take (unat w) (drop (offset + 4) data)))"
      by (rule 1) (use True w in auto)
    from True w show ?thesis
      by (subst plp_skip_loop.simps, subst plp_read_loop.simps) (auto simp: IH need_def simp del: rd_u32le_in)
  next
    case False
    then show ?thesis by (subst plp_skip_loop.simps, subst plp_read_loop.simps) simp
  qed
qed

lemma SkipPLP_read: "SkipPLPType data = map_res fst (ReadPLPType data)"
proof -
  have "map_res fst (map_res (\<lambda>(o', v). (o', v, False)) r) = map_res fst r" for r :: "(nat \<times> byte list) res"
    by (cases r) auto
  then show ?thesis
    by (auto simp: SkipPLPType_def ReadPLPType_def need_def plp_skip_read [of data 8 "[]"])
qed

lemma read_prefix_skip:
  "map_res fst (read_prefix1 data) = skip_prefix1 data"
  "map_res fst (read_prefix1_nbc data) = skip_prefix1 data"
  "map_res fst (ReadVariableLengthType data t) = skip_prefix2 data"
  by (auto simp: read_prefix1_def read_prefix1_nbc_def skip_prefix1_def ReadVariableLengthType_def
      skip_prefix2_def need_def Suc_le_eq)

lemma ReadGuid_skip:
  "data = [] \<or> data ! 0 \<in> {0, 16} \<Longrightarrow> map_res fst (ReadGuidType data) = skip_prefix1 data"
  by (auto simp: ReadGuidType_def skip_prefix1_def need_def Suc_le_eq)

definition readable_type :: "byte \<Rightarrow> bool" where
  "readable_type t \<longleftrightarrow> t \<in> fixed_value_types \<union> prefix1_types \<union> varlen_types \<union> {TDS_TYPE_XML}"

lemmas prefix1_readers = ReadNullableFixedType_def ReadDecimalType_def ReadDateType_def ReadTimeType_def
  ReadDateTime2Type_def ReadDateTimeOffsetType_def

lemma ReadFixed_skip:
  "fixed_type_size t = Some n \<Longrightarrow> 0 < n \<Longrightarrow> map_res fst (ReadFixedType data t) = skip_fixed n data"
  by (auto simp: ReadFixedType_def skip_fixed_def need_def zero_more_def)

lemma ReadValue_skip:
  assumes "readable_type (type_id c)"
    and "type_id c = TDS_TYPE_UNIQUEIDENTIFIER \<Longrightarrow> data = [] \<or> data ! 0 \<in> {0, 16}"
  shows "map_res fst (ReadValue c data) = SkipValue c data"
proof -
  consider "type_id c \<in> fixed_value_types" | "type_id c \<in> prefix1_types" | "type_id c \<in> varlen_types"
    | "type_id c = TDS_TYPE_XML"
    using assms(1) by (auto simp: readable_type_def)
  then show ?thesis
  proof cases
    case 1
    then show ?thesis
      by (simp add: fixed_value_types_def; elim disjE;
        simp add: ReadValue_def SkipValue_def fixed_value_types_def ReadFixed_skip fixed_type_size_def)
  next
    case 2
    then show ?thesis using assms(2)
      by (simp add: prefix1_types_def; elim disjE;
        simp add: ReadValue_def SkipValue_def type_sets prefix1_readers read_prefix_skip ReadGuid_skip)
  next
    case 3
    then show ?thesis
      by (simp add: varlen_types_def; elim disjE;
        simp add: ReadValue_def SkipValue_def type_sets SkipPLP_read read_prefix_skip)
  next
    case 4
    then show ?thesis by (simp add: ReadValue_def SkipValue_def type_sets SkipPLP_read)
  qed
qed

lemma ReadValueNBC_skip:
  assumes "readable_type (type_id c)"
  shows "map_res fst (ReadValueNBC c data) = SkipValue c data"
proof -
  consider "type_id c \<in> fixed_value_types" | "type_id c \<in> prefix1_types" | "type_id c \<in> varlen_types"
    | "type_id c = TDS_TYPE_XML"
    using assms(1) by (auto simp: readable_type_def)
  then show ?thesis
  proof cases
    case 1
    then show ?thesis
      by (simp add: fixed_value_types_def; elim disjE;
        simp add: ReadValueNBC_def SkipValue_def fixed_value_types_def ReadFixed_skip fixed_type_size_def)
  next
    case 2
    then show ?thesis
      by (simp add: prefix1_types_def; elim disjE;
        simp add: ReadValueNBC_def SkipValue_def type_sets prefix1_readers read_prefix_skip)
  next
    case 3
    then show ?thesis
      by (simp add: varlen_types_def; elim disjE;
        simp add: ReadValueNBC_def SkipValue_def type_sets SkipPLP_read read_prefix_skip)
  next
    case 4
    then show ?thesis by (simp add: ReadValueNBC_def SkipValue_def type_sets SkipPLP_read)
  qed
qed

subsection \<open>Bounds discipline\<close>

lemma plp_read_total: "plp_read_loop data offset val \<noteq> OOB \<and> plp_read_loop data offset val \<noteq> Throw m"
proof (induction data offset val rule: plp_read_loop.induct)
  case (1 data offset val)
  then show ?case by (subst (1 2) plp_read_loop.simps) (auto simp: need_def)
qed

lemma plp_read_step:
  assumes "offset + 4 \<le> length data" "rd_u32le data offset = Ret w"
  shows "plp_read_loop data offset val =
     (if w = 0 then Ret (offset + 4, val)
      else need (offset + 4 + unat w \<le> length data)
        (plp_read_loop data (offset + 4 + unat w) (val @ take (unat w) (drop (offset + 4) data))))"
  using assms by (subst plp_read_loop.simps) (simp add: need_def del: rd_u32le_in)

lemma plp_read_own_bytes:
  "plp_read_loop data offset val = Ret (n, v) \<Longrightarrow>
     offset + 4 \<le> n \<and> n \<le> length data \<and> (\<forall>e. plp_read_loop (take n data @ e) offset val = Ret (n, v))"
proof (induction data offset val rule: plp_read_loop.induct)
  case (1 data offset val)
  from "1.prems" have len: "offset + 4 \<le> length data"
    by (subst (asm) plp_read_loop.simps) (simp add: res_simps)
  then obtain w where w: "rd_u32le data offset = Ret w" by simp
  have rd: "rd_u32le (take m data @ e) offset = Ret w" if "offset + 4 \<le> m" for m e
    using w len that by (simp add: nth_append)
  note step = plp_read_step [OF len w, of val]
  show ?case
  proof (cases "w = 0")
    case True
    with "1.prems" step have n: "n = offset + 4" "v = val" by auto
    have "plp_read_loop (take n data @ e) offset val = Ret (n, v)" for e
      using plp_read_step [OF _ rd, of n e val] True len n by simp
    with n len show ?thesis by simp
  next
    case False
    let ?o = "offset + 4 + unat w" let ?b = "take (unat w) (drop (offset + 4) data)"
    from "1.prems" step False have o: "?o \<le> length data" and l: "plp_read_loop data ?o (val @ ?b) = Ret (n, v)"
      by (simp_all only: if_False need_Ret_iff)
    have bl: "rd_block data (offset + 4) (unat w) = Ret ?b" using o by simp
    from "1.IH" [OF len w False o bl l] have
      IH: "?o + 4 \<le> n" "n \<le> length data" "plp_read_loop (take n data @ e) ?o (val @ ?b) = Ret (n, v)" for e
      by auto
    have "unat w \<le> n - (offset + 4)" "n - (offset + 4) \<le> length data - (offset + 4)" using IH by linarith+
    then have b: "take (unat w) (drop (offset + 4) (take n data @ e)) = ?b" for e
      by (simp add: drop_take min_def)
    have "plp_read_loop (take n data @ e) offset val = Ret (n, v)" for e
      using plp_read_step [OF _ rd, of n e val] False IH o b [of e] by simp
    with IH show ?thesis by simp
  qed
qed

lemma reads_plp_loop: "reads fst n (\<lambda>d. plp_read_loop d n val)"
  unfolding reads_def using plp_read_total plp_read_own_bytes by fastforce

lemma reads_ReadPLPType: "reads fst 0 ReadPLPType"
  unfolding ReadPLPType_def
  by (intro reads_intros reads_map_res) (auto simp: case_prod_beta intro: reads_plp_loop)

lemma reads_value_readers:
  "reads fst 0 (\<lambda>d. ReadFixedType d t)" "reads fst 0 read_prefix1" "reads fst 0 read_prefix1_nbc"
  "reads fst 0 (\<lambda>d. ReadVariableLengthType d t)" "reads fst 0 ReadGuidType"
proof -
  show "reads fst 0 (\<lambda>d. ReadFixedType d t)" unfolding ReadFixedType_def
    by (cases "fixed_type_size t") (auto intro!: reads_intros)
  show "reads fst 0 read_prefix1" unfolding read_prefix1_def by (intro reads_intros) auto
  show "reads fst 0 read_prefix1_nbc" unfolding read_prefix1_nbc_def by (intro reads_intros) auto
  show "reads fst 0 (\<lambda>d. ReadVariableLengthType d t)" unfolding ReadVariableLengthType_def
    by (intro reads_intros) auto
  show "reads fst 0 ReadGuidType" unfolding ReadGuidType_def by (intro reads_intros) auto
qed

lemma reads_ReadValue: "reads fst 0 (ReadValue c)"
  unfolding ReadValue_def Let_def prefix1_readers
  by (intro reads_intros reads_value_readers reads_ReadPLPType)

lemma reads_ReadValueNBC: "reads fst 0 (ReadValueNBC c)"
  unfolding ReadValueNBC_def Let_def
  by (intro reads_intros reads_value_readers reads_ReadPLPType)

lemma reads_zero_more [reads_intros]:
  "n \<le> m \<Longrightarrow> reads (\<lambda>k. k) n (\<lambda>d. zero_more (if m \<le> length d then m else 0))"
  by (auto simp: reads_def zero_more_def)

lemma reads_skippers:
  "reads (\<lambda>n. n) 0 (skip_fixed k)" "reads (\<lambda>n. n) 0 skip_prefix1" "reads (\<lambda>n. n) 0 skip_prefix2"
  "reads (\<lambda>n. n) 0 skip_lob" "reads (\<lambda>n. n) 0 SkipPLPType"
proof -
  show "reads (\<lambda>n. n) 0 (skip_fixed k)" unfolding skip_fixed_def by (intro reads_intros) auto
  show "reads (\<lambda>n. n) 0 skip_prefix1" unfolding skip_prefix1_def by (intro reads_intros) auto
  show "reads (\<lambda>n. n) 0 skip_prefix2" unfolding skip_prefix2_def by (intro reads_intros) auto
  show "reads (\<lambda>n. n) 0 skip_lob" unfolding skip_lob_def Let_def by (intro reads_intros) auto
  have "reads (\<lambda>r. (\<lambda>n. n) (fst r)) 0 ReadPLPType" using reads_ReadPLPType by simp
  then show "reads (\<lambda>n. n) 0 SkipPLPType" unfolding SkipPLP_read [abs_def] by (rule reads_map_res)
qed

lemma reads_SkipValue: "reads (\<lambda>n. n) 0 (SkipValue c)"
  unfolding SkipValue_def Let_def by (intro reads_intros reads_skippers)

lemma skippers_pos:
  "skip_fixed k d = Ret n \<Longrightarrow> 0 < n" "skip_prefix1 d = Ret n \<Longrightarrow> 0 < n" "skip_prefix2 d = Ret n \<Longrightarrow> 0 < n"
  "skip_lob d = Ret n \<Longrightarrow> 0 < n" "SkipPLPType d = Ret n \<Longrightarrow> 0 < n"
proof -
  have z: "zero_more k = Ret n \<Longrightarrow> 0 < n" for k by (auto simp: zero_more_def split: if_splits)
  show "skip_fixed k d = Ret n \<Longrightarrow> 0 < n" "skip_prefix1 d = Ret n \<Longrightarrow> 0 < n" "skip_prefix2 d = Ret n \<Longrightarrow> 0 < n"
    "skip_lob d = Ret n \<Longrightarrow> 0 < n"
    by (auto simp: skip_fixed_def skip_prefix1_def skip_prefix2_def skip_lob_def res_simps Let_def
        split: if_splits dest!: z)
  show "SkipPLPType d = Ret n \<Longrightarrow> 0 < n"
    by (auto simp: SkipPLP_read ReadPLPType_def res_simps split: if_splits dest!: plp_read_own_bytes)
qed

lemma SkipValue_pos: "SkipValue c d = Ret n \<Longrightarrow> 0 < n"
  unfolding SkipValue_def Let_def by (auto dest: skippers_pos split: if_splits)

interpretation skip_value: incremental_item "SkipValue c" "\<lambda>n. n" for c
  by (rule reads_incremental_item [OF reads_SkipValue]) (rule SkipValue_pos)

interpretation read_columns: column_parser ReadValue fst
  by (rule column_parser.intro) (rule reads_incremental [OF reads_ReadValue])

interpretation skip_columns: column_parser SkipValue "\<lambda>n. n"
  by unfold_locales

subsection \<open>The row loops\<close>

text \<open>With the descriptors resolved from the same columns, the fast walk is the legacy walk.\<close>

lemma skip_row_loop_descs:
  "drop i ds = map ResolveSkipForm cs \<Longrightarrow>
     skip_row_loop (Some ds) cs i data off = skip_row_loop None cs i data off"
proof (induction cs arbitrary: i off)
  case (Cons c cs)
  then have i: "i < length ds" "ds ! i = ResolveSkipForm c" "drop (Suc i) ds = map ResolveSkipForm cs"
    by (auto simp: drop_Suc drop_tl nth_via_drop intro: ccontr)
  with Cons.IH [of "Suc i"] show ?case by (auto simp: SkipByForm_eq)
qed simp

lemma skip_nbc_loop_descs:
  "drop i ds = map ResolveSkipForm cs \<Longrightarrow>
     skip_nbc_loop (Some ds) cs i data off = skip_nbc_loop None cs i data off"
proof (induction cs arbitrary: i off)
  case (Cons c cs)
  then have i: "i < length ds" "ds ! i = ResolveSkipForm c" "drop (Suc i) ds = map ResolveSkipForm cs"
    by (auto simp: drop_Suc drop_tl nth_via_drop intro: ccontr)
  with Cons.IH [of "Suc i"] show ?case by (auto simp: SkipByForm_eq SkipValueNBC_eq intro!: bind_res_cong)
qed simp

lemma SkipRow_descs: "SkipRow (Some (map ResolveSkipForm cols)) cols data = SkipRow None cols data"
  by (simp add: SkipRow_def skip_row_loop_descs)

lemma SkipNBCRow_descs: "SkipNBCRow (Some (map ResolveSkipForm cols)) cols data = SkipNBCRow None cols data"
  by (simp add: SkipNBCRow_def skip_nbc_loop_descs)

lemma skip_row_loop_walk:
  "skip_row_loop None cs i data off = map_res fst (walk SkipValue (\<lambda>n. n) cs data off)"
proof (induction cs arbitrary: i off)
  case (Cons c cs)
  show ?case
  proof (cases "SkipValue c (drop off data)")
    case (Ret n)
    with Cons show ?thesis by (cases "walk SkipValue (\<lambda>n. n) cs data (off + n)") auto
  qed auto
qed simp

lemma SkipRow_walk: "SkipRow None columns data = map_res fst (walk SkipValue (\<lambda>n. n) columns data 0)"
  by (simp add: SkipRow_def skip_row_loop_walk)

text \<open>Every element of a row of the right width is overwritten, so what the row buffer held before
  does not matter.\<close>

lemma list_update_take: "i < length xs \<Longrightarrow> take (Suc i) (xs[i := v]) = take i xs @ [v]"
  by (simp add: take_Suc_conv_app_nth)

lemma read_row_loop_walk:
  assumes "length (row_values row) = i + length cs" and "length (null_mask row) = i + length cs"
  shows "read_row_loop cs i data off row =
     map_res (\<lambda>(n, rs). (n, \<lparr> row_values = take i (row_values row) @ map (\<lambda>r. fst (snd r)) rs,
       null_mask = take i (null_mask row) @ map (\<lambda>r. snd (snd r)) rs \<rparr>)) (walk ReadValue fst cs data off)"
  using assms
proof (induction cs arbitrary: i off row)
  case (Cons c cs)
  show ?case
  proof (cases "ReadValue c (drop off data)")
    case (Ret r)
    obtain n v b where r: "r = (n, v, b)" by (cases r)
    from Cons.prems have "i < length (row_values row)" "i < length (null_mask row)" by auto
    with Cons.prems Ret r show ?thesis
      by (cases "walk ReadValue fst cs data (off + n)") (auto simp: Cons.IH list_update_take)
  qed auto
qed simp

lemma length_Prepare:
  assumes "length (null_mask row) = length (row_values row)"
  shows "length (row_values (Prepare n row)) = n" "length (null_mask (Prepare n row)) = n"
  using assms by (auto simp: Prepare_def row_Clear_def resize_def)

lemma ReadRow_walk:
  assumes "length (null_mask row) = length (row_values row)"
  shows "ReadRow columns data row =
     map_res (\<lambda>(n, rs). (n, \<lparr> row_values = map (\<lambda>r. fst (snd r)) rs, null_mask = map (\<lambda>r. snd (snd r)) rs \<rparr>))
       (walk ReadValue fst columns data 0)"
  using length_Prepare [OF assms] by (simp add: ReadRow_def read_row_loop_walk)

subsection \<open>NULL-bitmap-compressed rows\<close>

definition nbc_null :: "byte list \<Rightarrow> nat \<Rightarrow> bool" where
  "nbc_null data i \<longleftrightarrow> data ! (i div 8) AND push_bit (i mod 8) 1 \<noteq> 0"

lemma bitmap_bit_in [simp]: "i div 8 < length data \<Longrightarrow> bitmap_bit data i = Ret (nbc_null data i)"
  by (simp add: bitmap_bit_def nbc_null_def)

lemma bitmap_index: "(i :: nat) < n \<Longrightarrow> i div 8 < (n + 7) div 8"
  by linarith

lemma bitmap_bits:
  "(n + 7) div 8 \<le> length data \<Longrightarrow> mapM_res (bitmap_bit data) [0..<n] = Ret (map (nbc_null data) [0..<n])"
  using bitmap_index by (intro mapM_res_Ret) fastforce

lemma nbc_null_take: "i div 8 < m \<Longrightarrow> nbc_null (take m d) i = nbc_null d i"
  by (simp add: nbc_null_def)

lemma reads_bitmap_bit [reads_intros]:
  "i div 8 < n \<Longrightarrow> (\<And>x. reads used n (p x)) \<Longrightarrow> reads used n (\<lambda>d. bind_res (bitmap_bit d i) (\<lambda>x. p x d))"
  by (rule reads_bind_local [where g = "\<lambda>t. nbc_null t i"]) (simp_all add: nbc_null_take)

lemma reads_bitmap_bits:
  "(k + 7) div 8 \<le> n \<Longrightarrow> (\<And>x. reads used n (p x)) \<Longrightarrow>
     reads used n (\<lambda>d. bind_res (mapM_res (bitmap_bit d) [0..<k]) (\<lambda>x. p x d))"
proof (rule reads_bind_local [where g = "\<lambda>t. map (nbc_null t) [0..<k]"])
  fix d :: "byte list" assume "(k + 7) div 8 \<le> n" "n \<le> length d"
  moreover from this have "map (nbc_null (take n d)) [0..<k] = map (nbc_null d) [0..<k]"
    using bitmap_index [of _ k] by (auto intro!: nbc_null_take)
  ultimately show "mapM_res (bitmap_bit d) [0..<k] = Ret (map (nbc_null (take n d)) [0..<k])"
    by (simp add: bitmap_bits)
qed

lemma reads_read_nbc_loop: "reads fst n (\<lambda>d. read_nbc_loop cs i d n row)"
proof (induction cs arbitrary: n i row)
  case (Cons c cs)
  have v: "reads (\<lambda>r. n + fst r) n (\<lambda>d. ReadValueNBC c (drop n d))" for n
    by (rule reads_drop [OF reads_incremental [OF reads_ReadValueNBC]])
  show ?case unfolding read_nbc_loop.simps
    by (intro reads_intros reads_call [OF v] Cons.IH) (auto intro: Cons.IH split: prod.split)
qed (auto intro!: reads_intros)

lemma reads_skip_nbc_loop:
  "i + length cs \<le> k \<Longrightarrow> (k + 7) div 8 \<le> n \<Longrightarrow> reads (\<lambda>r. r) n (\<lambda>d. skip_nbc_loop None cs i d n)"
proof (induction cs arbitrary: n i)
  case (Cons c cs)
  have v: "reads (\<lambda>r. n + r) n (\<lambda>d. SkipValueNBC c (drop n d))" for n
    unfolding SkipValueNBC_eq by (rule reads_drop [OF reads_incremental [OF reads_SkipValue]])
  from Cons.prems bitmap_index [of i k] have "i div 8 < n" by simp
  with Cons show ?case unfolding skip_nbc_loop.simps option.case
    by (intro reads_intros reads_call [OF v]) auto
qed (auto intro!: reads_intros)

lemma reads_SkipNBCRow: "reads (\<lambda>r. r) 0 (SkipNBCRow None columns)"
  unfolding SkipNBCRow_def Let_def
  by (intro reads_intros) (auto intro!: reads_skip_nbc_loop [where k = "length columns"])

lemma reads_ReadNBCRow: "reads fst 0 (\<lambda>d. ReadNBCRow columns d row)"
  unfolding ReadNBCRow_def Let_def
  by (intro reads_intros reads_bitmap_bits) (auto intro: reads_read_nbc_loop)

lemma read_skip_nbc_loop:
  assumes "list_all (\<lambda>c. readable_type (type_id c)) cs" and "(i + length cs + 7) div 8 \<le> length data"
    and "\<And>j. i \<le> j \<Longrightarrow> j < i + length cs \<Longrightarrow> null_mask row ! j = nbc_null data j"
  shows "map_res fst (read_nbc_loop cs i data off row) = skip_nbc_loop None cs i data off"
  using assms
proof (induction cs arbitrary: i off row)
  case (Cons c cs)
  from Cons.prems(2) bitmap_index [of i "i + length (c # cs)"] have i: "i div 8 < length data" by simp
  from Cons.prems have IH: "map_res fst (read_nbc_loop cs (Suc i) data o' (row\<lparr>row_values := vs\<rparr>)) =
      skip_nbc_loop None cs (Suc i) data o'"
    "map_res fst (read_nbc_loop cs (Suc i) data o' row) = skip_nbc_loop None cs (Suc i) data o'" for o' vs
    by (intro Cons.IH; auto)+
  from Cons.prems have n: "null_mask row ! i = nbc_null data i" by simp
  have s: "SkipValueNBC c (drop off data) = map_res fst (ReadValueNBC c (drop off data))"
    using Cons.prems(1) by (simp add: SkipValueNBC_eq ReadValueNBC_skip)
  show ?case
    using i n s by (cases "ReadValueNBC c (drop off data)") (auto simp: IH)
qed simp

lemma ReadNBCRow_skip:
  assumes "list_all (\<lambda>c. readable_type (type_id c)) columns"
  shows "map_res fst (ReadNBCRow columns data row) = SkipNBCRow None columns data"
proof (cases "(length columns + 7) div 8 \<le> length data")
  case True
  then show ?thesis
    using assms by (simp add: ReadNBCRow_def SkipNBCRow_def Let_def bitmap_bits read_skip_nbc_loop)
qed (simp add: ReadNBCRow_def SkipNBCRow_def Let_def)

subsection \<open>The server's encoding of a row\<close>

text \<open>
  What a server puts on the wire for one column: NULL, a plain value, or a MAX value as an
  announced total length (8 bytes, anything but the NULL marker) and a sequence of chunks.
\<close>

datatype wire_value = WNull | WBytes "byte list" | WChunks "byte list" "byte list list"

fun wire_content :: "wire_value \<Rightarrow> byte list" where
  "wire_content WNull = []"
| "wire_content (WBytes bs) = bs"
| "wire_content (WChunks h cs) = concat cs"

definition plp_total :: "byte list \<Rightarrow> u64" where
  "plp_total h = u64le (h ! 0) (h ! 1) (h ! 2) (h ! 3) (h ! 4) (h ! 5) (h ! 6) (h ! 7)"

definition enc_chunk :: "byte list \<Rightarrow> byte list" where
  "enc_chunk c = le32 (of_nat (length c)) @ c"

definition enc_value :: "ColumnMetadata \<Rightarrow> wire_value \<Rightarrow> byte list" where
  "enc_value c w =
     (case w of
        WChunks h cs \<Rightarrow> h @ concat (map enc_chunk cs) @ le32 0
      | WNull \<Rightarrow> (if IsPLPType c then replicate 8 0xFF
                  else if type_id c \<in> prefix1_types then [0] else [0xFF, 0xFF])
      | WBytes bs \<Rightarrow>
          (if type_id c \<in> prefix1_types then [of_nat (length bs)]
           else if type_id c \<in> varlen_types then le16 (of_nat (length bs)) else []) @ bs)"

definition wf_value :: "ColumnMetadata \<Rightarrow> wire_value \<Rightarrow> bool" where
  "wf_value c w \<longleftrightarrow>
     (case w of
        WNull \<Rightarrow> IsPLPType c \<or> type_id c \<in> prefix1_types \<or> type_id c \<in> varlen_types
      | WBytes bs \<Rightarrow> \<not> IsPLPType c \<and>
          (if type_id c \<in> prefix1_types then
             bs \<noteq> [] \<and> length bs < 256 \<and> (type_id c = TDS_TYPE_UNIQUEIDENTIFIER \<longrightarrow> length bs = 16)
           else if type_id c \<in> varlen_types then length bs < 0xFFFF
           else fixed_type_size (type_id c) = Some (length bs))
      | WChunks h cs \<Rightarrow> IsPLPType c \<and> length h = 8 \<and> plp_total h \<noteq> PLP_NULL_MARKER \<and>
          list_all (\<lambda>x. x \<noteq> [] \<and> length x < 2 ^ 32) cs)"

lemma IsPLP_types: "IsPLPType c \<Longrightarrow> type_id c = TDS_TYPE_XML \<or> type_id c \<in> varlen_types"
  by (auto simp: IsPLPType_def varlen_types_def split: if_splits)

lemma ReadValue_PLP: "IsPLPType c \<Longrightarrow> ReadValue c d = ReadPLPType d"
  using IsPLP_types [of c]
  by (auto simp: ReadValue_def type_sets)

lemma ReadValue_prefix1:
  "type_id c \<in> prefix1_types \<Longrightarrow> type_id c \<noteq> TDS_TYPE_UNIQUEIDENTIFIER \<Longrightarrow> ReadValue c d = read_prefix1 d"
  by (simp add: prefix1_types_def; elim disjE; simp add: ReadValue_def type_sets prefix1_readers)

lemma ReadValue_guid: "type_id c = TDS_TYPE_UNIQUEIDENTIFIER \<Longrightarrow> ReadValue c d = ReadGuidType d"
  by (simp add: ReadValue_def type_sets)

lemma ReadValue_varlen:
  "type_id c \<in> varlen_types \<Longrightarrow> \<not> IsPLPType c \<Longrightarrow> ReadValue c d = ReadVariableLengthType d (type_id c)"
  by (simp add: varlen_types_def; elim disjE; simp add: ReadValue_def type_sets)

lemma ReadValue_fixed: "fixed_type_size (type_id c) = Some n \<Longrightarrow> ReadValue c d = ReadFixedType d (type_id c)"
proof -
  assume "fixed_type_size (type_id c) = Some n"
  then have "type_id c \<in> fixed_value_types"
    by (auto simp: fixed_type_size_def fixed_value_types_def split: if_splits)
  then show ?thesis by (simp add: ReadValue_def)
qed

lemma u64_all_ones: "u64le 0xFF 0xFF 0xFF 0xFF 0xFF 0xFF 0xFF 0xFF = PLP_NULL_MARKER"
  by (simp add: u64le_def PLP_NULL_MARKER_def)

lemma length_enc_chunk: "length (enc_chunk c) = 4 + length c"
  by (simp add: enc_chunk_def)

lemma plp_read_enc:
  assumes "list_all (\<lambda>x. x \<noteq> [] \<and> length x < 2 ^ 32) cs" and "length pre = off"
  shows "plp_read_loop (pre @ concat (map enc_chunk cs) @ le32 0 @ rest) off val =
     Ret (off + length (concat (map enc_chunk cs)) + 4, val @ concat cs)"
  using assms
proof (induction cs arbitrary: pre off val)
  case Nil
  then show ?case
    by (subst plp_read_step [where w = 0]) (simp_all add: le32_def nth_append u32le_def)
next
  case (Cons c cs)
  let ?d = "pre @ concat (map enc_chunk (c # cs)) @ le32 0 @ rest"
  from Cons.prems have n: "unat (of_nat (length c) :: u32) = length c" "c \<noteq> []" by (simp_all add: u32_of_nat)
  then have nz: "(of_nat (length c) :: u32) \<noteq> 0" by (metis length_0_conv unat_0)
  have w: "rd_u32le ?d off = Ret (of_nat (length c))"
    using Cons.prems(2) by (simp add: enc_chunk_def le32_def nth_append u32le_le32)
  have b: "take (length c) (drop (off + 4) ?d) = c"
    using Cons.prems(2) by (simp add: enc_chunk_def)
  have IH: "plp_read_loop ((pre @ enc_chunk c) @ concat (map enc_chunk cs) @ le32 0 @ rest) (off + 4 + length c) (val @ c) =
     Ret (off + 4 + length c + length (concat (map enc_chunk cs)) + 4, (val @ c) @ concat cs)"
    using Cons.prems by (intro Cons.IH) (simp_all add: enc_chunk_def)
  have l: "off + 4 \<le> length ?d" "off + 4 + length c \<le> length ?d"
    using Cons.prems(2) by (simp_all add: enc_chunk_def)
  have "plp_read_loop ?d off val = plp_read_loop ?d (off + 4 + length c) (val @ c)"
    using plp_read_step [OF l(1) w, of val] nz n(1) b l(2) by (simp only: if_False need_simps)
  also have "\<dots> = Ret (off + 4 + length c + length (concat (map enc_chunk cs)) + 4, (val @ c) @ concat cs)"
    using IH by simp
  finally show ?case by (simp add: length_enc_chunk)
qed

lemma ReadValue_enc:
  assumes "wf_value c w"
  shows "ReadValue c (enc_value c w @ rest) =
     Ret (length (enc_value c w), wire_content w, w = WNull)"
proof (cases w)
  case WNull
  with assms consider "IsPLPType c" | "\<not> IsPLPType c" "type_id c \<in> prefix1_types"
    | "\<not> IsPLPType c" "type_id c \<notin> prefix1_types" "type_id c \<in> varlen_types"
    by (auto simp: wf_value_def)
  then show ?thesis
  proof cases
    case 1
    with WNull show ?thesis
      by (simp add: enc_value_def ReadValue_PLP ReadPLPType_def numeral_eq_Suc replicate_Suc
        u64_all_ones [unfolded numeral_eq_Suc])
  next
    case 2
    with WNull show ?thesis
      by (cases "type_id c = TDS_TYPE_UNIQUEIDENTIFIER")
        (simp_all add: enc_value_def ReadValue_prefix1 ReadValue_guid read_prefix1_def ReadGuidType_def)
  next
    case 3
    with WNull show ?thesis
      by (simp add: enc_value_def ReadValue_varlen ReadVariableLengthType_def u16le_def)
  qed
next
  case (WBytes bs)
  with assms consider "type_id c = TDS_TYPE_UNIQUEIDENTIFIER" "length bs = 16" "type_id c \<in> prefix1_types"
    | "type_id c \<noteq> TDS_TYPE_UNIQUEIDENTIFIER" "type_id c \<in> prefix1_types" "bs \<noteq> []" "length bs < 256"
    | "type_id c \<notin> prefix1_types" "type_id c \<in> varlen_types" "\<not> IsPLPType c" "length bs < 0xFFFF"
    | "type_id c \<notin> prefix1_types" "type_id c \<notin> varlen_types" "fixed_type_size (type_id c) = Some (length bs)"
    by (cases "type_id c = TDS_TYPE_UNIQUEIDENTIFIER") (auto simp: wf_value_def split: if_splits)
  then show ?thesis
  proof cases
    case 1
    with WBytes show ?thesis by (simp add: enc_value_def ReadValue_guid ReadGuidType_def)
  next
    case 2
    then have n: "unat (of_nat (length bs) :: byte) = length bs" by (intro unat_byte_small)
    with 2 have "(of_nat (length bs) :: byte) \<noteq> 0" by (metis length_0_conv unat_0)
    with n 2 WBytes show ?thesis by (simp add: enc_value_def ReadValue_prefix1 read_prefix1_def)
  next
    case 3
    then have n: "unat (of_nat (length bs) :: u16) = length bs" by (intro u16_of_nat) simp
    with 3 have "(of_nat (length bs) :: u16) \<noteq> 0xFFFF" by (auto dest: arg_cong [where f = unat])
    with n 3 WBytes show ?thesis
      by (simp add: enc_value_def ReadValue_varlen ReadVariableLengthType_def le16_def u16le_le16)
  next
    case 4
    with WBytes show ?thesis by (simp add: enc_value_def ReadValue_fixed ReadFixedType_def)
  qed
next
  case (WChunks h cs)
  with assms have w: "IsPLPType c" "length h = 8" "plp_total h \<noteq> PLP_NULL_MARKER"
    "list_all (\<lambda>x. x \<noteq> [] \<and> length x < 2 ^ 32) cs" by (auto simp: wf_value_def)
  have "rd_u64le (enc_value c w @ rest) 0 = Ret (plp_total h)"
    using w WChunks by (simp add: enc_value_def nth_append plp_total_def numeral_2_eq_2)
  with w WChunks plp_read_enc [OF w(4), of h 8 rest "[]"] show ?thesis
    by (simp add: ReadValue_PLP ReadPLPType_def enc_value_def)
qed

definition enc_row :: "(ColumnMetadata \<times> wire_value) list \<Rightarrow> byte list" where
  "enc_row cws = concat (map (\<lambda>(c, w). enc_value c w) cws)"

lemma SkipValue_enc:
  assumes "wf_value c w"
  shows "SkipValue c (enc_value c w @ rest) = Ret (length (enc_value c w))"
proof -
  have "type_id c \<in> fixed_value_types" if "fixed_type_size (type_id c) = Some n" for n
    using that by (auto simp: fixed_type_size_def fixed_value_types_def split: if_splits)
  then have r: "readable_type (type_id c)"
    using assms IsPLP_types [of c] by (auto simp: readable_type_def wf_value_def split: wire_value.splits if_splits)
  have g: "(enc_value c w @ rest) ! 0 \<in> {0, 16}" if "type_id c = TDS_TYPE_UNIQUEIDENTIFIER"
    using assms that
    by (auto simp: wf_value_def enc_value_def IsPLPType_def type_sets split: wire_value.splits)
  have "map_res fst (ReadValue c (enc_value c w @ rest)) = SkipValue c (enc_value c w @ rest)"
    using r g by (intro ReadValue_skip) auto
  with ReadValue_enc [OF assms] show ?thesis by simp
qed

lemma ReadRow_enc:
  assumes "list_all (\<lambda>(c, w). wf_value c w) cws" and "length (null_mask row) = length (row_values row)"
  shows "ReadRow (map fst cws) (enc_row cws @ rest) row =
     Ret (length (enc_row cws),
       \<lparr> row_values = map (\<lambda>cw. wire_content (snd cw)) cws, null_mask = map (\<lambda>cw. snd cw = WNull) cws \<rparr>)"
proof -
  have "walk ReadValue fst (map fst cws) (concat (map (\<lambda>(c, w). enc_value c w) cws) @ rest) 0 =
     Ret (length (concat (map (\<lambda>(c, w). enc_value c w) cws)),
       map (\<lambda>(c, w). (length (enc_value c w), wire_content w, w = WNull)) cws)"
    using assms(1) by (intro walk_append) (auto simp: list_all_iff ReadValue_enc)
  then show ?thesis
    unfolding ReadRow_walk [OF assms(2)] enc_row_def by (auto simp: case_prod_beta)
qed

lemma SkipRow_enc:
  assumes "list_all (\<lambda>(c, w). wf_value c w) cws"
  shows "SkipRow None (map fst cws) (enc_row cws @ rest) = Ret (length (enc_row cws))"
proof -
  have "walk SkipValue (\<lambda>n. n) (map fst cws) (concat (map (\<lambda>(c, w). enc_value c w) cws) @ rest) 0 =
     Ret (length (concat (map (\<lambda>(c, w). enc_value c w) cws)), map (\<lambda>(c, w). length (enc_value c w)) cws)"
    using assms(1) by (intro walk_append) (auto simp: list_all_iff SkipValue_enc)
  then show ?thesis by (simp add: SkipRow_walk enc_row_def)
qed

subsection \<open>Properties of the row reader\<close>

text \<open>C25: the precomputed skip forms are an optimisation only: with the descriptors resolved from the
  columns of the result set, the fast walk over a ROW or an NBCROW gives on every buffer the same
  outcome (complete with the same length, incomplete, or error) as the legacy per-type walk.\<close>

theorem skip_forms_equivalent:
  "SkipRow (Some (map ResolveSkipForm columns)) columns data = SkipRow None columns data \<and>
   SkipNBCRow (Some (map ResolveSkipForm columns)) columns data = SkipNBCRow None columns data"
  by (simp add: SkipRow_descs SkipNBCRow_descs)

text \<open>C24: a row survives the wire: on the bytes a server sends for well-formed values (fixed, length
  prefixed, NULL, and MAX values in any chunking), followed by anything, the reader returns exactly
  the values and NULL flags, whatever the reused row buffer held before, and both the reader and the
  measuring walk consume exactly the row.\<close>

theorem ReadRow_roundtrip:
  assumes "list_all (\<lambda>(c, w). wf_value c w) cws" and "length (null_mask row) = length (row_values row)"
  shows "ReadRow (map fst cws) (enc_row cws @ rest) row =
       Ret (length (enc_row cws),
         \<lparr> row_values = map (\<lambda>cw. wire_content (snd cw)) cws, null_mask = map (\<lambda>cw. snd cw = WNull) cws \<rparr>) \<and>
     SkipRow None (map fst cws) (enc_row cws @ rest) = Ret (length (enc_row cws))"
  using ReadRow_enc [OF assms] SkipRow_enc [OF assms(1)] by simp

definition sample_cells :: "(ColumnMetadata \<times> wire_value) list" where
  "sample_cells =
     [(fresh_column\<lparr>type_id := TDS_TYPE_INT\<rparr>, WBytes [1, 2, 3, 4]),
      (fresh_column\<lparr>type_id := TDS_TYPE_INTN, max_length := 4\<rparr>, WNull),
      (fresh_column\<lparr>type_id := TDS_TYPE_NVARCHAR, max_length := 0xFFFF\<rparr>,
         WChunks [0xFE, 0xFF, 0xFF, 0xFF, 0xFF, 0xFF, 0xFF, 0xFF] [[0x41, 0], [0x42, 0]])]"

lemma sample_cells_wf: "list_all (\<lambda>(c, w). wf_value c w) sample_cells"
  by (simp add: sample_cells_def wf_value_def fresh_column_def IsPLPType_def type_sets fixed_type_size_def
      plp_total_def PLP_NULL_MARKER_def u64le_def)

theorem ReadRow_roundtrip_witness:
  "ReadRow (map fst sample_cells) (enc_row sample_cells @ [0xFD]) \<lparr> row_values = [[9]], null_mask = [True] \<rparr> =
     Ret (29, \<lparr> row_values = [[1, 2, 3, 4], [], [0x41, 0, 0x42, 0]], null_mask = [False, True, False] \<rparr>)"
  using ReadRow_roundtrip [OF sample_cells_wf, of "\<lparr> row_values = [[9]], null_mask = [True] \<rparr>" "[0xFD]"]
  by (simp add: sample_cells_def enc_row_def enc_value_def enc_chunk_def fresh_column_def IsPLPType_def type_sets)

text \<open>C26: for every column list without UNIQUEIDENTIFIER and without the types that cannot be read,
  reading a ROW and measuring it agree on every buffer; for an NBCROW this also holds with
  UNIQUEIDENTIFIER columns. (A UNIQUEIDENTIFIER in a ROW is read as 16 bytes whatever non-zero length
  its prefix declares, so on a malformed prefix the two walks differ.)\<close>

theorem read_skip_agree:
  assumes "list_all (\<lambda>c. readable_type (type_id c)) columns"
    and "length (null_mask row) = length (row_values row)"
  shows "map_res fst (ReadNBCRow columns data row) = SkipNBCRow None columns data \<and>
     (list_all (\<lambda>c. type_id c \<noteq> TDS_TYPE_UNIQUEIDENTIFIER) columns \<longrightarrow>
        map_res fst (ReadRow columns data row) = SkipRow None columns data)"
proof (intro conjI impI)
  show "map_res fst (ReadNBCRow columns data row) = SkipNBCRow None columns data"
    by (rule ReadNBCRow_skip [OF assms(1)])
  assume "list_all (\<lambda>c. type_id c \<noteq> TDS_TYPE_UNIQUEIDENTIFIER) columns"
  with assms(1) have "map_res fst (walk ReadValue fst columns data 0) =
      map_res fst (walk SkipValue (\<lambda>n. n) columns data 0)"
    by (intro walk_map_res) (auto simp: list_all_iff ReadValue_skip)
  then show "map_res fst (ReadRow columns data row) = SkipRow None columns data"
    unfolding ReadRow_walk [OF assms(2)] SkipRow_walk
    by (cases "walk ReadValue fst columns data 0") (auto split: prod.splits)
qed

theorem read_skip_agree_witness:
  "map_res fst (ReadRow [fresh_column\<lparr>type_id := TDS_TYPE_INT\<rparr>] [1, 2, 3] \<lparr> row_values = [], null_mask = [] \<rparr>) =
     SkipRow None [fresh_column\<lparr>type_id := TDS_TYPE_INT\<rparr>] [1, 2, 3]"
  using read_skip_agree [of "[fresh_column\<lparr>type_id := TDS_TYPE_INT\<rparr>]" "\<lparr> row_values = [], null_mask = [] \<rparr>" "[1, 2, 3]"]
  by (simp add: readable_type_def type_sets)

interpretation skip_row: incremental "SkipRow None columns" "\<lambda>n. n" for columns
proof -
  have "reads fst 0 (\<lambda>d. walk SkipValue (\<lambda>n. n) columns d 0)" by (rule skip_columns.reads_walk)
  then have "reads (\<lambda>n. n) 0 (\<lambda>d. map_res fst (walk SkipValue (\<lambda>n. n) columns d 0))"
    by (intro reads_map_res)
  then show "incremental (SkipRow None columns) (\<lambda>n. n)"
    unfolding SkipRow_walk [abs_def] by (rule reads_incremental)
qed

interpretation skip_nbc_row: incremental "SkipNBCRow None columns" "\<lambda>n. n" for columns
  by (rule reads_incremental [OF reads_SkipNBCRow])

interpretation read_nbc_row: incremental "\<lambda>d. ReadNBCRow columns d row" fst for columns row
  by (rule reads_incremental [OF reads_ReadNBCRow])

text \<open>measuring a row is safe on a partially received stream: it never reads outside the buffer
  (\<open>OOB\<close>), and however the network cuts the stream into chunks, polling it chunk by chunk gives the
  outcome of the whole stream.\<close>

theorem row_measuring_chunked:
  "poll (SkipRow None columns) [] chunks = SkipRow None columns (concat chunks) \<and>
   poll (SkipNBCRow None columns) [] chunks = SkipNBCRow None columns (concat chunks) \<and>
   SkipRow None columns data \<noteq> OOB \<and> SkipNBCRow None columns data \<noteq> OOB"
  by (simp add: skip_row.poll_eq skip_nbc_row.poll_eq skip_row.no_oob skip_nbc_row.no_oob)

end
