(* ===== verification/Token_Parser.thy ===== *)
theory Token_Parser
  imports Row_Reader
begin

text \<open>
  The incremental token parser, \<open>src/tds/tds_token_parser.cpp\<close>: a buffer with a read position and
  deferred consumption, one routine per token kind, the dispatch loop \<open>TryParseNext\<close>, and the
  stand-alone scanner \<open>FindBeginTxnDescriptor\<close>.

  A routine returns the value of the C++ function with the updated parser. \<open>Throw\<close> is an exception
  that leaves the routine (the skip and raw-row paths do not catch the row reader's exceptions);
  \<open>OOB\<close> is a read outside the buffer. \<open>Available()\<close> is an unsigned subtraction and wraps when the
  position is past the end. The row buffer after a failed \<open>ReadRow\<close> is left cleared: \<open>GetRow\<close> is
  only specified after a row was returned. The scalars of a message, which its C++ struct does not initialise, are zero
  until an ERROR or INFO token sets them. Debug output is not modelled.
\<close>

subsection \<open>Data\<close>

record TdsMessage =
  msg_number :: u32
  msg_state :: byte
  msg_severity :: byte
  msg_message :: "byte list"
  msg_server_name :: "byte list"
  msg_proc_name :: "byte list"
  msg_line_number :: u32

definition new_message :: TdsMessage where
  "new_message = \<lparr> msg_number = 0, msg_state = 0, msg_severity = 0, msg_message = [],
     msg_server_name = [], msg_proc_name = [], msg_line_number = 0 \<rparr>"

definition IsFatal :: "TdsMessage \<Rightarrow> bool" where
  "IsFatal e \<longleftrightarrow> msg_severity e \<ge> 20"

definition IsUserError :: "TdsMessage \<Rightarrow> bool" where
  "IsUserError e \<longleftrightarrow> msg_severity e \<ge> 11 \<and> msg_severity e \<le> 16"

definition IsInfo :: "TdsMessage \<Rightarrow> bool" where
  "IsInfo e \<longleftrightarrow> msg_severity e \<le> 10"

record DoneToken =
  done_status :: u16
  done_cur_cmd :: u16
  done_row_count :: u64

definition new_done :: DoneToken where
  "new_done = \<lparr> done_status = 0, done_cur_cmd = 0, done_row_count = 0 \<rparr>"

definition IsFinal :: "DoneToken \<Rightarrow> bool" where
  "IsFinal d \<longleftrightarrow> done_status d AND DoneStatus_DONE_MORE = 0"

definition HasError :: "DoneToken \<Rightarrow> bool" where
  "HasError d \<longleftrightarrow> done_status d AND DoneStatus_DONE_ERROR \<noteq> 0"

definition HasRowCount :: "DoneToken \<Rightarrow> bool" where
  "HasRowCount d \<longleftrightarrow> done_status d AND DoneStatus_DONE_COUNT \<noteq> 0"

definition IsAttentionAck :: "DoneToken \<Rightarrow> bool" where
  "IsAttentionAck d \<longleftrightarrow> done_status d AND DoneStatus_DONE_ATTN \<noteq> 0"

datatype ParserState = WaitingForToken | ParsingColMetadata | ParsingRow | ParsingDone | ParsingError
  | ParsingInfo | Complete | Error

datatype ParsedTokenType = TokNone | TokColMetadata | TokRow | TokDone | TokError | TokInfo | TokEnvChange
  | NeedMoreData

record TokenParser =
  state :: ParserState
  parse_error :: string
  skip_rows :: bool
  raw_row_mode :: bool
  raw_row_offset :: nat
  raw_row_length :: nat
  raw_row_nbc :: bool
  pending_consume :: nat
  buffer :: "byte list"
  buffer_pos :: nat
  columns :: "ColumnMetadata list"
  skip_descs :: "SkipDesc list"
  current_row :: RowData
  current_error :: TdsMessage
  current_info :: TdsMessage
  current_done :: DoneToken

definition new_parser :: TokenParser where
  "new_parser = \<lparr> state = WaitingForToken, parse_error = [], skip_rows = False, raw_row_mode = False,
     raw_row_offset = 0, raw_row_length = 0, raw_row_nbc = False, pending_consume = 0, buffer = [],
     buffer_pos = 0, columns = [], skip_descs = [], current_row = \<lparr> row_values = [], null_mask = [] \<rparr>,
     current_error = new_message, current_info = new_message, current_done = new_done \<rparr>"

definition parser_Reset :: "TokenParser \<Rightarrow> TokenParser" where
  "parser_Reset p = p\<lparr> state := WaitingForToken, parse_error := [], buffer := [], buffer_pos := 0,
     columns := [], skip_descs := [], current_row := row_Clear (current_row p),
     current_error := new_message, current_info := new_message, current_done := new_done,
     pending_consume := 0, raw_row_offset := 0, raw_row_length := 0 \<rparr>"

definition ResetState :: "TokenParser \<Rightarrow> TokenParser" where
  "ResetState p = p\<lparr> state := WaitingForToken \<rparr>"

definition SetSkipMode :: "bool \<Rightarrow> TokenParser \<Rightarrow> TokenParser" where
  "SetSkipMode b p = p\<lparr> skip_rows := b \<rparr>"

definition SetRawRowMode :: "bool \<Rightarrow> TokenParser \<Rightarrow> TokenParser" where
  "SetRawRowMode b p = p\<lparr> raw_row_mode := b \<rparr>"

definition Feed :: "byte list \<Rightarrow> TokenParser \<Rightarrow> TokenParser" where
  "Feed data p = p\<lparr> buffer := buffer p @ data \<rparr>"

definition Available :: "TokenParser \<Rightarrow> nat" where
  "Available p = size_sub (length (buffer p)) (buffer_pos p)"

text \<open>The bytes from \<open>Current()\<close> on.\<close>

definition Current :: "TokenParser \<Rightarrow> byte list" where
  "Current p = drop (buffer_pos p) (buffer p)"

definition CompactBuffer :: "TokenParser \<Rightarrow> TokenParser" where
  "CompactBuffer p =
     (if buffer_pos p > length (buffer p) div 2 \<and> buffer_pos p > 4096
      then p\<lparr> buffer := drop (buffer_pos p) (buffer p), buffer_pos := 0 \<rparr> else p)"

definition ConsumeBytes :: "nat \<Rightarrow> TokenParser \<Rightarrow> TokenParser" where
  "ConsumeBytes count p = CompactBuffer (p\<lparr> buffer_pos := buffer_pos p + count \<rparr>)"

text \<open>The wire bytes of a raw row: \<open>GetRawRow()\<close> with \<open>GetRawRowLength()\<close>.\<close>

definition GetRawRow :: "TokenParser \<Rightarrow> byte list" where
  "GetRawRow p = take (raw_row_length p) (drop (raw_row_offset p) (buffer p))"

subsection \<open>Token routines\<close>

definition ParseColMetadata :: "simdutf \<Rightarrow> TokenParser \<Rightarrow> bool res \<times> TokenParser" where
  "ParseColMetadata U p =
     (if Available p < 3 then (Ret False, p)
      else case ParseColMetadata_columns U (drop 1 (Current p)) of
        (Ret bytes_consumed, cols) \<Rightarrow>
          (let p = p\<lparr> columns := cols, skip_descs := map ResolveSkipForm cols \<rparr>;
               p = ConsumeBytes (1 + bytes_consumed) p
           in (Ret True, p\<lparr> state := ParsingRow \<rparr>))
      | (More, cols) \<Rightarrow> (Ret False, p\<lparr> columns := cols \<rparr>)
      | (Throw e, cols) \<Rightarrow>
          (Ret False, p\<lparr> columns := cols, parse_error := ''COLMETADATA parse error: '' @ e, state := Error \<rparr>)
      | (OOB, cols) \<Rightarrow> (OOB, p\<lparr> columns := cols \<rparr>))"

definition raw_row :: "bool \<Rightarrow> nat \<Rightarrow> TokenParser \<Rightarrow> TokenParser" where
  "raw_row nbc bytes_consumed p = p\<lparr> raw_row_offset := buffer_pos p + 1, raw_row_length := bytes_consumed,
     raw_row_nbc := nbc, pending_consume := 1 + bytes_consumed \<rparr>"

definition ParseRow :: "TokenParser \<Rightarrow> bool res \<times> TokenParser" where
  "ParseRow p =
     (if columns p = [] then
        (Ret False, p\<lparr> parse_error := ''ROW token before COLMETADATA'', state := Error \<rparr>)
      else if Available p < 1 then (Ret False, p)
      else let data = drop 1 (Current p) in
        if skip_rows p then
          (case SkipRow (Some (skip_descs p)) (columns p) data of
             Ret bytes_consumed \<Rightarrow> (Ret True, ConsumeBytes (1 + bytes_consumed) p)
           | More \<Rightarrow> (Ret False, p) | Throw e \<Rightarrow> (Throw e, p) | OOB \<Rightarrow> (OOB, p))
        else if raw_row_mode p then
          (case SkipRow (Some (skip_descs p)) (columns p) data of
             Ret bytes_consumed \<Rightarrow> (Ret True, raw_row False bytes_consumed p)
           | More \<Rightarrow> (Ret False, p) | Throw e \<Rightarrow> (Throw e, p) | OOB \<Rightarrow> (OOB, p))
        else let p = p\<lparr> current_row := row_Clear (current_row p) \<rparr> in
          (case ReadRow (columns p) data (current_row p) of
             Ret (bytes_consumed, row) \<Rightarrow> (Ret True, ConsumeBytes (1 + bytes_consumed) (p\<lparr> current_row := row \<rparr>))
           | More \<Rightarrow> (Ret False, p)
           | Throw e \<Rightarrow> (Ret False, p\<lparr> parse_error := ''ROW parse error: '' @ e, state := Error \<rparr>)
           | OOB \<Rightarrow> (OOB, p)))"

definition ParseNBCRow :: "TokenParser \<Rightarrow> bool res \<times> TokenParser" where
  "ParseNBCRow p =
     (if columns p = [] then
        (Ret False, p\<lparr> parse_error := ''NBCROW token before COLMETADATA'', state := Error \<rparr>)
      else if Available p < 1 then (Ret False, p)
      else let data = drop 1 (Current p) in
        if skip_rows p then
          (case SkipNBCRow (Some (skip_descs p)) (columns p) data of
             Ret bytes_consumed \<Rightarrow> (Ret True, ConsumeBytes (1 + bytes_consumed) p)
           | More \<Rightarrow> (Ret False, p) | Throw e \<Rightarrow> (Throw e, p) | OOB \<Rightarrow> (OOB, p))
        else if raw_row_mode p then
          (case SkipNBCRow (Some (skip_descs p)) (columns p) data of
             Ret bytes_consumed \<Rightarrow> (Ret True, raw_row True bytes_consumed p)
           | More \<Rightarrow> (Ret False, p) | Throw e \<Rightarrow> (Throw e, p) | OOB \<Rightarrow> (OOB, p))
        else let p = p\<lparr> current_row := row_Clear (current_row p) \<rparr> in
          (case ReadNBCRow (columns p) data (current_row p) of
             Ret (bytes_consumed, row) \<Rightarrow> (Ret True, ConsumeBytes (1 + bytes_consumed) (p\<lparr> current_row := row \<rparr>))
           | More \<Rightarrow> (Ret False, p)
           | Throw e \<Rightarrow> (Ret False, p\<lparr> parse_error := ''NBCROW parse error: '' @ e, state := Error \<rparr>)
           | OOB \<Rightarrow> (OOB, p)))"

definition read_done :: "byte list \<Rightarrow> DoneToken res" where
  "read_done data =
     bind_res (rd_u16le data 1) (\<lambda>st. bind_res (rd_u16le data 3) (\<lambda>cmd. bind_res (rd_u64le data 5) (\<lambda>rows.
       Ret \<lparr> done_status = st, done_cur_cmd = cmd, done_row_count = rows \<rparr>)))"

definition ParseDone :: "TokenParser \<Rightarrow> bool res \<times> TokenParser" where
  "ParseDone p =
     (if Available p < 13 then (Ret False, p)
      else case read_done (Current p) of
        Ret d \<Rightarrow>
          (let p = ConsumeBytes 13 (p\<lparr> current_done := d \<rparr>)
           in (Ret True, if IsFinal d then p\<lparr> state := Complete \<rparr> else p))
      | _ \<Rightarrow> (OOB, p))"

definition ParseUSVarchar :: "simdutf \<Rightarrow> byte list \<Rightarrow> nat \<Rightarrow> (byte list \<times> nat) res" where
  "ParseUSVarchar U data offset =
     need (offset + 2 \<le> length data) (
     bind_res (rd_u16le data offset) (\<lambda>char_count.
     let offset = offset + 2; byte_length = unat char_count * 2 in
     need (offset + byte_length \<le> length data) (
     bind_res (rd_block data offset byte_length) (\<lambda>bytes.
       Ret (Utf16LEDecode U bytes, offset + byte_length)))))"

definition ParseBVarchar :: "simdutf \<Rightarrow> byte list \<Rightarrow> nat \<Rightarrow> (byte list \<times> nat) res" where
  "ParseBVarchar U data offset =
     need (offset < length data) (
     bind_res (rd data offset) (\<lambda>char_count.
     let offset = offset + 1; byte_length = unat char_count * 2 in
     need (offset + byte_length \<le> length data) (
     bind_res (rd_block data offset byte_length) (\<lambda>bytes.
       Ret (Utf16LEDecode U bytes, offset + byte_length)))))"

text \<open>
  The common body of \<open>ParseError\<close> and \<open>ParseInfo\<close>: the fields are assigned one after the other to
  the parser's message, so the ones read before a failure keep their new values.
\<close>

fun msg_step :: "'a res \<Rightarrow> TdsMessage \<Rightarrow> ('a \<Rightarrow> bool res \<times> TdsMessage) \<Rightarrow> bool res \<times> TdsMessage" where
  "msg_step (Ret x) m f = f x"
| "msg_step More m f = (Ret False, m)"
| "msg_step (Throw e) m f = (Throw e, m)"
| "msg_step OOB m f = (OOB, m)"

definition read_message :: "simdutf \<Rightarrow> byte list \<Rightarrow> nat \<Rightarrow> TdsMessage \<Rightarrow> bool res \<times> TdsMessage" where
  "read_message U data token_length m =
     (let limit = 3 + token_length; offset = 3 in
      msg_step (rd_u32le data offset) m (\<lambda>n. let m = m\<lparr> msg_number := n \<rparr> in
      msg_step (rd data (offset + 4)) m (\<lambda>st. let m = m\<lparr> msg_state := st \<rparr> in
      msg_step (rd data (offset + 5)) m (\<lambda>sev. let m = m\<lparr> msg_severity := sev \<rparr> in
      msg_step (ParseUSVarchar U (take limit data) (offset + 6)) m (\<lambda>(text, offset).
        let m = m\<lparr> msg_message := text \<rparr> in
      msg_step (ParseBVarchar U (take limit data) offset) m (\<lambda>(server, offset).
        let m = m\<lparr> msg_server_name := server \<rparr> in
      msg_step (ParseBVarchar U (take limit data) offset) m (\<lambda>(proc, offset).
        let m = m\<lparr> msg_proc_name := proc \<rparr> in
      if offset + 4 > limit then (Ret False, m)
      else msg_step (rd_u32le data offset) m (\<lambda>line. (Ret True, m\<lparr> msg_line_number := line \<rparr>)))))))))"

definition ParseError :: "simdutf \<Rightarrow> TokenParser \<Rightarrow> bool res \<times> TokenParser" where
  "ParseError U p =
     (if Available p < 3 then (Ret False, p)
      else case rd_u16le (Current p) 1 of
        Ret token_length \<Rightarrow>
          if Available p < 3 + unat token_length then (Ret False, p)
          else if token_length < 6 then (Ret False, p)
          else (case read_message U (Current p) (unat token_length) (current_error p) of
            (Ret True, m) \<Rightarrow> (Ret True, ConsumeBytes (3 + unat token_length) (p\<lparr> current_error := m \<rparr>))
          | (r, m) \<Rightarrow> (r, p\<lparr> current_error := m \<rparr>))
      | _ \<Rightarrow> (OOB, p))"

definition ParseInfo :: "simdutf \<Rightarrow> TokenParser \<Rightarrow> bool res \<times> TokenParser" where
  "ParseInfo U p =
     (if Available p < 3 then (Ret False, p)
      else case rd_u16le (Current p) 1 of
        Ret token_length \<Rightarrow>
          if Available p < 3 + unat token_length then (Ret False, p)
          else if token_length < 6 then (Ret False, p)
          else (case read_message U (Current p) (unat token_length) (current_info p) of
            (Ret True, m) \<Rightarrow> (Ret True, ConsumeBytes (3 + unat token_length) (p\<lparr> current_info := m \<rparr>))
          | (r, m) \<Rightarrow> (r, p\<lparr> current_info := m \<rparr>))
      | _ \<Rightarrow> (OOB, p))"

definition ParseEnvChange :: "TokenParser \<Rightarrow> bool res \<times> TokenParser" where
  "ParseEnvChange p =
     (if Available p < 3 then (Ret False, p)
      else case rd_u16le (Current p) 1 of
        Ret token_length \<Rightarrow>
          if Available p < 3 + unat token_length then (Ret False, p)
          else (Ret True, ConsumeBytes (3 + unat token_length) p)
      | _ \<Rightarrow> (OOB, p))"

subsection \<open>The dispatch loop\<close>

fun token_result :: "ParsedTokenType \<Rightarrow> bool res \<times> TokenParser \<Rightarrow> ParsedTokenType res \<times> TokenParser" where
  "token_result t (r, p) = (map_res (\<lambda>b. if b then t else NeedMoreData) r, p)"

lemma Current_ConsumeBytes [simp]: "Current (ConsumeBytes n p) = drop n (Current p)"
  by (simp add: Current_def ConsumeBytes_def CompactBuffer_def add.commute)

lemma Current_shorter: "rd (Current p) 0 = Ret t \<Longrightarrow> 0 < n \<Longrightarrow> length (Current (ConsumeBytes n p)) < length (Current p)"
  by (auto simp: rd_def split: if_splits)

lemma unat_token_end: "unat (ucast (w :: u32) + 5 :: u64) = unat w + 5"
proof -
  have "unat (ucast w :: u64) = unat w" using u32_less [of w]
    by (simp add: unsigned_ucast_eq take_bit_nat_eq_self_iff)
  then show ?thesis using u32_less [of w] by (simp add: unat_word_ariths)
qed

function token_loop :: "simdutf \<Rightarrow> TokenParser \<Rightarrow> ParsedTokenType res \<times> TokenParser" where
  "token_loop U p =
     (if state p = Complete \<or> state p = Error then (Ret NeedMoreData, p)
      else if Available p < 1 then (Ret NeedMoreData, p)
      else case rd (Current p) 0 of
        Ret token_type \<Rightarrow>
          if token_type = TokenType_COLMETADATA then token_result TokColMetadata (ParseColMetadata U p)
          else if token_type = TokenType_ROW then token_result TokRow (ParseRow p)
          else if token_type = TokenType_NBCROW then token_result TokRow (ParseNBCRow p)
          else if token_type \<in> {TokenType_DONE, TokenType_DONEPROC, TokenType_DONEINPROC} then
            token_result TokDone (ParseDone p)
          else if token_type = TokenType_ERROR_TOKEN then token_result TokError (ParseError U p)
          else if token_type = TokenType_INFO then token_result TokInfo (ParseInfo U p)
          else if token_type = TokenType_ENVCHANGE then token_result TokEnvChange (ParseEnvChange p)
          else if token_type \<in> {TokenType_ORDER, TokenType_RETURNSTATUS, TokenType_RETURNVALUE,
                                TokenType_LOGINACK, TokenType_TABNAME, TokenType_COLINFO} then
            (if Available p < 3 then (Ret NeedMoreData, p)
             else case rd_u16le (Current p) 1 of
               Ret token_length \<Rightarrow>
                 let token_end = unat token_length + 3 in
                 if Available p < token_end then (Ret NeedMoreData, p)
                 else token_loop U (ConsumeBytes token_end p)
             | _ \<Rightarrow> (OOB, p))
          else if token_type = TokenType_SSPI then
            (if Available p < 3 then (Ret NeedMoreData, p)
             else case rd_u16le (Current p) 1 of
               Ret token_length \<Rightarrow>
                 let token_end = unat token_length + 3 in
                 if Available p < token_end then (Ret NeedMoreData, p)
                 else token_loop U (ConsumeBytes token_end p)
             | _ \<Rightarrow> (OOB, p))
          else if token_type = TokenType_FEDAUTHINFO then
            (if Available p < 5 then (Ret NeedMoreData, p)
             else case rd_u32le (Current p) 1 of
               Ret token_length \<Rightarrow>
                 let token_end = unat (ucast token_length + 5 :: u64) in
                 if Available p < token_end then (Ret NeedMoreData, p)
                 else token_loop U (ConsumeBytes token_end p)
             | _ \<Rightarrow> (OOB, p))
          else (Ret TokNone,
            p\<lparr> parse_error := ''Unknown token type: 0x'' @ to_string (unat token_type), state := Error \<rparr>)
      | _ \<Rightarrow> (OOB, p))"
  by pat_completeness auto
termination
  by (relation "measure (\<lambda>(U, p). length (Current p))")
    (auto simp: Let_def unat_token_end simp del: Current_ConsumeBytes intro!: Current_shorter)

declare token_loop.simps [simp del]

definition TryParseNext :: "simdutf \<Rightarrow> TokenParser \<Rightarrow> ParsedTokenType res \<times> TokenParser" where
  "TryParseNext U p =
     (let p = (if pending_consume p > 0 then ConsumeBytes (pending_consume p) (p\<lparr> pending_consume := 0 \<rparr>) else p)
      in token_loop U p)"

subsection \<open>The transaction descriptor scanner\<close>

text \<open>
  The offsets are written relative to the token byte at \<open>offset\<close>: the length field at
  \<open>offset + 1\<close>, the environment type at \<open>offset + 3\<close>, \<open>new_len_pos = offset + 4\<close>.
\<close>

function find_txn_loop :: "byte list \<Rightarrow> nat \<Rightarrow> byte list option res" where
  "find_txn_loop data offset =
     (if offset < length data then
        bind_res (rd data offset) (\<lambda>token_type.
        if token_type = 0xE3 then
          (if offset + 3 > length data then Ret None
           else bind_res (rd_u16le data (offset + 1)) (\<lambda>token_len.
             let token_end = (if offset + 3 + unat token_len > length data then length data
                              else offset + 3 + unat token_len);
                 next = find_txn_loop data token_end
             in if offset + 3 < length data then
                  bind_res (rd data (offset + 3)) (\<lambda>env_type.
                  if env_type = 0x08 then
                    (if offset + 4 < length data then
                       bind_res (rd data (offset + 4)) (\<lambda>new_len.
                       if new_len = 8 \<and> offset + 4 + 1 + 8 \<le> length data
                       then map_res Some (rd_block data (offset + 5) 8)
                       else next)
                     else next)
                  else next)
                else next))
        else if token_type = 0xFD \<or> token_type = 0xFE \<or> token_type = 0xFF then
          find_txn_loop data (offset + 13)
        else Ret None)
      else Ret None)"
  by pat_completeness auto
termination
  by (relation "measure (\<lambda>(data, offset). length data - offset)") auto

declare find_txn_loop.simps [simp del]

definition FindBeginTxnDescriptor :: "byte list \<Rightarrow> byte list option res" where
  "FindBeginTxnDescriptor data = find_txn_loop data 0"

subsection \<open>The scanner\<close>

lemma find_txn_env:
  assumes "off + 3 \<le> length data" "data ! off = 0xE3" "rd_u16le data (off + 1) = Ret w"
  shows "find_txn_loop data off =
     (if off + 13 \<le> length data \<and> data ! (off + 3) = 8 \<and> data ! (off + 4) = 8
      then Ret (Some (take 8 (drop (off + 5) data)))
      else find_txn_loop data (min (length data) (off + 3 + unat w)))"
proof -
  have e: "(if off + 3 + unat w > length data then length data else off + 3 + unat w) = min (length data) (off + 3 + unat w)"
    by (simp add: min_def)
  have l: "off < length data" "\<not> off + 3 > length data" using assms(1) by simp_all
  show ?thesis
    by (subst find_txn_loop.simps, unfold Let_def)
      (simp only: l assms e if_True if_False rd_in bind_res.simps, auto simp: rd_block_def)
qed

lemma find_txn_stop:
  "off < length data \<Longrightarrow> \<not> off + 3 \<le> length data \<Longrightarrow> data ! off = 0xE3 \<Longrightarrow> find_txn_loop data off = Ret None"
  "off < length data \<Longrightarrow> data ! off \<notin> {0xE3, 0xFD, 0xFE, 0xFF} \<Longrightarrow> find_txn_loop data off = Ret None"
  "\<not> off < length data \<Longrightarrow> find_txn_loop data off = Ret None"
  by (subst find_txn_loop.simps; simp)+

lemma find_txn_done:
  "off < length data \<Longrightarrow> data ! off \<in> {0xFD, 0xFE, 0xFF} \<Longrightarrow> find_txn_loop data off = find_txn_loop data (off + 13)"
  by (subst find_txn_loop.simps) auto

lemma find_txn_total:
  "\<exists>r. find_txn_loop data off = Ret r \<and>
     (\<forall>x. r = Some x \<longrightarrow> (\<exists>k. k + 8 \<le> length data \<and> x = take 8 (drop k data)))"
proof (induction "length data - off" arbitrary: off rule: less_induct)
  case less
  have IH: "off < k \<Longrightarrow> off < length data \<Longrightarrow> \<exists>r. find_txn_loop data k = Ret r \<and>
     (\<forall>x. r = Some x \<longrightarrow> (\<exists>k. k + 8 \<le> length data \<and> x = take 8 (drop k data)))" for k
    by (rule less) arith
  consider "\<not> off < length data" | "off < length data" "data ! off = 0xE3" "off + 3 \<le> length data"
    | "off < length data" "data ! off = 0xE3" "\<not> off + 3 \<le> length data"
    | "off < length data" "data ! off \<in> {0xFD, 0xFE, 0xFF}"
    | "off < length data" "data ! off \<notin> {0xE3, 0xFD, 0xFE, 0xFF}" by blast
  then show ?case
  proof cases
    case 2
    then obtain w where w: "rd_u16le data (off + 1) = Ret w" by simp
    from 2 IH [of "min (length data) (off + 3 + unat w)"] show ?thesis
      unfolding find_txn_env [OF 2(3,2) w] by (auto intro: exI [of _ "off + 5"])
  next
    case 4
    with IH [of "off + 13"] show ?thesis by (simp add: find_txn_done)
  qed (simp_all add: find_txn_stop)
qed

text \<open>The tokens of a reply before the one that carries the descriptor.\<close>

datatype reply_token = RDone byte "byte list" | REnv "byte list"

fun enc_reply :: "reply_token \<Rightarrow> byte list" where
  "enc_reply (RDone t bs) = t # bs"
| "enc_reply (REnv bs) = 0xE3 # le16 (of_nat (length bs)) @ bs"

fun wf_reply :: "reply_token \<Rightarrow> bool" where
  "wf_reply (RDone t bs) \<longleftrightarrow> t \<in> {0xFD, 0xFE, 0xFF} \<and> length bs = 12"
| "wf_reply (REnv bs) \<longleftrightarrow> bs \<noteq> [] \<and> hd bs \<noteq> 0x08 \<and> length bs < 65536"

lemma find_txn_skip:
  assumes "wf_reply r"
  shows "find_txn_loop (pre @ enc_reply r @ rest) (length pre) =
     find_txn_loop ((pre @ enc_reply r) @ rest) (length (pre @ enc_reply r))"
proof (cases r)
  case (RDone t bs)
  with assms show ?thesis by (subst find_txn_done) (auto simp: nth_append)
next
  case (REnv bs)
  let ?d = "pre @ enc_reply r @ rest"
  have w: "rd_u16le ?d (length pre + 1) = Ret (of_nat (length bs))"
    using REnv by (simp add: le16_def nth_append u16le_le16)
  have n: "unat (of_nat (length bs) :: u16) = length bs" using REnv assms by (intro u16_of_nat) simp
  have b: "?d ! (length pre + 3) \<noteq> 8" using REnv assms by (cases bs) (auto simp: nth_append le16_def)
  show ?thesis
    using REnv assms b n
    by (subst find_txn_env [OF _ _ w]) (auto simp: nth_append min_def numeral_3_eq_3)
qed

lemma find_txn_replies:
  "list_all wf_reply rs \<Longrightarrow> find_txn_loop (pre @ concat (map enc_reply rs) @ rest) (length pre) =
     find_txn_loop ((pre @ concat (map enc_reply rs)) @ rest) (length (pre @ concat (map enc_reply rs)))"
proof (induction rs arbitrary: pre)
  case (Cons r rs)
  then show ?case
    using find_txn_skip [of r pre "concat (map enc_reply rs) @ rest"] Cons.IH [of "pre @ enc_reply r"] by simp
qed simp

lemma find_txn_found:
  assumes "list_all wf_reply rs" "length desc = 8"
  shows "FindBeginTxnDescriptor (concat (map enc_reply rs) @ [0xE3] @ le16 k @ [8, 8] @ desc @ rest) = Ret (Some desc)"
proof -
  let ?p = "concat (map enc_reply rs)" let ?t = "[0xE3] @ le16 k @ [8, 8] @ desc @ rest"
  have w: "rd_u16le (?p @ ?t) (length ?p + 1) = Ret k" by (simp add: le16_def nth_append u16le_le16)
  have "FindBeginTxnDescriptor (?p @ ?t) = find_txn_loop (?p @ ?t) (length ?p)"
    unfolding FindBeginTxnDescriptor_def using find_txn_replies [OF assms(1), of "[]" ?t] by simp
  also have "\<dots> = Ret (Some desc)"
    using assms(2) by (subst find_txn_env [OF _ _ w]) (simp_all add: nth_append le16_def)
  finally show ?thesis .
qed

text \<open>the scanner for the transaction descriptor is safe on any server reply: it terminates without
  reading outside the reply, and what it returns are eight consecutive bytes of the reply.\<close>

theorem FindBeginTxnDescriptor_safe:
  "\<exists>r. FindBeginTxnDescriptor data = Ret r \<and>
     (\<forall>x. r = Some x \<longrightarrow> (\<exists>k. k + 8 \<le> length data \<and> x = take 8 (drop k data)))"
  unfolding FindBeginTxnDescriptor_def by (rule find_txn_total)

theorem FindBeginTxnDescriptor_safe_witness:
  "\<exists>k. k + 8 \<le> 13 \<and> [1, 2, 3, 4, 5, 6, 7, 8] = take 8 (drop k ([0xE3, 11, 0, 8, 8, 1, 2, 3, 4, 5, 6, 7, 8] :: byte list))"
proof -
  have "FindBeginTxnDescriptor [0xE3, 11, 0, 8, 8, 1, 2, 3, 4, 5, 6, 7, 8] = Ret (Some [1, 2, 3, 4, 5, 6, 7, 8])"
    by (simp add: FindBeginTxnDescriptor_def find_txn_loop.simps u16le_def)
  with FindBeginTxnDescriptor_safe [of "[0xE3, 11, 0, 8, 8, 1, 2, 3, 4, 5, 6, 7, 8]"] show ?thesis by auto
qed

text \<open>the scanner finds the descriptor: behind any DONE tokens and ENVCHANGE tokens of other types
  it returns the eight bytes of the BEGIN TRANSACTION change.\<close>

theorem FindBeginTxnDescriptor_finds:
  assumes "list_all wf_reply rs" "length desc = 8"
  shows "FindBeginTxnDescriptor (concat (map enc_reply rs) @ [0xE3] @ le16 k @ [8, 8] @ desc @ rest) = Ret (Some desc)"
  using assms by (rule find_txn_found)

theorem FindBeginTxnDescriptor_finds_witness:
  "FindBeginTxnDescriptor (concat (map enc_reply [REnv [1, 0, 0], RDone 0xFD (replicate 12 0)]) @ [0xE3] @ le16 11 @
     [8, 8] @ [1, 2, 3, 4, 5, 6, 7, 8] @ []) = Ret (Some [1, 2, 3, 4, 5, 6, 7, 8])"
  by (rule FindBeginTxnDescriptor_finds) simp_all

end
