(* ===== verification/Token_Stream.thy ===== *)
theory Token_Stream
  imports Token_Parser
begin

text \<open>
  What the token parser promises its caller. \<open>token_spec\<close> specifies one token of a byte stream and
  \<open>parse_stream\<close> a whole stream, without buffer, position, compaction, deferred consumption or partial
  state. The routines of \<open>Token_Parser\<close> meet this specification (\<open>meets\<close>, \<open>follows\<close>), so driving
  the parser chunk by chunk (\<open>receive\<close>) gives exactly the events of the concatenated stream.
\<close>

subsection \<open>The parser as a consumer of a byte stream\<close>

text \<open>What the caller observes of a parsed token.\<close>

datatype row_mode = Normal | Skip | Raw

datatype event = EvColumns "ColumnMetadata list" | EvRow RowData | EvRowSkipped | EvRawRow bool "byte list"
  | EvDone DoneToken | EvError TdsMessage | EvInfo TdsMessage | EvEnvChange | EvIgnored

definition mode_of :: "TokenParser \<Rightarrow> row_mode" where
  "mode_of p = (if skip_rows p then Skip else if raw_row_mode p then Raw else Normal)"

fun event_of :: "ParsedTokenType \<Rightarrow> TokenParser \<Rightarrow> event" where
  "event_of TokColMetadata p = EvColumns (columns p)"
| "event_of TokRow p = (case mode_of p of Skip \<Rightarrow> EvRowSkipped
     | Raw \<Rightarrow> EvRawRow (raw_row_nbc p) (GetRawRow p) | Normal \<Rightarrow> EvRow (current_row p))"
| "event_of TokDone p = EvDone (current_done p)"
| "event_of TokError p = EvError (current_error p)"
| "event_of TokInfo p = EvInfo (current_info p)"
| "event_of TokEnvChange p = EvEnvChange"
| "event_of _ p = EvIgnored"

text \<open>The unconsumed input, once a raw row handed out before is released.\<close>

definition stream :: "TokenParser \<Rightarrow> byte list" where
  "stream p = drop (pending_consume p) (Current p)"

text \<open>The abstract specification: one token of a byte stream, given the current columns.\<close>

fun wrap_throw :: "string \<Rightarrow> 'a res \<Rightarrow> 'a res" where
  "wrap_throw pre (Throw m) = Throw (pre @ m)"
| "wrap_throw pre r = r"

definition blank_row :: "nat \<Rightarrow> RowData" where
  "blank_row n = \<lparr> row_values = replicate n [], null_mask = replicate n False \<rparr>"

definition row_spec :: "row_mode \<Rightarrow> ColumnMetadata list \<Rightarrow> byte list \<Rightarrow> (nat \<times> event) res" where
  "row_spec mode cols s =
     (if cols = [] then Throw ''ROW token before COLMETADATA''
      else case mode of
        Skip \<Rightarrow> map_res (\<lambda>n. (1 + n, EvRowSkipped)) (SkipRow None cols (drop 1 s))
      | Raw \<Rightarrow> bind_res (SkipRow None cols (drop 1 s)) (\<lambda>n. bind_res (rd_block s 1 n) (\<lambda>bs.
          Ret (1 + n, EvRawRow False bs)))
      | Normal \<Rightarrow> wrap_throw ''ROW parse error: ''
          (map_res (\<lambda>(n, row). (1 + n, EvRow row)) (ReadRow cols (drop 1 s) (blank_row (length cols)))))"

definition nbc_spec :: "row_mode \<Rightarrow> ColumnMetadata list \<Rightarrow> byte list \<Rightarrow> (nat \<times> event) res" where
  "nbc_spec mode cols s =
     (if cols = [] then Throw ''NBCROW token before COLMETADATA''
      else case mode of
        Skip \<Rightarrow> map_res (\<lambda>n. (1 + n, EvRowSkipped)) (SkipNBCRow None cols (drop 1 s))
      | Raw \<Rightarrow> bind_res (SkipNBCRow None cols (drop 1 s)) (\<lambda>n. bind_res (rd_block s 1 n) (\<lambda>bs.
          Ret (1 + n, EvRawRow True bs)))
      | Normal \<Rightarrow> wrap_throw ''NBCROW parse error: ''
          (map_res (\<lambda>(n, row). (1 + n, EvRow row)) (ReadNBCRow cols (drop 1 s) (blank_row (length cols)))))"

definition message_spec :: "simdutf \<Rightarrow> (TdsMessage \<Rightarrow> event) \<Rightarrow> byte list \<Rightarrow> (nat \<times> event) res" where
  "message_spec U ev s =
     need (3 \<le> length s) (bind_res (rd_u16le s 1) (\<lambda>token_length.
     need (3 + unat token_length \<le> length s) (
     if token_length < 6 then More
     else case read_message U (take (3 + unat token_length) s) (unat token_length) new_message of
       (Ret True, m) \<Rightarrow> Ret (3 + unat token_length, ev m)
     | (Ret False, m) \<Rightarrow> More | (Throw e, m) \<Rightarrow> Throw e | (More, m) \<Rightarrow> More | (OOB, m) \<Rightarrow> OOB)))"

definition skip16_spec :: "event \<Rightarrow> byte list \<Rightarrow> (nat \<times> event) res" where
  "skip16_spec ev s =
     need (3 \<le> length s) (bind_res (rd_u16le s 1) (\<lambda>token_length.
     need (3 + unat token_length \<le> length s) (Ret (3 + unat token_length, ev))))"

definition skip32_spec :: "byte list \<Rightarrow> (nat \<times> event) res" where
  "skip32_spec s =
     need (5 \<le> length s) (bind_res (rd_u32le s 1) (\<lambda>token_length.
     need (5 + unat token_length \<le> length s) (Ret (5 + unat token_length, EvIgnored))))"

definition token_at :: "simdutf \<Rightarrow> row_mode \<Rightarrow> ColumnMetadata list \<Rightarrow> byte list \<Rightarrow> (nat \<times> event) res" where
  "token_at U mode cols s =
     bind_res (rd s 0) (\<lambda>t.
     if t = TokenType_COLMETADATA then
       wrap_throw ''COLMETADATA parse error: ''
         (need (3 \<le> length s) (map_res (\<lambda>(n, cs). (1 + n, EvColumns cs)) (ParseColumns U (drop 1 s))))
     else if t = TokenType_ROW then row_spec mode cols s
     else if t = TokenType_NBCROW then nbc_spec mode cols s
     else if t \<in> {TokenType_DONE, TokenType_DONEPROC, TokenType_DONEINPROC} then
       need (13 \<le> length s) (bind_res (read_done s) (\<lambda>d. Ret (13, EvDone d)))
     else if t = TokenType_ERROR_TOKEN then message_spec U EvError s
     else if t = TokenType_INFO then message_spec U EvInfo s
     else if t = TokenType_ENVCHANGE then skip16_spec EvEnvChange s
     else if t \<in> {TokenType_ORDER, TokenType_RETURNSTATUS, TokenType_RETURNVALUE, TokenType_LOGINACK,
                  TokenType_TABNAME, TokenType_COLINFO, TokenType_SSPI} then skip16_spec EvIgnored s
     else if t = TokenType_FEDAUTHINFO then skip32_spec s
     else Throw (''Unknown token type: 0x'' @ to_string (unat t)))"

definition token_spec :: "simdutf \<Rightarrow> row_mode \<Rightarrow> ColumnMetadata list \<Rightarrow> byte list \<Rightarrow> (nat \<times> event) res" where
  "token_spec U mode cols s = need (1 \<le> length s) (token_at U mode cols s)"

subsection \<open>One token is an incremental item\<close>

lemma reads_wrap_throw [reads_intros]: "reads used n p \<Longrightarrow> reads used n (\<lambda>d. wrap_throw pre (p d))"
proof -
  assume a: "reads used n p"
  have eq: "wrap_throw pre r = Ret x \<longleftrightarrow> r = Ret x" "wrap_throw pre r = OOB \<longleftrightarrow> r = OOB"
    "wrap_throw pre r = Throw m \<longleftrightarrow> (\<exists>m'. r = Throw m' \<and> m = pre @ m')" for r :: "'a res" and x m
    by (cases r; auto)+
  from a show ?thesis unfolding reads_def by (auto simp: eq)
qed

lemma reads_local:
  assumes "\<And>d. n \<le> length d \<Longrightarrow> p d = f (take n d)" and "\<And>t. length t = n \<Longrightarrow> f t \<noteq> OOB"
    and "\<And>t r. f t = Ret r \<Longrightarrow> used r = n"
  shows "reads used n p"
  unfolding reads_def
proof (intro allI impI conjI)
  fix d :: "byte list" assume n: "n \<le> length d"
  show "p d \<noteq> OOB" using assms(1) [OF n] assms(2) [of "take n d"] n by simp
  fix r assume r: "p d = Ret r"
  with assms(1) [OF n] assms(3) have u: "used r = n" by metis
  then show "n \<le> used r" "used r \<le> length d" using n by auto
  show "p (take (used r) d @ e) = Ret r" for e using assms(1) [of "take n d @ e"] assms(1) [OF n] r u n by simp
next
  fix d :: "byte list" and m e assume n: "n \<le> length d" and "p d = Throw m"
  with assms(1) [OF n] assms(1) [of "d @ e"] show "p (d @ e) = Throw m" by simp
qed

lemma varchar_safe:
  "ParseUSVarchar U data off \<noteq> OOB" "ParseBVarchar U data off \<noteq> OOB"
  "ParseUSVarchar U data off \<noteq> Throw m" "ParseBVarchar U data off \<noteq> Throw m"
  by (auto simp: ParseUSVarchar_def ParseBVarchar_def res_simps Let_def)

lemma msg_step_iff:
  "fst (msg_step r m f) = OOB \<longleftrightarrow> r = OOB \<or> (\<exists>x. r = Ret x \<and> fst (f x) = OOB)"
  by (cases r) auto

lemma read_message_no_oob:
  assumes "3 + tln \<le> length data" and "6 \<le> tln"
  shows "fst (read_message U data tln m) \<noteq> OOB"
  using assms
  by (auto simp: read_message_def Let_def msg_step_iff varchar_safe split: if_splits)

lemma read_message_take:
  assumes "3 + tln \<le> length data" and "6 \<le> tln"
  shows "read_message U (take (3 + tln) data) tln m = read_message U data tln m"
proof -
  have 1: "rd_u32le (take (3 + tln) data) 3 = rd_u32le data 3" "rd (take (3 + tln) data) (3 + 4) = rd data (3 + 4)"
    "rd (take (3 + tln) data) (3 + 5) = rd data (3 + 5)"
    using assms by (simp_all add: rd_take)
  have 2: "off + 4 \<le> 3 + tln \<Longrightarrow> rd_u32le (take (3 + tln) data) off = rd_u32le data off" for off
    using assms by simp
  show ?thesis
    unfolding read_message_def Let_def 1 take_take
    by (simp add: 2 not_less cong: if_cong)
qed

lemma reads_message_spec: "reads fst 1 (message_spec U ev)"
proof -
  have 1: "reads fst (3 + k) (\<lambda>s. case read_message U (take (3 + k) s) k new_message of
       (Ret True, m) \<Rightarrow> Ret (3 + k, ev m)
     | (Ret False, m) \<Rightarrow> More | (Throw e, m) \<Rightarrow> Throw e | (More, m) \<Rightarrow> More | (OOB, m) \<Rightarrow> OOB)"
    (is "reads fst _ ?p") if "6 \<le> k" for k
  proof (rule reads_local [where f = ?p])
    fix t :: "byte list" assume "length t = 3 + k"
    with read_message_no_oob [of k t U new_message] that show "?p t \<noteq> OOB"
      by (auto split: prod.splits res.splits bool.splits)
  qed (auto split: prod.splits res.splits bool.splits)
  have "max (max 1 3) (3 + unat x) = 3 + unat x" for x :: u16 by simp
  then show ?thesis unfolding message_spec_def
    by (intro reads_intros) (auto intro!: 1 simp: word_less_nat_alt not_less)
qed

lemma reads_read_done: "13 \<le> n \<Longrightarrow> (\<And>d. reads used n (p d)) \<Longrightarrow> reads used n (\<lambda>s. bind_res (read_done s) (\<lambda>d. p d s))"
  by (rule reads_bind_local [where g = "\<lambda>t. \<lparr> done_status = u16le (t ! 1) (t ! 2), done_cur_cmd = u16le (t ! 3) (t ! 4),
       done_row_count = u64le (t ! 5) (t ! 6) (t ! 7) (t ! 8) (t ! 9) (t ! 10) (t ! 11) (t ! 12) \<rparr>"])
    (simp_all add: read_done_def numeral_2_eq_2)

lemma reads_ReadRow: "reads fst 0 (\<lambda>d. ReadRow cols d (blank_row n))"
proof -
  have w: "length (null_mask (blank_row n)) = length (row_values (blank_row n))" by (simp add: blank_row_def)
  show ?thesis unfolding ReadRow_walk [OF w]
    by (rule reads_map_res) (simp add: case_prod_beta read_columns.reads_walk)
qed

lemma reads_shift:
  "reads u 0 f \<Longrightarrow> (\<And>r. w (g r) = n + u r) \<Longrightarrow> reads w n (\<lambda>d. map_res g (f (drop n d)))"
  using reads_drop [OF reads_incremental, of u f n] by (intro reads_map_res) simp

lemma reads_row_spec: "reads fst 1 (row_spec mode cols)"
proof -
  have sk: "reads (\<lambda>n. n) 0 (SkipRow None cols)"
    using skip_columns.reads_walk [of 0 cols] unfolding SkipRow_walk [abs_def] by (intro reads_map_res)
  have raw: "reads fst 1 (\<lambda>s. bind_res (SkipRow None cols (drop 1 s)) (\<lambda>n. bind_res (rd_block s 1 n) (\<lambda>bs.
      Ret (1 + n, EvRawRow False bs))))"
    by (intro reads_call [OF reads_drop [OF reads_incremental [OF sk]]] reads_intros) auto
  show ?thesis
    unfolding row_spec_def using raw
    by (cases mode) (auto intro!: reads_intros reads_shift [OF sk] reads_shift [OF reads_ReadRow])
qed

lemma reads_nbc_spec: "reads fst 1 (nbc_spec mode cols)"
proof -
  have raw: "reads fst 1 (\<lambda>s. bind_res (SkipNBCRow None cols (drop 1 s)) (\<lambda>n. bind_res (rd_block s 1 n) (\<lambda>bs.
      Ret (1 + n, EvRawRow True bs))))"
    by (intro reads_call [OF reads_drop [OF reads_incremental [OF reads_SkipNBCRow]]] reads_intros) auto
  show ?thesis
    unfolding nbc_spec_def using raw
    by (cases mode) (auto intro!: reads_intros reads_shift [OF reads_SkipNBCRow] reads_shift [OF reads_ReadNBCRow])
qed

lemma reads_need_min:
  assumes "reads u n p" and "\<And>d r. p d = Ret r \<Longrightarrow> m \<le> u r"
  shows "reads u n (\<lambda>d. need (m \<le> length d) (p d))"
proof -
  have "m \<le> length (take (u r) d @ e)" if "n \<le> length d" "p d = Ret r" for d r e
    using that assms(2) [of d r] reads_used [OF assms(1), of d r] by simp
  with assms(1) show ?thesis by (auto simp: reads_def res_simps)
qed

lemma reads_token_at: "reads fst 1 (token_at U mode cols)"
proof -
  have c: "reads fst 1 (\<lambda>s. need (3 \<le> length s) (map_res (\<lambda>(n, cs). (1 + n, EvColumns cs)) (ParseColumns U (drop 1 s))))"
  proof -
    have "reads fst 1 (\<lambda>s. map_res (\<lambda>(n, cs). (1 + n, EvColumns cs)) (ParseColumns U (drop 1 s)))"
      by (rule reads_shift [OF ParseColumns_reads]) auto
    then show ?thesis
      by (rule reads_need_min) (auto simp: res_simps dest!: ParseColumns_min)
  qed
  have s: "reads fst 1 (skip16_spec ev)" "reads fst 1 skip32_spec" for ev
    unfolding skip16_spec_def skip32_spec_def by (intro reads_intros; auto)+
  show ?thesis unfolding token_at_def
    by (intro c s reads_message_spec reads_row_spec reads_nbc_spec reads_read_done reads_intros) auto
qed

lemma reads_token_spec: "reads fst 0 (token_spec U mode cols)"
  unfolding token_spec_def by (intro reads_intros) (simp add: reads_token_at [simplified])

lemma token_spec_pos: "token_spec U mode cols s = Ret r \<Longrightarrow> 0 < fst r"
  using reads_used [OF reads_token_at, of U mode cols s r] by (simp add: token_spec_def res_simps)

interpretation token: incremental_item "token_spec U mode cols" fst for U mode cols
  by (rule reads_incremental_item [OF reads_token_spec]) (rule token_spec_pos)

text \<open>A COLMETADATA token does not depend on the columns in force before it.\<close>

lemma token_spec_colmetadata:
  "s \<noteq> [] \<Longrightarrow> hd s = TokenType_COLMETADATA \<Longrightarrow> token_spec U mode cols s = token_spec U mode cols' s"
  by (simp add: token_spec_def token_at_def hd_conv_nth)

subsection \<open>The specification of a whole stream\<close>

datatype outcome = Waiting | Finished | Failed string | Crashed

fun columns_after :: "event \<Rightarrow> ColumnMetadata list \<Rightarrow> ColumnMetadata list" where
  "columns_after (EvColumns cs) cols = cs"
| "columns_after _ cols = cols"

fun is_final :: "event \<Rightarrow> bool" where
  "is_final (EvDone d) = IsFinal d"
| "is_final _ = False"

definition observed :: "event \<Rightarrow> event list" where
  "observed ev = (if ev = EvIgnored then [] else [ev])"

function parse_stream :: "simdutf \<Rightarrow> row_mode \<Rightarrow> ColumnMetadata list \<Rightarrow> byte list \<Rightarrow> event list \<times> outcome" where
  "parse_stream U mode cols s =
     (case token_spec U mode cols s of
        Ret (n, ev) \<Rightarrow>
          if is_final ev then (observed ev, Finished)
          else (case parse_stream U mode (columns_after ev cols) (drop n s) of (evs, oc) \<Rightarrow> (observed ev @ evs, oc))
      | More \<Rightarrow> ([], Waiting)
      | Throw m \<Rightarrow> ([], Failed m)
      | OOB \<Rightarrow> ([], Crashed))"
  by pat_completeness auto
termination
  by (relation "measure (\<lambda>(U, mode, cols, s). length s)") (auto dest: token.drop_shorter)

declare parse_stream.simps [simp del]

subsection \<open>The invariant of the parser object\<close>

definition parser_inv :: "TokenParser \<Rightarrow> bool" where
  "parser_inv p \<longleftrightarrow>
     buffer_pos p + pending_consume p \<le> length (buffer p) \<and>
     length (null_mask (current_row p)) = length (row_values (current_row p)) \<and>
     (skip_descs p = map ResolveSkipForm (columns p) \<or>
        stream p \<noteq> [] \<and> hd (stream p) = TokenType_COLMETADATA) \<and>
     (pending_consume p > 0 \<longrightarrow>
        raw_row_offset p = buffer_pos p + 1 \<and> raw_row_length p + 1 = pending_consume p)"

definition active :: "TokenParser \<Rightarrow> bool" where
  "active p \<longleftrightarrow> state p \<noteq> Complete \<and> state p \<noteq> Error"

lemma ConsumeBytes_fields [simp]:
  "state (ConsumeBytes n p) = state p" "parse_error (ConsumeBytes n p) = parse_error p"
  "skip_rows (ConsumeBytes n p) = skip_rows p" "raw_row_mode (ConsumeBytes n p) = raw_row_mode p"
  "pending_consume (ConsumeBytes n p) = pending_consume p" "columns (ConsumeBytes n p) = columns p"
  "skip_descs (ConsumeBytes n p) = skip_descs p" "current_row (ConsumeBytes n p) = current_row p"
  "current_error (ConsumeBytes n p) = current_error p" "current_info (ConsumeBytes n p) = current_info p"
  "current_done (ConsumeBytes n p) = current_done p" "mode_of (ConsumeBytes n p) = mode_of p"
  by (simp_all add: ConsumeBytes_def CompactBuffer_def mode_of_def)

lemma ConsumeBytes_pos:
  "buffer_pos p + n \<le> length (buffer p) \<Longrightarrow>
     buffer_pos (ConsumeBytes n p) \<le> length (buffer (ConsumeBytes n p))"
  by (simp add: ConsumeBytes_def CompactBuffer_def)

lemma Available_Current: "buffer_pos p \<le> length (buffer p) \<Longrightarrow> Available p = length (Current p)"
  by (simp add: Available_def Current_def)

lemma Current_upd [simp]:
  "Current (p\<lparr>state := a\<rparr>) = Current p" "Current (p\<lparr>parse_error := b\<rparr>) = Current p"
  "Current (p\<lparr>columns := c\<rparr>) = Current p" "Current (p\<lparr>skip_descs := d\<rparr>) = Current p"
  "Current (p\<lparr>current_row := e\<rparr>) = Current p" "Current (p\<lparr>current_error := f\<rparr>) = Current p"
  "Current (p\<lparr>current_info := f\<rparr>) = Current p" "Current (p\<lparr>current_done := g\<rparr>) = Current p"
  "Current (p\<lparr>pending_consume := k\<rparr>) = Current p" "Current (raw_row nbc n p) = Current p"
  by (simp_all add: Current_def raw_row_def)

lemma stream_no_pending: "pending_consume p = 0 \<Longrightarrow> stream p = Current p"
  by (simp add: stream_def)

text \<open>What a token routine owes to the specification of the token at the head of the stream.\<close>

definition meets :: "(nat \<times> event) res \<Rightarrow> TokenParser \<Rightarrow> ParsedTokenType res \<times> TokenParser \<Rightarrow> bool" where
  "meets spec p rp \<longleftrightarrow> (case spec of
     Ret (n, ev) \<Rightarrow> \<exists>t p'. rp = (Ret t, p') \<and> t \<noteq> NeedMoreData \<and> t \<noteq> TokNone \<and> event_of t p' = ev \<and>
       stream p' = drop n (Current p) \<and> parser_inv p' \<and> columns p' = columns_after ev (columns p) \<and>
       mode_of p' = mode_of p \<and> (state p' = Complete \<longleftrightarrow> is_final ev) \<and> state p' \<noteq> Error \<and>
       (mode_of p = Raw \<and> t = TokRow \<longrightarrow> 0 < pending_consume p')
   | More \<Rightarrow> \<exists>p'. rp = (Ret NeedMoreData, p') \<and> Current p' = Current p \<and> pending_consume p' = 0 \<and>
       parser_inv p' \<and> state p' = state p \<and> mode_of p' = mode_of p \<and>
       (columns p' = columns p \<or> Current p \<noteq> [] \<and> hd (Current p) = TokenType_COLMETADATA)
   | Throw m \<Rightarrow> \<exists>p'. parser_inv p' \<and> (rp = (Throw m, p') \<or>
       rp \<in> {(Ret NeedMoreData, p'), (Ret TokNone, p')} \<and> state p' = Error \<and> parse_error p' = m)
   | OOB \<Rightarrow> False)"

text \<open>The state a token routine starts from.\<close>

definition ready :: "TokenParser \<Rightarrow> bool" where
  "ready p \<longleftrightarrow> parser_inv p \<and> active p \<and> pending_consume p = 0 \<and> Current p \<noteq> []"

lemma ready_facts:
  assumes "ready p"
  shows "buffer_pos p \<le> length (buffer p)" "Available p = length (Current p)" "stream p = Current p"
    "length (null_mask (current_row p)) = length (row_values (current_row p))" "pending_consume p = 0"
    "state p \<noteq> Complete" "state p \<noteq> Error" "parser_inv p" "Current p \<noteq> []"
  using assms by (auto simp: ready_def parser_inv_def active_def Available_Current stream_no_pending)

lemma ready_descs:
  "ready p \<Longrightarrow> hd (Current p) \<noteq> TokenType_COLMETADATA \<Longrightarrow> skip_descs p = map ResolveSkipForm (columns p)"
  by (auto simp: ready_def parser_inv_def stream_no_pending)

text \<open>Consuming a complete token keeps the invariant when the descriptors match the columns.\<close>

lemma inv_Consume:
  assumes "buffer_pos p + n \<le> length (buffer p)" "pending_consume p = 0"
    "length (null_mask (current_row p)) = length (row_values (current_row p))"
    "skip_descs p = map ResolveSkipForm (columns p)"
  shows "parser_inv (ConsumeBytes n p)"
  using assms ConsumeBytes_pos [OF assms(1)] by (simp add: parser_inv_def)

lemma parser_inv_upd [simp]:
  "parser_inv (p\<lparr>state := a\<rparr>) = parser_inv p" "parser_inv (p\<lparr>parse_error := b\<rparr>) = parser_inv p"
  "parser_inv (p\<lparr>current_error := f\<rparr>) = parser_inv p" "parser_inv (p\<lparr>current_info := f\<rparr>) = parser_inv p"
  "parser_inv (p\<lparr>current_done := g\<rparr>) = parser_inv p"
  by (simp_all add: parser_inv_def stream_def)

lemma mode_of_upd [simp]:
  "mode_of (p\<lparr>state := a\<rparr>) = mode_of p" "mode_of (p\<lparr>parse_error := b\<rparr>) = mode_of p"
  "mode_of (p\<lparr>columns := c\<rparr>) = mode_of p" "mode_of (p\<lparr>skip_descs := d\<rparr>) = mode_of p"
  "mode_of (p\<lparr>current_row := e\<rparr>) = mode_of p" "mode_of (p\<lparr>current_error := f\<rparr>) = mode_of p"
  "mode_of (p\<lparr>current_info := f\<rparr>) = mode_of p" "mode_of (p\<lparr>current_done := g\<rparr>) = mode_of p"
  "mode_of (p\<lparr>pending_consume := k\<rparr>) = mode_of p" "mode_of (raw_row nbc n p) = mode_of p"
  by (simp_all add: mode_of_def raw_row_def)

lemma length_Current: "length (Current p) = length (buffer p) - buffer_pos p"
  by (simp add: Current_def)

lemma meets_EnvChange:
  assumes "ready p" "hd (Current p) \<noteq> TokenType_COLMETADATA"
  shows "meets (skip16_spec EvEnvChange (Current p)) p (token_result TokEnvChange (ParseEnvChange p))"
proof (cases "3 \<le> length (Current p)")
  case True
  note r = ready_facts [OF assms(1)] ready_descs [OF assms]
  obtain w where w: "rd_u16le (Current p) 1 = Ret w" using True by simp
  show ?thesis
  proof (cases "3 + unat w \<le> length (Current p)")
    case full: True
    then have "buffer_pos p + (3 + unat w) \<le> length (buffer p)" using r(1) by (simp add: length_Current)
    from inv_Consume [OF this] r True w full show ?thesis
      by (simp add: meets_def skip16_spec_def ParseEnvChange_def stream_def del: rd_u16le_in)
  next
    case False
    with r True w show ?thesis
      by (simp add: meets_def skip16_spec_def ParseEnvChange_def del: rd_u16le_in)
  qed
next
  case False
  with ready_facts [OF assms(1)] show ?thesis by (simp add: meets_def skip16_spec_def ParseEnvChange_def)
qed

lemma ready_room:
  "ready p \<Longrightarrow> n \<le> length (Current p) \<Longrightarrow> buffer_pos p + n \<le> length (buffer p)"
  by (auto simp: length_Current dest: ready_facts(1))

lemma meets_Done:
  assumes "ready p" "hd (Current p) \<noteq> TokenType_COLMETADATA"
  shows "meets (need (13 \<le> length (Current p)) (bind_res (read_done (Current p)) (\<lambda>d. Ret (13, EvDone d)))) p
     (token_result TokDone (ParseDone p))"
proof (cases "13 \<le> length (Current p)")
  case True
  note r = ready_facts [OF assms(1)] ready_descs [OF assms]
  obtain d where d: "read_done (Current p) = Ret d" using True by (simp add: read_done_def)
  have "parser_inv (ConsumeBytes 13 (p\<lparr>current_done := d\<rparr>))"
    using r ready_room [OF assms(1) True] by (intro inv_Consume) simp_all
  with r True d show ?thesis
    by (auto simp: meets_def ParseDone_def stream_def Available_def Let_def)
next
  case False
  with ready_facts [OF assms(1)] show ?thesis by (simp add: meets_def ParseDone_def)
qed

text \<open>A complete message overwrites every field, so what the parser held before does not matter.\<close>

definition message_fields :: "simdutf \<Rightarrow> byte list \<Rightarrow> nat \<Rightarrow> TdsMessage res" where
  "message_fields U data k =
     bind_res (rd_u32le data 3) (\<lambda>n. bind_res (rd data (3 + 4)) (\<lambda>st. bind_res (rd data (3 + 5)) (\<lambda>sev.
     bind_res (ParseUSVarchar U (take (3 + k) data) (3 + 6)) (\<lambda>to.
     bind_res (ParseBVarchar U (take (3 + k) data) (snd to)) (\<lambda>so.
     bind_res (ParseBVarchar U (take (3 + k) data) (snd so)) (\<lambda>po.
     need (\<not> snd po + 4 > 3 + k) (bind_res (rd_u32le data (snd po)) (\<lambda>line.
       Ret \<lparr> msg_number = n, msg_state = st, msg_severity = sev, msg_message = fst to,
         msg_server_name = fst so, msg_proc_name = fst po, msg_line_number = line \<rparr>))))))))"

fun msg_rel :: "TdsMessage res \<Rightarrow> bool res \<times> TdsMessage \<Rightarrow> bool" where
  "msg_rel (Ret m) (r, m') \<longleftrightarrow> r = Ret True \<and> m' = m"
| "msg_rel More (r, m') \<longleftrightarrow> r = Ret False"
| "msg_rel (Throw e) (r, m') \<longleftrightarrow> r = Throw e"
| "msg_rel OOB (r, m') \<longleftrightarrow> r = OOB"

lemma msg_rel_step:
  "(\<And>x. r = Ret x \<Longrightarrow> msg_rel (F x) (f x)) \<Longrightarrow> msg_rel (bind_res r F) (msg_step r m f)"
  by (cases r) auto

lemma msg_rel_need:
  "(\<not> c \<Longrightarrow> msg_rel q rp) \<Longrightarrow> msg_rel (need (\<not> c) q) (if c then (Ret False, m) else rp)"
  by (cases c) auto

lemma read_message_rel: "msg_rel (message_fields U d k) (read_message U d k m)"
  unfolding message_fields_def read_message_def Let_def case_prod_beta
  by (intro msg_rel_step msg_rel_need) simp

lemma message_fields_no_throw: "message_fields U d k \<noteq> Throw e"
proof -
  have rd: "rd d i \<noteq> Throw e" "rd_u32le d i \<noteq> Throw e" for i
    by (auto simp: rd_def rd_u32le_def res_simps)
  show ?thesis by (auto simp: message_fields_def res_simps rd varchar_safe)
qed

lemma read_message_cases:
  obtains (full) msg where "\<And>m. read_message U d k m = (Ret True, msg)"
  | (malformed) f where "\<And>m. read_message U d k m = (Ret False, f m)"
  | (oob) f where "\<And>m. read_message U d k m = (OOB, f m)"
proof (cases "message_fields U d k")
  case (Ret m')
  have "read_message U d k m = (Ret True, m')" for m
    using read_message_rel [of U d k m] Ret by (cases "read_message U d k m") auto
  then show thesis by (rule full)
next
  case More
  have "read_message U d k m = (Ret False, snd (read_message U d k m))" for m
    using read_message_rel [of U d k m] More by (cases "read_message U d k m") auto
  then show thesis by (rule malformed)
next
  case OOB
  have "read_message U d k m = (OOB, snd (read_message U d k m))" for m
    using read_message_rel [of U d k m] OOB by (cases "read_message U d k m") auto
  then show thesis by (rule oob)
qed (simp add: message_fields_no_throw)

lemma meets_Error:
  assumes "ready p" "hd (Current p) \<noteq> TokenType_COLMETADATA"
  shows "meets (message_spec U EvError (Current p)) p (token_result TokError (ParseError U p))"
proof (cases "3 \<le> length (Current p)")
  case True
  note r = ready_facts [OF assms(1)] ready_descs [OF assms]
  obtain w where w: "rd_u16le (Current p) 1 = Ret w" using True by simp
  show ?thesis
  proof (cases "3 + unat w \<le> length (Current p) \<and> \<not> w < 6")
    case full: True
    then have k: "6 \<le> unat w" by (simp add: word_less_nat_alt)
    have inv: "parser_inv (ConsumeBytes (3 + unat w) (p\<lparr>current_error := m\<rparr>))" for m
      using r ready_room [OF assms(1), of "3 + unat w"] full by (intro inv_Consume) simp_all
    have t: "read_message U (take (3 + unat w) (Current p)) (unat w) m = read_message U (Current p) (unat w) m" for m
      using full k by (intro read_message_take) simp_all
    have no: "fst (read_message U (Current p) (unat w) m) \<noteq> OOB" for m
      using full k by (intro read_message_no_oob) simp_all
    show ?thesis
      by (cases rule: read_message_cases [of U "Current p" "unat w"])
        (use r True w full inv no t in \<open>auto simp: meets_def message_spec_def ParseError_def stream_def Available_def
           simp del: rd_u16le_in\<close>)
  next
    case False
    with r True w show ?thesis
      by (auto simp: meets_def message_spec_def ParseError_def need_def simp del: rd_u16le_in)
  qed
next
  case False
  with ready_facts [OF assms(1)] show ?thesis by (simp add: meets_def message_spec_def ParseError_def)
qed

lemma meets_Info:
  assumes "ready p" "hd (Current p) \<noteq> TokenType_COLMETADATA"
  shows "meets (message_spec U EvInfo (Current p)) p (token_result TokInfo (ParseInfo U p))"
proof (cases "3 \<le> length (Current p)")
  case True
  note r = ready_facts [OF assms(1)] ready_descs [OF assms]
  obtain w where w: "rd_u16le (Current p) 1 = Ret w" using True by simp
  show ?thesis
  proof (cases "3 + unat w \<le> length (Current p) \<and> \<not> w < 6")
    case full: True
    then have k: "6 \<le> unat w" by (simp add: word_less_nat_alt)
    have inv: "parser_inv (ConsumeBytes (3 + unat w) (p\<lparr>current_info := m\<rparr>))" for m
      using r ready_room [OF assms(1), of "3 + unat w"] full by (intro inv_Consume) simp_all
    have t: "read_message U (take (3 + unat w) (Current p)) (unat w) m = read_message U (Current p) (unat w) m" for m
      using full k by (intro read_message_take) simp_all
    have no: "fst (read_message U (Current p) (unat w) m) \<noteq> OOB" for m
      using full k by (intro read_message_no_oob) simp_all
    show ?thesis
      by (cases rule: read_message_cases [of U "Current p" "unat w"])
        (use r True w full inv no t in \<open>auto simp: meets_def message_spec_def ParseInfo_def stream_def Available_def
           simp del: rd_u16le_in\<close>)
  next
    case False
    with r True w show ?thesis
      by (auto simp: meets_def message_spec_def ParseInfo_def need_def simp del: rd_u16le_in)
  qed
next
  case False
  with ready_facts [OF assms(1)] show ?thesis by (simp add: meets_def message_spec_def ParseInfo_def)
qed

lemma meets_ColMetadata:
  assumes "ready p" "hd (Current p) = TokenType_COLMETADATA"
  shows "meets (wrap_throw ''COLMETADATA parse error: '' (need (3 \<le> length (Current p))
       (map_res (\<lambda>(n, cs). (1 + n, EvColumns cs)) (ParseColumns U (drop 1 (Current p)))))) p
     (token_result TokColMetadata (ParseColMetadata U p))"
proof (cases "3 \<le> length (Current p)")
  case True
  note r = ready_facts [OF assms(1)]
  obtain q cols where q: "ParseColMetadata_columns U (drop 1 (Current p)) = (q, cols)" by force
  then have e: "ParseColumns U (drop 1 (Current p)) = map_res (\<lambda>n. (n, cols)) q" by (simp add: ParseColumns_def)
  have inv: "parser_inv (p\<lparr>columns := cols\<rparr>)"
    using r assms(2) by (simp add: parser_inv_def stream_def)
  show ?thesis
  proof (cases q)
    case (Ret n)
    with metadata.used_le e True have n: "1 + n \<le> length (Current p)" by fastforce
    have "parser_inv (ConsumeBytes (1 + n) (p\<lparr>columns := cols, skip_descs := map ResolveSkipForm cols\<rparr>))"
      using r ready_room [OF assms(1) n] by (intro inv_Consume) simp_all
    with Ret q e r True show ?thesis
      by (simp add: meets_def ParseColMetadata_def stream_def Let_def)
  next
    case OOB
    with e metadata.no_oob [of U "drop 1 (Current p)"] show ?thesis by simp
  qed (use q e r True inv assms(2) in \<open>auto simp: meets_def ParseColMetadata_def\<close>)
next
  case False
  with ready_facts [OF assms(1)] show ?thesis by (simp add: meets_def ParseColMetadata_def)
qed

lemma Prepare_cleared:
  assumes "length (null_mask row) = length (row_values row)"
  shows "Prepare n (row_Clear row) = blank_row n"
proof -
  have "map (\<lambda>_. x) ys = replicate (length ys) x" for x :: 'b and ys :: "'a list" by (simp add: map_replicate_const)
  then show ?thesis using assms
    by (auto simp: Prepare_def row_Clear_def blank_row_def resize_def map_replicate_const min_def replicate_add [symmetric])
qed

lemma ReadRow_cleared:
  assumes "length (null_mask row) = length (row_values row)"
  shows "ReadRow cols d (row_Clear row) = ReadRow cols d (blank_row (length cols))"
    and "ReadNBCRow cols d (row_Clear row) = ReadNBCRow cols d (blank_row (length cols))"
proof -
  have "Prepare n (blank_row n) = blank_row n" for n
    by (simp add: Prepare_def blank_row_def row_Clear_def map_replicate_const)
  then show "ReadRow cols d (row_Clear row) = ReadRow cols d (blank_row (length cols))"
    "ReadNBCRow cols d (row_Clear row) = ReadNBCRow cols d (blank_row (length cols))"
    using Prepare_cleared [OF assms] by (simp_all add: ReadRow_def ReadNBCRow_def)
qed

lemma ReadRow_lengths:
  "ReadRow cols d (blank_row k) = Ret (n, row) \<Longrightarrow> length (null_mask row) = length (row_values row)"
  by (auto simp: ReadRow_walk blank_row_def res_simps)

lemma read_nbc_loop_lengths:
  "read_nbc_loop cs i d off row = Ret (n, row') \<Longrightarrow>
     length (null_mask row') = length (null_mask row) \<and> length (row_values row') = length (row_values row)"
  by (induction cs arbitrary: i off row) (fastforce simp: res_simps split: if_splits)+

lemma ReadNBCRow_lengths:
  assumes "ReadNBCRow cols d (blank_row k) = Ret (n, row)"
  shows "length (null_mask row) = length (row_values row)"
proof -
  have l: "length (row_values (Prepare m (blank_row k))) = m" for m
    by (rule length_Prepare) (simp add: blank_row_def)
  from assms obtain bits where b: "mapM_res (bitmap_bit d) [0..<length cols] = Ret bits"
    and loop: "read_nbc_loop cols 0 d ((length cols + 7) div 8)
      (Prepare (length cols) (blank_row k)\<lparr>null_mask := bits\<rparr>) = Ret (n, row)"
    and len: "(length cols + 7) div 8 \<le> length d"
    by (auto simp: ReadNBCRow_def Let_def res_simps)
  from b len have "length bits = length cols" by (auto simp: bitmap_bits)
  with read_nbc_loop_lengths [OF loop] l show ?thesis by simp
qed

lemma inv_cleared: "ready p \<Longrightarrow> parser_inv (p\<lparr>current_row := row_Clear (current_row p)\<rparr>)"
  by (auto simp: ready_def parser_inv_def stream_def row_Clear_def)

lemma meets_raw:
  assumes "ready p" "hd (Current p) \<noteq> TokenType_COLMETADATA" "1 + n \<le> length (Current p)"
  shows "parser_inv (raw_row nbc n p)" "stream (raw_row nbc n p) = drop (1 + n) (Current p)"
    "GetRawRow (raw_row nbc n p) = take n (drop 1 (Current p))"
    "raw_row_nbc (raw_row nbc n p) = nbc" "0 < pending_consume (raw_row nbc n p)" "columns (raw_row nbc n p) = columns p" "state (raw_row nbc n p) = state p"
  using ready_facts [OF assms(1)] ready_descs [OF assms(1,2)] ready_room [OF assms(1,3)]
  by (simp_all add: parser_inv_def stream_def raw_row_def GetRawRow_def Current_def add.commute)

lemma meets_Row:
  assumes "ready p" "hd (Current p) \<noteq> TokenType_COLMETADATA"
  shows "meets (row_spec (mode_of p) (columns p) (Current p)) p (token_result TokRow (ParseRow p))"
proof (cases "columns p = []")
  case True
  then show ?thesis using ready_facts(8) [OF assms(1)] by (simp add: meets_def row_spec_def ParseRow_def)
next
  case cols: False
  note r = ready_facts [OF assms(1)] ready_descs [OF assms]
  let ?d = "drop 1 (Current p)"
  have av: "\<not> Available p < 1" using r by (simp add: Suc_le_eq)
  have used: "SkipRow None (columns p) ?d = Ret n \<Longrightarrow> 1 + n \<le> length (Current p)" for n
    using skip_row.used_le [of "columns p" ?d n] r(9) by (cases "Current p") auto
  show ?thesis
  proof (cases "mode_of p")
    case Normal
    then have m: "\<not> skip_rows p" "\<not> raw_row_mode p" by (auto simp: mode_of_def split: if_splits)
    let ?b = "blank_row (length (columns p))"
    have e: "ReadRow (columns p) ?d (row_Clear (current_row p)) = ReadRow (columns p) ?d ?b"
      by (rule ReadRow_cleared(1) [OF r(4)])
    show ?thesis
    proof (cases "ReadRow (columns p) ?d ?b")
      case (Ret x)
      obtain n row where x: "x = (n, row)" by (cases x)
      have n: "1 + n \<le> length (Current p)"
        using incremental.used_le [OF reads_incremental [OF reads_ReadRow] Ret] x r(9) by (cases "Current p") auto
      have "parser_inv (ConsumeBytes (1 + n) (p\<lparr>current_row := row\<rparr>))"
        using r ready_room [OF assms(1) n] ReadRow_lengths [OF Ret [unfolded x]] by (intro inv_Consume) simp_all
      with Ret x cols av m e Normal r show ?thesis
        by (simp add: meets_def row_spec_def ParseRow_def stream_def Let_def)
    next
      case OOB
      then show ?thesis using incremental.no_oob [OF reads_incremental [OF reads_ReadRow]] by blast
    qed (use cols av m e Normal r inv_cleared [OF assms(1)] in \<open>auto simp: meets_def row_spec_def ParseRow_def Let_def\<close>)
  next
    case Skip
    then have m: "skip_rows p" by (auto simp: mode_of_def split: if_splits)
    show ?thesis
    proof (cases "SkipRow None (columns p) ?d")
      case (Ret n)
      have "parser_inv (ConsumeBytes (1 + n) p)"
        using r ready_room [OF assms(1) used [OF Ret]] by (intro inv_Consume) simp_all
      with Ret cols av m Skip r show ?thesis
        by (simp add: meets_def row_spec_def ParseRow_def stream_def SkipRow_descs)
    next
      case OOB
      with skip_row.no_oob show ?thesis by blast
    qed (use cols av m Skip r in \<open>auto simp: meets_def row_spec_def ParseRow_def SkipRow_descs\<close>)
  next
    case Raw
    then have m: "\<not> skip_rows p" "raw_row_mode p" by (auto simp: mode_of_def split: if_splits)
    show ?thesis
    proof (cases "SkipRow None (columns p) ?d")
      case (Ret n)
      from meets_raw [OF assms used [OF Ret], of False] Ret used [OF Ret] cols av m Raw r show ?thesis
        by (simp add: meets_def row_spec_def ParseRow_def SkipRow_descs)
    next
      case OOB
      with skip_row.no_oob show ?thesis by blast
    qed (use cols av m Raw r in \<open>auto simp: meets_def row_spec_def ParseRow_def SkipRow_descs\<close>)
  qed
qed

lemma meets_NBCRow:
  assumes "ready p" "hd (Current p) \<noteq> TokenType_COLMETADATA"
  shows "meets (nbc_spec (mode_of p) (columns p) (Current p)) p (token_result TokRow (ParseNBCRow p))"
proof (cases "columns p = []")
  case True
  then show ?thesis using ready_facts(8) [OF assms(1)] by (simp add: meets_def nbc_spec_def ParseNBCRow_def)
next
  case cols: False
  note r = ready_facts [OF assms(1)] ready_descs [OF assms]
  let ?d = "drop 1 (Current p)"
  have av: "\<not> Available p < 1" using r by (simp add: Suc_le_eq)
  have used: "SkipNBCRow None (columns p) ?d = Ret n \<Longrightarrow> 1 + n \<le> length (Current p)" for n
    using skip_nbc_row.used_le [of "columns p" ?d n] r(9) by (cases "Current p") auto
  show ?thesis
  proof (cases "mode_of p")
    case Normal
    then have m: "\<not> skip_rows p" "\<not> raw_row_mode p" by (auto simp: mode_of_def split: if_splits)
    let ?b = "blank_row (length (columns p))"
    have e: "ReadNBCRow (columns p) ?d (row_Clear (current_row p)) = ReadNBCRow (columns p) ?d ?b"
      by (rule ReadRow_cleared(2) [OF r(4)])
    show ?thesis
    proof (cases "ReadNBCRow (columns p) ?d ?b")
      case (Ret x)
      obtain n row where x: "x = (n, row)" by (cases x)
      have n: "1 + n \<le> length (Current p)"
        using incremental.used_le [OF reads_incremental [OF reads_ReadNBCRow] Ret] x r(9) by (cases "Current p") auto
      have "parser_inv (ConsumeBytes (1 + n) (p\<lparr>current_row := row\<rparr>))"
        using r ready_room [OF assms(1) n] ReadNBCRow_lengths [OF Ret [unfolded x]] by (intro inv_Consume) simp_all
      with Ret x cols av m e Normal r show ?thesis
        by (simp add: meets_def nbc_spec_def ParseNBCRow_def stream_def Let_def)
    next
      case OOB
      then show ?thesis using incremental.no_oob [OF reads_incremental [OF reads_ReadNBCRow]] by blast
    qed (use cols av m e Normal r inv_cleared [OF assms(1)] in \<open>auto simp: meets_def nbc_spec_def ParseNBCRow_def Let_def\<close>)
  next
    case Skip
    then have m: "skip_rows p" by (auto simp: mode_of_def split: if_splits)
    show ?thesis
    proof (cases "SkipNBCRow None (columns p) ?d")
      case (Ret n)
      have "parser_inv (ConsumeBytes (1 + n) p)"
        using r ready_room [OF assms(1) used [OF Ret]] by (intro inv_Consume) simp_all
      with Ret cols av m Skip r show ?thesis
        by (simp add: meets_def nbc_spec_def ParseNBCRow_def stream_def SkipNBCRow_descs)
    next
      case OOB
      with skip_nbc_row.no_oob show ?thesis by blast
    qed (use cols av m Skip r in \<open>auto simp: meets_def nbc_spec_def ParseNBCRow_def SkipNBCRow_descs\<close>)
  next
    case Raw
    then have m: "\<not> skip_rows p" "raw_row_mode p" by (auto simp: mode_of_def split: if_splits)
    show ?thesis
    proof (cases "SkipNBCRow None (columns p) ?d")
      case (Ret n)
      from meets_raw [OF assms used [OF Ret], of True] Ret used [OF Ret] cols av m Raw r show ?thesis
        by (simp add: meets_def nbc_spec_def ParseNBCRow_def SkipNBCRow_descs)
    next
      case OOB
      with skip_nbc_row.no_oob show ?thesis by blast
    qed (use cols av m Raw r in \<open>auto simp: meets_def nbc_spec_def ParseNBCRow_def SkipNBCRow_descs\<close>)
  qed
qed

subsection \<open>The dispatch loop follows the specification\<close>

definition prepend :: "event list \<Rightarrow> event list \<times> outcome \<Rightarrow> event list \<times> outcome" where
  "prepend evs r = (evs @ fst r, snd r)"

lemma parse_stream_token:
  "token_spec U mode cols s = Ret (n, ev) \<Longrightarrow>
     parse_stream U mode cols (s @ e) =
       (if is_final ev then (observed ev, Finished)
        else prepend (observed ev) (parse_stream U mode (columns_after ev cols) (drop n s @ e)))"
  using token.ret_append [of U mode cols s "(n, ev)" e] token.used_le [of U mode cols s "(n, ev)"]
  by (subst parse_stream.simps) (simp add: prepend_def case_prod_beta)

lemma parse_stream_throw:
  "token_spec U mode cols s = Throw m \<Longrightarrow> parse_stream U mode cols (s @ e) = ([], Failed m)"
  using token.throw_append [of U mode cols s m e] by (subst parse_stream.simps) simp

lemma parse_stream_more: "token_spec U mode cols s = More \<Longrightarrow> parse_stream U mode cols s = ([], Waiting)"
  by (subst parse_stream.simps) simp

lemma parse_stream_colmetadata:
  assumes "s \<noteq> []" "hd s = TokenType_COLMETADATA"
  shows "parse_stream U mode cols (s @ e) = parse_stream U mode cols' (s @ e)"
proof -
  have c: "token_spec U mode cols (s @ e) = token_spec U mode cols' (s @ e)"
    using assms by (intro token_spec_colmetadata) auto
  have "columns_after ev cols = columns_after ev cols'" if "token_spec U mode cols (s @ e) = Ret (n, ev)" for n ev
    using that assms by (auto simp: token_spec_def token_at_def res_simps hd_append hd_conv_nth [symmetric]
        elim!: wrap_throw.elims)
  then show ?thesis
    by (subst (1 2) parse_stream.simps, unfold c) (auto split: res.splits simp: c)
qed

definition follows :: "simdutf \<Rightarrow> TokenParser \<Rightarrow> ParsedTokenType res \<times> TokenParser \<Rightarrow> bool" where
  "follows U p rp \<longleftrightarrow> (let spec = (\<lambda>e. parse_stream U (mode_of p) (columns p) (stream p @ e)) in
     case rp of
       (Ret t, p') \<Rightarrow>
         if t = NeedMoreData \<or> t = TokNone then
           if state p' = Error then parser_inv p' \<and> (\<forall>e. spec e = ([], Failed (parse_error p')))
           else t = NeedMoreData \<and> active p' \<and> parser_inv p' \<and> mode_of p' = mode_of p \<and>
             token_spec U (mode_of p) (columns p') (stream p') = More \<and>
             (\<forall>e. spec e = parse_stream U (mode_of p) (columns p') (stream p' @ e))
         else parser_inv p' \<and> mode_of p' = mode_of p \<and> length (stream p') < length (stream p) \<and>
           columns p' = columns_after (event_of t p') (columns p) \<and>
           (\<exists>s n. token_spec U (mode_of p) (columns p) s = Ret (n, event_of t p')) \<and>
           (mode_of p = Raw \<and> t = TokRow \<longrightarrow> 0 < pending_consume p') \<and>
           state p' \<noteq> Error \<and> (state p' = Complete \<longleftrightarrow> is_final (event_of t p')) \<and>
           (\<forall>e. spec e = (if is_final (event_of t p') then ([event_of t p'], Finished)
             else prepend [event_of t p'] (parse_stream U (mode_of p) (columns p') (stream p' @ e))))
     | (Throw m, p') \<Rightarrow> parser_inv p' \<and> (\<forall>e. spec e = ([], Failed m))
     | (More, p') \<Rightarrow> False
     | (OOB, p') \<Rightarrow> False)"

lemma event_observed: "t \<noteq> NeedMoreData \<Longrightarrow> t \<noteq> TokNone \<Longrightarrow> observed (event_of t p) = [event_of t p]"
  by (cases t) (auto simp: observed_def split: row_mode.splits)

lemma meets_follows:
  assumes "meets (token_spec U (mode_of p) (columns p) (Current p)) p rp" "active p" "pending_consume p = 0"
  shows "follows U p rp"
proof -
  have s: "stream p = Current p" by (rule stream_no_pending [OF assms(3)])
  show ?thesis
  proof (cases "token_spec U (mode_of p) (columns p) (Current p)")
    case (Ret x)
    then obtain n ev where spec: "token_spec U (mode_of p) (columns p) (Current p) = Ret (n, ev)" by (cases x) auto
    with assms(1) obtain t p' where rp: "rp = (Ret t, p')" "t \<noteq> NeedMoreData" "t \<noteq> TokNone" "event_of t p' = ev"
      "stream p' = drop n (Current p)" "parser_inv p'" "columns p' = columns_after ev (columns p)"
      "mode_of p' = mode_of p" "(state p' = Complete) = is_final ev" "state p' \<noteq> Error"
      "mode_of p = Raw \<and> t = TokRow \<longrightarrow> 0 < pending_consume p'"
      by (auto simp: meets_def)
    moreover have "length (stream p') < length (stream p)"
      using token.drop_shorter [OF spec] rp(5) s by simp
    moreover have "\<exists>s n. token_spec U (mode_of p) (columns p) s = Ret (n, event_of t p')"
      using spec rp(4) by blast
    ultimately show ?thesis
      using parse_stream_token [OF spec] event_observed [OF rp(2,3), of p'] s
      by (auto simp: follows_def Let_def)
  next
    case More
    with assms(1) obtain p' where p': "rp = (Ret NeedMoreData, p')" "Current p' = Current p" "pending_consume p' = 0"
      "parser_inv p'" "state p' = state p" "mode_of p' = mode_of p"
      "columns p' = columns p \<or> Current p \<noteq> [] \<and> hd (Current p) = TokenType_COLMETADATA"
      by (auto simp: meets_def)
    from p' have sp': "stream p' = Current p" by (simp add: stream_no_pending)
    from p'(7) More have "token_spec U (mode_of p) (columns p') (Current p) = More"
      using token_spec_colmetadata [of "Current p" U "mode_of p" "columns p'" "columns p"] by auto
    moreover from p'(7) have "parse_stream U (mode_of p) (columns p) (Current p @ e) =
        parse_stream U (mode_of p) (columns p') (Current p @ e)" for e
      using parse_stream_colmetadata [of "Current p"] by metis
    ultimately show ?thesis using p' sp' s assms(2) by (simp add: follows_def active_def Let_def)
  next
    case (Throw m)
    with assms(1) parse_stream_throw [OF Throw] s show ?thesis by (auto simp: follows_def meets_def Let_def)
  next
    case OOB
    with assms(1) show ?thesis by (simp add: meets_def)
  qed
qed

text \<open>A skipped token: consume it and go on.\<close>

lemma follows_skip:
  assumes "token_spec U (mode_of p) (columns p) (Current p) = Ret (n, EvIgnored)"
    and "pending_consume p = 0" and "follows U (ConsumeBytes n p) rp"
  shows "follows U p rp"
proof -
  have s: "stream p = Current p" "stream (ConsumeBytes n p) = drop n (Current p)"
    using assms(2) by (simp_all add: stream_def)
  have "length (drop n (Current p)) \<le> length (Current p)" by simp
  with assms(3) parse_stream_token [OF assms(1)] s show ?thesis
    by (auto simp: follows_def Let_def observed_def prepend_def split: prod.splits res.splits if_splits)
qed

lemma ready_Consume:
  assumes "ready p" "hd (Current p) \<noteq> TokenType_COLMETADATA" "n \<le> length (Current p)"
  shows "parser_inv (ConsumeBytes n p)" "active (ConsumeBytes n p)" "pending_consume (ConsumeBytes n p) = 0"
  using inv_Consume [OF ready_room [OF assms(1,3)]] ready_facts [OF assms(1)] ready_descs [OF assms(1,2)]
  by (simp_all add: active_def)

lemma follows_idle: "active p \<Longrightarrow> parser_inv p \<Longrightarrow> pending_consume p = 0 \<Longrightarrow>
   token_spec U (mode_of p) (columns p) (Current p) = More \<Longrightarrow> follows U p (Ret NeedMoreData, p)"
  by (simp add: follows_def active_def stream_no_pending Let_def)

lemma follows_skip16:
  assumes "ready p" "hd (Current p) \<noteq> TokenType_COLMETADATA"
    and "token_spec U (mode_of p) (columns p) (Current p) = skip16_spec EvIgnored (Current p)"
    and IH: "\<And>n. 0 < n \<Longrightarrow> n \<le> length (Current p) \<Longrightarrow> follows U (ConsumeBytes n p) (token_loop U (ConsumeBytes n p))"
  shows "follows U p (if Available p < 3 then (Ret NeedMoreData, p)
       else case rd_u16le (Current p) 1 of
         Ret token_length \<Rightarrow>
           let token_end = unat token_length + 3 in
           if Available p < token_end then (Ret NeedMoreData, p)
           else token_loop U (ConsumeBytes token_end p)
       | _ \<Rightarrow> (OOB, p))"
proof -
  note r = ready_facts [OF assms(1)]
  from assms(1) have act: "active p" by (simp add: ready_def)
  note idle = follows_idle [OF act r(8,5)]
  show ?thesis
  proof (cases "3 \<le> length (Current p)")
    case True
    then obtain w where w: "rd_u16le (Current p) 1 = Ret w" by simp
    show ?thesis
    proof (cases "unat w + 3 \<le> length (Current p)")
      case full: True
      with True w assms(3) have "token_spec U (mode_of p) (columns p) (Current p) = Ret (unat w + 3, EvIgnored)"
        by (simp add: skip16_spec_def add.commute del: rd_u16le_in)
      from follows_skip [OF this r(5) IH] full True w r(2) show ?thesis by (simp add: Let_def del: rd_u16le_in)
    next
      case False
      with True w assms(3) idle r(2) show ?thesis
        by (simp add: skip16_spec_def add.commute Let_def del: rd_u16le_in)
    qed
  next
    case False
    with assms(3) idle r(2) show ?thesis by (simp add: skip16_spec_def)
  qed
qed

lemma follows_skip32:
  assumes "ready p" "hd (Current p) \<noteq> TokenType_COLMETADATA"
    and "token_spec U (mode_of p) (columns p) (Current p) = skip32_spec (Current p)"
    and IH: "\<And>n. 0 < n \<Longrightarrow> n \<le> length (Current p) \<Longrightarrow> follows U (ConsumeBytes n p) (token_loop U (ConsumeBytes n p))"
  shows "follows U p (if Available p < 5 then (Ret NeedMoreData, p)
       else case rd_u32le (Current p) 1 of
         Ret token_length \<Rightarrow>
           let token_end = unat (ucast token_length + 5 :: u64) in
           if Available p < token_end then (Ret NeedMoreData, p)
           else token_loop U (ConsumeBytes token_end p)
       | _ \<Rightarrow> (OOB, p))"
proof -
  note r = ready_facts [OF assms(1)]
  from assms(1) have act: "active p" by (simp add: ready_def)
  note idle = follows_idle [OF act r(8,5)]
  show ?thesis
  proof (cases "5 \<le> length (Current p)")
    case True
    then obtain w where w: "rd_u32le (Current p) 1 = Ret w" by simp
    show ?thesis
    proof (cases "unat w + 5 \<le> length (Current p)")
      case full: True
      with True w assms(3) have "token_spec U (mode_of p) (columns p) (Current p) = Ret (unat w + 5, EvIgnored)"
        by (simp add: skip32_spec_def add.commute del: rd_u32le_in)
      from follows_skip [OF this r(5) IH] full True w r(2) show ?thesis
        by (simp add: Let_def unat_token_end del: rd_u32le_in)
    next
      case False
      with True w assms(3) idle r(2) show ?thesis
        by (simp add: skip32_spec_def add.commute Let_def unat_token_end del: rd_u32le_in)
    qed
  next
    case False
    with assms(3) idle r(2) show ?thesis by (simp add: skip32_spec_def)
  qed
qed

lemma token_step_follows:
  assumes ready: "ready p"
    and IH: "hd (Current p) \<noteq> TokenType_COLMETADATA \<Longrightarrow> (\<And>n. 0 < n \<Longrightarrow> n \<le> length (Current p) \<Longrightarrow>
       follows U (ConsumeBytes n p) (token_loop U (ConsumeBytes n p)))"
  shows "follows U p (token_loop U p)"
proof -
  note r = ready_facts [OF ready]
  define t where "t = hd (Current p)"
  have t: "rd (Current p) 0 = Ret t" using r(9) by (simp add: t_def hd_conv_nth)
  have st: "\<not> (state p = Complete \<or> state p = Error)" "\<not> Available p < 1"
    using r by (auto simp: Suc_le_eq)
  have act: "active p" using ready by (simp add: ready_def)
  have spec: "token_spec U (mode_of p) (columns p) (Current p) = token_at U (mode_of p) (columns p) (Current p)"
    using r(9) by (simp add: token_spec_def Suc_le_eq)
  have mf: "meets (token_at U (mode_of p) (columns p) (Current p)) p rp \<Longrightarrow> follows U p rp" for rp
    using meets_follows [OF _ act r(5), of U rp] by (simp only: spec)
  note loop = token_loop.simps [of U p, unfolded t res.case, simplified st if_False]
  note at = token_at_def [of U "mode_of p" "columns p" "Current p", unfolded t bind_res.simps]
  have nc: "t \<noteq> TokenType_COLMETADATA \<Longrightarrow> hd (Current p) \<noteq> TokenType_COLMETADATA" by (simp add: t_def)
  have unknown: "meets (Throw (''Unknown token type: 0x'' @ to_string (unat t))) p (Ret TokNone,
      p\<lparr>parse_error := ''Unknown token type: 0x'' @ to_string (unat t), state := Error\<rparr>)"
    using r(8) by (simp add: meets_def)
  let ?skips = "{TokenType_ORDER, TokenType_RETURNSTATUS, TokenType_RETURNVALUE, TokenType_LOGINACK,
    TokenType_TABNAME, TokenType_COLINFO}"
  let ?known = "{TokenType_COLMETADATA, TokenType_ROW, TokenType_NBCROW, TokenType_DONE, TokenType_DONEPROC,
    TokenType_DONEINPROC, TokenType_ERROR_TOKEN, TokenType_INFO, TokenType_ENVCHANGE, TokenType_SSPI,
    TokenType_FEDAUTHINFO} \<union> ?skips"
  consider "t = TokenType_COLMETADATA" | "t = TokenType_ROW" | "t = TokenType_NBCROW"
    | "t \<in> {TokenType_DONE, TokenType_DONEPROC, TokenType_DONEINPROC}" | "t = TokenType_ERROR_TOKEN"
    | "t = TokenType_INFO" | "t = TokenType_ENVCHANGE" | "t \<in> ?skips" | "t = TokenType_SSPI"
    | "t = TokenType_FEDAUTHINFO" | "t \<notin> ?known"
    by blast
  then show ?thesis
  proof cases
    case 1
    with mf [of "token_result TokColMetadata (ParseColMetadata U p)"] meets_ColMetadata [OF ready, of U]
    show ?thesis by (simp add: loop at t_def)
  next
    case 2
    with mf [of "token_result TokRow (ParseRow p)"] meets_Row [OF ready nc] show ?thesis by (simp add: loop at)
  next
    case 3
    with mf [of "token_result TokRow (ParseNBCRow p)"] meets_NBCRow [OF ready nc] show ?thesis by (simp add: loop at)
  next
    case 4
    then have h: "t \<noteq> TokenType_COLMETADATA" "t \<noteq> TokenType_ROW" "t \<noteq> TokenType_NBCROW" by auto
    from mf [of "token_result TokDone (ParseDone p)"] meets_Done [OF ready nc [OF h(1)]] show ?thesis
      unfolding loop at by (simp only: h 4 if_True if_False simp_thms)
  next
    case 5
    with mf [of "token_result TokError (ParseError U p)"] meets_Error [OF ready nc, of U] show ?thesis
      by (simp add: loop at)
  next
    case 6
    with mf [of "token_result TokInfo (ParseInfo U p)"] meets_Info [OF ready nc, of U] show ?thesis
      by (simp add: loop at)
  next
    case 7
    with mf [of "token_result TokEnvChange (ParseEnvChange p)"] meets_EnvChange [OF ready nc] show ?thesis
      by (simp add: loop at)
  next
    case 8
    then have h: "hd (Current p) \<noteq> TokenType_COLMETADATA" by (auto simp: t_def)
    have "token_at U (mode_of p) (columns p) (Current p) = skip16_spec EvIgnored (Current p)"
      using 8 unfolding at by auto
    from follows_skip16 [OF ready h, of U, unfolded spec, OF this IH [OF h]] 8 show ?thesis
      unfolding loop by auto
  next
    case 9
    then have h: "hd (Current p) \<noteq> TokenType_COLMETADATA" by (simp add: t_def)
    have "token_at U (mode_of p) (columns p) (Current p) = skip16_spec EvIgnored (Current p)"
      using 9 unfolding at by simp
    from follows_skip16 [OF ready h, of U, unfolded spec, OF this IH [OF h]] 9 show ?thesis
      unfolding loop by simp
  next
    case 10
    then have h: "hd (Current p) \<noteq> TokenType_COLMETADATA" by (simp add: t_def)
    have "token_at U (mode_of p) (columns p) (Current p) = skip32_spec (Current p)"
      using 10 unfolding at by simp
    from follows_skip32 [OF ready h, of U, unfolded spec, OF this IH [OF h]] 10 show ?thesis
      unfolding loop by simp
  next
    case 11
    with mf [of "(Ret TokNone, p\<lparr>parse_error := ''Unknown token type: 0x'' @ to_string (unat t), state := Error\<rparr>)"]
      unknown show ?thesis unfolding loop at by simp
  qed
qed

lemma token_loop_follows:
  "parser_inv p \<Longrightarrow> active p \<Longrightarrow> pending_consume p = 0 \<Longrightarrow> follows U p (token_loop U p)"
proof (induction "length (Current p)" arbitrary: p rule: less_induct)
  case less
  show ?case
  proof (cases "Current p = []")
    case True
    then have "token_spec U (mode_of p) (columns p) (Current p) = More" by (simp add: token_spec_def)
    moreover have "Available p = 0"
      using less.prems(1) True by (simp add: Available_Current parser_inv_def)
    ultimately show ?thesis using less.prems follows_idle by (subst token_loop.simps) (simp add: active_def)
  next
    case False
    with less.prems have ready: "ready p" by (simp add: ready_def)
    show ?thesis
    proof (rule token_step_follows [OF ready])
      fix n assume h: "hd (Current p) \<noteq> TokenType_COLMETADATA" and n: "0 < n" "n \<le> length (Current p)"
      have "length (Current (ConsumeBytes n p)) < length (Current p)" using n False by simp
      from less.hyps [OF this ready_Consume [OF ready h n(2)]]
      show "follows U (ConsumeBytes n p) (token_loop U (ConsumeBytes n p))" .
    qed
  qed
qed

lemma follows_stream_eq:
  assumes "stream q = stream p" "mode_of q = mode_of p" "columns q = columns p" "follows U q rp"
  shows "follows U p rp"
  using assms(4) unfolding follows_def assms(1-3) .

lemma TryParseNext_follows:
  assumes "parser_inv p" "active p"
  shows "follows U p (TryParseNext U p)"
proof (cases "pending_consume p > 0")
  case True
  let ?q = "ConsumeBytes (pending_consume p) (p\<lparr>pending_consume := 0\<rparr>)"
  have q: "stream ?q = stream p" "mode_of ?q = mode_of p" "columns ?q = columns p" "pending_consume ?q = 0" "active ?q"
    using assms(2) by (simp_all add: stream_def active_def)
  have "buffer_pos ?q \<le> length (buffer ?q)"
    using assms(1) ConsumeBytes_pos [of "p\<lparr>pending_consume := 0\<rparr>" "pending_consume p"] by (simp add: parser_inv_def)
  then have "parser_inv ?q" using assms(1) q(1) by (simp add: parser_inv_def)
  from follows_stream_eq [OF q(1-3) token_loop_follows [OF this q(5,4)]] True show ?thesis
    by (simp add: TryParseNext_def)
qed (use token_loop_follows assms in \<open>simp add: TryParseNext_def\<close>)

subsection \<open>Driving the parser\<close>

text \<open>
  The caller's loop: after each received chunk, call \<open>TryParseNext\<close> until it asks for more data.
\<close>

definition outcome_of :: "TokenParser \<Rightarrow> outcome" where
  "outcome_of p = (case state p of Complete \<Rightarrow> Finished | Error \<Rightarrow> Failed (parse_error p) | _ \<Rightarrow> Waiting)"

fun drain :: "nat \<Rightarrow> simdutf \<Rightarrow> TokenParser \<Rightarrow> event list \<times> outcome \<times> TokenParser" where
  "drain 0 U p = ([], Crashed, p)"
| "drain (Suc fuel) U p =
     (case TryParseNext U p of
        (Ret t, p') \<Rightarrow>
          if t = NeedMoreData \<or> t = TokNone then ([], outcome_of p', p')
          else (case drain fuel U p' of (evs, oc, q) \<Rightarrow> (event_of t p' # evs, oc, q))
      | (Throw m, p') \<Rightarrow> ([], Failed m, p')
      | (_, p') \<Rightarrow> ([], Crashed, p'))"

text \<open>Every token consumes at least one byte, so one call per buffered byte and a last one suffice.\<close>

definition drain_all :: "simdutf \<Rightarrow> TokenParser \<Rightarrow> event list \<times> outcome \<times> TokenParser" where
  "drain_all U p = drain (length (stream p) + 2) U p"

fun receive :: "simdutf \<Rightarrow> TokenParser \<Rightarrow> byte list list \<Rightarrow> event list \<times> outcome" where
  "receive U p [] = ([], Waiting)"
| "receive U p (chunk # chunks) =
     (case drain_all U (Feed chunk p) of
        (evs, Waiting, p') \<Rightarrow> prepend evs (receive U p' chunks)
      | (evs, oc, p') \<Rightarrow> (evs, oc))"

lemma drain_finished:
  assumes "state p = Complete"
  shows "TryParseNext U p = (Ret NeedMoreData, if pending_consume p > 0
     then ConsumeBytes (pending_consume p) (p\<lparr>pending_consume := 0\<rparr>) else p)"
  using assms by (simp add: TryParseNext_def token_loop.simps)

lemma drain_follows:
  assumes "parser_inv p" "active p" "length (stream p) + 2 \<le> fuel" "drain fuel U p = (evs, oc, p')"
  shows "(oc = Waiting \<longrightarrow> parser_inv p' \<and> active p' \<and> mode_of p' = mode_of p \<and>
       token_spec U (mode_of p) (columns p') (stream p') = More) \<and>
     parse_stream U (mode_of p) (columns p) (stream p @ e) =
       (if oc = Waiting then prepend evs (parse_stream U (mode_of p) (columns p') (stream p' @ e)) else (evs, oc))"
  using assms
proof (induction fuel arbitrary: p evs)
  case (Suc fuel)
  note f = TryParseNext_follows [OF Suc.prems(1,2), of U]
  obtain r q where rq: "TryParseNext U p = (r, q)" by force
  show ?case
  proof (cases r)
    case (Ret t)
    show ?thesis
    proof (cases "t = NeedMoreData \<or> t = TokNone")
      case True
      with Suc.prems(4) rq Ret have d: "evs = []" "oc = outcome_of q" "p' = q" by auto
      show ?thesis
        using f rq Ret True d
        by (cases "state q") (auto simp: follows_def Let_def outcome_of_def active_def prepend_def)
    next
      case tok: False
      from Suc.prems(4) rq Ret tok obtain es where d: "drain fuel U q = (es, oc, p')" "evs = event_of t q # es"
        by (auto split: prod.splits)
      from f rq Ret tok have q: "parser_inv q" "mode_of q = mode_of p" "length (stream q) < length (stream p)"
        "state q \<noteq> Error" "state q = Complete \<longleftrightarrow> is_final (event_of t q)"
        "parse_stream U (mode_of p) (columns p) (stream p @ e) = (if is_final (event_of t q) then ([event_of t q], Finished)
             else prepend [event_of t q] (parse_stream U (mode_of p) (columns q) (stream q @ e)))"
        by (auto simp: follows_def Let_def)
      show ?thesis
      proof (cases "state q = Complete")
        case True
        from Suc.prems(3) q(3) obtain k where "fuel = Suc k" by (cases fuel) auto
        with d(1) drain_finished [OF True] True have "es = []" "oc = Finished" by (auto simp: outcome_of_def)
        with True q d(2) show ?thesis by simp
      next
        case False
        with q(4) have a: "active q" by (simp add: active_def)
        from Suc.IH [OF q(1) a _ d(1)] Suc.prems(3) q False d(2) show ?thesis
          by (auto simp: prepend_def)
      qed
    qed
  qed (use f rq Suc.prems(4) in \<open>auto simp: follows_def Let_def\<close>)
qed simp

lemma Feed_facts:
  assumes "parser_inv p"
  shows "stream (Feed c p) = stream p @ c" "parser_inv (Feed c p)" "active (Feed c p) = active p"
    "mode_of (Feed c p) = mode_of p" "columns (Feed c p) = columns p"
proof -
  show s: "stream (Feed c p) = stream p @ c"
    using assms by (simp add: parser_inv_def stream_def Current_def Feed_def)
  then show "parser_inv (Feed c p)" using assms by (auto simp: parser_inv_def Feed_def)
qed (simp_all add: Feed_def active_def mode_of_def)

lemma receive_spec:
  assumes "parser_inv p" "active p" "token_spec U (mode_of p) (columns p) (stream p) = More"
  shows "receive U p chunks = parse_stream U (mode_of p) (columns p) (stream p @ concat chunks)"
  using assms
proof (induction chunks arbitrary: p)
  case Nil
  then show ?case by (simp add: parse_stream_more)
next
  case (Cons c cs)
  note F = Feed_facts [OF Cons.prems(1), of c]
  obtain evs oc p' where d: "drain_all U (Feed c p) = (evs, oc, p')" by (cases "drain_all U (Feed c p)") auto
  from drain_follows [OF F(2) _ order_refl d [unfolded drain_all_def], of "concat cs"] Cons.prems(2) F
  have w: "oc = Waiting \<longrightarrow> parser_inv p' \<and> active p' \<and> mode_of p' = mode_of p \<and>
       token_spec U (mode_of p) (columns p') (stream p') = More"
    and s: "parse_stream U (mode_of p) (columns p) (stream p @ c @ concat cs) =
       (if oc = Waiting then prepend evs (parse_stream U (mode_of p) (columns p') (stream p' @ concat cs)) else (evs, oc))"
    by auto
  show ?case
    using d w s Cons.IH [of p'] by (cases oc) auto
qed

lemma new_parser_facts:
  "mode_of new_parser = Normal" "parser_inv new_parser" "active new_parser" "stream new_parser = []" "columns new_parser = []"
  "parser_inv (SetSkipMode k p) = parser_inv p" "parser_inv (SetRawRowMode r p) = parser_inv p"
  "active (SetSkipMode k p) = active p" "active (SetRawRowMode r p) = active p"
  "stream (SetSkipMode k p) = stream p" "stream (SetRawRowMode r p) = stream p"
  "columns (SetSkipMode k p) = columns p" "columns (SetRawRowMode r p) = columns p"
  by (simp_all add: mode_of_def parser_inv_def active_def new_parser_def stream_def Current_def SetSkipMode_def SetRawRowMode_def)

subsection \<open>Reachable parser states\<close>

text \<open>Every sequence of calls the class offers, in any order.\<close>

inductive parser_reachable :: "simdutf \<Rightarrow> TokenParser \<Rightarrow> bool" for U where
  reach_new: "parser_reachable U new_parser"
| reach_feed: "parser_reachable U p \<Longrightarrow> parser_reachable U (Feed data p)"
| reach_next: "parser_reachable U p \<Longrightarrow> parser_reachable U (snd (TryParseNext U p))"
| reach_reset: "parser_reachable U p \<Longrightarrow> parser_reachable U (parser_Reset p)"
| reach_reset_state: "parser_reachable U p \<Longrightarrow> parser_reachable U (ResetState p)"
| reach_skip: "parser_reachable U p \<Longrightarrow> parser_reachable U (SetSkipMode b p)"
| reach_raw: "parser_reachable U p \<Longrightarrow> parser_reachable U (SetRawRowMode b p)"

lemma TryParseNext_stopped:
  assumes "\<not> active p"
  shows "TryParseNext U p = (Ret NeedMoreData, if pending_consume p > 0
     then ConsumeBytes (pending_consume p) (p\<lparr>pending_consume := 0\<rparr>) else p)"
  using assms by (auto simp: TryParseNext_def token_loop.simps active_def)

lemma inv_release:
  assumes "parser_inv p"
  shows "parser_inv (ConsumeBytes (pending_consume p) (p\<lparr>pending_consume := 0\<rparr>))"
proof -
  let ?q = "ConsumeBytes (pending_consume p) (p\<lparr>pending_consume := 0\<rparr>)"
  have "buffer_pos ?q \<le> length (buffer ?q)"
    using assms ConsumeBytes_pos [of "p\<lparr>pending_consume := 0\<rparr>" "pending_consume p"] by (simp add: parser_inv_def)
  moreover have "stream ?q = stream p" by (simp add: stream_def)
  ultimately show ?thesis using assms by (simp add: parser_inv_def)
qed

lemma TryParseNext_inv:
  assumes "parser_inv p"
  shows "parser_inv (snd (TryParseNext U p)) \<and> fst (TryParseNext U p) \<noteq> OOB \<and> fst (TryParseNext U p) \<noteq> More"
proof (cases "active p")
  case True
  from TryParseNext_follows [OF assms True, of U] show ?thesis
    by (auto simp: follows_def Let_def split: prod.splits res.splits if_splits)
next
  case False
  with assms inv_release [OF assms] show ?thesis by (simp add: TryParseNext_stopped)
qed

lemma reachable_inv: "parser_reachable U p \<Longrightarrow> parser_inv p"
proof (induction rule: parser_reachable.induct)
  case (reach_reset p)
  then show ?case by (simp add: parser_inv_def parser_Reset_def row_Clear_def)
next
  case (reach_reset_state p)
  then show ?case by (simp add: ResetState_def)
qed (simp_all add: new_parser_facts Feed_facts TryParseNext_inv)

end
