(* ===== verification/Result_Set.thy ===== *)
theory Result_Set
  imports Token_Stream
begin

text \<open>
  Whole server replies: the wire form of a result set, and the properties of the token parser object
  (\<open>src/tds/tds_token_parser.cpp\<close>) as its callers see it: refinement of the stream specification under
  any chunking, the round trip of a result set, safety in every reachable state, completeness of rows
  handed out in raw mode, and the behaviour on a RETURNSTATUS token.
\<close>

subsection \<open>A whole result set\<close>

definition enc_done :: "u16 \<Rightarrow> u16 \<Rightarrow> byte list \<Rightarrow> byte list" where
  "enc_done st cmd cnt = TokenType_DONE # le16 st @ le16 cmd @ cnt"

definition enc_rows :: "ColumnMetadata list \<Rightarrow> wire_value list list \<Rightarrow> byte list" where
  "enc_rows cols rows = concat (map (\<lambda>ws. TokenType_ROW # enc_row (zip cols ws)) rows)"

definition enc_response ::
    "(ColumnMetadata \<times> nat list) list \<Rightarrow> wire_value list list \<Rightarrow> u16 \<Rightarrow> u16 \<Rightarrow> byte list \<Rightarrow> byte list" where
  "enc_response cns rows st cmd cnt =
     TokenType_COLMETADATA # enc_columns cns @ enc_rows (map fst cns) rows @ enc_done st cmd cnt"

definition row_event :: "wire_value list \<Rightarrow> event" where
  "row_event ws = EvRow \<lparr> row_values = map wire_content ws, null_mask = map (\<lambda>w. w = WNull) ws \<rparr>"

lemma token_spec_done:
  assumes "length cnt = 8"
  shows "token_spec U mode cols (enc_done st cmd cnt @ rest) =
     Ret (13, EvDone \<lparr> done_status = st, done_cur_cmd = cmd, done_row_count = plp_total cnt \<rparr>)"
proof -
  have "read_done (enc_done st cmd cnt @ rest) =
      Ret \<lparr> done_status = st, done_cur_cmd = cmd, done_row_count = plp_total cnt \<rparr>"
    using assms by (simp add: read_done_def enc_done_def le16_def u16le_le16 plp_total_def nth_append numeral_2_eq_2)
  with assms show ?thesis by (simp add: token_spec_def token_at_def enc_done_def)
qed

lemma token_spec_row:
  assumes "cols \<noteq> []" "list_all2 wf_value cols ws"
  shows "token_spec U Normal cols (TokenType_ROW # enc_row (zip cols ws) @ rest) =
     Ret (1 + length (enc_row (zip cols ws)), row_event ws)"
proof -
  have l: "length cols = length ws" using assms(2) by (rule list_all2_lengthD)
  have "list_all (\<lambda>(c, w). wf_value c w) (zip cols ws)" using assms(2) by (simp add: list_all2_iff list_all_iff)
  from ReadRow_enc [OF this, of "blank_row (length cols)" rest] l
  have "ReadRow cols (enc_row (zip cols ws) @ rest) (blank_row (length cols)) =
      Ret (length (enc_row (zip cols ws)), \<lparr> row_values = map wire_content ws, null_mask = map (\<lambda>w. w = WNull) ws \<rparr>)"
    by (simp add: blank_row_def) (metis (no_types, lifting) map_map map_snd_zip comp_apply map_eq_conv)
  with assms(1) show ?thesis
    by (simp add: token_spec_def token_at_def row_spec_def row_event_def)
qed

lemma parse_stream_rows:
  assumes "cols \<noteq> []" "\<forall>ws \<in> set rows. list_all2 wf_value cols ws"
  shows "parse_stream U Normal cols (enc_rows cols rows @ rest) =
     prepend (map row_event rows) (parse_stream U Normal cols rest)"
  using assms(2)
proof (induction rows)
  case Nil
  then show ?case by (simp add: enc_rows_def prepend_def)
next
  case (Cons ws rows)
  from token_spec_row [OF assms(1), of ws U "enc_rows cols rows @ rest"] Cons.prems
  have t: "token_spec U Normal cols (enc_rows cols (ws # rows) @ rest) =
      Ret (1 + length (enc_row (zip cols ws)), row_event ws)" by (simp add: enc_rows_def)
  from parse_stream_token [OF t, of "[]"] Cons show ?case
    by (simp add: enc_rows_def row_event_def observed_def prepend_def)
qed

lemma parse_stream_response:
  assumes U: "simdutf_contract U" and c: "list_all encodable cns" "cns \<noteq> []" "length cns < 0xFFFF"
    and rows: "\<forall>ws \<in> set rows. list_all2 wf_value (map fst cns) ws"
    and d: "length cnt = 8" "st AND DoneStatus_DONE_MORE = 0"
  shows "parse_stream U Normal [] (enc_response cns rows st cmd cnt @ rest) =
     (EvColumns (map fst cns) # map row_event rows @
        [EvDone \<lparr> done_status = st, done_cur_cmd = cmd, done_row_count = plp_total cnt \<rparr>], Finished)"
proof -
  let ?tail = "enc_rows (map fst cns) rows @ enc_done st cmd cnt @ rest"
  have t: "token_spec U Normal [] (TokenType_COLMETADATA # enc_columns cns @ ?tail) =
      Ret (1 + length (enc_columns cns), EvColumns (map fst cns))"
    using ParseColumns_enc [OF U c(1,3), of ?tail]
    by (simp add: token_spec_def token_at_def enc_columns_def)
  have "parse_stream U Normal (map fst cns) (enc_done st cmd cnt @ rest) =
      ([EvDone \<lparr> done_status = st, done_cur_cmd = cmd, done_row_count = plp_total cnt \<rparr>], Finished)"
    using token_spec_done [OF d(1)] d(2) by (subst parse_stream.simps) (simp add: IsFinal_def observed_def)
  then have "parse_stream U Normal (map fst cns) ?tail = (map row_event rows @
      [EvDone \<lparr> done_status = st, done_cur_cmd = cmd, done_row_count = plp_total cnt \<rparr>], Finished)"
    using parse_stream_rows [OF _ rows] c(2) by (simp add: prepend_def)
  with parse_stream_token [OF t, of "[]"] show ?thesis
    by (simp add: enc_response_def observed_def prepend_def)
qed

lemma wrap_Ret: "wrap_throw pre r = Ret x \<longleftrightarrow> r = Ret x"
  by (cases r) auto

text \<open>A raw-row event of the specification holds a complete row.\<close>

lemma raw_event_complete:
  assumes "token_spec U Raw cols s = Ret (n, EvRawRow nbc bs)"
  shows "if nbc then SkipNBCRow None cols bs = Ret (length bs) else SkipRow None cols bs = Ret (length bs)"
proof -
  have m: "message_spec U f s = Ret (n, EvRawRow nbc bs) \<Longrightarrow> \<exists>msg. f msg = EvRawRow nbc bs" for f
    by (auto simp: message_spec_def res_simps split: if_splits prod.splits res.splits bool.splits)
  consider "row_spec Raw cols s = Ret (n, EvRawRow nbc bs)" | "nbc_spec Raw cols s = Ret (n, EvRawRow nbc bs)"
    using assms m [of EvError] m [of EvInfo]
    by (auto simp: token_spec_def token_at_def skip16_spec_def skip32_spec_def res_simps wrap_Ret split: if_splits)
  then show ?thesis
  proof cases
    case 1
    then obtain k where k: "SkipRow None cols (drop 1 s) = Ret k" "bs = take k (drop 1 s)" "\<not> nbc"
      by (auto simp: row_spec_def res_simps rd_block_def split: if_splits)
    with skip_row.ret_exact [OF k(1)] skip_row.used_le [OF k(1)] show ?thesis by simp
  next
    case 2
    then obtain k where k: "SkipNBCRow None cols (drop 1 s) = Ret k" "bs = take k (drop 1 s)" "nbc"
      by (auto simp: nbc_spec_def res_simps rd_block_def split: if_splits)
    with skip_nbc_row.ret_exact [OF k(1)] skip_nbc_row.used_le [OF k(1)] show ?thesis by simp
  qed
qed

subsection \<open>Properties of the token parser\<close>

lemma receive_new: "receive U new_parser chunks = parse_stream U Normal [] (concat chunks)"
  using receive_spec [of new_parser U chunks] by (simp add: new_parser_facts token_spec_def)

text \<open>C1: the parser object refines the specification of the byte stream. Whatever the chunks the
  network delivers and whatever the row mode, driving \<open>Feed\<close> and \<open>TryParseNext\<close> gives exactly the
  events and the outcome that \<open>parse_stream\<close> defines on the concatenated bytes: compaction, deferred
  consumption, re-parsing of partial tokens and stale fields are invisible.\<close>

theorem receive_refines_stream:
  "receive U (SetRawRowMode r (SetSkipMode k new_parser)) chunks =
     parse_stream U (if k then Skip else if r then Raw else Normal) [] (concat chunks)"
proof -
  let ?p = "SetRawRowMode r (SetSkipMode k new_parser)"
  have m: "mode_of ?p = (if k then Skip else if r then Raw else Normal)"
    by (simp add: mode_of_def SetRawRowMode_def SetSkipMode_def)
  have "receive U ?p chunks = parse_stream U (mode_of ?p) (columns ?p) (stream ?p @ concat chunks)"
    by (rule receive_spec) (simp_all add: new_parser_facts token_spec_def)
  then show ?thesis by (simp add: m new_parser_facts)
qed

text \<open>C2: end to end, a result set survives the wire: for a COLMETADATA token, any number of ROW tokens
  and a final DONE token as a server encodes them, cut into chunks in any way and followed by
  anything, the parser delivers exactly the columns, the rows with their values and NULL flags, and
  the completion, and then stops.\<close>

theorem result_set_roundtrip:
  assumes "simdutf_contract U" and "list_all encodable cns" and "cns \<noteq> []" and "length cns < 0xFFFF"
    and "\<forall>ws \<in> set rows. list_all2 wf_value (map fst cns) ws"
    and "length cnt = 8" and "st AND DoneStatus_DONE_MORE = 0"
    and "concat chunks = enc_response cns rows st cmd cnt @ rest"
  shows "receive U new_parser chunks =
     (EvColumns (map fst cns) # map row_event rows @
        [EvDone \<lparr> done_status = st, done_cur_cmd = cmd, done_row_count = plp_total cnt \<rparr>], Finished)"
  using parse_stream_response [OF assms(1-7)] assms(8) by (simp add: receive_new)

theorem result_set_roundtrip_witness:
  "receive ref_simdutf new_parser
     (map (\<lambda>b. [b]) (enc_response [(sample_column, [0x69, 0x64 :: nat])] [[WBytes [0x41, 0]], [WNull]] 0x10 0xC1 [2, 0, 0, 0, 0, 0, 0, 0])) =
   ([EvColumns [sample_column], row_event [WBytes [0x41, 0]], row_event [WNull],
     EvDone \<lparr> done_status = 0x10, done_cur_cmd = 0xC1, done_row_count = plp_total [2, 0, 0, 0, 0, 0, 0, 0] \<rparr>], Finished)"
proof -
  have "receive ref_simdutf new_parser
     (map (\<lambda>b. [b]) (enc_response [(sample_column, [0x69, 0x64 :: nat])] [[WBytes [0x41, 0]], [WNull]] 0x10 0xC1 [2, 0, 0, 0, 0, 0, 0, 0])) =
     (EvColumns (map fst [(sample_column, [0x69, 0x64 :: nat])]) # map row_event [[WBytes [0x41, 0]], [WNull]] @
     [EvDone \<lparr> done_status = 0x10, done_cur_cmd = 0xC1, done_row_count = plp_total [2, 0, 0, 0, 0, 0, 0, 0] \<rparr>], Finished)"
    by (rule result_set_roundtrip [OF ref.simdutf_contract_axioms, where rest = "[]"])
      (use sample_encodable in \<open>auto simp: wf_value_def sample_column_def IsPLPType_def type_sets\<close>)
  then show ?thesis by simp
qed

text \<open>C22: after any sequence of calls (feeding, parsing, resets, mode switches, in any order and on any
  bytes) the next \<open>TryParseNext\<close> stays inside its buffers, and a token it returns has shortened the
  unconsumed input, so a caller that loops until more data is needed terminates.\<close>

theorem reachable_parser_safe:
  assumes "parser_reachable U p"
  shows "parser_inv p \<and> fst (TryParseNext U p) \<noteq> OOB \<and>
     (\<forall>t. fst (TryParseNext U p) = Ret t \<and> t \<noteq> NeedMoreData \<and> t \<noteq> TokNone \<longrightarrow>
        length (stream (snd (TryParseNext U p))) < length (stream p))"
proof -
  have i: "parser_inv p" by (rule reachable_inv [OF assms])
  moreover have "length (stream (snd (TryParseNext U p))) < length (stream p)"
    if "fst (TryParseNext U p) = Ret t" "t \<noteq> NeedMoreData" "t \<noteq> TokNone" for t
  proof (cases "active p")
    case True
    from TryParseNext_follows [OF i True, of U] that show ?thesis
      by (auto simp: follows_def Let_def split: prod.splits)
  next
    case False
    with that show ?thesis by (auto simp: TryParseNext_stopped)
  qed
  ultimately show ?thesis using TryParseNext_inv [OF i, of U] by blast
qed

theorem reachable_parser_safe_witness:
  "parser_inv (Feed [0xAA, 0x00, 0x00] new_parser) \<and>
     fst (TryParseNext ref_simdutf (Feed [0xAA, 0x00, 0x00] new_parser)) \<noteq> OOB"
  using reachable_parser_safe [OF reach_feed [OF reach_new, of ref_simdutf "[0xAA, 0x00, 0x00]"]] by blast

text \<open>C23: in raw-row mode a row is handed out only when it is complete: the bytes of \<open>GetRawRow\<close> lie in
  the buffer and the measuring walk over the current columns consumes exactly them, so the caller's
  walk needs no bounds test.\<close>

theorem raw_row_complete:
  assumes "parser_reachable U p" and "mode_of p = Raw" and "TryParseNext U p = (Ret TokRow, p')"
  shows "length (GetRawRow p') = raw_row_length p' \<and> raw_row_offset p' + raw_row_length p' \<le> length (buffer p') \<and>
     (if raw_row_nbc p' then SkipNBCRow None (columns p') (GetRawRow p') = Ret (length (GetRawRow p'))
      else SkipRow None (columns p') (GetRawRow p') = Ret (length (GetRawRow p')))"
proof -
  have i: "parser_inv p" by (rule reachable_inv [OF assms(1)])
  have a: "active p" using assms(3) TryParseNext_stopped [of p U] by auto
  from TryParseNext_follows [OF i a, of U] assms(2,3) obtain s n where
    p': "parser_inv p'" "mode_of p' = Raw" "columns p' = columns_after (event_of TokRow p') (columns p)"
    "0 < pending_consume p'" and t: "token_spec U Raw (columns p) s = Ret (n, event_of TokRow p')"
    by (auto simp: follows_def Let_def)
  have ev: "event_of TokRow p' = EvRawRow (raw_row_nbc p') (GetRawRow p')" using p'(2) by simp
  with p'(3) have c: "columns p' = columns p" by simp
  from p'(1,4) have b: "raw_row_offset p' + raw_row_length p' \<le> length (buffer p')" by (auto simp: parser_inv_def)
  show ?thesis
    using b raw_event_complete [OF t [unfolded ev]] c by (auto simp: GetRawRow_def)
qed

definition raw_sample :: TokenParser where
  "raw_sample = snd (TryParseNext ref_simdutf (Feed
     [0x81, 1, 0, 0, 0, 0, 0, 0, 0, TDS_TYPE_INT, 0, 0xD1, 1, 2, 3, 4, 0xFD] (SetRawRowMode True new_parser)))"

lemmas parser_eval = TryParseNext_def token_loop.simps ParseColMetadata_def ParseColMetadata_columns_def
  ParseColumn_def ParseTypeInfo_def ParseColumnName_def ParseRow_def Feed_def SetRawRowMode_def new_parser_def
  Available_def Current_def ConsumeBytes_def CompactBuffer_def raw_row_def fresh_column_def ResolveSkipForm_def
  SkipRow_def SkipByForm_def zero_more_def u16le_def GetRawRow_def mode_of_def Utf16LEDecode_def
  Utf16LEDecode_counted_def rd_def rd_u16le_def rd_block_def need_def

lemma raw_sample_eval:
  "mode_of raw_sample = Raw" "fst (TryParseNext ref_simdutf raw_sample) = Ret TokRow"
  "GetRawRow (snd (TryParseNext ref_simdutf raw_sample)) = [1, 2, 3, 4]"
  "raw_row_nbc (snd (TryParseNext ref_simdutf raw_sample)) = False"
  by (simp_all add: raw_sample_def parser_eval)

theorem raw_row_complete_witness:
  "SkipRow None (columns (snd (TryParseNext ref_simdutf raw_sample))) [1, 2, 3, 4] = Ret 4"
proof -
  have "parser_reachable ref_simdutf raw_sample"
    unfolding raw_sample_def by (intro parser_reachable.intros)
  from raw_row_complete [OF this raw_sample_eval(1), of "snd (TryParseNext ref_simdutf raw_sample)"]
    raw_sample_eval show ?thesis by (simp add: prod_eq_iff)
qed

text \<open>C32: the return status of a procedure call (token 0x79, a four-byte value without a length field in
  the protocol) is skipped as if a two-byte length followed it: after the status 0 the parser is out
  of step and fails on the next byte, whatever follows.\<close>

theorem return_status_desync:
  "receive U new_parser [[TokenType_RETURNSTATUS, 0, 0, 0, 0] @ rest] = ([], Failed ''Unknown token type: 0x0'')"
proof -
  have 1: "token_spec U mode cols [TokenType_RETURNSTATUS, 0, 0, 0, 0] = Ret (3, EvIgnored)" for mode cols
    by (simp add: token_spec_def token_at_def skip16_spec_def u16le_def)
  have 2: "token_spec U mode cols [0, 0] = Throw ''Unknown token type: 0x0''" for mode cols
    by (simp add: token_spec_def token_at_def to_string.simps char_of_def bit_0)
  have "receive U new_parser [[TokenType_RETURNSTATUS, 0, 0, 0, 0] @ rest] =
      parse_stream U Normal [] ([TokenType_RETURNSTATUS, 0, 0, 0, 0] @ rest)"
    by (simp add: receive_new del: receive.simps)
  also have "\<dots> = ([], Failed ''Unknown token type: 0x0'')"
    unfolding parse_stream_token [OF 1] using parse_stream_throw [OF 2, of _ _ rest]
    by (simp add: observed_def prepend_def)
  finally show ?thesis .
qed

end
