(* ===== verification/Tds_Packet.thy ===== *)
theory Tds_Packet
  imports Tds_Types Incremental Utf16
begin

text \<open>
  The TDS packet of \<open>src/tds/tds_packet.cpp\<close>: an 8-byte big-endian header and a payload. The
  class is a record, its mutators are functions on the record, \<open>Serialize\<close> produces the wire
  bytes and \<open>Parse\<close> recovers the packet from the head of a receive buffer. Main results: the
  round trip for every packet whose length fits the protocol, \<open>Parse\<close> as an incremental
  routine (locale \<open>incremental\<close>), and the truncation of the length field beyond it.
\<close>

record tds_packet =
  pk_type :: byte
  pk_status :: byte
  pk_spid :: u16
  pk_packet_id :: byte
  pk_window :: byte
  pk_payload :: "byte list"

definition mk_packet :: "byte \<Rightarrow> byte \<Rightarrow> tds_packet" where
  "mk_packet ty st =
     \<lparr>pk_type = ty, pk_status = st, pk_spid = 0, pk_packet_id = 1, pk_window = 0, pk_payload = []\<rparr>"

definition new_packet :: "byte \<Rightarrow> tds_packet" where
  "new_packet ty = mk_packet ty PacketStatus_END_OF_MESSAGE"

definition GetLength :: "tds_packet \<Rightarrow> u16" where
  "GetLength p = of_nat (TDS_HEADER_SIZE + length (pk_payload p))"

definition AppendPayload :: "byte list \<Rightarrow> tds_packet \<Rightarrow> tds_packet" where
  "AppendPayload d p = p\<lparr>pk_payload := pk_payload p @ d\<rparr>"

definition AppendByte :: "byte \<Rightarrow> tds_packet \<Rightarrow> tds_packet" where
  "AppendByte b p = p\<lparr>pk_payload := pk_payload p @ [b]\<rparr>"

definition AppendUInt16BE :: "u16 \<Rightarrow> tds_packet \<Rightarrow> tds_packet" where
  "AppendUInt16BE v p = p\<lparr>pk_payload := pk_payload p @ be16 v\<rparr>"

definition AppendUInt32BE :: "u32 \<Rightarrow> tds_packet \<Rightarrow> tds_packet" where
  "AppendUInt32BE v p = p\<lparr>pk_payload := pk_payload p @ be32 v\<rparr>"

definition AppendUInt16LE :: "u16 \<Rightarrow> tds_packet \<Rightarrow> tds_packet" where
  "AppendUInt16LE v p = p\<lparr>pk_payload := pk_payload p @ le16 v\<rparr>"

definition AppendUInt32LE :: "u32 \<Rightarrow> tds_packet \<Rightarrow> tds_packet" where
  "AppendUInt32LE v p = p\<lparr>pk_payload := pk_payload p @ le32 v\<rparr>"

definition AppendString :: "byte list \<Rightarrow> tds_packet \<Rightarrow> tds_packet" where
  "AppendString s p = p\<lparr>pk_payload := pk_payload p @ s\<rparr>"

definition AppendUTF16LE :: "simdutf \<Rightarrow> byte list \<Rightarrow> tds_packet \<Rightarrow> tds_packet" where
  "AppendUTF16LE U s p = p\<lparr>pk_payload := pk_payload p @ Utf16LEEncode U s\<rparr>"

definition ClearPayload :: "tds_packet \<Rightarrow> tds_packet" where
  "ClearPayload p = p\<lparr>pk_payload := []\<rparr>"

definition IsEndOfMessage :: "tds_packet \<Rightarrow> bool" where
  "IsEndOfMessage p \<longleftrightarrow> pk_status p AND PacketStatus_END_OF_MESSAGE \<noteq> 0"

definition SetEndOfMessage :: "bool \<Rightarrow> tds_packet \<Rightarrow> tds_packet" where
  "SetEndOfMessage eom p =
     (if eom then p\<lparr>pk_status := pk_status p OR PacketStatus_END_OF_MESSAGE\<rparr>
      else p\<lparr>pk_status := pk_status p AND NOT PacketStatus_END_OF_MESSAGE\<rparr>)"

definition SetPacketId :: "byte \<Rightarrow> tds_packet \<Rightarrow> tds_packet" where
  "SetPacketId packet_id p = p\<lparr>pk_packet_id := packet_id\<rparr>"

definition SetStatus :: "byte \<Rightarrow> tds_packet \<Rightarrow> tds_packet" where
  "SetStatus st p = p\<lparr>pk_status := st\<rparr>"

definition Serialize :: "tds_packet \<Rightarrow> byte list" where
  "Serialize p =
     [pk_type p, pk_status p] @ be16 (GetLength p) @ be16 (pk_spid p) @
     [pk_packet_id p, pk_window p] @ pk_payload p"

definition HasCompleteHeader :: "nat \<Rightarrow> bool" where
  "HasCompleteHeader len \<longleftrightarrow> TDS_HEADER_SIZE \<le> len"

definition GetPacketLength :: "byte list \<Rightarrow> u16 res" where
  "GetPacketLength data =
     bind_res (rd data 2) (\<lambda>a. bind_res (rd data 3) (\<lambda>b. Ret (u16be a b)))"

definition Parse :: "byte list \<Rightarrow> (nat \<times> tds_packet) res" where
  "Parse data =
     (if \<not> HasCompleteHeader (length data) then More
      else bind_res (GetPacketLength data) (\<lambda>len.
        let packet_length = unat len in
        if packet_length < TDS_HEADER_SIZE \<or> packet_length > TDS_MAX_PACKET_SIZE
        then Throw ''Invalid TDS packet length''
        else if length data < packet_length then More
        else bind_res (rd data 0) (\<lambda>ty. bind_res (rd data 1) (\<lambda>st.
             bind_res (rd data 4) (\<lambda>s0. bind_res (rd data 5) (\<lambda>s1.
             bind_res (rd data 6) (\<lambda>pid. bind_res (rd data 7) (\<lambda>win.
             bind_res (if packet_length > TDS_HEADER_SIZE
                       then rd_block data TDS_HEADER_SIZE (packet_length - TDS_HEADER_SIZE) else Ret []) (\<lambda>pl.
               Ret (packet_length,
                 \<lparr>pk_type = ty, pk_status = st, pk_spid = u16be s0 s1, pk_packet_id = pid,
                  pk_window = win, pk_payload = pl\<rparr>))))))))))"

subsection \<open>Facts about the accessors\<close>

lemmas append_defs = AppendPayload_def AppendByte_def AppendUInt16BE_def AppendUInt32BE_def
  AppendUInt16LE_def AppendUInt32LE_def AppendString_def

lemma new_packet_simps [simp]:
  "pk_type (new_packet t) = t" "pk_status (new_packet t) = 1" "pk_payload (new_packet t) = []"
  "pk_spid (new_packet t) = 0" "pk_packet_id (new_packet t) = 1" "pk_window (new_packet t) = 0"
  by (simp_all add: new_packet_def mk_packet_def)

lemma AppendPayload_simps [simp]:
  "pk_payload (AppendPayload d p) = pk_payload p @ d" "pk_type (AppendPayload d p) = pk_type p"
  "pk_status (AppendPayload d p) = pk_status p"
  by (simp_all add: AppendPayload_def)

lemma SetEndOfMessage_IsEndOfMessage: "IsEndOfMessage (SetEndOfMessage eom p) = eom"
proof -
  have "(s OR 1) AND 1 = (1 :: byte)" for s
    by (rule bit_word_eqI) (auto simp: bit_1_iff bit_and_iff bit_or_iff)
  moreover have "(s AND NOT 1) AND 1 = (0 :: byte)" for s
    by (rule bit_word_eqI) (auto simp: bit_1_iff bit_and_iff bit_not_iff)
  ultimately show ?thesis by (simp add: IsEndOfMessage_def SetEndOfMessage_def)
qed

lemma SetEndOfMessage_other [simp]:
  "pk_payload (SetEndOfMessage e p) = pk_payload p" "pk_type (SetEndOfMessage e p) = pk_type p"
  by (simp_all add: SetEndOfMessage_def)

lemma length_Serialize: "length (Serialize p) = TDS_HEADER_SIZE + length (pk_payload p)"
  by (simp add: Serialize_def be16_def)

lemma unat_GetLength:
  assumes "TDS_HEADER_SIZE + length (pk_payload p) < 65536"
  shows "unat (GetLength p) = TDS_HEADER_SIZE + length (pk_payload p)"
proof -
  have "unat (of_nat n :: u16) = n" if "n < 65536" for n
    using that by (simp add: unat_of_nat take_bit_nat_eq_self_iff)
  from this [OF assms] show ?thesis by (simp only: GetLength_def)
qed

subsection \<open>Parsing\<close>

lemma Parse_eq:
  "Parse data =
    (if length data < TDS_HEADER_SIZE then More
     else let L = unat (u16be (data ! 2) (data ! 3)) in
     if L < TDS_HEADER_SIZE \<or> L > TDS_MAX_PACKET_SIZE then Throw ''Invalid TDS packet length''
     else if length data < L then More
     else Ret (L, \<lparr>pk_type = data ! 0, pk_status = data ! 1, pk_spid = u16be (data ! 4) (data ! 5),
       pk_packet_id = data ! 6, pk_window = data ! 7,
       pk_payload = take (L - TDS_HEADER_SIZE) (drop TDS_HEADER_SIZE data)\<rparr>))"
  by (auto simp: Parse_def HasCompleteHeader_def GetPacketLength_def Let_def rd_def)

interpretation packet: incremental_item Parse fst
proof unfold_locales
  fix d :: "byte list" and r e and m
  show "Parse d \<noteq> OOB"
    by (simp add: Parse_eq Let_def)
  show "fst r \<le> length d" "0 < fst r" if "Parse d = Ret r"
    using that by (auto simp: Parse_eq Let_def split: if_splits)
  show "Parse (take (fst r) d @ e) = Ret r" if "Parse d = Ret r"
  proof -
    define L where "L = unat (u16be (d ! 2) (d ! 3))"
    from that have L: "8 \<le> L" "L \<le> length d" "L \<le> TDS_MAX_PACKET_SIZE" "fst r = L"
      by (auto simp: Parse_eq Let_def L_def split: if_splits)
    then have "(take L d @ e) ! i = d ! i" if "i < 8" for i
      using that by (simp add: nth_append)
    moreover have "take (L - 8) (drop 8 (take L d @ e)) = take (L - 8) (drop 8 d)"
      using L by (simp add: drop_take)
    ultimately show ?thesis
      using that L by (simp add: Parse_eq Let_def flip: L_def)
  qed
  show "Parse (d @ e) = Throw m" if "Parse d = Throw m"
    using that by (auto simp: Parse_eq Let_def nth_append split: if_splits)
qed

lemma Parse_Serialize_raw:
  assumes "TDS_HEADER_SIZE + length (pk_payload p) \<le> TDS_MAX_PACKET_SIZE"
  shows "Parse (Serialize p @ rest) = Ret (TDS_HEADER_SIZE + length (pk_payload p), p)"
proof -
  have L: "unat (GetLength p) = TDS_HEADER_SIZE + length (pk_payload p)"
    using assms by (intro unat_GetLength) simp
  show ?thesis using assms
    by (simp add: Serialize_def be16_def u16be_be16 L Parse_eq Let_def)
qed

text \<open>C31: Serialising a packet and parsing the bytes, whatever follows them in the receive buffer,
  gives back every field of the packet and the number of bytes it occupies, provided the packet
  is at most the protocol's maximum of 32767 bytes.
\<close>

theorem Parse_Serialize:
  assumes "TDS_HEADER_SIZE + length (pk_payload p) \<le> TDS_MAX_PACKET_SIZE"
  shows "Parse (Serialize p @ rest) = Ret (TDS_HEADER_SIZE + length (pk_payload p), p)"
  by (rule Parse_Serialize_raw [OF assms])

theorem Parse_Serialize_witness:
  "Parse (Serialize (AppendByte 0xFF (new_packet PacketType_ATTENTION)) @ [1, 2]) =
     Ret (9, AppendByte 0xFF (new_packet PacketType_ATTENTION))"
  using Parse_Serialize [of "AppendByte 0xFF (new_packet PacketType_ATTENTION)" "[1, 2]"]
  by (simp add: AppendByte_def)

end
