(* ===== verification/Tds_Messages.thy ===== *)
theory Tds_Messages
  imports Tds_Packet Utf16_Contract
begin

text \<open>
  The message builders of \<open>src/tds/tds_protocol.cpp\<close> that carry SQL text, bulk data, access tokens and
  attention signals, and the fragmentation of a message into packets of the negotiated size.

  The fragmentation loop advances by the chunk size; with a payload capacity of zero it never ends, so
  it is a \<open>partial_function\<close> in the option monad and \<open>None\<close> means that the call does not return. The
  capacity \<open>max_packet_size - TDS_HEADER_SIZE\<close> is an unsigned subtraction and wraps. A transaction
  descriptor is the caller's array of eight bytes.
\<close>

subsection \<open>Fragmentation\<close>

partial_function (option) split_loop ::
    "byte \<Rightarrow> nat \<Rightarrow> byte list \<Rightarrow> nat \<Rightarrow> tds_packet list \<Rightarrow> tds_packet list option" where
  "split_loop ty max_payload payload offset packets =
     (if offset < length payload then
        (let chunk_size = min max_payload (length payload - offset);
             is_last = (offset + chunk_size \<ge> length payload);
             packet = new_packet ty;
             packet = (if \<not> is_last then SetEndOfMessage False packet else packet);
             packet = AppendPayload (take chunk_size (drop offset payload)) packet
         in split_loop ty max_payload payload (offset + chunk_size) (packets @ [packet]))
      else Some packets)"

text \<open>The common tail of the multi-packet builders: one packet when the payload fits, the loop otherwise.\<close>

definition packetize :: "byte \<Rightarrow> byte list \<Rightarrow> nat \<Rightarrow> tds_packet list option" where
  "packetize ty payload max_packet_size =
     (let max_payload = size_sub max_packet_size TDS_HEADER_SIZE in
      if length payload \<le> max_payload then Some [AppendPayload payload (new_packet ty)]
      else split_loop ty max_payload payload 0 [])"

definition SplitIntoPackets :: "tds_packet \<Rightarrow> nat \<Rightarrow> tds_packet list option" where
  "SplitIntoPackets message max_packet_size =
     (let payload = pk_payload message;
          max_payload = (if max_packet_size > TDS_HEADER_SIZE then max_packet_size - TDS_HEADER_SIZE
                         else TDS_DEFAULT_PACKET_SIZE - TDS_HEADER_SIZE)
      in if length payload \<le> max_payload then Some [message]
         else split_loop (pk_type message) max_payload payload 0 [])"

definition BuildBulkLoadMultiPacket :: "byte list \<Rightarrow> nat \<Rightarrow> tds_packet list option" where
  "BuildBulkLoadMultiPacket payload max_packet_size =
     (if payload = [] then Some [] else packetize PacketType_BULK_LOAD payload max_packet_size)"

subsection \<open>SQL batches\<close>

definition descriptor_bytes :: "byte list option \<Rightarrow> byte list" where
  "descriptor_bytes transaction_descriptor =
     (case transaction_descriptor of Some d \<Rightarrow> take 8 d | None \<Rightarrow> replicate 8 0)"

definition BuildSqlBatch :: "simdutf \<Rightarrow> byte list \<Rightarrow> byte list option \<Rightarrow> tds_packet" where
  "BuildSqlBatch U sql transaction_descriptor =
     (let packet = new_packet PacketType_SQL_BATCH;
          packet = AppendPayload (le32 22) packet;
          packet = AppendPayload (le32 18) packet;
          packet = AppendByte 0x02 packet;
          packet = AppendByte 0x00 packet;
          packet = AppendPayload (descriptor_bytes transaction_descriptor) packet;
          packet = AppendPayload [0x01, 0x00, 0x00, 0x00] packet
      in AppendPayload (Utf16LEEncode U sql) packet)"

definition BuildPing :: "simdutf \<Rightarrow> tds_packet" where
  "BuildPing U = BuildSqlBatch U (bytes_of_str ''SELECT 1'') None"

definition all_headers :: "byte list option \<Rightarrow> byte list" where
  "all_headers transaction_descriptor =
     le32 22 @ le32 18 @ [0x02, 0x00] @ descriptor_bytes transaction_descriptor @ [0x01, 0x00, 0x00, 0x00]"

definition BuildSqlBatchMultiPacket ::
    "simdutf \<Rightarrow> byte list \<Rightarrow> nat \<Rightarrow> byte list option \<Rightarrow> tds_packet list option" where
  "BuildSqlBatchMultiPacket U sql max_packet_size transaction_descriptor =
     (let sql_encoded = Utf16LEEncode U sql in
      if sql_encoded = [] then Some [BuildPing U]
      else packetize PacketType_SQL_BATCH (all_headers transaction_descriptor @ sql_encoded) max_packet_size)"

subsection \<open>Attention, SSPI and access tokens\<close>

definition BuildAttention :: tds_packet where
  "BuildAttention = AppendByte 0xFF (new_packet PacketType_ATTENTION)"

definition BuildSSPIMessage :: "byte list \<Rightarrow> tds_packet" where
  "BuildSSPIMessage sspi_blob =
     (let packet = new_packet PacketType_SSPI in
      if sspi_blob \<noteq> [] then AppendPayload sspi_blob packet else packet)"

definition fedauth_payload :: "byte list \<Rightarrow> byte list \<Rightarrow> byte list" where
  "fedauth_payload token_utf16le nonce =
     (let token_len = (of_nat (length token_utf16le) :: u32);
          nonce_len = of_nat (length nonce);
          data_len = 4 + token_len + nonce_len
      in le32 data_len @ le32 token_len @ token_utf16le @ (if nonce \<noteq> [] then nonce else []))"

definition BuildFedAuthToken :: "byte list \<Rightarrow> byte list \<Rightarrow> tds_packet" where
  "BuildFedAuthToken token_utf16le nonce =
     (let packet = new_packet PacketType_FEDAUTH_TOKEN;
          token_len = (of_nat (length token_utf16le) :: u32);
          nonce_len = of_nat (length nonce);
          data_len = 4 + token_len + nonce_len;
          packet = AppendUInt32LE data_len packet;
          packet = AppendUInt32LE token_len packet;
          packet = AppendPayload token_utf16le packet
      in if nonce \<noteq> [] then AppendPayload nonce packet else packet)"

definition BuildFedAuthTokenMultiPacket :: "byte list \<Rightarrow> nat \<Rightarrow> byte list \<Rightarrow> tds_packet list option" where
  "BuildFedAuthTokenMultiPacket token_utf16le max_packet_size nonce =
     packetize PacketType_FEDAUTH_TOKEN (fedauth_payload token_utf16le nonce) max_packet_size"

subsection \<open>What a fragmented message is\<close>

text \<open>
  The packets of one message: they carry the payload in order, share the packet type, keep to the
  capacity, and only the last one has the end-of-message bit.
\<close>

definition carries :: "byte \<Rightarrow> nat \<Rightarrow> byte list \<Rightarrow> tds_packet list \<Rightarrow> bool" where
  "carries ty max_payload payload packets \<longleftrightarrow>
     packets \<noteq> [] \<and> concat (map pk_payload packets) = payload \<and>
     list_all (\<lambda>p. pk_type p = ty \<and> length (pk_payload p) \<le> max_payload) packets \<and>
     IsEndOfMessage (last packets) \<and> list_all (\<lambda>p. \<not> IsEndOfMessage p) (butlast packets)"

lemma eom_new: "IsEndOfMessage (AppendPayload d (new_packet ty))"
  by (simp add: IsEndOfMessage_def)

lemma eom_cleared: "\<not> IsEndOfMessage (AppendPayload d (SetEndOfMessage False (new_packet ty)))"
  using SetEndOfMessage_IsEndOfMessage [of False "new_packet ty"]
  by (simp add: IsEndOfMessage_def)

lemma split_loop_carries:
  assumes "0 < max_payload" "offset < length payload"
  shows "\<exists>ps. split_loop ty max_payload payload offset packets = Some (packets @ ps) \<and>
    carries ty max_payload (drop offset payload) ps"
  using assms(2)
proof (induction "length payload - offset" arbitrary: offset packets rule: less_induct)
  case less
  define n where "n = min max_payload (length payload - offset)"
  define last where "last = (offset + n \<ge> length payload)"
  define p where "p = AppendPayload (take n (drop offset payload))
     (if \<not> last then SetEndOfMessage False (new_packet ty) else new_packet ty)"
  have n: "0 < n" "offset + n \<le> length payload" "n \<le> max_payload" using less.prems assms(1) by (auto simp: n_def)
  have step: "split_loop ty max_payload payload offset packets =
      split_loop ty max_payload payload (offset + n) (packets @ [p])"
    using less.prems by (subst split_loop.simps) (simp add: Let_def n_def last_def p_def)
  have pl: "pk_payload p = take n (drop offset payload)" "pk_type p = ty"
    by (simp_all add: p_def)
  show ?case
  proof (cases last)
    case True
    then have "offset + n = length payload" using n by (simp add: last_def)
    moreover from this have "take n (drop offset payload) = drop offset payload" by simp
    moreover have "IsEndOfMessage p" using True by (simp add: p_def eom_new)
    ultimately show ?thesis
      using step n pl by (subst (asm) (2) split_loop.simps) (auto simp: carries_def)
  next
    case False
    with n have "offset + n < length payload" by (simp add: last_def)
    with less.hyps [of "offset + n" "packets @ [p]"] less.prems n obtain ps where
      ps: "split_loop ty max_payload payload (offset + n) (packets @ [p]) = Some ((packets @ [p]) @ ps)"
      "carries ty max_payload (drop (offset + n) payload) ps" by (meson diff_less_mono2 less_add_same_cancel1)
    have "\<not> IsEndOfMessage p" using False by (simp add: p_def eom_cleared)
    moreover have "take n (drop offset payload) @ drop (offset + n) payload = drop offset payload"
      by (metis add.commute append_take_drop_id drop_drop)
    ultimately show ?thesis using step ps pl n
      by (intro exI [of _ "p # ps"]) (auto simp: carries_def)
  qed
qed

lemma packetize_carries:
  assumes "TDS_HEADER_SIZE < max_packet_size" "payload \<noteq> []"
  shows "\<exists>ps. packetize ty payload max_packet_size = Some ps \<and> carries ty (max_packet_size - TDS_HEADER_SIZE) payload ps"
proof (cases "length payload \<le> max_packet_size - TDS_HEADER_SIZE")
  case True
  with assms show ?thesis by (auto simp: packetize_def carries_def eom_new Let_def)
next
  case False
  with assms split_loop_carries [of "max_packet_size - TDS_HEADER_SIZE" 0 payload ty "[]"] show ?thesis
    by (simp add: packetize_def)
qed

lemma split_loop_diverges: "offset < length payload \<Longrightarrow> split_loop ty 0 payload offset packets = None"
proof -
  have "split_loop ty m payload offset packets = Some y \<Longrightarrow> \<not> (m = 0 \<and> offset < length payload)" for m y
    by (erule split_loop.raw_induct [where P = "\<lambda>ty m payload offset packets y. \<not> (m = 0 \<and> offset < length payload)", rotated])
      (fastforce simp: Let_def split: if_splits)
  then show "offset < length payload \<Longrightarrow> ?thesis" by (cases "split_loop ty 0 payload offset packets") auto
qed


lemma all_headers_length: "length (all_headers td) = 14 + length (descriptor_bytes td)"
  by (simp add: all_headers_def)

lemma BuildSqlBatch_payload:
  "BuildSqlBatch U sql td = AppendPayload (all_headers td @ Utf16LEEncode U sql) (new_packet PacketType_SQL_BATCH)"
  by (simp add: BuildSqlBatch_def all_headers_def Let_def AppendPayload_def AppendByte_def)

lemma fedauth_payload_BuildFedAuthToken:
  "BuildFedAuthToken token nonce = AppendPayload (fedauth_payload token nonce) (new_packet PacketType_FEDAUTH_TOKEN)"
  by (simp add: BuildFedAuthToken_def fedauth_payload_def Let_def AppendPayload_def AppendUInt32LE_def)

lemma SplitIntoPackets_carries:
  assumes "IsEndOfMessage message"
  shows "\<exists>ps. SplitIntoPackets message m = Some ps \<and>
    carries (pk_type message) (if m > TDS_HEADER_SIZE then m - TDS_HEADER_SIZE
      else TDS_DEFAULT_PACKET_SIZE - TDS_HEADER_SIZE) (pk_payload message) ps"
proof -
  define k where "k = (if m > TDS_HEADER_SIZE then m - TDS_HEADER_SIZE else TDS_DEFAULT_PACKET_SIZE - TDS_HEADER_SIZE)"
  have k: "0 < k" by (simp add: k_def)
  show ?thesis
  proof (cases "length (pk_payload message) \<le> k")
    case True
    with assms show ?thesis by (simp add: SplitIntoPackets_def carries_def flip: k_def)
  next
    case False
    then have "0 < length (pk_payload message)" by linarith
    from split_loop_carries [OF k this, of "pk_type message" "[]"] False show ?thesis
      by (simp add: SplitIntoPackets_def flip: k_def)
  qed
qed

subsection \<open>Properties of the builders\<close>

text \<open>A built message leaves as packets that carry exactly its payload, in order, each within the
  packet size in force (the default size when the given one has no room for a payload), with the
  packet type of the message and the end-of-message bit on the last packet only; the call returns for
  every packet size.\<close>

theorem SplitIntoPackets_correct:
  assumes "IsEndOfMessage message"
  shows "\<exists>ps. SplitIntoPackets message m = Some ps \<and>
    carries (pk_type message) (if m > TDS_HEADER_SIZE then m - TDS_HEADER_SIZE
      else TDS_DEFAULT_PACKET_SIZE - TDS_HEADER_SIZE) (pk_payload message) ps"
  by (rule SplitIntoPackets_carries [OF assms])

theorem SplitIntoPackets_correct_witness:
  "\<exists>ps. SplitIntoPackets (BuildSSPIMessage [1, 2, 3]) 10 = Some ps \<and> carries PacketType_SSPI 2 [1, 2, 3] ps"
  using SplitIntoPackets_correct [of "BuildSSPIMessage [1, 2, 3]" 10]
  by (simp add: BuildSSPIMessage_def IsEndOfMessage_def)

text \<open>a query leaves as SQL_BATCH packets whose payloads concatenate to the 22 header bytes with the
  transaction descriptor followed by the UTF-16 text, each within the negotiated packet size, with the
  end-of-message bit on the last only; when one packet is enough it is the packet \<open>BuildSqlBatch\<close>
  builds.\<close>

theorem BuildSqlBatchMultiPacket_correct:
  assumes "TDS_HEADER_SIZE < m" and "Utf16LEEncode U sql \<noteq> []" and "pred_option (\<lambda>d. length d = 8) td"
  shows "\<exists>ps. BuildSqlBatchMultiPacket U sql m td = Some ps \<and>
    carries PacketType_SQL_BATCH (m - TDS_HEADER_SIZE) (all_headers td @ Utf16LEEncode U sql) ps \<and>
    length (all_headers td) = 22 \<and>
    (22 + length (Utf16LEEncode U sql) \<le> m - TDS_HEADER_SIZE \<longrightarrow> ps = [BuildSqlBatch U sql td])"
proof -
  have h: "length (all_headers td) = 22"
    using assms(3) by (cases td) (simp_all add: all_headers_length descriptor_bytes_def)
  from packetize_carries [OF assms(1), of "all_headers td @ Utf16LEEncode U sql" PacketType_SQL_BATCH] assms(2)
  obtain ps where "packetize PacketType_SQL_BATCH (all_headers td @ Utf16LEEncode U sql) m = Some ps"
    "carries PacketType_SQL_BATCH (m - TDS_HEADER_SIZE) (all_headers td @ Utf16LEEncode U sql) ps" by auto
  with assms(1,2) h show ?thesis
    by (auto simp: BuildSqlBatchMultiPacket_def packetize_def BuildSqlBatch_payload)
qed

lemma ping_text: "Utf16LEEncode ref_simdutf (bytes_of_str ''GO'') = [0x47, 0, 0x4F, 0]"
  by (simp add: ref.Encode_eq Utf8ToUtf16LEGeneral.simps emit_cp_def bytes_of_str_def)

theorem BuildSqlBatchMultiPacket_correct_witness:
  "\<exists>ps. BuildSqlBatchMultiPacket ref_simdutf (bytes_of_str ''GO'') 20 (Some [1, 2, 3, 4, 5, 6, 7, 8]) = Some ps \<and>
     carries PacketType_SQL_BATCH 12
       [22, 0, 0, 0, 18, 0, 0, 0, 2, 0, 1, 2, 3, 4, 5, 6, 7, 8, 1, 0, 0, 0, 0x47, 0, 0x4F, 0] ps"
  using BuildSqlBatchMultiPacket_correct [of 20 ref_simdutf "bytes_of_str ''GO''" "Some [1, 2, 3, 4, 5, 6, 7, 8]"]
  by (auto simp: ping_text all_headers_def descriptor_bytes_def le32_def)

text \<open>A packet size equal to the header size leaves no room for a payload, and the bulk-load and
  query fragmenters then never return, unlike \<open>SplitIntoPackets\<close>, which falls back to the default
  size.\<close>

theorem degenerate_packet_size_diverges:
  "(payload \<noteq> [] \<longrightarrow> BuildBulkLoadMultiPacket payload TDS_HEADER_SIZE = None) \<and>
   (Utf16LEEncode U sql \<noteq> [] \<longrightarrow> BuildSqlBatchMultiPacket U sql TDS_HEADER_SIZE td = None)"
  by (auto simp: BuildBulkLoadMultiPacket_def BuildSqlBatchMultiPacket_def packetize_def split_loop_diverges)

theorem degenerate_packet_size_diverges_witness:
  "BuildBulkLoadMultiPacket [0xFD] TDS_HEADER_SIZE = None \<and>
   BuildSqlBatchMultiPacket ref_simdutf (bytes_of_str ''GO'') TDS_HEADER_SIZE None = None"
  using degenerate_packet_size_diverges [of "[0xFD]" ref_simdutf "bytes_of_str ''GO''" None] by (simp add: ping_text)

end
