(* ===== verification/Login_Response.thy ===== *)
theory Login_Response
  imports Tds_Messages
begin

text \<open>
  The parsers of \<open>src/tds/tds_protocol.cpp\<close> for the server's answers outside the result stream: the
  PRELOGIN response, the LOGIN7 response, and the three scanners for attention acknowledgements,
  success and error text.

  Positions are offsets into the received vector; a pointer comparison \<open>ptr + n > end\<close> is
  \<open>pos + n > length data\<close>. The token loop of the login parser moves by lengths the server declares, so
  it is a \<open>partial_function\<close> in the option monad: \<open>None\<close> would be a loop that never ends. Debug output is
  left out. \<open>unsigned long\<close> has 64 bits.
\<close>

subsection \<open>Strings and numbers\<close>

text \<open>The low byte of each UTF-16 unit.\<close>

definition ReadUTF16LE :: "byte list \<Rightarrow> nat \<Rightarrow> nat \<Rightarrow> byte list res" where
  "ReadUTF16LE data off char_count = mapM_res (\<lambda>i. rd data (off + i * 2)) [0..<char_count]"

definition FindToken :: "byte list \<Rightarrow> byte \<Rightarrow> nat option" where
  "FindToken data token = find (\<lambda>i. data ! i = token) [0..<length data]"

definition is_space :: "byte \<Rightarrow> bool" where
  "is_space b \<longleftrightarrow> b = 0x20 \<or> (0x09 \<le> b \<and> b \<le> 0x0D)"

definition is_digit :: "byte \<Rightarrow> bool" where
  "is_digit b \<longleftrightarrow> 0x30 \<le> b \<and> b \<le> 0x39"

definition digits_value :: "byte list \<Rightarrow> nat" where
  "digits_value ds = foldl (\<lambda>a d. a * 10 + (unat d - 0x30)) 0 ds"

text \<open>
  \<open>std::stoul\<close> in base 10: white space, an optional sign, digits. \<open>None\<close> is one of its exceptions (no
  digit, or a value out of range); a minus sign negates modulo \<open>2 ^ 64\<close>.
\<close>

definition stoul :: "byte list \<Rightarrow> nat option" where
  "stoul str =
     (let str = dropWhile is_space str;
          neg = (str \<noteq> [] \<and> hd str = 0x2D);
          str = (if str \<noteq> [] \<and> (hd str = 0x2D \<or> hd str = 0x2B) then List.tl str else str);
          ds = takeWhile is_digit str;
          v = digits_value ds
      in if ds = [] \<or> v \<ge> 2 ^ 64 then None else Some (if neg then (2 ^ 64 - v) mod 2 ^ 64 else v))"

subsection \<open>PRELOGIN\<close>

record PreloginResponse =
  pre_version_major :: byte
  pre_version_minor :: byte
  pre_version_build :: u16
  pre_encryption :: byte
  pre_fedauth_echo :: bool
  pre_success :: bool
  pre_error_message :: string

definition new_prelogin :: PreloginResponse where
  "new_prelogin = \<lparr> pre_version_major = 0, pre_version_minor = 0, pre_version_build = 0, pre_encryption = 0,
     pre_fedauth_echo = False, pre_success = False, pre_error_message = [] \<rparr>"

definition rd_u16be :: "byte list \<Rightarrow> nat \<Rightarrow> u16 res" where
  "rd_u16be data i = bind_res (rd data i) (\<lambda>a. bind_res (rd data (i + 1)) (\<lambda>b. Ret (u16be a b)))"

definition prelogin_option ::
    "byte list \<Rightarrow> byte \<Rightarrow> nat \<Rightarrow> nat \<Rightarrow> PreloginResponse \<Rightarrow> PreloginResponse res" where
  "prelogin_option data option offset len response =
     (if option = PreloginOption_VERSION then
        (if offset + len \<le> length data \<and> len \<ge> 6 then
           bind_res (rd data offset) (\<lambda>major. bind_res (rd data (offset + 1)) (\<lambda>minor.
           bind_res (rd_u16be data (offset + 2)) (\<lambda>build.
             Ret (response\<lparr> pre_version_major := major, pre_version_minor := minor, pre_version_build := build \<rparr>))))
         else Ret response)
      else if option = PreloginOption_ENCRYPTION then
        (if offset < length data then
           bind_res (rd data offset) (\<lambda>e. Ret (response\<lparr> pre_encryption := e \<rparr>))
         else Ret response)
      else if option = PreloginOption_FEDAUTHREQUIRED then
        (if offset < length data \<and> len \<ge> 1 then
           bind_res (rd data offset) (\<lambda>e. Ret (response\<lparr> pre_fedauth_echo := (e \<noteq> 0) \<rparr>))
         else Ret response)
      else Ret response)"

function prelogin_loop :: "byte list \<Rightarrow> nat \<Rightarrow> PreloginResponse \<Rightarrow> PreloginResponse res" where
  "prelogin_loop data pos response =
     (if pos < length data then
        bind_res (rd data pos) (\<lambda>option.
        if option = PreloginOption_TERMINATOR then Ret (response\<lparr> pre_success := True \<rparr>)
        else if pos + 5 > length data then
          Ret (response\<lparr> pre_error_message := ''Truncated PRELOGIN response'' \<rparr>)
        else
          bind_res (rd_u16be data (pos + 1)) (\<lambda>offset. bind_res (rd_u16be data (pos + 3)) (\<lambda>len.
          bind_res (prelogin_option data option (unat offset) (unat len) response) (\<lambda>response.
            prelogin_loop data (pos + 5) response))))
      else Ret response)"
  by pat_completeness auto
termination
  by (relation "measure (\<lambda>(data, pos, _). length data - pos)") auto

declare prelogin_loop.simps [simp del]

definition ParsePreloginResponse :: "byte list \<Rightarrow> PreloginResponse res" where
  "ParsePreloginResponse data =
     (if data = [] then Ret (new_prelogin\<lparr> pre_error_message := ''Empty PRELOGIN response'' \<rparr>)
      else prelogin_loop data 0 new_prelogin)"

subsection \<open>The LOGIN7 response\<close>

record LoginResponse =
  success :: bool
  spid :: u16
  server_name :: "byte list"
  database :: "byte list"
  tds_version :: u32
  error_message :: "byte list"
  error_number :: u32
  error_state :: u32
  negotiated_packet_size :: u32
  has_routing :: bool
  routed_server :: "byte list"
  routed_port :: u16
  has_fedauth_info :: bool
  sts_url :: "byte list"
  server_spn :: "byte list"
  has_sspi_token :: bool
  sspi_token :: "byte list"
  has_feature_ext_ack :: bool
  fedauth_acked :: bool
  utf8_support_acked :: bool

definition new_login_response :: LoginResponse where
  "new_login_response = \<lparr> success = False, spid = 0, server_name = [], database = [], tds_version = 0, error_message = [],
     error_number = 0, error_state = 0, negotiated_packet_size = of_nat TDS_DEFAULT_PACKET_SIZE,
     has_routing = False, routed_server = [], routed_port = 0, has_fedauth_info = False, sts_url = [],
     server_spn = [], has_sspi_token = False, sspi_token = [], has_feature_ext_ack = False,
     fedauth_acked = False, utf8_support_acked = False \<rparr>"

text \<open>What a token branch does next: continue at an offset, leave the loop, or return at once.\<close>

datatype login_step = Next nat LoginResponse | Break LoginResponse | Return LoginResponse

definition rd_u32be :: "byte list \<Rightarrow> nat \<Rightarrow> u32 res" where
  "rd_u32be data i =
     bind_res (rd data i) (\<lambda>a. bind_res (rd data (i + 1)) (\<lambda>b.
     bind_res (rd data (i + 2)) (\<lambda>c. bind_res (rd data (i + 3)) (\<lambda>d.
       Ret (push_bit 24 (ucast a) OR push_bit 16 (ucast b) OR push_bit 8 (ucast c) OR ucast d)))))"

definition login_ack :: "byte list \<Rightarrow> nat \<Rightarrow> LoginResponse \<Rightarrow> login_step res" where
  "login_ack data ptr response =
     (if ptr + 2 > length data then Ret (Break response)
      else bind_res (rd_u16le data ptr) (\<lambda>w.
        let ptr = ptr + 2; len = unat w; loginack_end = ptr + len in
        if loginack_end > length data then Ret (Break response)
        else bind_res
          (if len \<ge> 10 then
             bind_res (rd_u32be data (ptr + 1)) (\<lambda>version.
             let response = response\<lparr> tds_version := version \<rparr> in
             bind_res (rd data (ptr + 5)) (\<lambda>name_len.
             if ptr + 6 + unat name_len * 2 \<le> loginack_end
             then map_res (\<lambda>s. response\<lparr> server_name := s \<rparr>) (ReadUTF16LE data (ptr + 6) (unat name_len))
             else Ret response))
           else Ret response)
          (\<lambda>response. Ret (Next loginack_end (response\<lparr> success := True \<rparr>)))))"

definition login_error :: "byte list \<Rightarrow> nat \<Rightarrow> LoginResponse \<Rightarrow> login_step res" where
  "login_error data ptr response =
     (if ptr + 2 > length data then Ret (Break response)
      else bind_res (rd_u16le data ptr) (\<lambda>w.
        let ptr = ptr + 2; len = unat w; token_end = ptr + len in
        if token_end > length data \<or> len < 14 then Ret (Break response)
        else
          bind_res (rd_u32le data ptr) (\<lambda>number. bind_res (rd data (ptr + 4)) (\<lambda>st.
          let response = response\<lparr> error_number := number, error_state := ucast st \<rparr> in
          bind_res (rd_u16le data (ptr + 6)) (\<lambda>msg_len.
          bind_res
            (if ptr + 8 + unat msg_len * 2 \<le> token_end
             then map_res (\<lambda>s. response\<lparr> error_message := s \<rparr>) (ReadUTF16LE data (ptr + 8) (unat msg_len))
             else Ret response)
            (\<lambda>response. Ret (Return (response\<lparr> success := False \<rparr>))))))))"

definition login_done :: "byte list \<Rightarrow> nat \<Rightarrow> LoginResponse \<Rightarrow> login_step res" where
  "login_done data ptr response =
     Ret (if ptr + 12 \<le> length data then Next (ptr + 12) response else Break response)"

definition env_packet_size :: "byte list \<Rightarrow> nat \<Rightarrow> nat \<Rightarrow> LoginResponse \<Rightarrow> LoginResponse res" where
  "env_packet_size data env_data len response =
     bind_res (rd data (env_data + 1)) (\<lambda>new_val_len.
     if new_val_len > 0 \<and> 2 + unat new_val_len * 2 \<le> len then
       bind_res (ReadUTF16LE data (env_data + 2) (unat new_val_len)) (\<lambda>packet_size_str.
       case stoul packet_size_str of
         None \<Rightarrow> Ret response
       | Some parsed \<Rightarrow>
           if parsed \<ge> TDS_MIN_PACKET_SIZE \<and> parsed \<le> TDS_MAX_PACKET_SIZE
           then Ret (response\<lparr> negotiated_packet_size := of_nat parsed \<rparr>) else Ret response)
     else Ret response)"

definition env_routing :: "byte list \<Rightarrow> nat \<Rightarrow> nat \<Rightarrow> LoginResponse \<Rightarrow> LoginResponse res" where
  "env_routing data env_data len response =
     (let routing_ptr = env_data + 1; routing_end = env_data + len in
      if routing_ptr + 2 > routing_end then Ret response
      else bind_res (rd_u16le data routing_ptr) (\<lambda>value_len.
        let routing_ptr = routing_ptr + 2 in
        if routing_ptr + 1 > routing_end then Ret response
        else bind_res (rd data routing_ptr) (\<lambda>protocol.
          let routing_ptr = routing_ptr + 1 in
          if protocol \<noteq> 0 then Ret response
          else if routing_ptr + 2 > routing_end then Ret response
          else bind_res (rd_u16le data routing_ptr) (\<lambda>port.
            let response = response\<lparr> routed_port := port \<rparr>; routing_ptr = routing_ptr + 2 in
            if routing_ptr + 2 > routing_end then Ret response
            else bind_res (rd_u16le data routing_ptr) (\<lambda>server_len_chars.
              let routing_ptr = routing_ptr + 2 in
              if routing_ptr + unat server_len_chars * 2 \<le> routing_end \<and> server_len_chars > 0
              then map_res (\<lambda>s. response\<lparr> routed_server := s, has_routing := True \<rparr>)
                     (ReadUTF16LE data routing_ptr (unat server_len_chars))
              else Ret response)))))"

definition login_envchange :: "byte list \<Rightarrow> nat \<Rightarrow> LoginResponse \<Rightarrow> login_step res" where
  "login_envchange data ptr response =
     (if ptr + 2 > length data then Ret (Break response)
      else bind_res (rd_u16le data ptr) (\<lambda>w.
        let ptr = ptr + 2; len = unat w in
        if ptr + len > length data then Ret (Break response)
        else if len = 0 then Ret (Next ptr response)
        else
          bind_res (rd data ptr) (\<lambda>env_type.
          bind_res
            (if env_type = 4 \<and> len \<ge> 3 then env_packet_size data ptr len response
             else if env_type = 20 \<and> len \<ge> 7 then env_routing data ptr len response
             else Ret response)
            (\<lambda>response. Ret (Next (ptr + len) response)))))"

definition login_info :: "byte list \<Rightarrow> nat \<Rightarrow> LoginResponse \<Rightarrow> login_step res" where
  "login_info data ptr response =
     (if ptr + 2 > length data then Ret (Break response)
      else bind_res (rd_u16le data ptr) (\<lambda>w.
        let ptr = ptr + 2; len = unat w in
        Ret (if ptr + len \<le> length data then Next (ptr + len) response else Break response)))"

function fedauth_info_loop ::
    "byte list \<Rightarrow> nat \<Rightarrow> nat \<Rightarrow> nat \<Rightarrow> nat \<Rightarrow> LoginResponse \<Rightarrow> LoginResponse res" where
  "fedauth_info_loop data token_start token_len i info_ptr response =
     (if i > 0 \<and> info_ptr + 9 \<le> token_start + token_len then
        bind_res (rd data info_ptr) (\<lambda>info_id.
        bind_res (rd_u32le data (info_ptr + 1)) (\<lambda>data_len.
        bind_res (rd_u32le data (info_ptr + 5)) (\<lambda>data_offset.
        bind_res
          (if unat data_offset \<le> token_len \<and> unat data_len \<le> token_len - unat data_offset then
             (let opt_data = token_start + unat data_offset;
                  char_count = (of_nat (unat data_len div 2) :: u16)
              in map_res (\<lambda>value.
                   if info_id = FEDAUTHINFO_OPT_STS_URL then response\<lparr> sts_url := value \<rparr>
                   else if info_id = FEDAUTHINFO_OPT_SPN then response\<lparr> server_spn := value \<rparr>
                   else response) (ReadUTF16LE data opt_data (unat char_count)))
           else Ret response)
          (\<lambda>response. fedauth_info_loop data token_start token_len (i - 1) (info_ptr + 9) response))))
      else Ret response)"
  by pat_completeness auto
termination
  by (relation "measure (\<lambda>(_, _, _, i, _, _). i)") auto

declare fedauth_info_loop.simps [simp del]

definition login_fedauth_info :: "byte list \<Rightarrow> nat \<Rightarrow> LoginResponse \<Rightarrow> login_step res" where
  "login_fedauth_info data ptr response =
     (if ptr + 4 > length data then Ret (Break response)
      else bind_res (rd_u32le data ptr) (\<lambda>w.
        let ptr = ptr + 4; token_len = unat w in
        if ptr + token_len > length data \<or> token_len < 4 then Ret (Break response)
        else
          bind_res (rd_u32le data ptr) (\<lambda>count.
          bind_res (fedauth_info_loop data ptr token_len (unat count) (ptr + 4) response) (\<lambda>response.
            Ret (Next (ptr + token_len) (response\<lparr> has_fedauth_info := True \<rparr>))))))"

definition login_sspi :: "byte list \<Rightarrow> nat \<Rightarrow> LoginResponse \<Rightarrow> login_step res" where
  "login_sspi data ptr response =
     (if ptr + 2 > length data then Ret (Break response)
      else bind_res (rd_u16le data ptr) (\<lambda>w.
        let ptr = ptr + 2; blob_len = unat w in
        if ptr + blob_len > length data then Ret (Break response)
        else bind_res (rd_block data ptr blob_len) (\<lambda>blob.
          Ret (Next (ptr + blob_len) (response\<lparr> has_sspi_token := True, sspi_token := blob \<rparr>)))))"

function features_loop :: "byte list \<Rightarrow> nat \<Rightarrow> LoginResponse \<Rightarrow> (nat \<times> LoginResponse) res" where
  "features_loop data ptr response =
     (if ptr < length data then
        bind_res (rd data ptr) (\<lambda>feature_id.
        let ptr = ptr + 1 in
        if feature_id = FeatureExtId_TERMINATOR then Ret (ptr, response)
        else if ptr + 4 > length data then Ret (length data, response)
        else bind_res (rd_u32le data ptr) (\<lambda>data_len.
          let ptr = ptr + 4 in
          if data_len > of_nat (length data - ptr) then Ret (length data, response)
          else
            (let response = (if feature_id = FeatureExtId_FEDAUTH then response\<lparr> fedauth_acked := True \<rparr>
                             else if feature_id = FeatureExtId_UTF8SUPPORT then response\<lparr> utf8_support_acked := True \<rparr>
                             else response)
             in features_loop data (ptr + unat data_len) response)))
      else Ret (ptr, response))"
  by pat_completeness auto
termination
  by (relation "measure (\<lambda>(data, ptr, _). length data - ptr)") auto

declare features_loop.simps [simp del]

definition login_features :: "byte list \<Rightarrow> nat \<Rightarrow> LoginResponse \<Rightarrow> login_step res" where
  "login_features data ptr response =
     bind_res (features_loop data ptr (response\<lparr> has_feature_ext_ack := True \<rparr>)) (\<lambda>(ptr, response).
       Ret (Next ptr response))"

definition login_unknown :: "byte list \<Rightarrow> nat \<Rightarrow> LoginResponse \<Rightarrow> login_step res" where
  "login_unknown data ptr response =
     (if ptr + 2 \<le> length data then
        bind_res (rd_u16le data ptr) (\<lambda>w.
        let ptr = ptr + 2; len = unat w in
        Ret (Next (if len > 0 \<and> ptr + len \<le> length data then ptr + len else ptr) response))
      else Ret (Break response))"

definition login_token :: "byte list \<Rightarrow> nat \<Rightarrow> LoginResponse \<Rightarrow> login_step res" where
  "login_token data ptr response =
     bind_res (rd data ptr) (\<lambda>token_type.
     let ptr = ptr + 1 in
     if token_type = TokenType_LOGINACK then login_ack data ptr response
     else if token_type = TokenType_ERROR_TOKEN then login_error data ptr response
     else if token_type = TokenType_DONE \<or> token_type = TokenType_DONEPROC \<or> token_type = TokenType_DONEINPROC
       then login_done data ptr response
     else if token_type = TokenType_ENVCHANGE then login_envchange data ptr response
     else if token_type = TokenType_INFO then login_info data ptr response
     else if token_type = TokenType_FEDAUTHINFO then login_fedauth_info data ptr response
     else if token_type = TokenType_SSPI then login_sspi data ptr response
     else if token_type = TokenType_FEATUREEXTACK then login_features data ptr response
     else login_unknown data ptr response)"

definition login_finish :: "LoginResponse \<Rightarrow> LoginResponse" where
  "login_finish response =
     (if \<not> success response \<and> error_message response = []
      then response\<lparr> error_message := bytes_of_str ''No LOGINACK token in response'' \<rparr> else response)"

partial_function (option) login_loop :: "byte list \<Rightarrow> nat \<Rightarrow> LoginResponse \<Rightarrow> LoginResponse res option" where
  "login_loop data ptr response =
     (if ptr < length data then
        (case login_token data ptr response of
           Ret step \<Rightarrow>
             (case step of
                Next ptr response \<Rightarrow> login_loop data ptr response
              | Break response \<Rightarrow> Some (Ret (login_finish response))
              | Return response \<Rightarrow> Some (Ret response))
         | More \<Rightarrow> Some More
         | Throw m \<Rightarrow> Some (Throw m)
         | OOB \<Rightarrow> Some OOB)
      else Some (Ret (login_finish response)))"

definition ParseLoginResponse :: "byte list \<Rightarrow> LoginResponse res option" where
  "ParseLoginResponse data =
     (if data = [] then Some (Ret (new_login_response\<lparr> error_message := bytes_of_str ''Empty LOGIN response'' \<rparr>))
      else login_loop data 0 new_login_response)"

subsection \<open>Scanners\<close>

text \<open>
  The three scanners share the skipping of a token with a two-byte length: \<open>Some\<close> the offset behind it,
  \<open>None\<close> when it is not complete.
\<close>

definition skip_token :: "byte list \<Rightarrow> nat \<Rightarrow> nat option res" where
  "skip_token data ptr =
     (if ptr + 2 \<le> length data then
        bind_res (rd_u16le data ptr) (\<lambda>w.
        let ptr = ptr + 2; len = unat w in
        Ret (if ptr + len \<le> length data then Some (ptr + len) else None))
      else Ret None)"

definition is_done_token :: "byte \<Rightarrow> bool" where
  "is_done_token token \<longleftrightarrow> token = TokenType_DONE \<or> token = TokenType_DONEPROC \<or> token = TokenType_DONEINPROC"

partial_function (option) attention_loop :: "byte list \<Rightarrow> nat \<Rightarrow> bool res option" where
  "attention_loop data ptr =
     (if ptr < length data then
        (case rd data ptr of
           Ret token \<Rightarrow>
             let ptr = ptr + 1 in
             if is_done_token token then
               (if ptr + 12 \<le> length data then
                  (case rd_u16le data ptr of
                     Ret status \<Rightarrow>
                       if status AND DoneStatus_DONE_ATTN \<noteq> 0 then Some (Ret True)
                       else attention_loop data (ptr + 12)
                   | _ \<Rightarrow> Some OOB)
                else Some (Ret False))
             else
               (case skip_token data ptr of
                  Ret po \<Rightarrow> (case po of Some ptr \<Rightarrow> attention_loop data ptr | None \<Rightarrow> Some (Ret False))
                | _ \<Rightarrow> Some OOB)
         | _ \<Rightarrow> Some OOB)
      else Some (Ret False))"

definition ParseDoneForAttentionAck :: "byte list \<Rightarrow> bool res option" where
  "ParseDoneForAttentionAck data = attention_loop data 0"

partial_function (option) success_loop :: "byte list \<Rightarrow> nat \<Rightarrow> bool res option" where
  "success_loop data ptr =
     (if ptr < length data then
        (case rd data ptr of
           Ret token \<Rightarrow>
             let ptr = ptr + 1 in
             if is_done_token token then
               (if ptr + 2 \<le> length data then
                  (case rd_u16le data ptr of
                     Ret status \<Rightarrow> Some (Ret (status AND DoneStatus_DONE_ERROR = 0))
                   | _ \<Rightarrow> Some OOB)
                else Some (Ret True))
             else
               (case skip_token data ptr of
                  Ret po \<Rightarrow> (case po of Some ptr \<Rightarrow> success_loop data ptr | None \<Rightarrow> Some (Ret True))
                | _ \<Rightarrow> Some OOB)
         | _ \<Rightarrow> Some OOB)
      else Some (Ret True))"

definition IsSuccessResponse :: "byte list \<Rightarrow> bool res option" where
  "IsSuccessResponse data =
     (if TokenType_ERROR_TOKEN \<in> set data then Some (Ret False) else success_loop data 0)"

partial_function (option) error_text_loop :: "byte list \<Rightarrow> nat \<Rightarrow> byte list res option" where
  "error_text_loop data ptr =
     (if ptr < length data then
        (case rd data ptr of
           Ret token \<Rightarrow>
             let ptr = ptr + 1 in
             if token = TokenType_ERROR_TOKEN then
               (if ptr + 2 > length data then Some (Ret [])
                else
                  (case rd_u16le data ptr of
                     Ret w \<Rightarrow>
                       let ptr = ptr + 2; len = unat w in
                       if ptr + len > length data \<or> len < 10 then Some (Ret [])
                       else
                         (let ptr = ptr + 6 in
                          case rd_u16le data ptr of
                            Ret msg_len \<Rightarrow>
                              if ptr + 2 + unat msg_len * 2 \<le> length data
                              then Some (ReadUTF16LE data (ptr + 2) (unat msg_len)) else Some (Ret [])
                          | _ \<Rightarrow> Some OOB)
                   | _ \<Rightarrow> Some OOB))
             else
               (case skip_token data ptr of
                  Ret po \<Rightarrow> (case po of Some ptr \<Rightarrow> error_text_loop data ptr | None \<Rightarrow> Some (Ret []))
                | _ \<Rightarrow> Some OOB)
         | _ \<Rightarrow> Some OOB)
      else Some (Ret []))"

definition ExtractErrorMessage :: "byte list \<Rightarrow> byte list res option" where
  "ExtractErrorMessage data = error_text_loop data 0"

subsection \<open>Bounds and progress\<close>

lemma ReadUTF16LE_in [simp]:
  "off + n * 2 \<le> length data \<Longrightarrow> ReadUTF16LE data off n = Ret (map (\<lambda>i. data ! (off + i * 2)) [0..<n])"
  unfolding ReadUTF16LE_def by (rule mapM_res_Ret) auto

lemma rd_be_in [simp]:
  "i + 1 < length data \<Longrightarrow> \<exists>w. rd_u16be data i = Ret w"
  "i + 3 < length data \<Longrightarrow> \<exists>w. rd_u32be data i = Ret w"
  by (simp_all add: rd_u16be_def rd_u32be_def)

definition lr_ok :: "LoginResponse \<Rightarrow> bool" where
  "lr_ok r \<longleftrightarrow> TDS_MIN_PACKET_SIZE \<le> unat (negotiated_packet_size r) \<and>
     unat (negotiated_packet_size r) \<le> TDS_MAX_PACKET_SIZE \<and> (has_routing r \<longrightarrow> routed_server r \<noteq> [])"

fun step_ok :: "nat \<Rightarrow> login_step \<Rightarrow> bool" where
  "step_ok ptr (Next q r) \<longleftrightarrow> ptr \<le> q \<and> lr_ok r"
| "step_ok ptr (Break r) \<longleftrightarrow> lr_ok r"
| "step_ok ptr (Return r) \<longleftrightarrow> lr_ok r \<and> \<not> success r"

text \<open>A routine on the response yields a response that keeps the facts of \<open>lr_ok\<close>.\<close>

definition keeps :: "LoginResponse res \<Rightarrow> bool" where
  "keeps m \<longleftrightarrow> (\<exists>r. m = Ret r \<and> lr_ok r)"

lemma keeps_Ret [simp]: "keeps (Ret r) = lr_ok r"
  by (simp add: keeps_def)

lemma lr_ok_update [simp]:
  "lr_ok (r\<lparr> tds_version := v \<rparr>) = lr_ok r" "lr_ok (r\<lparr> server_name := n \<rparr>) = lr_ok r"
  "lr_ok (r\<lparr> success := s \<rparr>) = lr_ok r" "lr_ok (r\<lparr> error_number := e \<rparr>) = lr_ok r"
  "lr_ok (r\<lparr> error_state := t \<rparr>) = lr_ok r" "lr_ok (r\<lparr> error_message := g \<rparr>) = lr_ok r"
  "lr_ok (r\<lparr> routed_port := p \<rparr>) = lr_ok r" "lr_ok (r\<lparr> sts_url := u \<rparr>) = lr_ok r"
  "lr_ok (r\<lparr> server_spn := u \<rparr>) = lr_ok r" "lr_ok (r\<lparr> has_fedauth_info := s \<rparr>) = lr_ok r"
  "lr_ok (r\<lparr> has_sspi_token := s \<rparr>) = lr_ok r" "lr_ok (r\<lparr> sspi_token := b \<rparr>) = lr_ok r"
  "lr_ok (r\<lparr> has_feature_ext_ack := s \<rparr>) = lr_ok r" "lr_ok (r\<lparr> fedauth_acked := s \<rparr>) = lr_ok r"
  "lr_ok (r\<lparr> utf8_support_acked := s \<rparr>) = lr_ok r"
  by (simp_all add: lr_ok_def)

lemma lr_ok_size: "lr_ok r \<Longrightarrow> TDS_MIN_PACKET_SIZE \<le> n \<Longrightarrow> n \<le> TDS_MAX_PACKET_SIZE \<Longrightarrow>
    lr_ok (r\<lparr> negotiated_packet_size := of_nat n \<rparr>)"
proof -
  assume a: "lr_ok r" "TDS_MIN_PACKET_SIZE \<le> n" "n \<le> TDS_MAX_PACKET_SIZE"
  then have "unat (of_nat n :: u32) = n" by (simp add: unat_of_nat take_bit_nat_eq_self_iff)
  with a show ?thesis by (simp add: lr_ok_def)
qed

lemma lr_ok_routing: "lr_ok r \<Longrightarrow> s \<noteq> [] \<Longrightarrow> lr_ok (r\<lparr> routed_server := s, has_routing := True \<rparr>)"
  by (simp add: lr_ok_def)

lemma env_packet_size_ok:
  assumes "lr_ok r" "env_data + len \<le> length data" "3 \<le> len"
  shows "keeps (env_packet_size data env_data len r)"
  using assms by (auto simp: env_packet_size_def lr_ok_size split: option.splits)

lemma env_routing_ok:
  assumes "lr_ok r" "env_data + len \<le> length data" "7 \<le> len"
  shows "keeps (env_routing data env_data len r)"
proof -
  have u: "unat w = 0 \<longleftrightarrow> w = 0" for w :: u16 by (simp add: unat_eq_0)
  from assms show ?thesis
    by (auto simp: env_routing_def Let_def word_greater_zero_iff u intro!: lr_ok_routing [simplified])
qed

lemma fedauth_info_loop_ok:
  assumes "lr_ok r" "token_start + token_len \<le> length data"
  shows "keeps (fedauth_info_loop data token_start token_len i info_ptr r)"
  using assms
proof (induction i arbitrary: info_ptr r)
  case 0
  then show ?case by (simp add: fedauth_info_loop.simps)
next
  case (Suc i)
  have c: "unat (of_nat (n div 2) :: u16) * 2 \<le> n" for n
    by (simp add: unat_of_nat)
  show ?case
  proof (cases "info_ptr + 9 \<le> token_start + token_len")
    case True
    define idb where "idb = data ! info_ptr"
    from True Suc.prems obtain dl off where d: "rd_u32le data (info_ptr + 1) = Ret dl" "rd_u32le data (info_ptr + 5) = Ret off"
      "rd data info_ptr = Ret idb" by (simp add: idb_def)
    have R: "unat off \<le> token_len \<and> unat dl \<le> token_len - unat off \<Longrightarrow>
       \<exists>v. ReadUTF16LE data (token_start + unat off) (unat (of_nat (unat dl div 2) :: u16)) = Ret v"
    proof -
      assume "unat off \<le> token_len \<and> unat dl \<le> token_len - unat off"
      with Suc.prems(2) c [of "unat dl"]
      have "token_start + unat off + unat (of_nat (unat dl div 2) :: u16) * 2 \<le> length data" by linarith
      then show ?thesis by (blast intro: ReadUTF16LE_in)
    qed
    show ?thesis
      using True Suc.prems Suc.IH R
      by (subst fedauth_info_loop.simps)
        (auto simp: d d [simplified] Let_def simp del: rd_u32le_in ReadUTF16LE_in)
  next
    case False
    with Suc.prems show ?thesis by (subst fedauth_info_loop.simps) simp
  qed
qed

lemma features_loop_ok:
  "lr_ok r \<Longrightarrow> \<exists>q r'. features_loop data ptr r = Ret (q, r') \<and> (ptr \<le> length data \<longrightarrow> ptr \<le> q) \<and> lr_ok r'"
proof (induction "length data - ptr" arbitrary: ptr r rule: less_induct)
  case less
  show ?case
  proof (cases "ptr < length data \<and> data ! ptr \<noteq> FeatureExtId_TERMINATOR \<and> ptr + 5 \<le> length data")
    case True
    then obtain dl where d: "rd_u32le data (ptr + 1) = Ret dl" by simp
    define r' where "r' = (if data ! ptr = FeatureExtId_FEDAUTH then r\<lparr> fedauth_acked := True \<rparr>
       else if data ! ptr = FeatureExtId_UTF8SUPPORT then r\<lparr> utf8_support_acked := True \<rparr> else r)"
    have k: "lr_ok r'" using less.prems by (simp add: r'_def)
    have e: "features_loop data ptr r = (if dl > of_nat (length data - (ptr + 1 + 4)) then Ret (length data, r)
        else features_loop data (ptr + 1 + 4 + unat dl) r')"
    proof -
      have l: "ptr < length data" "\<not> ptr + 1 + 4 > length data" "data ! ptr \<noteq> FeatureExtId_TERMINATOR" using True by simp_all
      show ?thesis
        by (subst features_loop.simps) (simp only: l rd_in bind_res.simps Let_def d r'_def if_True if_False)
    qed
    have "features_loop data ptr r = (if dl > of_nat (length data - (ptr + 5)) then Ret (length data, r)
        else features_loop data (ptr + 5 + unat dl) r')"
      unfolding e by (simp only: add.assoc) simp
    moreover have lt: "length data - (ptr + 5 + unat dl) < length data - ptr" using True by arith
    from less.hyps [OF lt k]
    have "\<exists>q r''. features_loop data (ptr + 5 + unat dl) r' = Ret (q, r'') \<and> lr_ok r'' \<and>
        (ptr + 5 + unat dl \<le> length data \<longrightarrow> ptr + 5 + unat dl \<le> q)" by auto
    moreover have "unat dl \<le> length data - (ptr + 5)" if "\<not> dl > of_nat (length data - (ptr + 5))"
    proof -
      from that have "unat dl \<le> unat (of_nat (length data - (ptr + 5)) :: u32)" by (simp add: word_le_nat_alt not_less)
      also have "\<dots> \<le> length data - (ptr + 5)" by (simp add: unat_of_nat)
      finally show ?thesis .
    qed
    ultimately show ?thesis using True less.prems by (auto simp: not_less)
  next
    case False
    with less.prems show ?thesis by (subst features_loop.simps) (auto simp: Let_def)
  qed
qed

lemma login_branches_ok:
  assumes "lr_ok r" "ptr \<le> length data"
  shows "\<exists>st. login_ack data ptr r = Ret st \<and> step_ok ptr st" "\<exists>st. login_error data ptr r = Ret st \<and> step_ok ptr st"
    "\<exists>st. login_done data ptr r = Ret st \<and> step_ok ptr st" "\<exists>st. login_envchange data ptr r = Ret st \<and> step_ok ptr st"
    "\<exists>st. login_info data ptr r = Ret st \<and> step_ok ptr st" "\<exists>st. login_sspi data ptr r = Ret st \<and> step_ok ptr st"
    "\<exists>st. login_fedauth_info data ptr r = Ret st \<and> step_ok ptr st"
    "\<exists>st. login_features data ptr r = Ret st \<and> step_ok ptr st" "\<exists>st. login_unknown data ptr r = Ret st \<and> step_ok ptr st"
proof -
  show "\<exists>st. login_ack data ptr r = Ret st \<and> step_ok ptr st"
    using assms by (auto simp: login_ack_def Let_def rd_u32be_def)
  show "\<exists>st. login_error data ptr r = Ret st \<and> step_ok ptr st"
    using assms by (auto simp: login_error_def Let_def)
  show "\<exists>st. login_done data ptr r = Ret st \<and> step_ok ptr st"
    using assms by (simp add: login_done_def)
  show "\<exists>st. login_info data ptr r = Ret st \<and> step_ok ptr st"
    using assms by (auto simp: login_info_def Let_def)
  show "\<exists>st. login_sspi data ptr r = Ret st \<and> step_ok ptr st"
    using assms by (auto simp: login_sspi_def Let_def)
  show "\<exists>st. login_unknown data ptr r = Ret st \<and> step_ok ptr st"
    using assms by (auto simp: login_unknown_def Let_def)
  show "\<exists>st. login_features data ptr r = Ret st \<and> step_ok ptr st"
    using assms features_loop_ok [of "r\<lparr> has_feature_ext_ack := True \<rparr>" data ptr] by (auto simp: login_features_def)
  show "\<exists>st. login_envchange data ptr r = Ret st \<and> step_ok ptr st"
  proof (cases "ptr + 2 \<le> length data")
    case True
    then obtain w where w: "rd_u16le data ptr = Ret w" by simp
    have p: "keeps (env_packet_size data (ptr + 2) (unat w) r)" if "ptr + 2 + unat w \<le> length data" "3 \<le> unat w"
      using env_packet_size_ok [OF assms(1)] that by blast
    have q: "keeps (env_routing data (ptr + 2) (unat w) r)" if "ptr + 2 + unat w \<le> length data" "7 \<le> unat w"
      using env_routing_ok [OF assms(1)] that by blast
    have "\<exists>b. rd data (ptr + 2) = Ret b" if "ptr + 2 + unat w \<le> length data" "unat w \<noteq> 0" using that by simp
    then show ?thesis using True assms p q
      by (cases "ptr + 2 + unat w \<le> length data"; cases "unat w = 0")
        (auto simp: login_envchange_def Let_def keeps_def w simp del: rd_u16le_in rd_in unat_eq_zero)
  qed (use assms in \<open>simp add: login_envchange_def\<close>)
  show "\<exists>st. login_fedauth_info data ptr r = Ret st \<and> step_ok ptr st"
  proof (cases "ptr + 4 \<le> length data")
    case True
    then obtain w where w: "rd_u32le data ptr = Ret w" by simp
    have p: "keeps (fedauth_info_loop data (ptr + 4) (unat w) i j r)" if "ptr + 4 + unat w \<le> length data" for i j
      using fedauth_info_loop_ok [OF assms(1)] that by blast
    show ?thesis
    proof (cases "ptr + 4 + unat w \<le> length data \<and> 4 \<le> unat w")
      case t: True
      then obtain c where c: "rd_u32le data (ptr + 4) = Ret c" by simp
      from p t obtain r' where "fedauth_info_loop data (ptr + 4) (unat w) (unat c) (ptr + 4 + 4) r = Ret r'" "lr_ok r'"
        unfolding keeps_def by blast
      with True t w c show ?thesis
        by (simp add: login_fedauth_info_def Let_def del: rd_u32le_in)
    qed (use True assms w in \<open>auto simp: login_fedauth_info_def Let_def simp del: rd_u32le_in\<close>)
  qed (use assms in \<open>simp add: login_fedauth_info_def\<close>)
qed

lemma login_token_ok:
  assumes "lr_ok r" "ptr < length data"
  shows "\<exists>st. login_token data ptr r = Ret st \<and> step_ok (ptr + 1) st"
proof -
  have "ptr + 1 \<le> length data" using assms(2) by simp
  from login_branches_ok [OF assms(1) this] assms(2) show ?thesis
    by (simp add: login_token_def)
qed

lemma login_finish_ok: "lr_ok r \<Longrightarrow> lr_ok (login_finish r)"
  by (simp add: login_finish_def)

lemma login_loop_ok:
  "lr_ok r \<Longrightarrow> \<exists>r'. login_loop data ptr r = Some (Ret r') \<and> lr_ok r'"
proof (induction "length data - ptr" arbitrary: ptr r rule: less_induct)
  case less
  show ?case
  proof (cases "ptr < length data")
    case True
    from login_token_ok [OF less.prems True] obtain st where
      st: "login_token data ptr r = Ret st" "step_ok (ptr + 1) st" by blast
    show ?thesis
    proof (cases st)
      case (Next q r')
      with st True have "length data - q < length data - ptr" "lr_ok r'" by auto
      from less.hyps [OF this] True st Next show ?thesis by (subst login_loop.simps) simp
    qed (use st True login_finish_ok in \<open>(subst login_loop.simps, auto)+\<close>)
  next
    case False
    with less.prems login_finish_ok show ?thesis by (subst login_loop.simps) simp
  qed
qed

lemma new_login_response_ok: "lr_ok new_login_response"
  by (simp add: lr_ok_def new_login_response_def)

lemma skip_token_Ret: "\<exists>po. skip_token data ptr = Ret po"
  by (simp add: skip_token_def Let_def)

lemma skip_token_gt: "skip_token data ptr = Ret (Some q) \<Longrightarrow> ptr < q \<and> q \<le> length data"
  by (auto simp: skip_token_def Let_def split: if_splits)

lemma attention_loop_returns: "\<exists>b. attention_loop data ptr = Some (Ret b)"
proof (induction "length data - ptr" arbitrary: ptr rule: less_induct)
  case less
  have IH: "ptr < q \<Longrightarrow> ptr < length data \<Longrightarrow> \<exists>b. attention_loop data q = Some (Ret b)" for q
    by (rule less) arith
  from skip_token_Ret obtain po where "skip_token data (Suc ptr) = Ret po" by blast
  then show ?case using IH [of "Suc ptr + 12"] IH skip_token_gt [of data "Suc ptr"]
    by (subst attention_loop.simps) (cases po; auto simp: Let_def dest: Suc_lessD)
qed

lemma success_loop_returns: "\<exists>b. success_loop data ptr = Some (Ret b)"
proof (induction "length data - ptr" arbitrary: ptr rule: less_induct)
  case less
  have IH: "ptr < q \<Longrightarrow> ptr < length data \<Longrightarrow> \<exists>b. success_loop data q = Some (Ret b)" for q
    by (rule less) arith
  from skip_token_Ret obtain po where "skip_token data (Suc ptr) = Ret po" by blast
  then show ?case using IH skip_token_gt [of data "Suc ptr"]
    by (subst success_loop.simps) (cases po; auto simp: Let_def dest: Suc_lessD)
qed

lemma error_text_loop_returns: "\<exists>e. error_text_loop data ptr = Some (Ret e)"
proof (induction "length data - ptr" arbitrary: ptr rule: less_induct)
  case less
  have IH: "ptr < q \<Longrightarrow> ptr < length data \<Longrightarrow> \<exists>b. error_text_loop data q = Some (Ret b)" for q
    by (rule less) arith
  from skip_token_Ret obtain po where "skip_token data (Suc ptr) = Ret po" by blast
  then show ?case using IH skip_token_gt [of data "Suc ptr"]
    by (subst error_text_loop.simps) (cases po; auto simp: Let_def dest: Suc_lessD)
qed

lemma prelogin_option_Ret: "\<exists>r'. prelogin_option data option offset len r = Ret r'"
  by (auto simp: prelogin_option_def rd_u16be_def)

lemma prelogin_loop_Ret: "\<exists>r'. prelogin_loop data pos r = Ret r'"
proof (induction "length data - pos" arbitrary: pos r rule: less_induct)
  case less
  show ?case
  proof (cases "pos < length data")
    case True
    have IH: "\<exists>r'. prelogin_loop data (pos + 5) s = Ret r'" for s using True by (intro less) arith
    obtain a b where ab: "pos + 5 \<le> length data \<Longrightarrow> rd_u16be data (pos + 1) = Ret a \<and> rd_u16be data (pos + 3) = Ret b"
      by (auto simp: rd_u16be_def)
    obtain s where "prelogin_option data (data ! pos) (unat a) (unat b) r = Ret s" using prelogin_option_Ret by blast
    with True IH ab show ?thesis by (subst prelogin_loop.simps) (auto simp: not_less)
  qed (simp add: prelogin_loop.simps)
qed

lemma ParseLoginResponse_ok: "\<exists>r. ParseLoginResponse data = Some (Ret r) \<and> lr_ok r"
proof (cases "data = []")
  case True
  with new_login_response_ok show ?thesis by (simp add: ParseLoginResponse_def)
next
  case False
  with login_loop_ok [OF new_login_response_ok, of data 0] show ?thesis
    by (auto simp: ParseLoginResponse_def)
qed

lemma ParsePreloginResponse_Ret: "\<exists>p. ParsePreloginResponse data = Ret p"
  using prelogin_loop_Ret [of data 0] by (auto simp: ParsePreloginResponse_def)

lemma attention_success_Ret:
  "\<exists>a. ParseDoneForAttentionAck data = Some (Ret a)" "\<exists>b. IsSuccessResponse data = Some (Ret b)"
  using attention_loop_returns [of data 0] success_loop_returns [of data 0]
  by (auto simp: ParseDoneForAttentionAck_def IsSuccessResponse_def)

subsection \<open>Properties of the response parsers\<close>

text \<open>C36: the login response parser is total and safe on any bytes: it terminates, it never reads outside
  the response, and the packet size it reports lies in the protocol's range 512 to 32767, so the
  message fragmenters that use it always have room for a payload; a routing target is never empty.\<close>

theorem ParseLoginResponse_safe:
  "\<exists>r. ParseLoginResponse data = Some (Ret r) \<and>
     TDS_MIN_PACKET_SIZE \<le> unat (negotiated_packet_size r) \<and>
     unat (negotiated_packet_size r) \<le> TDS_MAX_PACKET_SIZE \<and> \<not> (has_routing r \<and> routed_server r = [])"
  using ParseLoginResponse_ok [of data] by (auto simp: lr_ok_def)

text \<open>the other response parsers are total and safe on any bytes: the PRELOGIN parser, the scanner for
  an attention acknowledgement, the success check and the extraction of the error text return on every
  input and never read outside it.\<close>

theorem response_scanners_total:
  "(\<exists>p. ParsePreloginResponse data = Ret p) \<and> (\<exists>a. ParseDoneForAttentionAck data = Some (Ret a)) \<and>
   (\<exists>b. IsSuccessResponse data = Some (Ret b)) \<and> (\<exists>e. ExtractErrorMessage data = Some (Ret e))"
  using prelogin_loop_Ret [of data 0] attention_loop_returns [of data 0] success_loop_returns [of data 0]
    error_text_loop_returns [of data 0]
  by (auto simp: ParsePreloginResponse_def ParseDoneForAttentionAck_def IsSuccessResponse_def ExtractErrorMessage_def)

end
