(* ===== verification/Login_Reply.thy ===== *)
theory Login_Reply
  imports Login_Response
begin

text \<open>
  Functional correctness of the login response parser: the tokens a server sends in answer to LOGIN7 as
  a datatype with their wire form, the effect of each on the response, and the theorem that the parser
  computes exactly the combined effect.
\<close>

datatype login_tok =
    TAck byte u32 "byte list" "byte list"
  | TDone byte "byte list"
  | TInfo "byte list"
  | TPacketSize "byte list" "byte list"
  | TRouting u16 "byte list"
  | TSspi "byte list"
  | TFeatures "(byte \<times> byte list) list"

definition len16 :: "byte list \<Rightarrow> byte list" where
  "len16 bs = le16 (of_nat (length bs)) @ bs"

definition enc_feature :: "byte \<times> byte list \<Rightarrow> byte list" where
  "enc_feature f = fst f # le32 (of_nat (length (snd f))) @ snd f"

fun enc_tok :: "login_tok \<Rightarrow> byte list" where
  "enc_tok (TAck iface v name ver) =
     TokenType_LOGINACK # len16 (iface # be32 v @ of_nat (length name) # widen name @ ver)"
| "enc_tok (TDone ty body) = ty # body"
| "enc_tok (TInfo bs) = TokenType_INFO # len16 bs"
| "enc_tok (TPacketSize ds old) =
     TokenType_ENVCHANGE # len16 (4 # of_nat (length ds) # widen ds @ old)"
| "enc_tok (TRouting port server) =
     TokenType_ENVCHANGE # len16 (20 # le16 (of_nat (5 + 2 * length server)) @ 0 # le16 port @
       le16 (of_nat (length server)) @ widen server @ [0, 0])"
| "enc_tok (TSspi bs) = TokenType_SSPI # len16 bs"
| "enc_tok (TFeatures fs) = TokenType_FEATUREEXTACK # concat (map enc_feature fs) @ [FeatureExtId_TERMINATOR]"

fun wf_tok :: "login_tok \<Rightarrow> bool" where
  "wf_tok (TAck iface v name ver) \<longleftrightarrow> length name < 256 \<and> length ver = 4"
| "wf_tok (TDone ty body) \<longleftrightarrow> is_done_token ty \<and> length body = 12"
| "wf_tok (TInfo bs) \<longleftrightarrow> length bs < 65536"
| "wf_tok (TPacketSize ds old) \<longleftrightarrow> ds \<noteq> [] \<and> length ds < 256 \<and> length old < 512"
| "wf_tok (TRouting port server) \<longleftrightarrow> server \<noteq> [] \<and> length server < 32000"
| "wf_tok (TSspi bs) \<longleftrightarrow> length bs < 65536"
| "wf_tok (TFeatures fs) \<longleftrightarrow> list_all (\<lambda>(i, d). i \<noteq> FeatureExtId_TERMINATOR) fs"

fun feature_effect :: "byte \<times> byte list \<Rightarrow> LoginResponse \<Rightarrow> LoginResponse" where
  "feature_effect (i, d) r =
     (if i = FeatureExtId_FEDAUTH then r\<lparr> fedauth_acked := True \<rparr>
      else if i = FeatureExtId_UTF8SUPPORT then r\<lparr> utf8_support_acked := True \<rparr> else r)"

fun effect :: "login_tok \<Rightarrow> LoginResponse \<Rightarrow> LoginResponse" where
  "effect (TAck iface v name ver) r = r\<lparr> tds_version := v, server_name := name, success := True \<rparr>"
| "effect (TPacketSize ds old) r =
     (case stoul ds of
        Some n \<Rightarrow> if TDS_MIN_PACKET_SIZE \<le> n \<and> n \<le> TDS_MAX_PACKET_SIZE
                  then r\<lparr> negotiated_packet_size := of_nat n \<rparr> else r
      | None \<Rightarrow> r)"
| "effect (TRouting port server) r = r\<lparr> routed_port := port, routed_server := server, has_routing := True \<rparr>"
| "effect (TSspi bs) r = r\<lparr> has_sspi_token := True, sspi_token := bs \<rparr>"
| "effect (TFeatures fs) r = fold feature_effect fs (r\<lparr> has_feature_ext_ack := True \<rparr>)"
| "effect _ r = r"

subsection \<open>Reading behind a prefix\<close>

lemma rd_shift:
  "rd (pre @ d) (length pre + k) = rd d k" "rd (pre @ d) (length pre) = rd d 0" "rd (pre @ d) (Suc (length pre)) = rd d 1"
  by (auto simp: rd_def nth_append)

lemma rd_u16le_shift0: "rd_u16le (pre @ d) (length pre + k) = rd_u16le d k"
  by (auto simp: rd_u16le_def rd_def nth_append)

lemma rd_u16le_shift: "rd_u16le (pre @ d) (length pre + k) = rd_u16le d k" "rd_u16le (pre @ d) (Suc (length pre)) = rd_u16le d 1"
  using rd_u16le_shift0 [of pre d 1] by (simp_all add: rd_u16le_shift0)

lemma rd_u32le_shift0: "rd_u32le (pre @ d) (length pre + k) = rd_u32le d k"
  by (auto simp: rd_u32le_def rd_def nth_append)

lemma rd_u32le_shift: "rd_u32le (pre @ d) (length pre + k) = rd_u32le d k" "rd_u32le (pre @ d) (Suc (length pre)) = rd_u32le d 1"
  using rd_u32le_shift0 [of pre d 1] by (simp_all add: rd_u32le_shift0)

lemma rd_u32be_shift: "rd_u32be (pre @ d) (length pre + k) = rd_u32be d k"
  by (auto simp: rd_u32be_def rd_def nth_append)

lemma ReadUTF16LE_shift: "ReadUTF16LE (pre @ d) (length pre + k) n = ReadUTF16LE d k n"
  unfolding ReadUTF16LE_def by (rule mapM_res_cong) (simp add: rd_shift add.assoc)

lemma rd_block_shift: "rd_block (pre @ d) (length pre + k) n = rd_block d k n"
  by (simp add: rd_block_def)

lemmas shifts = rd_shift rd_u16le_shift rd_u32le_shift rd_u32be_shift ReadUTF16LE_shift rd_block_shift

lemma rd_u16le_here: "rd_u16le (le16 v @ d) 0 = Ret v" "rd_u16le (b # le16 v @ d) 1 = Ret v"
  by (simp_all add: rd_u16le_def rd_def le16_def u16le_le16)

lemma rd_u32le_here: "rd_u32le (le32 v @ d) 0 = Ret v" "rd_u32le (b # le32 v @ d) 1 = Ret v"
  by (simp_all add: rd_u32le_def rd_def le32_def u32le_le32)

lemma widen_nth: "i < length s \<Longrightarrow> widen s ! (i * 2) = s ! i"
proof (induction s arbitrary: i)
  case (Cons b s)
  then show ?case by (cases i) (auto simp: widen_def)
qed simp

lemma ReadUTF16LE_widen: "ReadUTF16LE (pre @ widen s @ d) (length pre) (length s) = Ret s"
proof -
  have "ReadUTF16LE (pre @ widen s @ d) (length pre + 0) (length s) = ReadUTF16LE (widen s @ d) 0 (length s)"
    by (rule ReadUTF16LE_shift)
  also have "\<dots> = Ret (map (\<lambda>i. s ! i) [0..<length s])"
    by (simp add: nth_append widen_nth)
  finally show ?thesis by (simp add: map_nth)
qed

lemma rd_u32be_here: "rd_u32be (a # be32 v @ x) 1 = Ret v"
proof -
  have "u32le (ucast (v AND 0xFF)) (ucast (drop_bit 8 v AND 0xFF)) (ucast (drop_bit 16 v AND 0xFF)) (ucast (drop_bit 24 v AND 0xFF)) = v"
    by (rule u32le_le32)
  then show ?thesis by (simp add: rd_u32be_def rd_def be32_def u32le_def ac_simps)
qed

subsection \<open>One token\<close>

abbreviation reads_tok :: "login_tok \<Rightarrow> bool" where
  "reads_tok t \<equiv> \<forall>pre rest r. login_token (pre @ enc_tok t @ rest) (length pre) r =
     Ret (Next (length pre + length (enc_tok t)) (effect t r))"

lemma rd_first: "rd (pre @ (b # d) @ rest) (length pre) = Ret b"
  by (simp add: rd_def)

text \<open>A token with a two-byte length, found behind \<open>pre\<close>: the facts every branch needs.\<close>

lemma len16_field:
  assumes "length bs < 65536"
  shows "rd_u16le (pre @ (ty # len16 bs) @ rest) (length pre + 1) = Ret (of_nat (length bs)) \<and>
    unat (of_nat (length bs) :: u16) = length bs \<and>
    length pre + 1 + 2 + length bs \<le> length (pre @ (ty # len16 bs) @ rest) \<and>
    length (ty # len16 bs) = 3 + length bs"
proof -
  have "rd_u16le (pre @ (ty # len16 bs) @ rest) (length pre + 1) = rd_u16le ((ty # len16 bs) @ rest) 1"
    by (rule rd_u16le_shift0)
  also have "\<dots> = Ret (of_nat (length bs))"
    using rd_u16le_here(2) [of ty "of_nat (length bs)" "bs @ rest"] by (simp add: len16_def del: rd_u16le_in)
  finally show ?thesis using assms by (simp add: len16_def u16_unat)
qed

lemma field_at:
  assumes "x = len16 bs"
  shows "rd (pre @ (ty # x) @ rest) (length pre + 1 + 2 + k) = rd (bs @ rest) k"
    "rd_u16le (pre @ (ty # x) @ rest) (length pre + 1 + 2 + k) = rd_u16le (bs @ rest) k"
    "rd_u32be (pre @ (ty # x) @ rest) (length pre + 1 + 2 + k) = rd_u32be (bs @ rest) k"
    "rd_block (pre @ (ty # x) @ rest) (length pre + 1 + 2 + k) n = rd_block (bs @ rest) k n"
    "ReadUTF16LE (pre @ (ty # x) @ rest) (length pre + 1 + 2 + k) n = ReadUTF16LE (bs @ rest) k n"
    "rd_u32le (pre @ (ty # x) @ rest) (length pre + 1 + 2 + k) = rd_u32le (bs @ rest) k"
proof -
  let ?p = "pre @ ty # le16 (of_nat (length bs))"
  have e: "pre @ (ty # x) @ rest = ?p @ bs @ rest" "length pre + 1 + 2 + k = length ?p + k" using assms by (simp_all add: len16_def)
  show "rd (pre @ (ty # x) @ rest) (length pre + 1 + 2 + k) = rd (bs @ rest) k"
    unfolding e by (rule rd_shift)
  show "rd_u16le (pre @ (ty # x) @ rest) (length pre + 1 + 2 + k) = rd_u16le (bs @ rest) k"
    unfolding e by (rule rd_u16le_shift0)
  show "rd_u32be (pre @ (ty # x) @ rest) (length pre + 1 + 2 + k) = rd_u32be (bs @ rest) k"
    unfolding e by (rule rd_u32be_shift)
  show "rd_block (pre @ (ty # x) @ rest) (length pre + 1 + 2 + k) n = rd_block (bs @ rest) k n"
    unfolding e by (rule rd_block_shift)
  show "ReadUTF16LE (pre @ (ty # x) @ rest) (length pre + 1 + 2 + k) n = ReadUTF16LE (bs @ rest) k n"
    unfolding e by (rule ReadUTF16LE_shift)
  show "rd_u32le (pre @ (ty # x) @ rest) (length pre + 1 + 2 + k) = rd_u32le (bs @ rest) k"
    unfolding e by (rule rd_u32le_shift0)
qed

lemmas eval_branch = bind_res.simps map_res.simps Let_def if_True if_False

lemma tok_info:
  assumes "wf_tok (TInfo bs)"
  shows "reads_tok (TInfo bs)"
proof (intro allI)
  fix pre rest :: "byte list" and r
  note F = len16_field [of bs pre TokenType_INFO rest]
  show "login_token (pre @ enc_tok (TInfo bs) @ rest) (length pre) r =
      Ret (Next (length pre + length (enc_tok (TInfo bs))) (effect (TInfo bs) r))"
    using assms F unfolding enc_tok.simps wf_tok.simps effect.simps
    by (simp only: login_token_def rd_first login_info_def eval_branch) (simp add: not_less del: rd_u16le_in)
qed

lemma tok_sspi:
  assumes "wf_tok (TSspi bs)"
  shows "reads_tok (TSspi bs)"
proof (intro allI)
  fix pre rest :: "byte list" and r
  note F = len16_field [of bs pre TokenType_SSPI rest]
  have "rd_block (pre @ (TokenType_SSPI # len16 bs) @ rest) (length pre + 1 + 2) (length bs) = Ret bs"
    using field_at(4) [OF refl, of pre TokenType_SSPI bs rest 0 "length bs"] by simp
  then show "login_token (pre @ enc_tok (TSspi bs) @ rest) (length pre) r =
      Ret (Next (length pre + length (enc_tok (TSspi bs))) (effect (TSspi bs) r))"
    using assms F unfolding enc_tok.simps wf_tok.simps effect.simps
    by (simp only: login_token_def rd_first login_sspi_def eval_branch) (simp add: not_less del: rd_u16le_in)
qed

lemma tok_done: "wf_tok (TDone ty body) \<Longrightarrow> reads_tok (TDone ty body)"
  by (auto simp: login_token_def login_done_def is_done_token_def)

lemma tok_ack:
  assumes "wf_tok (TAck iface v name ver)"
  shows "reads_tok (TAck iface v name ver)"
proof (intro allI)
  fix pre rest :: "byte list" and r
  define n where "n = (of_nat (length name) :: byte)"
  define bs where "bs = iface # be32 v @ n # widen name @ ver"
  define data where "data = pre @ (TokenType_LOGINACK # len16 bs) @ rest"
  have w: "unat n = length name" "length bs = 10 + length name * 2" "length bs < 65536"
    using assms by (simp_all add: n_def bs_def byte_unat)
  note F = len16_field [OF w(3), of pre TokenType_LOGINACK rest, folded data_def]
  note A = field_at [OF refl, where bs = bs and pre = pre and ty = TokenType_LOGINACK and rest = rest, folded data_def]
  have "rd_u32be data (length pre + 1 + 2 + 1) = Ret v"
    unfolding A(3) using rd_u32be_here [of iface v] by (simp add: bs_def)
  moreover have "rd data (length pre + 1 + 2 + 5) = Ret n"
    unfolding A(1) by (simp add: bs_def rd_def be32_def)
  moreover have "ReadUTF16LE data (length pre + 1 + 2 + 6) (length name) = Ret name"
    unfolding A(5) using ReadUTF16LE_widen [of "iface # be32 v @ [n]" name "ver @ rest"] by (simp add: bs_def del: ReadUTF16LE_in)
  moreover have "rd data (length pre) = Ret TokenType_LOGINACK" unfolding data_def by (rule rd_first)
  ultimately have "login_token data (length pre) r =
      Ret (Next (length pre + 1 + 2 + length bs) (r\<lparr> tds_version := v, server_name := name, success := True \<rparr>))"
    using F w(1,2) unfolding login_token_def login_ack_def by (simp only: eval_branch) (simp add: not_less del: rd_u16le_in ReadUTF16LE_in rd_in)
  then show "login_token (pre @ enc_tok (TAck iface v name ver) @ rest) (length pre) r =
      Ret (Next (length pre + length (enc_tok (TAck iface v name ver))) (effect (TAck iface v name ver) r))"
    using F by (simp add: data_def bs_def n_def)
qed

lemma tok_packet_size:
  assumes "wf_tok (TPacketSize ds old)"
  shows "reads_tok (TPacketSize ds old)"
proof (intro allI)
  fix pre rest :: "byte list" and r
  define n where "n = (of_nat (length ds) :: byte)"
  define bs where "bs = 4 # n # widen ds @ old"
  define data where "data = pre @ (TokenType_ENVCHANGE # len16 bs) @ rest"
  have w: "unat n = length ds" "length bs = 2 + length ds * 2 + length old" "length bs < 65536" "n > 0" "ds \<noteq> []"
    using assms by (auto simp: n_def bs_def byte_unat word_greater_zero_iff dest: arg_cong [where f = unat])
  note F = len16_field [OF w(3), of pre TokenType_ENVCHANGE rest, folded data_def]
  note A = field_at [OF refl, where bs = bs and pre = pre and ty = TokenType_ENVCHANGE and rest = rest, folded data_def]
  have "rd data (length pre + 1 + 2) = Ret 4" "rd data (length pre + 1 + 2 + 1) = Ret n"
    using A(1) [of 0] A(1) [of 1] by (simp_all add: bs_def rd_def)
  moreover have "ReadUTF16LE data (length pre + 1 + 2 + 2) (length ds) = Ret ds"
    unfolding A(5) using ReadUTF16LE_widen [of "[4, n]" ds "old @ rest"]
    by (simp add: bs_def numeral_2_eq_2 del: ReadUTF16LE_in)
  moreover have "rd data (length pre) = Ret TokenType_ENVCHANGE" unfolding data_def by (rule rd_first)
  moreover have "3 \<le> length bs" using w by (cases ds) auto
  ultimately have "login_token data (length pre) r =
      Ret (Next (length pre + 1 + 2 + length bs) (effect (TPacketSize ds old) r))"
    using F w unfolding login_token_def login_envchange_def env_packet_size_def
    by (simp only: eval_branch) (auto simp: not_less split: option.splits simp del: rd_u16le_in ReadUTF16LE_in rd_in)
  then show "login_token (pre @ enc_tok (TPacketSize ds old) @ rest) (length pre) r =
      Ret (Next (length pre + length (enc_tok (TPacketSize ds old))) (effect (TPacketSize ds old) r))"
    using F by (simp add: data_def bs_def n_def)
qed

lemma env_routing_eval:
  assumes "rd_u16le data (p + 1) = Ret vl" "rd data (p + 3) = Ret 0" "rd_u16le data (p + 4) = Ret port"
    "rd_u16le data (p + 6) = Ret sl" "ReadUTF16LE data (p + 8) (unat sl) = Ret server" "sl > 0" "8 + unat sl * 2 \<le> len"
  shows "env_routing data p len r = Ret (r\<lparr> routed_port := port, routed_server := server, has_routing := True \<rparr>)"
proof -
  have e: "p + 1 + 2 = p + 3" "p + 3 + 1 = p + 4" "p + 4 + 2 = p + 6" "p + 6 + 2 = p + 8" by simp_all
  have l: "\<not> p + 3 > p + len" "\<not> p + 4 > p + len" "\<not> p + 6 > p + len" "\<not> p + 8 > p + len" "p + 8 + unat sl * 2 \<le> p + len"
    using assms(7) by simp_all
  show ?thesis
    unfolding env_routing_def Let_def
    by (simp only: e l assms if_True if_False bind_res.simps map_res.simps) simp
qed

lemma tok_routing:
  assumes "wf_tok (TRouting port server)"
  shows "reads_tok (TRouting port server)"
proof (intro allI)
  fix pre rest :: "byte list" and r
  define sl where "sl = (of_nat (length server) :: u16)"
  define vl where "vl = (of_nat (5 + 2 * length server) :: u16)"
  define bs where "bs = 20 # le16 vl @ 0 # le16 port @ le16 sl @ widen server @ [0, 0]"
  define data where "data = pre @ (TokenType_ENVCHANGE # len16 bs) @ rest"
  have w: "unat sl = length server" "length bs = 10 + length server * 2" "length bs < 65536" "server \<noteq> []"
    using assms by (simp_all add: sl_def bs_def u16_unat)
  then have pos: "sl > 0" by (metis length_0_conv unat_0 word_coorder.not_eq_extremum)
  note F = len16_field [OF w(3), of pre TokenType_ENVCHANGE rest, folded data_def]
  note A = field_at [OF refl, where bs = bs and pre = pre and ty = TokenType_ENVCHANGE and rest = rest, folded data_def]
  have U: "rd_u16le (x @ le16 v @ y) (length x) = Ret v" for x v y
    using rd_u16le_shift0 [of x "le16 v @ y" 0] rd_u16le_here(1) by (simp del: rd_u16le_in)
  have "env_routing data (length pre + 1 + 2) (length bs) r =
      Ret (r\<lparr> routed_port := port, routed_server := server, has_routing := True \<rparr>)"
  proof (rule env_routing_eval)
    show "rd_u16le data (length pre + 1 + 2 + 1) = Ret vl"
      unfolding A(2) using U [of "[20]"] by (simp add: bs_def del: rd_u16le_in)
    show "rd data (length pre + 1 + 2 + 3) = Ret 0" unfolding A(1) by (simp add: bs_def rd_def le16_def)
    show "rd_u16le data (length pre + 1 + 2 + 4) = Ret port"
      unfolding A(2) using U [of "20 # le16 vl @ [0]" port] by (simp add: bs_def del: rd_u16le_in)
    show "rd_u16le data (length pre + 1 + 2 + 6) = Ret sl"
      unfolding A(2) using U [of "20 # le16 vl @ 0 # le16 port" sl] by (simp add: bs_def del: rd_u16le_in)
    show "ReadUTF16LE data (length pre + 1 + 2 + 8) (unat sl) = Ret server"
      unfolding A(5) w(1) using ReadUTF16LE_widen [of "20 # le16 vl @ 0 # le16 port @ le16 sl" server "[0, 0] @ rest"]
      by (simp add: bs_def del: ReadUTF16LE_in)
  qed (use w pos in simp_all)
  moreover have "rd data (length pre + 1 + 2) = Ret 20" using A(1) [of 0] by (simp add: bs_def rd_def)
  moreover have "rd data (length pre) = Ret TokenType_ENVCHANGE" unfolding data_def by (rule rd_first)
  ultimately have "login_token data (length pre) r =
      Ret (Next (length pre + 1 + 2 + length bs) (effect (TRouting port server) r))"
    using F w unfolding login_token_def login_envchange_def
    by (simp only: eval_branch) (auto simp: not_less simp del: rd_u16le_in ReadUTF16LE_in rd_in)
  then show "login_token (pre @ enc_tok (TRouting port server) @ rest) (length pre) r =
      Ret (Next (length pre + length (enc_tok (TRouting port server))) (effect (TRouting port server) r))"
    using F by (simp add: data_def bs_def sl_def vl_def)
qed

lemma features_loop_enc:
  assumes "list_all (\<lambda>(i, d). i \<noteq> FeatureExtId_TERMINATOR) fs"
    and "length (pre @ concat (map enc_feature fs) @ FeatureExtId_TERMINATOR # rest) < 2 ^ 32"
  shows "features_loop (pre @ concat (map enc_feature fs) @ FeatureExtId_TERMINATOR # rest) (length pre) r =
    Ret (length pre + length (concat (map enc_feature fs)) + 1, fold feature_effect fs r)"
  using assms
proof (induction fs arbitrary: pre r)
  case Nil
  then show ?case by (subst features_loop.simps) (simp add: rd_def)
next
  case (Cons f fs)
  obtain i d where f: "f = (i, d)" by force
  let ?tail = "concat (map enc_feature fs) @ FeatureExtId_TERMINATOR # rest"
  let ?data = "pre @ enc_feature f @ ?tail"
  define pre' where "pre' = pre @ enc_feature f"
  have p: "length pre' = length pre + 1 + 4 + length d" "?data = pre' @ ?tail" by (simp_all add: pre'_def enc_feature_def f)
  have u: "unat (of_nat (length d) :: u32) = length d" "length d < 2 ^ 32"
    using Cons.prems(2) by (simp_all add: f enc_feature_def unat_of_nat take_bit_nat_eq_self_iff)
  have r0: "rd ?data (length pre) = Ret i" by (simp add: rd_def f enc_feature_def nth_append)
  have r1: "rd_u32le ?data (length pre + 1) = Ret (of_nat (length d))"
    using rd_u32le_shift0 [of "pre" "enc_feature f @ ?tail" 1] rd_u32le_here(2) [of i "of_nat (length d)" "d @ ?tail"]
    by (simp add: f enc_feature_def del: rd_u32le_in)
  have l: "length pre < length ?data" "\<not> length pre + 1 + 4 > length ?data" by (simp_all add: f enc_feature_def)
  have g: "\<not> (of_nat (length d) :: u32) > of_nat (length ?data - (length pre + 1 + 4))"
  proof -
    have "length ?data - (length pre + 1 + 4) < 2 ^ 32" using Cons.prems(2) by (simp add: f)
    then have "unat (of_nat (length ?data - (length pre + 1 + 4)) :: u32) = length ?data - (length pre + 1 + 4)"
      by (simp add: unat_of_nat take_bit_nat_eq_self_iff)
    with u show ?thesis by (simp add: word_less_nat_alt f enc_feature_def)
  qed
  have i: "i \<noteq> FeatureExtId_TERMINATOR" using Cons.prems(1) by (simp add: f)
  have e: "feature_effect f r = (if i = FeatureExtId_FEDAUTH then r\<lparr> fedauth_acked := True \<rparr>
      else if i = FeatureExtId_UTF8SUPPORT then r\<lparr> utf8_support_acked := True \<rparr> else r)" by (simp add: f)
  have "features_loop ?data (length pre) r = features_loop ?data (length pre + 1 + 4 + length d) (feature_effect f r)"
    unfolding e by (subst features_loop.simps) (simp only: l r0 r1 i g u bind_res.simps Let_def if_True if_False)
  also have "\<dots> = Ret (length pre' + length (concat (map enc_feature fs)) + 1, fold feature_effect fs (feature_effect f r))"
    using Cons.IH [of pre' "feature_effect f r"] Cons.prems unfolding p(2) p(1) [symmetric]
    by (simp add: pre'_def)
  finally show ?case by (simp add: pre'_def)
qed

lemma tok_features:
  assumes "wf_tok (TFeatures fs)" "length (pre @ enc_tok (TFeatures fs) @ rest) < 2 ^ 32"
  shows "login_token (pre @ enc_tok (TFeatures fs) @ rest) (length pre) r =
     Ret (Next (length pre + length (enc_tok (TFeatures fs))) (effect (TFeatures fs) r))"
proof -
  have "features_loop ((pre @ [TokenType_FEATUREEXTACK]) @ concat (map enc_feature fs) @ FeatureExtId_TERMINATOR # rest)
      (length (pre @ [TokenType_FEATUREEXTACK])) (r\<lparr> has_feature_ext_ack := True \<rparr>) =
    Ret (length (pre @ [TokenType_FEATUREEXTACK]) + length (concat (map enc_feature fs)) + 1,
      fold feature_effect fs (r\<lparr> has_feature_ext_ack := True \<rparr>))"
    using assms by (intro features_loop_enc) simp_all
  then show ?thesis
    by (simp add: login_token_def login_features_def rd_def nth_append)
qed

subsection \<open>A whole reply\<close>

lemma login_token_reads:
  assumes "wf_tok t" "length (pre @ enc_tok t @ rest) < 2 ^ 32"
  shows "login_token (pre @ enc_tok t @ rest) (length pre) r =
     Ret (Next (length pre + length (enc_tok t)) (effect t r))"
proof (cases t)
  case (TAck a b c d)
  then show ?thesis using tok_ack assms by blast
next
  case (TDone a b)
  then show ?thesis using tok_done assms by blast
next
  case (TInfo a)
  then show ?thesis using tok_info assms by blast
next
  case (TPacketSize a b)
  then show ?thesis using tok_packet_size assms by blast
next
  case (TRouting a b)
  then show ?thesis using tok_routing assms by blast
next
  case (TSspi a)
  then show ?thesis using tok_sspi assms by blast
next
  case (TFeatures a)
  then show ?thesis using tok_features assms by blast
qed

lemma enc_tok_nonempty: "enc_tok t \<noteq> []"
  by (cases t) auto

lemma login_loop_reply:
  assumes "list_all wf_tok ts" "length (pre @ concat (map enc_tok ts) @ rest) < 2 ^ 32"
  shows "login_loop (pre @ concat (map enc_tok ts) @ rest) (length pre) r =
    login_loop (pre @ concat (map enc_tok ts) @ rest) (length (pre @ concat (map enc_tok ts))) (fold effect ts r)"
  using assms
proof (induction ts arbitrary: pre r)
  case (Cons t ts)
  let ?data = "pre @ enc_tok t @ concat (map enc_tok ts) @ rest"
  have "login_token ?data (length pre) r = Ret (Next (length pre + length (enc_tok t)) (effect t r))"
    using login_token_reads [of t pre "concat (map enc_tok ts) @ rest" r] Cons.prems by simp
  then have "login_loop ?data (length pre) r = login_loop ?data (length pre + length (enc_tok t)) (effect t r)"
    using enc_tok_nonempty [of t] by (subst login_loop.simps) simp
  with Cons.IH [of "pre @ enc_tok t" "effect t r"] Cons.prems show ?case by (simp add: add.assoc)
qed simp

definition enc_error :: "u32 \<Rightarrow> byte \<Rightarrow> byte \<Rightarrow> byte list \<Rightarrow> byte list \<Rightarrow> byte list" where
  "enc_error number st cls msg tail =
     TokenType_ERROR_TOKEN # len16 (le32 number @ st # cls # le16 (of_nat (length msg)) @ widen msg @ tail)"

lemma login_error_reads:
  assumes "length msg < 32000" "6 \<le> length tail" "length tail < 1024"
  shows "login_token (pre @ enc_error number st cls msg tail @ rest) (length pre) r =
     Ret (Return (r\<lparr> error_number := number, error_state := ucast st, error_message := msg, success := False \<rparr>))"
proof -
  define ml where "ml = (of_nat (length msg) :: u16)"
  define bs where "bs = le32 number @ st # cls # le16 ml @ widen msg @ tail"
  define data where "data = pre @ (TokenType_ERROR_TOKEN # len16 bs) @ rest"
  have w: "unat ml = length msg" "length bs = 8 + length msg * 2 + length tail" "length bs < 65536"
    using assms by (simp_all add: ml_def bs_def u16_unat)
  note F = len16_field [OF w(3), of pre TokenType_ERROR_TOKEN rest, folded data_def]
  note A = field_at [OF refl, where bs = bs and pre = pre and ty = TokenType_ERROR_TOKEN and rest = rest, folded data_def]
  have "rd_u32le data (length pre + 1 + 2) = Ret number"
    using A(6) [of 0] rd_u32le_here(1) by (simp add: bs_def del: rd_u32le_in)
  moreover have "rd data (length pre + 1 + 2 + 4) = Ret st" unfolding A(1) by (simp add: bs_def rd_def le32_def)
  moreover have "rd_u16le data (length pre + 1 + 2 + 6) = Ret ml"
    unfolding A(2) using rd_u16le_shift0 [of "le32 number @ [st, cls]" "le16 ml @ widen msg @ tail @ rest" 0]
      rd_u16le_here(1) by (simp add: bs_def del: rd_u16le_in)
  moreover have "ReadUTF16LE data (length pre + 1 + 2 + 8) (length msg) = Ret msg"
    unfolding A(5) using ReadUTF16LE_widen [of "le32 number @ st # cls # le16 ml" msg "tail @ rest"]
    by (simp add: bs_def del: ReadUTF16LE_in)
  moreover have "rd data (length pre) = Ret TokenType_ERROR_TOKEN" unfolding data_def by (rule rd_first)
  ultimately have "login_token data (length pre) r =
      Ret (Return (r\<lparr> error_number := number, error_state := ucast st, error_message := msg, success := False \<rparr>))"
    using F w assms(2) unfolding login_token_def login_error_def
    by (simp only: eval_branch) (auto simp: not_less simp del: rd_u16le_in rd_u32le_in ReadUTF16LE_in rd_in)
  then show ?thesis by (simp add: data_def bs_def ml_def enc_error_def)
qed

text \<open>C35: the login parser computes what the server said: for every sequence of well-formed LOGINACK,
  DONE, INFO, packet-size, routing, SSPI and feature-acknowledgement tokens the response is the
  combined effect of the tokens in order (with the fixed error text when no LOGINACK came); and when an
  ERROR token follows them the response is that failure, with the number, the state and the message the
  server sent, whatever bytes follow.\<close>

theorem login_reply_correct:
  assumes "list_all wf_tok ts" and "length (concat (map enc_tok ts) @ enc_error number st cls msg tail @ rest) < 2 ^ 32"
    and "ts \<noteq> []" and "length msg < 32000" and "6 \<le> length tail" and "length tail < 1024"
  shows "ParseLoginResponse (concat (map enc_tok ts)) = Some (Ret (login_finish (fold effect ts new_login_response))) \<and>
    ParseLoginResponse (concat (map enc_tok ts) @ enc_error number st cls msg tail @ rest) =
      Some (Ret ((fold effect ts new_login_response)
        \<lparr> error_number := number, error_state := ucast st, error_message := msg, success := False \<rparr>))"
proof -
  have ne: "concat (map enc_tok ts) \<noteq> []" using assms(3) enc_tok_nonempty by (cases ts) auto
  have "login_loop (concat (map enc_tok ts)) 0 new_login_response =
      login_loop (concat (map enc_tok ts)) (length (concat (map enc_tok ts))) (fold effect ts new_login_response)"
    using login_loop_reply [OF assms(1), of "[]" "[]"] assms(2) by simp
  moreover have "login_loop (concat (map enc_tok ts)) (length (concat (map enc_tok ts))) (fold effect ts new_login_response) =
      Some (Ret (login_finish (fold effect ts new_login_response)))" by (subst login_loop.simps) simp
  moreover let ?d = "concat (map enc_tok ts) @ enc_error number st cls msg tail @ rest"
  have "login_loop ?d 0 new_login_response = login_loop ?d (length (concat (map enc_tok ts))) (fold effect ts new_login_response)"
    using login_loop_reply [OF assms(1), of "[]" "enc_error number st cls msg tail @ rest"] assms(2) by simp
  moreover have "login_loop ?d (length (concat (map enc_tok ts))) (fold effect ts new_login_response) =
      Some (Ret ((fold effect ts new_login_response)
        \<lparr> error_number := number, error_state := ucast st, error_message := msg, success := False \<rparr>))"
    using login_error_reads [OF assms(4-6), of "concat (map enc_tok ts)"]
    by (subst login_loop.simps) (simp add: enc_error_def)
  moreover have "?d \<noteq> []" using ne by blast
  ultimately show ?thesis using ne unfolding ParseLoginResponse_def by (simp only: if_False simp_thms)
qed

theorem login_reply_correct_witness:
  "ParseLoginResponse (concat (map enc_tok
     [TPacketSize (bytes_of_str ''8000'') [0], TAck 1 0x74000004 (bytes_of_str ''SQL'') [16, 0, 0, 1],
      TFeatures [(FeatureExtId_UTF8SUPPORT, [1])], TDone TokenType_DONE (replicate 12 0)])) =
   Some (Ret (new_login_response\<lparr> negotiated_packet_size := 8000, tds_version := 0x74000004,
     server_name := bytes_of_str ''SQL'', success := True, has_feature_ext_ack := True, utf8_support_acked := True \<rparr>))"
proof -
  let ?ts = "[TPacketSize (bytes_of_str ''8000'') [0], TAck 1 0x74000004 (bytes_of_str ''SQL'') [16, 0, 0, 1],
      TFeatures [(FeatureExtId_UTF8SUPPORT, [1])], TDone TokenType_DONE (replicate 12 0)]"
  have s: "stoul (bytes_of_str ''8000'') = Some 8000"
    by (simp add: stoul_def bytes_of_str_def is_space_def is_digit_def digits_value_def)
  have "ParseLoginResponse (concat (map enc_tok ?ts)) = Some (Ret (login_finish (fold effect ?ts new_login_response)))"
    using login_reply_correct [of ?ts 18456 1 14 "bytes_of_str ''x''" "replicate 6 0" "[]"]
    by (simp add: is_done_token_def bytes_of_str_def enc_error_def len16_def widen_def enc_feature_def)
  then show ?thesis by (simp add: s login_finish_def)
qed

end
