(* ===== verification/Action.thy ===== *)
theory Action
  imports Tds_Prelude
begin

text \<open>
  Stateful operations of the connection layer. An operation reads and updates the object it belongs to
  and ends with an outcome: \<open>Ret\<close> when it returns, \<open>Throw\<close> when it throws, \<open>OOB\<close> when it leaves its
  buffers, \<open>More\<close> when it does not return at all. The judgement \<open>runs P m Q E\<close> says that from a state with
  \<open>P\<close> the operation returns, with \<open>Q\<close> of the result and the state, or throws, in a state with \<open>E\<close>; its
  rules, one per combinator, are the collection \<open>runs_rules\<close>.
\<close>

type_synonym ('s, 'a) act = "'s \<Rightarrow> 'a res \<times> 's"

definition ret_act :: "'a \<Rightarrow> ('s, 'a) act" where
  "ret_act x s = (Ret x, s)"

fun follow :: "'a res \<times> 's \<Rightarrow> ('a \<Rightarrow> ('s, 'b) act) \<Rightarrow> 'b res \<times> 's" where
  "follow (Ret x, s) f = f x s"
| "follow (More, s) f = (More, s)"
| "follow (Throw e, s) f = (Throw e, s)"
| "follow (OOB, s) f = (OOB, s)"

definition bind_act :: "('s, 'a) act \<Rightarrow> ('a \<Rightarrow> ('s, 'b) act) \<Rightarrow> ('s, 'b) act" where
  "bind_act m f s = follow (m s) f"

definition get_act :: "('s \<Rightarrow> 'a) \<Rightarrow> ('s, 'a) act" where
  "get_act f s = (Ret (f s), s)"

definition upd_act :: "('s \<Rightarrow> 's) \<Rightarrow> ('s, unit) act" where
  "upd_act f s = (Ret (), f s)"

definition lift_res :: "'a res \<Rightarrow> ('s, 'a) act" where
  "lift_res r s = (r, s)"

text \<open>A routine with its own loop, where \<open>None\<close> means that it does not return.\<close>

definition total_res :: "'a res option \<Rightarrow> 'a res" where
  "total_res r = (case r of None \<Rightarrow> More | Some x \<Rightarrow> x)"

text \<open>Updates before a return.\<close>

definition after_upd :: "('s \<Rightarrow> 's) \<Rightarrow> ('s, 'a) act \<Rightarrow> ('s, 'a) act" where
  "after_upd f m s = m (f s)"

lemmas act_defs = ret_act_def bind_act_def get_act_def upd_act_def lift_res_def after_upd_def

subsection \<open>Judgements\<close>

fun ends :: "('a \<Rightarrow> 's \<Rightarrow> bool) \<Rightarrow> ('s \<Rightarrow> bool) \<Rightarrow> 'a res \<times> 's \<Rightarrow> bool" where
  "ends Q E (Ret x, s) \<longleftrightarrow> Q x s"
| "ends Q E (Throw e, s) \<longleftrightarrow> E s"
| "ends Q E (More, s) \<longleftrightarrow> False"
| "ends Q E (OOB, s) \<longleftrightarrow> False"

definition runs :: "('s \<Rightarrow> bool) \<Rightarrow> ('s, 'a) act \<Rightarrow> ('a \<Rightarrow> 's \<Rightarrow> bool) \<Rightarrow> ('s \<Rightarrow> bool) \<Rightarrow> bool" where
  "runs P m Q E \<longleftrightarrow> (\<forall>s. P s \<longrightarrow> ends Q E (m s))"

named_theorems runs_rules \<open>one rule per combinator\<close>

lemma ends_follow: "ends (\<lambda>x s. ends Q E (f x s)) E p \<Longrightarrow> ends Q E (follow p f)"
  by (cases p; cases "fst p") simp_all

lemma ends_mono:
  "ends Q E p \<Longrightarrow> (\<And>x s. Q x s \<Longrightarrow> Q' x s) \<Longrightarrow> (\<And>s. E s \<Longrightarrow> E' s) \<Longrightarrow> ends Q' E' p"
  by (cases p; cases "fst p") auto

lemma runsI: "(\<And>s. P s \<Longrightarrow> ends Q E (m s)) \<Longrightarrow> runs P m Q E"
  by (simp add: runs_def)

lemma runsD: "runs P m Q E \<Longrightarrow> P s \<Longrightarrow> ends Q E (m s)"
  by (simp add: runs_def)

lemma runs_bind [runs_rules]:
  assumes "runs P m R E" and "\<And>x. runs (R x) (f x) Q E"
  shows "runs P (bind_act m f) Q E"
proof (rule runsI)
  fix s assume "P s"
  from runsD [OF assms(1) this] have "ends (\<lambda>x s. ends Q E (f x s)) E (m s)"
    by (rule ends_mono) (auto intro: runsD [OF assms(2)])
  then show "ends Q E (bind_act m f s)" by (simp add: bind_act_def ends_follow)
qed

lemma runs_ret: "(\<And>s. P s \<Longrightarrow> Q x s) \<Longrightarrow> runs P (ret_act x) Q E"
  by (simp add: runs_def ret_act_def)

lemma runs_get: "(\<And>s. P s \<Longrightarrow> Q (f s) s) \<Longrightarrow> runs P (get_act f) Q E"
  by (simp add: runs_def get_act_def)

lemma runs_upd: "(\<And>s. P s \<Longrightarrow> Q () (f s)) \<Longrightarrow> runs P (upd_act f) Q E"
  by (simp add: runs_def upd_act_def)

lemma runs_after_upd: "runs (\<lambda>s. \<exists>s0. P s0 \<and> s = f s0) m Q E \<Longrightarrow> runs P (after_upd f m) Q E"
  by (auto simp: runs_def after_upd_def)

lemma runs_if [runs_rules]:
  "(c \<Longrightarrow> runs P m Q E) \<Longrightarrow> (\<not> c \<Longrightarrow> runs P n Q E) \<Longrightarrow> runs P (if c then m else n) Q E"
  by simp

lemma runs_weaken:
  assumes "runs P m Q E" "\<And>s. P' s \<Longrightarrow> P s" "\<And>x s. Q x s \<Longrightarrow> Q' x s" "\<And>s. E s \<Longrightarrow> E' s"
  shows "runs P' m Q' E'"
proof (rule runsI)
  fix s assume "P' s"
  from ends_mono [OF runsD [OF assms(1) assms(2) [OF this]] assms(3,4)] show "ends Q' E' (m s)" .
qed

end
