(* ===== verification/Socket_Framing.thy ===== *)
theory Socket_Framing
  imports Tds_Messages
begin

text \<open>
  The receive side of \<open>src/tds/tds_socket.cpp\<close>: the assembly buffer, the one framing loop
  \<open>NextPacket\<close>, and the receive operations built on it. What the operating system or the TLS layer
  delivers is a list of events, one per \<open>Receive\<close> call; an exhausted list stands for a wait that times out, and no
  more bytes are delivered than the call asks for, which is what \<open>recv\<close> promises.
  Connecting, sending and the TLS handshake are operations whose outcome is an event too; the descriptor
  is valid exactly while the socket is connected and is left out.
\<close>

datatype recv_event = RecvData "byte list" | RecvTimeout "string option" | RecvError string bool

record TdsSocket =
  receive_buffer :: "byte list"
  receive_len :: nat
  receive_pos :: nat
  recv_read_size :: nat
  connected :: bool
  sock_error :: string
  tls_context :: bool

definition new_socket :: TdsSocket where
  "new_socket = \<lparr> receive_buffer = [], receive_len = 0, receive_pos = 0,
     recv_read_size = TDS_DEFAULT_PACKET_SIZE, connected = False, sock_error = [], tls_context = False \<rparr>"

text \<open>What the system reports for a whole call: success, or an error text and whether the connection is gone.\<close>

datatype send_event = Sent | SendError string bool

datatype tls_event = Handshake nat | TlsError string nat

definition sock_Close :: "TdsSocket \<Rightarrow> TdsSocket" where
  "sock_Close s = s\<lparr> tls_context := False, connected := False, receive_len := 0, receive_pos := 0 \<rparr>"

text \<open>\<open>None\<close> is a connection that was established, \<open>Some\<close> the error of name resolution or of the last address.\<close>

definition sock_Connect :: "string option \<Rightarrow> TdsSocket \<Rightarrow> bool \<times> TdsSocket" where
  "sock_Connect ev s =
     (let s = (if connected s then sock_Close s else s);
          s = s\<lparr> sock_error := [] \<rparr>
      in case ev of
           None \<Rightarrow> (True, s\<lparr> connected := True \<rparr>)
         | Some msg \<Rightarrow> (False, s\<lparr> sock_error := msg \<rparr>))"

definition Send :: "send_event \<Rightarrow> TdsSocket \<Rightarrow> bool \<times> TdsSocket" where
  "Send ev s =
     (if \<not> connected s then (False, s\<lparr> sock_error := ''Not connected'' \<rparr>)
      else case ev of
        Sent \<Rightarrow> (True, s)
      | SendError msg closed \<Rightarrow> (False, s\<lparr> sock_error := msg, connected := connected s \<and> \<not> closed \<rparr>))"

text \<open>
  The handshake sends its records in PRELOGIN packets and takes a packet number for each; the result has
  the number of packets sent.
\<close>

definition EnableTls :: "tls_event \<Rightarrow> TdsSocket \<Rightarrow> bool \<times> nat \<times> TdsSocket" where
  "EnableTls ev s =
     (let s = s\<lparr> receive_len := 0, receive_pos := 0 \<rparr> in
      if \<not> connected s then (False, 0, s\<lparr> sock_error := ''Cannot enable TLS: not connected'' \<rparr>)
      else if tls_context s then (False, 0, s\<lparr> sock_error := ''TLS is already enabled'' \<rparr>)
      else case ev of
        Handshake n \<Rightarrow> (True, n, s\<lparr> tls_context := True \<rparr>)
      | TlsError msg n \<Rightarrow> (False, n, s\<lparr> sock_error := msg \<rparr>))"

definition ClearReceiveBuffer :: "TdsSocket \<Rightarrow> TdsSocket" where
  "ClearReceiveBuffer s = s\<lparr> receive_len := 0, receive_pos := 0 \<rparr>"

definition SetReceiveFraming :: "u32 \<Rightarrow> u32 \<Rightarrow> TdsSocket \<Rightarrow> TdsSocket" where
  "SetReceiveFraming packet_size frames s =
     (let packet_size = (if unat packet_size < TDS_MIN_PACKET_SIZE then of_nat TDS_DEFAULT_PACKET_SIZE else packet_size);
          frames = (if frames = 0 then 1 else frames);
          scratch = unat packet_size * unat frames
      in s\<lparr> recv_read_size := scratch, receive_len := 0, receive_pos := 0,
            receive_buffer := resize (scratch + unat packet_size) 0 (receive_buffer s) \<rparr>)"

text \<open>The result of \<open>Receive\<close>: the bytes (none on a timeout), or \<open>None\<close> for -1. A wait that gives up leaves its message; a read
  that finds nothing, and the TLS layer, leave none.\<close>

definition Receive :: "nat \<Rightarrow> recv_event \<Rightarrow> TdsSocket \<Rightarrow> byte list option \<times> TdsSocket" where
  "Receive max_length ev s =
     (if \<not> connected s then (None, s\<lparr> sock_error := ''Not connected'' \<rparr>)
      else case ev of
        RecvData bs \<Rightarrow> (Some (take max_length bs), s)
      | RecvTimeout msg \<Rightarrow> (Some [], case msg of None \<Rightarrow> s | Some e \<Rightarrow> s\<lparr> sock_error := e \<rparr>)
      | RecvError msg closed \<Rightarrow> (None, s\<lparr> sock_error := msg, connected := \<not> closed \<rparr>))"

definition poll_timeout :: recv_event where
  "poll_timeout = RecvTimeout (Some ''Socket timeout waiting for data'')"

definition FillReceiveBuffer :: "recv_event \<Rightarrow> TdsSocket \<Rightarrow> bool res \<times> TdsSocket" where
  "FillReceiveBuffer ev s =
     (let room = size_sub (length (receive_buffer s)) (receive_len s);
          s = (if room < recv_read_size s
               then s\<lparr> receive_buffer := resize (receive_len s + recv_read_size s) 0 (receive_buffer s) \<rparr> else s)
      in case Receive (recv_read_size s) ev s of
           (None, s) \<Rightarrow> (Ret False, s)
         | (Some bs, s) \<Rightarrow>
             if bs = [] then (Ret False, s)
             else (case wr_block (receive_buffer s) (receive_len s) bs of
                     Ret buf \<Rightarrow> (Ret True, s\<lparr> receive_buffer := buf, receive_len := receive_len s + length bs \<rparr>)
                   | _ \<Rightarrow> (OOB, s)))"

definition rewind :: "TdsSocket \<Rightarrow> TdsSocket" where
  "rewind s = (if receive_pos s > 0 \<and> receive_pos s = receive_len s
     then s\<lparr> receive_len := 0, receive_pos := 0 \<rparr> else s)"

definition compact :: "TdsSocket \<Rightarrow> TdsSocket" where
  "compact s =
     (if receive_pos s > 0 then
        (let tail = size_sub (receive_len s) (receive_pos s);
             s = (if tail > 0 then s\<lparr> receive_buffer :=
                    take tail (drop (receive_pos s) (receive_buffer s)) @ drop tail (receive_buffer s) \<rparr> else s)
         in s\<lparr> receive_len := tail, receive_pos := 0 \<rparr>)
      else s)"

definition short_frame_message :: "nat \<Rightarrow> string" where
  "short_frame_message n = ''Invalid TDS packet length: '' @ to_string n @ '' is shorter than the 8-byte header''"

text \<open>
  One pass of the loop on the buffered bytes: \<open>Ret (Some head)\<close> returns a frame, \<open>Ret None\<close> returns
  \<open>nullptr\<close>, \<open>More\<close> reads again.
\<close>

definition try_frame :: "TdsSocket \<Rightarrow> byte list option res \<times> TdsSocket" where
  "try_frame s =
     (let buffered = size_sub (receive_len s) (receive_pos s) in
      if buffered \<ge> TDS_HEADER_SIZE then
        (let head = drop (receive_pos s) (receive_buffer s) in
         case GetPacketLength head of
           Ret len \<Rightarrow>
             let expected_length = unat len in
             if expected_length < TDS_HEADER_SIZE
             then (Ret None, s\<lparr> sock_error := short_frame_message expected_length \<rparr>)
             else if buffered \<ge> expected_length then
               (map_res Some (rd_block head 0 expected_length), s\<lparr> receive_pos := receive_pos s + expected_length \<rparr>)
             else (More, s)
         | _ \<Rightarrow> (OOB, s))
      else (More, s))"

fun NextPacket :: "recv_event list \<Rightarrow> TdsSocket \<Rightarrow> byte list option res \<times> TdsSocket \<times> recv_event list" where
  "NextPacket events s =
     (case try_frame (rewind s) of
        (More, s) \<Rightarrow>
          (let s = compact s in
           case events of
             [] \<Rightarrow> (Ret None, snd (FillReceiveBuffer poll_timeout s), [])
           | ev # events' \<Rightarrow>
               (case FillReceiveBuffer ev s of
                  (Ret True, s) \<Rightarrow> NextPacket events' s
                | (Ret False, s) \<Rightarrow> (Ret None, s, events')
                | (_, s) \<Rightarrow> (OOB, s, events')))
      | (r, s) \<Rightarrow> (r, s, events))"

declare NextPacket.simps [simp del]

definition ReceivePacket :: "recv_event list \<Rightarrow> TdsSocket \<Rightarrow> tds_packet option res \<times> TdsSocket \<times> recv_event list" where
  "ReceivePacket events s =
     (case NextPacket events s of
        (Ret None, s, es) \<Rightarrow> (Ret None, s, es)
      | (Ret (Some head), s, es) \<Rightarrow>
          (case Parse head of
             Ret (n, packet) \<Rightarrow> (Ret (Some packet), s, es)
           | More \<Rightarrow> (Ret None, s, es)
           | Throw m \<Rightarrow> (Throw m, s, es)
           | OOB \<Rightarrow> (OOB, s, es))
      | (_, s, es) \<Rightarrow> (OOB, s, es))"

definition ReceivePayloadView :: "recv_event list \<Rightarrow> TdsSocket \<Rightarrow> byte list option res \<times> TdsSocket \<times> recv_event list" where
  "ReceivePayloadView events s =
     (case NextPacket events s of
        (Ret None, s, es) \<Rightarrow> (Ret None, s, es)
      | (Ret (Some head), s, es) \<Rightarrow>
          (let packet_length = length head in
           if packet_length < TDS_HEADER_SIZE \<or> packet_length > TDS_MAX_PACKET_SIZE
           then (Ret None, s\<lparr> sock_error := ''Invalid TDS packet length'' \<rparr>, es)
           else (map_res Some (rd_block head TDS_HEADER_SIZE (packet_length - TDS_HEADER_SIZE)), s, es))
      | (_, s, es) \<Rightarrow> (OOB, s, es))"

partial_function (option) message_loop ::
    "recv_event list \<Rightarrow> TdsSocket \<Rightarrow> byte list \<Rightarrow> (byte list option res \<times> TdsSocket \<times> recv_event list) option" where
  "message_loop events s message =
     (case ReceivePacket events s of (r, s, es) \<Rightarrow>
        (case r of
           Ret po \<Rightarrow>
             (case po of
                None \<Rightarrow> Some (Ret None, s, es)
              | Some packet \<Rightarrow>
                  (let message = message @ pk_payload packet in
                   if IsEndOfMessage packet then Some (Ret (Some message), s, es)
                   else message_loop es s message))
         | More \<Rightarrow> Some (More, s, es)
         | Throw m \<Rightarrow> Some (Throw m, s, es)
         | OOB \<Rightarrow> Some (OOB, s, es)))"

definition ReceiveMessage ::
    "recv_event list \<Rightarrow> TdsSocket \<Rightarrow> (byte list option res \<times> TdsSocket \<times> recv_event list) option" where
  "ReceiveMessage events s = message_loop events s []"

subsection \<open>The frame at the head of a byte stream\<close>

definition frame :: "byte list \<Rightarrow> byte list res" where
  "frame d =
     (if length d < TDS_HEADER_SIZE then More
      else let L = unat (u16be (d ! 2) (d ! 3)) in
      if L < TDS_HEADER_SIZE then Throw (short_frame_message L)
      else if length d < L then More
      else Ret (take L d))"

interpretation frame: incremental_item frame length
proof unfold_locales
  fix d :: "byte list" and r e and m
  show "frame d \<noteq> OOB" by (simp add: frame_def Let_def)
  show "length r \<le> length d" "0 < length r" if "frame d = Ret r"
    using that by (auto simp: frame_def Let_def split: if_splits)
  show "frame (take (length r) d @ e) = Ret r" if "frame d = Ret r"
  proof -
    define L where "L = unat (u16be (d ! 2) (d ! 3))"
    from that have L: "8 \<le> L" "L \<le> length d" "r = take L d"
      by (auto simp: frame_def Let_def L_def split: if_splits)
    then have "(take L d @ e) ! i = d ! i" if "i < 8" for i
      using that by (simp add: nth_append)
    then show ?thesis using L by (simp add: frame_def Let_def min_absorb2 flip: L_def)
  qed
  show "frame (d @ e) = Throw m" if "frame d = Throw m"
    using that by (auto simp: frame_def Let_def nth_append split: if_splits)
qed

lemma frame_Parse:
  assumes "frame d = Ret f"
  shows "Parse f = Parse d" "take (length f) d = f"
proof -
  define L where "L = unat (u16be (d ! 2) (d ! 3))"
  from assms have L: "8 \<le> L" "L \<le> length d" "f = take L d"
    by (auto simp: frame_def Let_def L_def split: if_splits)
  have "f ! i = d ! i" if "i < 8" for i using that L by simp
  then show "Parse f = Parse d" using L
    by (simp add: Parse_eq Let_def drop_take min_absorb2 flip: L_def)
  show "take (length f) d = f" using L by simp
qed

lemma frame_Serialize:
  assumes "TDS_HEADER_SIZE + length (pk_payload p) \<le> TDS_MAX_PACKET_SIZE"
  shows "frame (Serialize p @ rest) = Ret (Serialize p)"
proof -
  have "unat (GetLength p) = TDS_HEADER_SIZE + length (pk_payload p)"
    using assms by (intro unat_GetLength) simp
  then show ?thesis by (simp add: frame_def Serialize_def be16_def u16be_be16 take_Cons')
qed

subsection \<open>The buffer invariant\<close>

definition sock_inv :: "TdsSocket \<Rightarrow> bool" where
  "sock_inv s \<longleftrightarrow> receive_pos s \<le> receive_len s \<and> receive_len s \<le> length (receive_buffer s)"

definition pending :: "TdsSocket \<Rightarrow> byte list" where
  "pending s = take (receive_len s - receive_pos s) (drop (receive_pos s) (receive_buffer s))"

lemma length_pending: "sock_inv s \<Longrightarrow> length (pending s) = receive_len s - receive_pos s"
  by (auto simp: pending_def sock_inv_def)

lemma rewind_inv: "sock_inv s \<Longrightarrow> sock_inv (rewind s)" "pending (rewind s) = pending s"
  "connected (rewind s) = connected s" "recv_read_size (rewind s) = recv_read_size s"
  by (auto simp: rewind_def sock_inv_def pending_def)

lemma compact_inv:
  assumes "sock_inv s"
  shows "sock_inv (compact s)" "pending (compact s) = pending s"
    "connected (compact s) = connected s" "recv_read_size (compact s) = recv_read_size s" "receive_pos (compact s) = 0"
  using assms by (auto simp: compact_def sock_inv_def pending_def Let_def)

lemma try_frame_spec:
  assumes "sock_inv s"
  shows "(case frame (pending s) of
     Ret f \<Rightarrow> \<exists>s'. try_frame s = (Ret (Some f), s') \<and> sock_inv s' \<and> connected s' = connected s \<and>
       recv_read_size s' = recv_read_size s \<and> pending s' = drop (length f) (pending s)
   | Throw m \<Rightarrow> try_frame s = (Ret None, s\<lparr> sock_error := m \<rparr>)
   | More \<Rightarrow> try_frame s = (More, s)
   | OOB \<Rightarrow> False)"
proof (cases "length (pending s) < TDS_HEADER_SIZE")
  case True
  with assms length_pending [OF assms] show ?thesis
    by (simp add: try_frame_def frame_def sock_inv_def)
next
  case False
  let ?d = "pending s" and ?h = "drop (receive_pos s) (receive_buffer s)"
  define L where "L = unat (u16be (?d ! 2) (?d ! 3))"
  have b: "size_sub (receive_len s) (receive_pos s) = length ?d"
    using assms length_pending [OF assms] by (simp add: sock_inv_def)
  have h: "?d = take (length ?d) ?h" "length ?d \<le> length ?h"
    using assms length_pending [OF assms] by (simp_all add: pending_def sock_inv_def)
  then have n: "?h ! i = ?d ! i" if "i < 8" for i using that False by (metis less_le_trans not_less nth_take)
  have g: "GetPacketLength ?h = Ret (u16be (?d ! 2) (?d ! 3))"
    using h(2) False n [of 2] n [of 3] by (simp add: GetPacketLength_def)
  have t: "length ?d \<ge> L \<Longrightarrow> take L ?h = take L ?d" using h(1) by (metis min_absorb1 take_take)
  have p: "length ?d \<ge> L \<Longrightarrow> pending (s\<lparr> receive_pos := receive_pos s + L \<rparr>) = drop L ?d"
    using assms length_pending [OF assms] by (simp add: pending_def sock_inv_def drop_take add.commute)
  have i: "length ?d \<ge> L \<Longrightarrow> sock_inv (s\<lparr> receive_pos := receive_pos s + L \<rparr>)"
    using assms length_pending [OF assms] by (auto simp: sock_inv_def)
  show ?thesis
    using False h(2) t p i
    by (auto simp: try_frame_def frame_def Let_def b g min_absorb2 simp flip: L_def)
qed

lemma try_frame_progress:
  assumes "try_frame (rewind s) = (Ret (Some f), s')"
  shows "receive_buffer s' = receive_buffer s \<and> receive_pos s < receive_pos s' \<and> receive_pos s' \<le> length (receive_buffer s')"
proof -
  have "rewind s = s" using assms by (auto simp: rewind_def try_frame_def size_sub_def)
  with assms show ?thesis
    by (auto simp: try_frame_def Let_def rd_block_def split: if_splits res.splits)
qed

lemma FillReceiveBuffer_data:
  assumes "sock_inv s" "connected s" "receive_pos s = 0" "c \<noteq> []" "length c \<le> recv_read_size s"
  shows "\<exists>s'. FillReceiveBuffer (RecvData c) s = (Ret True, s') \<and> sock_inv s' \<and> connected s' \<and>
    recv_read_size s' = recv_read_size s \<and> pending s' = pending s @ c"
proof -
  define t where "t = (if size_sub (length (receive_buffer s)) (receive_len s) < recv_read_size s
     then s\<lparr> receive_buffer := resize (receive_len s + recv_read_size s) 0 (receive_buffer s) \<rparr> else s)"
  have t: "receive_len t = receive_len s" "receive_pos t = 0" "connected t" "recv_read_size t = recv_read_size s"
    using assms(2,3) by (simp_all add: t_def)
  have r: "receive_len s + length c \<le> length (receive_buffer t)"
    using assms(1,5) by (auto simp: t_def sock_inv_def not_less)
  have b: "take (receive_len s) (receive_buffer t) = take (receive_len s) (receive_buffer s)"
    using assms(1) by (auto simp: t_def resize_def sock_inv_def)
  have "FillReceiveBuffer (RecvData c) s = (Ret True, t\<lparr> receive_buffer :=
       take (receive_len s) (receive_buffer t) @ c @ drop (receive_len s + length c) (receive_buffer t),
       receive_len := receive_len s + length c \<rparr>)"
    using assms(4,5) t r by (simp add: FillReceiveBuffer_def Let_def Receive_def wr_block_def flip: t_def)
  with t r b assms(1,3) show ?thesis by (simp add: sock_inv_def pending_def)
qed

text \<open>A wait that gives up leaves the content as it is.\<close>

lemma FillReceiveBuffer_timeout:
  assumes "sock_inv s" "FillReceiveBuffer poll_timeout s = (r, v)"
  shows "r = Ret False" "sock_inv v" "connected v = connected s" "recv_read_size v = recv_read_size s" "pending v = pending s"
proof -
  define t where "t = (if size_sub (length (receive_buffer s)) (receive_len s) < recv_read_size s
     then s\<lparr> receive_buffer := resize (receive_len s + recv_read_size s) 0 (receive_buffer s) \<rparr> else s)"
  have b: "take (receive_len s) (receive_buffer t) = take (receive_len s) (receive_buffer s)" "receive_len s \<le> length (receive_buffer t)"
    using assms(1) by (auto simp: t_def resize_def sock_inv_def)
  have t: "receive_len t = receive_len s" "receive_pos t = receive_pos s" "connected t = connected s" "recv_read_size t = recv_read_size s"
    by (simp_all add: t_def)
  have v: "r = Ret False \<and> v = t\<lparr> sock_error := if connected t then ''Socket timeout waiting for data'' else ''Not connected'' \<rparr>"
    using assms(2) by (auto simp: FillReceiveBuffer_def Let_def Receive_def poll_timeout_def simp flip: t_def split: if_splits)
  then show "r = Ret False" "sock_inv v" "connected v = connected s" "recv_read_size v = recv_read_size s"
    using assms(1) b t by (simp_all add: sock_inv_def)
  show "pending v = pending s" using v b(1) t by (simp add: pending_def flip: drop_take)
qed

text \<open>
  What the environment delivers to a socket: non-empty pieces, none longer than a read asks for.
\<close>

definition pieces :: "TdsSocket \<Rightarrow> byte list list \<Rightarrow> bool" where
  "pieces s cs \<longleftrightarrow> list_all (\<lambda>c. c \<noteq> [] \<and> length c \<le> recv_read_size s) cs"

definition live :: "TdsSocket \<Rightarrow> bool" where
  "live s \<longleftrightarrow> sock_inv s \<and> connected s"

text \<open>The framing loop answers by the frame at the head of everything that is buffered or delivered.\<close>

lemma NextPacket_frame:
  assumes "live s" "pieces s cs"
  shows "\<exists>r s' cs'. NextPacket (map RecvData cs) s = (r, s', map RecvData cs') \<and> live s' \<and>
    recv_read_size s' = recv_read_size s \<and> pieces s' cs' \<and>
    (case frame (pending s @ concat cs) of
       Ret f \<Rightarrow> r = Ret (Some f) \<and> pending s' @ concat cs' = drop (length f) (pending s @ concat cs)
     | Throw m \<Rightarrow> r = Ret None \<and> sock_error s' = m
     | More \<Rightarrow> r = Ret None \<and> cs' = [] \<and> pending s' = pending s @ concat cs
     | OOB \<Rightarrow> False)"
  using assms
proof (induction cs arbitrary: s)
  case (Nil s)
  let ?t = "rewind s"
  have t: "sock_inv ?t" "pending ?t = pending s" "connected ?t" "recv_read_size ?t = recv_read_size s"
    using Nil rewind_inv [of s] by (simp_all add: live_def)
  note tf = try_frame_spec [OF t(1), unfolded t]
  show ?case
  proof (cases "frame (pending s)")
    case More
    note u = compact_inv [OF t(1), unfolded t]
    obtain r v where v: "FillReceiveBuffer poll_timeout (compact ?t) = (r, v)" by force
    from FillReceiveBuffer_timeout [OF _ v] u tf More v t Nil show ?thesis
      by (simp add: NextPacket.simps live_def pieces_def)
  qed (use tf t Nil in \<open>auto simp: NextPacket.simps live_def pieces_def sock_inv_def\<close>)
next
  case (Cons c cs s)
  let ?t = "rewind s"
  have t: "sock_inv ?t" "pending ?t = pending s" "connected ?t" "recv_read_size ?t = recv_read_size s"
    using Cons.prems rewind_inv [of s] by (simp_all add: live_def)
  note tf = try_frame_spec [OF t(1), unfolded t]
  show ?case
  proof (cases "frame (pending s)")
    case (Ret f)
    with tf obtain s' where s': "try_frame ?t = (Ret (Some f), s')" "sock_inv s'" "connected s'"
      "recv_read_size s' = recv_read_size s" "pending s' = drop (length f) (pending s)" using t by auto
    have "frame (pending s @ c @ concat cs) = Ret f" using frame.ret_append [OF Ret] by simp
    with s' frame.used_le [OF Ret] Cons.prems show ?thesis
      by (intro exI [of _ "Ret (Some f)"] exI [of _ s'] exI [of _ "c # cs"])
        (simp add: NextPacket.simps live_def pieces_def)
  next
    case (Throw m)
    then have "frame (pending s @ c @ concat cs) = Throw m" by (rule frame.throw_append)
    with tf Throw t Cons.prems show ?thesis
      by (intro exI [of _ "Ret None"] exI [of _ "?t\<lparr> sock_error := m \<rparr>"] exI [of _ "c # cs"])
        (simp add: NextPacket.simps live_def pieces_def sock_inv_def)
  next
    case More
    let ?u = "compact ?t"
    note u = compact_inv [OF t(1), unfolded t]
    from FillReceiveBuffer_data [of ?u c] u Cons.prems t obtain v where
      v: "FillReceiveBuffer (RecvData c) ?u = (Ret True, v)" "live v" "recv_read_size v = recv_read_size s"
      "pending v = pending s @ c" by (auto simp: live_def pieces_def)
    then have "pieces v cs" using Cons.prems by (simp add: pieces_def)
    moreover have "NextPacket (map RecvData (c # cs)) s = NextPacket (map RecvData cs) v"
      using v tf More by (subst NextPacket.simps) simp
    ultimately show ?thesis using Cons.IH [OF v(2), unfolded v(3,4) append_assoc] by (simp only: concat.simps)
  qed (use tf in simp)
qed

lemma ReceivePacket_Serialize:
  assumes "live s" "pieces s cs" "pending s @ concat cs = Serialize p @ rest"
    and "TDS_HEADER_SIZE + length (pk_payload p) \<le> TDS_MAX_PACKET_SIZE"
  shows "\<exists>s' cs'. ReceivePacket (map RecvData cs) s = (Ret (Some p), s', map RecvData cs') \<and> live s' \<and>
    pieces s' cs' \<and> pending s' @ concat cs' = rest"
proof -
  have f: "frame (pending s @ concat cs) = Ret (Serialize p)" using frame_Serialize [OF assms(4)] assms(3) by simp
  have "Parse (Serialize p) = Ret (TDS_HEADER_SIZE + length (pk_payload p), p)"
    using packet.ret_exact [OF Parse_Serialize_raw [OF assms(4), of "[]"]] by (simp add: length_Serialize)
  with NextPacket_frame [OF assms(1,2)] f assms(3) show ?thesis
    by (force simp: ReceivePacket_def)
qed

lemma message_loop_carries:
  assumes "carries ty k payload ps" "k + TDS_HEADER_SIZE \<le> TDS_MAX_PACKET_SIZE"
    and "live s" "pieces s cs" "pending s @ concat cs = concat (map Serialize ps) @ rest"
  shows "\<exists>s' cs'. message_loop (map RecvData cs) s message = Some (Ret (Some (message @ payload)), s', map RecvData cs') \<and>
    live s' \<and> pieces s' cs' \<and> pending s' @ concat cs' = rest"
  using assms
proof (induction ps arbitrary: payload s cs message)
  case Nil
  then show ?case by (simp add: carries_def)
next
  case (Cons p ps)
  from Cons.prems(1,2) have "TDS_HEADER_SIZE + length (pk_payload p) \<le> TDS_MAX_PACKET_SIZE"
    by (simp add: carries_def)
  from ReceivePacket_Serialize [OF Cons.prems(3,4) _ this, of "concat (map Serialize ps) @ rest"] Cons.prems(5)
  obtain s' cs' where r: "ReceivePacket (map RecvData cs) s = (Ret (Some p), s', map RecvData cs')"
    "live s'" "pieces s' cs'" "pending s' @ concat cs' = concat (map Serialize ps) @ rest" by auto
  show ?case
  proof (cases "ps = []")
    case True
    with Cons.prems(1) r show ?thesis by (subst message_loop.simps) (auto simp: carries_def)
  next
    case False
    with Cons.prems(1) have c: "carries ty k (concat (map pk_payload ps)) ps" "\<not> IsEndOfMessage p"
      "payload = pk_payload p @ concat (map pk_payload ps)"
      by (auto simp: carries_def)
    from Cons.IH [OF c(1) Cons.prems(2) r(2-4), of "message @ pk_payload p"] c r show ?thesis
      by (subst message_loop.simps) simp
  qed
qed

subsection \<open>Every reachable socket\<close>

lemma frame_min: "frame d = Ret f \<Longrightarrow> TDS_HEADER_SIZE \<le> length f"
  by (auto simp: frame_def Let_def split: if_splits)

lemma FillReceiveBuffer_safe:
  assumes "sock_inv s" "FillReceiveBuffer ev s = (r, s')"
  shows "r \<noteq> OOB \<and> r \<noteq> More \<and> (\<forall>m. r \<noteq> Throw m) \<and> sock_inv s' \<and> recv_read_size s' = recv_read_size s"
proof -
  define t where "t = (if size_sub (length (receive_buffer s)) (receive_len s) < recv_read_size s
     then s\<lparr> receive_buffer := resize (receive_len s + recv_read_size s) 0 (receive_buffer s) \<rparr> else s)"
  have t: "sock_inv t" "receive_len t + recv_read_size s \<le> length (receive_buffer t)" "recv_read_size t = recv_read_size s"
    using assms(1) by (auto simp: t_def sock_inv_def)
  from assms(2) have f: "(case Receive (recv_read_size t) ev t of (None, s) \<Rightarrow> (Ret False, s) | (Some bs, s) \<Rightarrow>
       if bs = [] then (Ret False, s)
       else (case wr_block (receive_buffer s) (receive_len s) bs of
               Ret buf \<Rightarrow> (Ret True, s\<lparr> receive_buffer := buf, receive_len := receive_len s + length bs \<rparr>)
             | _ \<Rightarrow> (OOB, s))) = (r, s')"
    by (simp add: FillReceiveBuffer_def Let_def flip: t_def)
  show ?thesis
    using f t
    by (cases ev; cases "connected t") (auto simp: Receive_def sock_inv_def wr_block_def split: if_splits option.splits)
qed

lemma NextPacket_safe:
  assumes "sock_inv s" "NextPacket events s = (r, s', es)"
  shows "(\<exists>fo. r = Ret fo \<and> (\<forall>f. fo = Some f \<longrightarrow> TDS_HEADER_SIZE \<le> length f)) \<and>
    sock_inv s' \<and> recv_read_size s' = recv_read_size s"
  using assms
proof (induction events arbitrary: s)
  case (Nil s)
  note t = rewind_inv [of s]
  note tf = try_frame_spec [of "rewind s", unfolded t(2)]
  show ?case
  proof (cases "frame (pending s)")
    case More
    obtain q v where v: "FillReceiveBuffer poll_timeout (compact (rewind s)) = (q, v)" by force
    from FillReceiveBuffer_timeout [OF _ v] compact_inv [of "rewind s"] tf More v t Nil show ?thesis
      by (auto simp: NextPacket.simps)
  qed (use tf t Nil in \<open>auto simp: NextPacket.simps sock_inv_def dest: frame_min\<close>)
next
  case (Cons ev events s)
  note t = rewind_inv [of s]
  note tf = try_frame_spec [of "rewind s", unfolded t(2)]
  show ?case
  proof (cases "frame (pending s)")
    case More
    let ?u = "compact (rewind s)"
    have u: "sock_inv ?u" "recv_read_size ?u = recv_read_size s" using compact_inv [of "rewind s"] t Cons.prems(1) by simp_all
    obtain q v where v: "FillReceiveBuffer ev ?u = (q, v)" by force
    from FillReceiveBuffer_safe [OF u(1) v] u(2) have
      q: "q = Ret True \<or> q = Ret False" "sock_inv v" "recv_read_size v = recv_read_size s"
      by (cases q; auto)+
    from Cons.prems(2) More tf t Cons.prems(1) v
    have "(case q of Ret b \<Rightarrow> if b then NextPacket events v else (Ret None, v, events) | _ \<Rightarrow> (OOB, v, events)) = (r, s', es)"
      by (subst (asm) NextPacket.simps) (auto split: res.splits bool.splits)
    with q Cons.IH [OF q(2)] show ?thesis by auto
  next
    case (Ret f)
    with tf Cons.prems t obtain x where x: "try_frame (rewind s) = (Ret (Some f), x)" "sock_inv x"
      "recv_read_size x = recv_read_size s" by auto
    with Cons.prems(2) have "r = Ret (Some f)" "s' = x" "es = ev # events" by (simp_all add: NextPacket.simps)
    with x frame_min [OF Ret] show ?thesis by simp
  next
    case (Throw m)
    with tf Cons.prems t have "r = Ret None" "s' = (rewind s)\<lparr> sock_error := m \<rparr>" "es = ev # events"
      by (simp_all add: NextPacket.simps)
    with t Cons.prems(1) show ?thesis by (simp add: sock_inv_def)
  qed (use tf t Cons.prems(1) in simp)
qed

inductive socket_reachable :: "TdsSocket \<Rightarrow> bool" where
  sock_new: "socket_reachable new_socket"
| sock_framing: "socket_reachable s \<Longrightarrow> socket_reachable (SetReceiveFraming packet_size frames s)"
| sock_connect: "socket_reachable s \<Longrightarrow> socket_reachable (snd (sock_Connect ev s))"
| sock_close: "socket_reachable s \<Longrightarrow> socket_reachable (sock_Close s)"
| sock_send: "socket_reachable s \<Longrightarrow> socket_reachable (snd (Send sev s))"
| sock_tls: "socket_reachable s \<Longrightarrow> socket_reachable (snd (snd (EnableTls tev s)))"
| sock_clear: "socket_reachable s \<Longrightarrow> socket_reachable (ClearReceiveBuffer s)"
| sock_packet: "socket_reachable s \<Longrightarrow> ReceivePacket events s = (r, s', es) \<Longrightarrow>
    socket_reachable s'"
| sock_view: "socket_reachable s \<Longrightarrow> ReceivePayloadView events s = (r, s', es) \<Longrightarrow>
    socket_reachable s'"

lemma ReceivePacket_safe:
  assumes "sock_inv s" "ReceivePacket events s = (r, s', es)"
  shows "r \<noteq> OOB \<and> r \<noteq> More \<and> sock_inv s' \<and> recv_read_size s' = recv_read_size s"
proof -
  obtain q v fs where n: "NextPacket events s = (q, v, fs)" by (metis prod_cases3)
  from NextPacket_safe [OF assms(1) n] assms(2) n show ?thesis
    by (auto simp: ReceivePacket_def packet.no_oob split: option.splits res.splits prod.splits)
qed

lemma ReceivePayloadView_safe:
  assumes "sock_inv s" "ReceivePayloadView events s = (r, s', es)"
  shows "r \<noteq> OOB \<and> r \<noteq> More \<and> sock_inv s'"
proof -
  obtain q v fs where n: "NextPacket events s = (q, v, fs)" by (metis prod_cases3)
  from NextPacket_safe [OF assms(1) n] assms(2) n show ?thesis
    by (auto simp: ReceivePayloadView_def Let_def sock_inv_def split: option.splits if_splits)
qed

lemma socket_reachable_inv: "socket_reachable s \<Longrightarrow> sock_inv s"
proof (induction rule: socket_reachable.induct)
  case (sock_packet s events r s' es)
  then show ?case using ReceivePacket_safe by blast
next
  case (sock_view s events r s' es)
  then show ?case using ReceivePayloadView_safe by blast
qed (auto simp: sock_inv_def new_socket_def SetReceiveFraming_def ClearReceiveBuffer_def sock_Connect_def
    sock_Close_def Send_def EnableTls_def Let_def split: option.splits send_event.splits tls_event.splits)

definition open_socket :: TdsSocket where
  "open_socket = snd (sock_Connect None new_socket)"

lemma NextPacket_progress:
  assumes "NextPacket events s = (Ret (Some f), s', es)"
  shows "length es \<le> length events \<and> (length es = length events \<longrightarrow>
     receive_buffer s' = receive_buffer s \<and> receive_pos s < receive_pos s' \<and> receive_pos s' \<le> length (receive_buffer s'))"
  using assms
proof (induction events arbitrary: s)
  case Nil
  then show ?case
    by (cases "try_frame (rewind s)"; cases "fst (try_frame (rewind s))")
      (auto simp: NextPacket.simps Let_def dest: try_frame_progress)
next
  case (Cons ev events)
  obtain q u where u: "try_frame (rewind s) = (q, u)" by force
  obtain b v where v: "FillReceiveBuffer ev (compact u) = (b, v)" by force
  show ?case
  proof (cases "q = More")
    case True
    with Cons.prems u v have "b = Ret True" "NextPacket events v = (Ret (Some f), s', es)"
      by (subst (asm) NextPacket.simps, simp split: res.splits bool.splits)+
    with Cons.IH show ?thesis by fastforce
  next
    case False
    with Cons.prems u have "try_frame (rewind s) = (Ret (Some f), s')" "es = ev # events"
      by (subst (asm) NextPacket.simps, simp split: res.splits)+
    from try_frame_progress [OF this(1)] this(2) show ?thesis by auto
  qed
qed

lemma try_frame_connected: "try_frame s = (r, s') \<Longrightarrow> connected s' = connected s"
  by (auto simp: try_frame_def Let_def split: if_splits res.splits)

lemma FillReceiveBuffer_connected: "FillReceiveBuffer ev s = (Ret True, s') \<Longrightarrow> connected s' = connected s"
  by (auto simp: FillReceiveBuffer_def Receive_def Let_def split: if_splits recv_event.splits res.splits)

lemma NextPacket_connected: "NextPacket events s = (Ret (Some f), s', es) \<Longrightarrow> connected s' = connected s"
proof (induction events arbitrary: s)
  case Nil
  then show ?case
    by (cases "try_frame (rewind s)"; cases "fst (try_frame (rewind s))")
      (auto simp: NextPacket.simps Let_def dest: try_frame_connected simp: rewind_inv)
next
  case (Cons ev events)
  obtain q u where u: "try_frame (rewind s) = (q, u)" by force
  obtain b v where v: "FillReceiveBuffer ev (compact u) = (b, v)" by force
  have c: "connected u = connected s" "connected (compact u) = connected u"
    using try_frame_connected [OF u] rewind_inv(3) [of s] by (simp_all add: compact_def Let_def)
  show ?case
  proof (cases "q = More")
    case True
    with Cons.prems u v have "b = Ret True" "NextPacket events v = (Ret (Some f), s', es)"
      by (subst (asm) NextPacket.simps, simp split: res.splits bool.splits)+
    with Cons.IH [of v] FillReceiveBuffer_connected [of ev "compact u" v] v c show ?thesis by simp
  next
    case False
    with Cons.prems u c show ?thesis by (subst (asm) NextPacket.simps) (simp split: res.splits)
  qed
qed

text \<open>Receiving a message comes to an end, whatever the network delivers.\<close>

definition shorter :: "recv_event list \<Rightarrow> TdsSocket \<Rightarrow> recv_event list \<Rightarrow> TdsSocket \<Rightarrow> bool" where
  "shorter es s' events s \<longleftrightarrow> length es < length events \<or> length es = length events \<and>
     length (receive_buffer s') - receive_pos s' < length (receive_buffer s) - receive_pos s"

lemma shorter_trans: "shorter es s' fs v \<Longrightarrow> shorter fs v events s \<Longrightarrow> shorter es s' events s"
  by (auto simp: shorter_def)

lemma ReceivePacket_shorter: "ReceivePacket events s = (Ret (Some packet), v, es) \<Longrightarrow> shorter es v events s"
  using NextPacket_progress [of events s _ v es]
  by (auto simp: ReceivePacket_def shorter_def split: prod.splits res.splits option.splits)

lemma ReceivePacket_connected:
  "ReceivePacket events s = (q, v, es) \<Longrightarrow> (\<exists>packet. q = Ret (Some packet)) \<or> (\<exists>e. q = Throw e) \<Longrightarrow> connected v = connected s"
  using NextPacket_connected [of events s _ v es]
  by (auto simp: ReceivePacket_def split: prod.splits res.splits option.splits)

lemma message_loop_returns:
  "\<exists>r s' es. message_loop events s message = Some (r, s', es) \<and>
     (\<forall>x. r = Ret (Some x) \<longrightarrow> shorter es s' events s) \<and>
     (\<forall>x. r = Ret (Some x) \<or> r = Throw msg \<longrightarrow> connected s' = connected s) \<and>
     (sock_inv s \<longrightarrow> r \<noteq> OOB \<and> r \<noteq> More \<and> sock_inv s' \<and> recv_read_size s' = recv_read_size s)"
proof (induction "(length events, length (receive_buffer s) - receive_pos s)" arbitrary: events s message
    rule: wf_induct_rule [OF wf_lex_prod [OF wf_less_than wf_less_than]])
  case (1 events s message)
  obtain q v es where p: "ReceivePacket events s = (q, v, es)" by (metis prod_cases3)
  show ?case
  proof (cases "\<exists>packet. q = Ret (Some packet) \<and> \<not> IsEndOfMessage packet")
    case True
    then obtain packet where packet: "q = Ret (Some packet)" "\<not> IsEndOfMessage packet" by blast
    with p have sh: "shorter es v events s" by (intro ReceivePacket_shorter) simp
    then have "((length es, length (receive_buffer v) - receive_pos v),
        (length events, length (receive_buffer s) - receive_pos s)) \<in> less_than <*lex*> less_than"
      by (auto simp: shorter_def)
    from 1 [OF this, of "message @ pk_payload packet"] obtain r s' fs where
      r: "message_loop es v (message @ pk_payload packet) = Some (r, s', fs)" 
      "\<forall>x. r = Ret (Some x) \<longrightarrow> shorter fs s' es v" "\<forall>x. r = Ret (Some x) \<or> r = Throw msg \<longrightarrow> connected s' = connected v"
      "sock_inv v \<longrightarrow> r \<noteq> OOB \<and> r \<noteq> More \<and> sock_inv s' \<and> recv_read_size s' = recv_read_size v" by blast
    moreover from this p packet have "message_loop events s message = Some (r, s', fs)"
      by (subst message_loop.simps) simp
    moreover have "\<forall>x. r = Ret (Some x) \<longrightarrow> shorter fs s' events s" using r(2) sh shorter_trans by blast
    moreover have "connected v = connected s" by (rule ReceivePacket_connected [OF p]) (simp add: packet)
    ultimately show ?thesis using ReceivePacket_safe [OF _ p] by auto
  next
    case False
    with p ReceivePacket_safe [OF _ p] ReceivePacket_shorter [of events s _ v es]
      ReceivePacket_connected [OF p] show ?thesis
      by (subst message_loop.simps) (auto split: res.splits option.splits)
  qed
qed

lemma ReceiveMessage_shorter:
  "ReceiveMessage events s = Some (Ret (Some x), s', es) \<Longrightarrow>
     shorter es s' events s"
  using message_loop_returns [of events s "[]"] by (auto simp: ReceiveMessage_def)

lemma ReceiveMessage_connected:
  "ReceiveMessage events s = Some (r, s', es) \<Longrightarrow> r = Ret (Some x) \<or> r = Throw e \<Longrightarrow> connected s' = connected s"
  using message_loop_returns [of events s "[]" e] by (auto simp: ReceiveMessage_def)

lemma ReceiveMessage_returns:
  assumes "sock_inv s"
  shows "\<exists>r s' es. ReceiveMessage events s = Some (r, s', es) \<and> r \<noteq> OOB \<and> r \<noteq> More \<and> sock_inv s' \<and>
    recv_read_size s' = recv_read_size s"
  using message_loop_returns [of events s "[]"] assms unfolding ReceiveMessage_def by blast

subsection \<open>Properties of the receive path\<close>

text \<open>C33: a message survives the trip through the transport. Split it for any packet size the protocol
  allows, send the serialised packets, let the network cut the bytes into pieces of any size up to one
  read: \<open>ReceiveMessage\<close> returns, with exactly the payload of the message, and what followed the message
  on the wire is still there for the next call.\<close>

theorem message_transport:
  assumes "IsEndOfMessage message" and "m \<le> TDS_MAX_PACKET_SIZE" and "live s"
  shows "\<exists>ps. SplitIntoPackets message m = Some ps \<and>
    (\<forall>cs rest. pieces s cs \<and> pending s @ concat cs = concat (map Serialize ps) @ rest \<longrightarrow>
      (\<exists>s' cs'. ReceiveMessage (map RecvData cs) s = Some (Ret (Some (pk_payload message)), s', map RecvData cs') \<and>
        live s' \<and> pending s' @ concat cs' = rest))"
proof -
  define k where "k = (if m > TDS_HEADER_SIZE then m - TDS_HEADER_SIZE else TDS_DEFAULT_PACKET_SIZE - TDS_HEADER_SIZE)"
  from SplitIntoPackets_carries [OF assms(1), of m] obtain ps where
    ps: "SplitIntoPackets message m = Some ps" "carries (pk_type message) k (pk_payload message) ps"
    by (auto simp: k_def)
  have "k + TDS_HEADER_SIZE \<le> TDS_MAX_PACKET_SIZE" using assms(2) by (auto simp: k_def)
  from message_loop_carries [OF ps(2) this assms(3), where message = "[]"] ps(1) show ?thesis
    unfolding ReceiveMessage_def by fastforce
qed

theorem message_transport_witness:
  "\<exists>ps. SplitIntoPackets (BuildSSPIMessage [1, 2, 3]) 10 = Some ps \<and>
    (\<exists>s' cs'. ReceiveMessage (map RecvData (map (\<lambda>b. [b]) (concat (map Serialize ps)))) open_socket =
       Some (Ret (Some [1, 2, 3]), s', map RecvData cs') \<and> live s' \<and> pending s' @ concat cs' = [])"
proof -
  have l: "live open_socket" "pending open_socket = []"
    by (simp_all add: live_def sock_inv_def pending_def open_socket_def sock_Connect_def new_socket_def Let_def)
  have p: "pieces open_socket (map (\<lambda>b. [b]) bs)" for bs :: "byte list"
    by (simp add: pieces_def open_socket_def sock_Connect_def new_socket_def Let_def list_all_iff)
  from message_transport [of "BuildSSPIMessage [1, 2, 3]" 10 open_socket] l obtain ps where
    "SplitIntoPackets (BuildSSPIMessage [1, 2, 3]) 10 = Some ps"
    "\<forall>cs rest. pieces open_socket cs \<and> concat cs = concat (map Serialize ps) @ rest \<longrightarrow>
      (\<exists>s' cs'. ReceiveMessage (map RecvData cs) open_socket = Some (Ret (Some [1, 2, 3]), s', map RecvData cs') \<and>
        live s' \<and> pending s' @ concat cs' = rest)"
    by (auto simp: BuildSSPIMessage_def IsEndOfMessage_def)
  moreover have "concat (map (\<lambda>b. [b]) bs) = bs" for bs :: "byte list" by (induction bs) auto
  ultimately show ?thesis using p by (metis append_Nil2)
qed

text \<open>C34: the receive path is safe on any peer: in every state the socket can reach, whatever the network
  reports next (data, timeouts, errors, malformed frames), receiving a packet, a payload view or a whole message
  returns, never reads or writes outside the assembly buffer and keeps the cursor inside the content.\<close>

theorem socket_safe:
  assumes "socket_reachable s"
  shows "receive_pos s \<le> receive_len s \<and> receive_len s \<le> length (receive_buffer s) \<and>
    fst (ReceivePacket events s) \<noteq> OOB \<and> fst (ReceivePayloadView events s) \<noteq> OOB \<and>
    (\<exists>r s' es. ReceiveMessage events s = Some (r, s', es) \<and> r \<noteq> OOB)"
proof -
  have inv: "sock_inv s" by (rule socket_reachable_inv [OF assms(1)])
  obtain a v es where p: "ReceivePacket events s = (a, v, es)" by (metis prod_cases3)
  obtain b w fs where q: "ReceivePayloadView events s = (b, w, fs)" by (metis prod_cases3)
  from ReceivePacket_safe [OF inv p] ReceivePayloadView_safe [OF inv q] p q
    ReceiveMessage_returns [OF inv, of events] inv show ?thesis
    by (auto simp: sock_inv_def)
qed

theorem socket_safe_witness:
  "fst (ReceivePacket [RecvData [4, 1, 0, 3], RecvData [0, 0, 1, 0], RecvTimeout None]
     (SetReceiveFraming 512 0 new_socket)) \<noteq> OOB"
  using socket_safe [OF sock_framing [OF sock_new, of 512 0], of "[RecvData [4, 1, 0, 3], RecvData [0, 0, 1, 0], RecvTimeout None]"]
  by simp

end
