(* ===== verification/Login7.thy ===== *)
theory Login7
  imports Tds_Messages
begin

text \<open>
  The PRELOGIN and LOGIN7 messages of \<open>src/tds/tds_protocol.cpp\<close>: the encoder of one variable field with
  its limit, the password obfuscation, and the four LOGIN7 builders (SQL login, integrated security,
  access token in the message, access token on request). The process id is a parameter. The fixed
  94-byte header, the same sequence of appends in every builder, is \<open>login7_header\<close>.

  The specification reads a message the way the protocol defines it: an offset and a length in UTF-16
  units for each variable field.
\<close>

definition LOGIN7_MAX_FIELD_CODE_UNITS :: nat where
  "LOGIN7_MAX_FIELD_CODE_UNITS = 128"

record Login7VarField =
  utf16le_bytes :: "byte list"
  cch :: u16
  ib :: u16

definition obfuscate :: "byte \<Rightarrow> byte" where
  "obfuscate b = ((push_bit 4 b AND 0xF0) OR (drop_bit 4 b AND 0x0F)) XOR 0xA5"

definition field_limit_message :: "string \<Rightarrow> nat \<Rightarrow> string" where
  "field_limit_message field_name code_units =
     ''LOGIN7 field '' @ field_name @ '' exceeds the TDS limit of 128 UTF-16 code units (got '' @
       to_string code_units @ '')''"

definition EncodeLogin7VarField ::
    "simdutf \<Rightarrow> string \<Rightarrow> byte list \<Rightarrow> u16 \<Rightarrow> bool \<Rightarrow> (Login7VarField \<times> u16) res" where
  "EncodeLogin7VarField U field_name utf8_text cumulative_ib_offset obfuscate_password =
     (let bytes = (if utf8_text \<noteq> [] then Utf16LEEncode U utf8_text else []);
          code_units = length bytes div 2
      in if code_units > LOGIN7_MAX_FIELD_CODE_UNITS then Throw (field_limit_message field_name code_units)
         else
           (let bytes' = (if obfuscate_password then map obfuscate bytes else bytes) in
            Ret (\<lparr> utf16le_bytes = bytes', cch = of_nat code_units, ib = cumulative_ib_offset \<rparr>,
                 cumulative_ib_offset + of_nat (length bytes'))))"

definition EncodePassword :: "simdutf \<Rightarrow> byte list \<Rightarrow> byte list" where
  "EncodePassword U password = map obfuscate (Utf16LEEncode U password)"

subsection \<open>PRELOGIN\<close>

definition prelogin_header :: "byte \<Rightarrow> u16 \<Rightarrow> u16 \<Rightarrow> tds_packet \<Rightarrow> tds_packet" where
  "prelogin_header option offset len packet =
     AppendUInt16BE len (AppendUInt16BE offset (AppendByte option packet))"

definition encryption_byte :: "bool \<Rightarrow> byte" where
  "encryption_byte use_encrypt =
     (if use_encrypt then EncryptionOption_ENCRYPT_ON else EncryptionOption_ENCRYPT_NOT_SUP)"

definition BuildPrelogin :: "bool \<Rightarrow> tds_packet" where
  "BuildPrelogin use_encrypt =
     (let packet = new_packet PacketType_PRELOGIN;
          data_offset = 11;
          packet = prelogin_header PreloginOption_VERSION data_offset 6 packet;
          packet = prelogin_header PreloginOption_ENCRYPTION (data_offset + 6) 1 packet;
          packet = AppendByte PreloginOption_TERMINATOR packet;
          packet = AppendByte 15 packet;
          packet = AppendByte 0 packet;
          packet = AppendUInt16BE 0 packet;
          packet = AppendUInt16BE 0 packet
      in AppendByte (encryption_byte use_encrypt) packet)"

definition trace_id :: "byte list" where
  "trace_id =
     [0x4d, 0x11, 0x08, 0x69, 0x83, 0x05, 0x40, 0x4c, 0x8d, 0x4c, 0x40, 0x8d, 0x68, 0x05, 0x32, 0xcd,
      0xe4, 0x56, 0xda, 0xab, 0x27, 0xff, 0x42, 0x3d, 0xa6, 0xb9, 0x88, 0x7b, 0x29, 0x50, 0x6b, 0x81,
      0x00, 0x00, 0x00, 0x00]"

definition BuildPreloginWithFedAuth :: "bool \<Rightarrow> bool \<Rightarrow> tds_packet" where
  "BuildPreloginWithFedAuth use_encrypt fedauth_required =
     (let packet = new_packet PacketType_PRELOGIN;
          headers_size = (if fedauth_required then 36 else 31);
          data_offset = headers_size;
          packet = prelogin_header PreloginOption_VERSION data_offset 6 packet;
          packet = prelogin_header PreloginOption_ENCRYPTION (data_offset + 6) 1 packet;
          packet = prelogin_header PreloginOption_INSTOPT (data_offset + 7) 1 packet;
          packet = prelogin_header PreloginOption_THREADID (data_offset + 8) 4 packet;
          packet = prelogin_header PreloginOption_MARS (data_offset + 12) 1 packet;
          packet = prelogin_header PreloginOption_TRACEID (data_offset + 13) 36 packet;
          packet = (if fedauth_required
                    then prelogin_header PreloginOption_FEDAUTHREQUIRED (data_offset + 49) 1 packet else packet);
          packet = AppendByte PreloginOption_TERMINATOR packet;
          packet = AppendPayload [0x06, 0x00, 0x09, 0x01, 0x00, 0x00] packet;
          packet = AppendByte (encryption_byte use_encrypt) packet;
          packet = AppendByte 0x00 packet;
          packet = AppendPayload [0x00, 0x00, 0x00, 0x00] packet;
          packet = AppendByte 0x00 packet;
          packet = AppendPayload trace_id packet
      in if fedauth_required then AppendByte 0x01 packet else packet)"

subsection \<open>LOGIN7\<close>

definition UTF8_SUPPORT_EXT_LEN :: u32 where
  "UTF8_SUPPORT_EXT_LEN = 1 + 4"

definition AppendUtf8SupportFeature :: "tds_packet \<Rightarrow> tds_packet" where
  "AppendUtf8SupportFeature packet = AppendUInt32LE 0 (AppendByte FeatureExtId_UTF8SUPPORT packet)"

definition append_pair :: "u16 \<times> u16 \<Rightarrow> tds_packet \<Rightarrow> tds_packet" where
  "append_pair f packet = AppendUInt16LE (snd f) (AppendUInt16LE (fst f) packet)"

definition login7_header ::
    "u32 \<Rightarrow> u32 \<Rightarrow> u32 \<Rightarrow> byte \<Rightarrow> byte \<Rightarrow> (u16 \<times> u16) list \<Rightarrow> (u16 \<times> u16) list \<Rightarrow> u32 \<Rightarrow> tds_packet \<Rightarrow> tds_packet" where
  "login7_header total_length packet_size pid flags2 flags3 pairs more_pairs sspi_long packet =
     (let packet = AppendUInt32LE total_length packet;
          packet = AppendUInt32LE TDS_VERSION_7_4 packet;
          packet = AppendUInt32LE packet_size packet;
          packet = AppendUInt32LE 0x00000001 packet;
          packet = AppendUInt32LE pid packet;
          packet = AppendUInt32LE 0 packet;
          packet = AppendByte (0x20 OR 0x80) packet;
          packet = AppendByte flags2 packet;
          packet = AppendByte 0x00 packet;
          packet = AppendByte flags3 packet;
          packet = AppendUInt32LE 0 packet;
          packet = AppendUInt32LE 0x0409 packet;
          packet = fold append_pair pairs packet;
          packet = AppendPayload (replicate 6 0) packet;
          packet = fold append_pair more_pairs packet
      in AppendUInt32LE sspi_long packet)"

definition BuildLogin7 ::
    "simdutf \<Rightarrow> u32 \<Rightarrow> byte list \<Rightarrow> byte list \<Rightarrow> byte list \<Rightarrow> byte list \<Rightarrow> byte list \<Rightarrow> u32 \<Rightarrow> bool \<Rightarrow> byte list \<Rightarrow> tds_packet res" where
  "BuildLogin7 U pid host username password database app_name packet_size request_utf8_support server_name =
     bind_res (EncodeLogin7VarField U ''HostName'' host 94 False) (\<lambda>(field_hostname, var_offset).
     bind_res (EncodeLogin7VarField U ''UserName'' username var_offset False) (\<lambda>(field_username, var_offset).
     bind_res (EncodeLogin7VarField U ''Password'' password var_offset True) (\<lambda>(field_password, var_offset).
     bind_res (EncodeLogin7VarField U ''AppName'' app_name var_offset False) (\<lambda>(field_appname, var_offset).
     bind_res (EncodeLogin7VarField U ''ServerName'' (if server_name = [] then host else server_name) var_offset False)
       (\<lambda>(field_servername, var_offset).
     let cltintname_offset = var_offset; language_off = var_offset in
     bind_res (EncodeLogin7VarField U ''Database'' database var_offset False) (\<lambda>(field_database, var_offset).
     let unused1_offset = var_offset;
         unused1_len = (if request_utf8_support then 4 else 0);
         var_offset = (if request_utf8_support then var_offset + 4 else var_offset);
         feature_ext_offset = (ucast var_offset :: u32);
         total_length = (if request_utf8_support then ucast var_offset + (UTF8_SUPPORT_EXT_LEN + 1) else ucast var_offset);
         packet = login7_header total_length packet_size pid 0x02 (if request_utf8_support then 0x10 else 0x00)
           [(ib field_hostname, cch field_hostname), (ib field_username, cch field_username),
            (ib field_password, cch field_password), (ib field_appname, cch field_appname),
            (ib field_servername, cch field_servername), (unused1_offset, unused1_len),
            (cltintname_offset, 0), (language_off, 0), (ib field_database, cch field_database)]
           [(var_offset, 0), (var_offset, 0), (var_offset, 0)] 0 (new_packet PacketType_LOGIN7);
         packet = AppendPayload (utf16le_bytes field_hostname) packet;
         packet = AppendPayload (utf16le_bytes field_username) packet;
         packet = AppendPayload (utf16le_bytes field_password) packet;
         packet = AppendPayload (utf16le_bytes field_appname) packet;
         packet = AppendPayload (utf16le_bytes field_servername) packet;
         packet = AppendPayload (utf16le_bytes field_database) packet
     in Ret (if request_utf8_support
             then AppendByte FeatureExtId_TERMINATOR (AppendUtf8SupportFeature (AppendUInt32LE feature_ext_offset packet))
             else packet)))))))"

definition BuildLogin7WithSSPI ::
    "simdutf \<Rightarrow> u32 \<Rightarrow> byte list \<Rightarrow> byte list \<Rightarrow> byte list \<Rightarrow> byte list \<Rightarrow> byte list \<Rightarrow> u32 \<Rightarrow> bool \<Rightarrow> tds_packet res" where
  "BuildLogin7WithSSPI U pid client_hostname server_name database sspi_initial_blob app_name packet_size request_utf8_support =
     (let sspi_blob_total = (of_nat (length sspi_initial_blob) :: u32);
          sspi_short_len = (if sspi_blob_total > 0xFFFF then 0xFFFF else ucast sspi_blob_total);
          sspi_long_len = (if sspi_blob_total > 0xFFFF then sspi_blob_total else 0)
      in
      bind_res (EncodeLogin7VarField U ''HostName'' client_hostname 94 False) (\<lambda>(field_hostname, vf_offset).
      bind_res (EncodeLogin7VarField U ''AppName'' app_name vf_offset False) (\<lambda>(field_appname, vf_offset).
      bind_res (EncodeLogin7VarField U ''ServerName'' server_name vf_offset False) (\<lambda>(field_servername, vf_offset).
      bind_res (EncodeLogin7VarField U ''Database'' database vf_offset False) (\<lambda>(field_database, vf_offset).
      let var_offset = (ucast vf_offset :: u32) in
      if var_offset > 0xFFFF then Throw ''LOGIN7 SSPI offset exceeds 65535 bytes -- pre-SSPI fields too large''
      else
        (let sspi_offset = (ucast var_offset :: u16);
             var_offset = var_offset + sspi_blob_total;
             atchdb_offset = (if var_offset > 0xFFFF then 0xFFFF else ucast var_offset :: u16);
             changepass_offset = atchdb_offset;
             unused1_offset = (if var_offset > 0xFFFF then 0xFFFF else ucast var_offset :: u16);
             unused1_len = (if request_utf8_support then 4 else 0);
             feature_ext_offset = (if request_utf8_support then var_offset + 4 else 0);
             total_length = (if request_utf8_support then var_offset + (4 + UTF8_SUPPORT_EXT_LEN + 1) else var_offset);
             packet = login7_header total_length packet_size pid (0x02 OR 0x80) (if request_utf8_support then 0x10 else 0x00)
               [(ib field_hostname, cch field_hostname), (ib field_appname, 0), (ib field_appname, 0),
                (ib field_appname, cch field_appname), (ib field_servername, cch field_servername),
                (unused1_offset, unused1_len), (ib field_database, 0), (ib field_database, 0),
                (ib field_database, cch field_database)]
               [(sspi_offset, sspi_short_len), (atchdb_offset, 0), (changepass_offset, 0)] sspi_long_len
               (new_packet PacketType_LOGIN7);
             packet = AppendPayload (utf16le_bytes field_hostname) packet;
             packet = AppendPayload (utf16le_bytes field_appname) packet;
             packet = AppendPayload (utf16le_bytes field_servername) packet;
             packet = AppendPayload (utf16le_bytes field_database) packet;
             packet = (if sspi_initial_blob \<noteq> [] then AppendPayload sspi_initial_blob packet else packet)
         in Ret (if request_utf8_support
                 then AppendByte FeatureExtId_TERMINATOR (AppendUtf8SupportFeature (AppendUInt32LE feature_ext_offset packet))
                 else packet)))))))"

text \<open>
  The two federated builders agree up to the feature data: the shared part takes the bytes of the
  FEDAUTH feature data.
\<close>

definition login7_fedauth ::
    "simdutf \<Rightarrow> u32 \<Rightarrow> byte list \<Rightarrow> byte list \<Rightarrow> byte list \<Rightarrow> byte list \<Rightarrow> u32 \<Rightarrow> bool \<Rightarrow> u32 \<Rightarrow> byte list \<Rightarrow> tds_packet res" where
  "login7_fedauth U pid client_hostname server_name database app_name packet_size request_utf8_support
       fedauth_data_len fedauth_data =
     bind_res (EncodeLogin7VarField U ''HostName'' client_hostname 94 False) (\<lambda>(field_hostname, var_offset).
     bind_res (EncodeLogin7VarField U ''UserName'' [] var_offset False) (\<lambda>(field_username, var_offset).
     bind_res (EncodeLogin7VarField U ''Password'' [] var_offset False) (\<lambda>(field_password, var_offset).
     bind_res (EncodeLogin7VarField U ''AppName'' app_name var_offset False) (\<lambda>(field_appname, var_offset).
     bind_res (EncodeLogin7VarField U ''ServerName'' server_name var_offset False) (\<lambda>(field_servername, var_offset).
     let cltintname_offset = var_offset; language_offset = var_offset in
     bind_res (EncodeLogin7VarField U ''Database'' database var_offset False) (\<lambda>(field_database, var_offset).
     let sspi_attrdb_chgpwd_offset = var_offset;
         extension_dword_offset = var_offset;
         var_offset = var_offset + 4;
         feature_ext_offset = (ucast var_offset :: u32);
         fedauth_ext_len = 1 + 4 + fedauth_data_len;
         total_length = ucast var_offset + fedauth_ext_len + (if request_utf8_support then UTF8_SUPPORT_EXT_LEN else 0) + 1;
         packet = login7_header total_length packet_size pid 0x02 0x10
           [(ib field_hostname, cch field_hostname), (ib field_username, cch field_username),
            (ib field_password, cch field_password), (ib field_appname, cch field_appname),
            (ib field_servername, cch field_servername), (extension_dword_offset, 4),
            (cltintname_offset, 0), (language_offset, 0), (ib field_database, cch field_database)]
           [(sspi_attrdb_chgpwd_offset, 0), (sspi_attrdb_chgpwd_offset, 0), (sspi_attrdb_chgpwd_offset, 0)] 0
           (new_packet PacketType_LOGIN7);
         packet = AppendPayload (utf16le_bytes field_hostname) packet;
         packet = AppendPayload (utf16le_bytes field_appname) packet;
         packet = AppendPayload (utf16le_bytes field_servername) packet;
         packet = AppendPayload (utf16le_bytes field_database) packet;
         packet = AppendUInt32LE feature_ext_offset packet;
         packet = AppendByte FeatureExtId_FEDAUTH packet;
         packet = AppendUInt32LE fedauth_data_len packet;
         packet = AppendPayload fedauth_data packet;
         packet = (if request_utf8_support then AppendUtf8SupportFeature packet else packet)
     in Ret (AppendByte FeatureExtId_TERMINATOR packet)))))))"

definition BuildLogin7WithFedAuth ::
    "simdutf \<Rightarrow> u32 \<Rightarrow> byte list \<Rightarrow> byte list \<Rightarrow> byte list \<Rightarrow> byte list \<Rightarrow> bool \<Rightarrow> byte list \<Rightarrow> u32 \<Rightarrow> bool \<Rightarrow> tds_packet res" where
  "BuildLogin7WithFedAuth U pid client_hostname server_name database fedauth_token fedauth_echo app_name packet_size request_utf8_support =
     (let fedauth_data_len = 5 + (of_nat (length fedauth_token) :: u32);
          fedauth_options = push_bit 1 0x01 OR (if fedauth_echo then 1 else 0)
      in login7_fedauth U pid client_hostname server_name database app_name packet_size request_utf8_support
           fedauth_data_len (fedauth_options # le32 (of_nat (length fedauth_token)) @ fedauth_token))"

definition BuildLogin7WithADAL ::
    "simdutf \<Rightarrow> u32 \<Rightarrow> byte list \<Rightarrow> byte list \<Rightarrow> byte list \<Rightarrow> bool \<Rightarrow> byte list \<Rightarrow> u32 \<Rightarrow> bool \<Rightarrow> tds_packet res" where
  "BuildLogin7WithADAL U pid client_hostname server_name database fedauth_echo app_name packet_size request_utf8_support =
     (let fedauth_options = push_bit 1 FEDAUTH_LIBRARY_ADAL OR (if fedauth_echo then 1 else 0)
      in login7_fedauth U pid client_hostname server_name database app_name packet_size request_utf8_support
           2 [fedauth_options, FEDAUTH_ADAL_WORKFLOW_PASSWORD])"

subsection \<open>The receiver's view of a LOGIN7 message\<close>

definition deobfuscate :: "byte \<Rightarrow> byte" where
  "deobfuscate b = (let c = b XOR 0xA5 in push_bit 4 c OR drop_bit 4 c)"

definition l7_field :: "byte list \<Rightarrow> nat \<Rightarrow> byte list res" where
  "l7_field msg i =
     bind_res (rd_u16le msg i) (\<lambda>offset. bind_res (rd_u16le msg (i + 2)) (\<lambda>count.
       rd_block msg (unat offset) (2 * unat count)))"

text \<open>The feature list starts at the offset held by the DWORD the extension slot points at.\<close>

definition l7_features :: "byte list \<Rightarrow> byte list res" where
  "l7_features msg =
     bind_res (rd_u16le msg 56) (\<lambda>offset. bind_res (rd_u32le msg (unat offset)) (\<lambda>start.
       if unat start \<le> length msg then Ret (drop (unat start) msg) else OOB))"

definition units :: "simdutf \<Rightarrow> byte list \<Rightarrow> nat" where
  "units U s = length (Utf16LEEncode U s) div 2"

definition fits :: "simdutf \<Rightarrow> byte list \<Rightarrow> bool" where
  "fits U s \<longleftrightarrow> units U s \<le> LOGIN7_MAX_FIELD_CODE_UNITS"

definition pair_bytes :: "(u16 \<times> u16) list \<Rightarrow> byte list" where
  "pair_bytes ps = concat (map (\<lambda>f. le16 (fst f) @ le16 (snd f)) ps)"

lemma length_pair_bytes [simp]: "length (pair_bytes ps) = 4 * length ps"
  by (induction ps) (simp_all add: pair_bytes_def)

lemma fold_append_pair: "pk_payload (fold append_pair ps p) = pk_payload p @ pair_bytes ps"
  by (induction ps arbitrary: p) (simp_all add: pair_bytes_def append_pair_def append_defs)

lemma rd_u16le_at: "length pre = i \<Longrightarrow> rd_u16le (pre @ le16 v @ d) i = Ret v"
  by (auto simp: rd_u16le_def rd_def le16_def nth_append u16le_le16)

lemma rd_u32le_at: "length pre = i \<Longrightarrow> rd_u32le (pre @ le32 v @ d) i = Ret v"
  by (auto simp: rd_u32le_def rd_def le32_def nth_append u32le_le32)

lemma rd_pair:
  assumes "i < length ps" "k = length pre + 4 * i"
  shows "rd_u16le (pre @ pair_bytes ps @ d) k = Ret (fst (ps ! i))"
    and "rd_u16le (pre @ pair_bytes ps @ d) (k + 2) = Ret (snd (ps ! i))"
proof -
  let ?a = "pair_bytes (take i ps)" and ?b = "pair_bytes (drop (Suc i) ps)" and ?f = "ps ! i"
  have "ps = take i ps @ ?f # drop (Suc i) ps" using assms by (simp add: id_take_nth_drop)
  then have "pair_bytes ps = ?a @ le16 (fst ?f) @ le16 (snd ?f) @ ?b"
    by (metis (no_types, lifting) append.assoc concat.simps(2) concat_append list.simps(9) map_append pair_bytes_def)
  moreover have "length (pre @ ?a) = k" "length ((pre @ ?a) @ le16 (fst ?f)) = k + 2"
    using assms by (simp_all add: min_def)
  ultimately show "rd_u16le (pre @ pair_bytes ps @ d) k = Ret (fst ?f)"
    "rd_u16le (pre @ pair_bytes ps @ d) (k + 2) = Ret (snd ?f)"
    using rd_u16le_at [of "pre @ ?a" k "fst ?f" "le16 (snd ?f) @ ?b @ d"]
      rd_u16le_at [of "(pre @ ?a) @ le16 (fst ?f)" "k + 2" "snd ?f" "?b @ d"]
    by simp_all
qed

lemma l7_field_at:
  assumes "rd_u16le msg i = Ret (of_nat (length pre))" "rd_u16le msg (i + 2) = Ret (of_nat (length x div 2))"
    and "msg = pre @ x @ d" "even (length x)" "length pre < 65536" "length x < 65536"
  shows "l7_field msg i = Ret x"
proof -
  have "unat (of_nat (length pre) :: u16) = length pre" "unat (of_nat (length x div 2) :: u16) = length x div 2"
    using assms by (simp_all add: take_bit_nat_eq_self unat_of_nat)
  with assms show ?thesis by (simp add: l7_field_def)
qed

lemma deobfuscate_list: "list_all (\<lambda>i. deobfuscate (obfuscate (word_of_nat i)) = word_of_nat i) [0..<256]"
  by code_simp

lemma deobfuscate_obfuscate [simp]: "deobfuscate (obfuscate b) = b"
proof -
  have "unat b \<in> set [0..<256]" using byte_less [of b] by simp
  with deobfuscate_list have "deobfuscate (obfuscate (word_of_nat (unat b))) = word_of_nat (unat b)"
    by (simp only: list_all_iff)
  then show ?thesis by simp
qed

lemma deobfuscate_comp [simp]: "deobfuscate \<circ> obfuscate = id"
  by (simp add: comp_def id_def)

lemma even_General: "even (length (Utf8ToUtf16LEGeneral s))"
proof (induction s rule: Utf8ToUtf16LEGeneral.induct)
  case (1 input)
  then show ?case
    by (subst Utf8ToUtf16LEGeneral.simps)
      (auto simp: length_emit_cp cp_bytes_def split: option.splits prod.splits)
qed

definition l7_fixed :: "u32 \<Rightarrow> u32 \<Rightarrow> byte \<Rightarrow> byte \<Rightarrow> byte list" where
  "l7_fixed packet_size pid flags2 flags3 =
     le32 TDS_VERSION_7_4 @ le32 packet_size @ le32 1 @ le32 pid @ le32 0 @ [0xA0, flags2, 0, flags3] @
     le32 0 @ le32 0x0409"

definition l7_head ::
    "u32 \<Rightarrow> byte list \<Rightarrow> (u16 \<times> u16) list \<Rightarrow> (u16 \<times> u16) list \<Rightarrow> u32 \<Rightarrow> byte list" where
  "l7_head tot fixed pairs more_pairs sspi_long =
     le32 tot @ fixed @ pair_bytes pairs @ replicate 6 0 @ pair_bytes more_pairs @ le32 sspi_long"

lemma length_l7_fixed [simp]: "length (l7_fixed n pid a b) = 32"
  by (simp add: l7_fixed_def)

lemma login7_header_payload:
  "pk_payload (login7_header tot n pid a b pairs more_pairs sl (new_packet ty)) =
     l7_head tot (l7_fixed n pid a b) pairs more_pairs sl"
  by (simp add: login7_header_def l7_head_def l7_fixed_def Let_def fold_append_pair append_defs)

lemma l7_head_reads:
  assumes "length fixed = 32" "length pairs = 9" "length more_pairs = 3"
  shows "length (l7_head tot fixed pairs more_pairs sl) = 94"
    and "rd_u32le (l7_head tot fixed pairs more_pairs sl @ d) 0 = Ret tot"
    and "i < 9 \<Longrightarrow> rd_u16le (l7_head tot fixed pairs more_pairs sl @ d) (36 + 4 * i) = Ret (fst (pairs ! i))"
    and "i < 9 \<Longrightarrow> rd_u16le (l7_head tot fixed pairs more_pairs sl @ d) (36 + 4 * i + 2) = Ret (snd (pairs ! i))"
    and "i < 3 \<Longrightarrow> rd_u16le (l7_head tot fixed pairs more_pairs sl @ d) (78 + 4 * i) = Ret (fst (more_pairs ! i))"
    and "i < 3 \<Longrightarrow> rd_u16le (l7_head tot fixed pairs more_pairs sl @ d) (78 + 4 * i + 2) = Ret (snd (more_pairs ! i))"
    and "rd_u32le (l7_head tot fixed pairs more_pairs sl @ d) 90 = Ret sl"
  using assms rd_u32le_at [of "[]" 0 tot]
    rd_pair [of i pairs "36 + 4 * i" "le32 tot @ fixed"]
    rd_pair [of i more_pairs "78 + 4 * i" "le32 tot @ fixed @ pair_bytes pairs @ replicate 6 0"]
    rd_u32le_at [of "le32 tot @ fixed @ pair_bytes pairs @ replicate 6 0 @ pair_bytes more_pairs" 90 sl d]
  by (simp_all add: l7_head_def)

lemma l7_reads:
  assumes "m = l7_head tot (l7_fixed n pid a b) pairs more_pairs sl @ d" "length pairs = 9" "length more_pairs = 3"
  shows "length m = 94 + length d" "rd_u32le m 0 = Ret tot"
    "i < 9 \<Longrightarrow> rd_u16le m (36 + 4 * i) = Ret (fst (pairs ! i))"
    "i < 9 \<Longrightarrow> rd_u16le m (38 + 4 * i) = Ret (snd (pairs ! i))"
    "i < 3 \<Longrightarrow> rd_u16le m (78 + 4 * i) = Ret (fst (more_pairs ! i))"
    "i < 3 \<Longrightarrow> rd_u16le m (80 + 4 * i) = Ret (snd (more_pairs ! i))"
    "rd_u32le m 90 = Ret sl" "drop (94 + k) m = drop k d"
  using l7_head_reads [OF length_l7_fixed assms(2,3)] assms(1)
  by (simp_all add: add.commute add.left_commute del: rd_u16le_in rd_u32le_in)

context simdutf_contract
begin

lemma Encode_Nil [simp]: "Utf16LEEncode U [] = []"
  using LegacyUtf16LEEncode_General [of "[]"] by (simp add: Encode_eq LegacyUtf16LEEncode_def)

lemma even_Encode [simp]: "even (length (Utf16LEEncode U s))"
  by (simp add: Encode_eq even_General)

lemma EncodeLogin7VarField_eq:
  "EncodeLogin7VarField U name s off ob =
     (if fits U s
      then Ret (\<lparr> utf16le_bytes = (if ob then map obfuscate (Utf16LEEncode U s) else Utf16LEEncode U s),
                  cch = of_nat (units U s), ib = off \<rparr>, off + of_nat (length (Utf16LEEncode U s)))
      else Throw (field_limit_message name (units U s)))"
  by (auto simp: EncodeLogin7VarField_def fits_def units_def Let_def)

lemma fits_length: "fits U s \<Longrightarrow> length (Utf16LEEncode U s) \<le> 256"
  using even_Encode [of s] unfolding fits_def units_def LOGIN7_MAX_FIELD_CODE_UNITS_def by presburger

end

lemma ucast_of_nat: "n < 65536 \<Longrightarrow> ucast (of_nat n :: u16) = (of_nat n :: u32)"
  by (simp add: word_unat_eq_iff unat_of_nat unsigned_ucast_eq take_bit_nat_eq_self)

lemma le32_0: "le32 0 = [0, 0, 0, 0]"
  by (simp add: le32_def)

text \<open>The message of each builder as one byte list; \<open>len\<close> below is the number of bytes of the fields.\<close>

lemma BuildLogin7_eq:
  fixes U host username password database app_name server_name
  defines "h \<equiv> Utf16LEEncode U host" and "u \<equiv> Utf16LEEncode U username"
    and "p \<equiv> Utf16LEEncode U password" and "a \<equiv> Utf16LEEncode U app_name"
    and "s \<equiv> Utf16LEEncode U (if server_name = [] then host else server_name)"
    and "d \<equiv> Utf16LEEncode U database"
  defines "len \<equiv> 94 + length h + length u + length p + length a + length s + length d"
  assumes U: "simdutf_contract U"
    and fit: "fits U host" "fits U username" "fits U password" "fits U app_name"
      "fits U (if server_name = [] then host else server_name)" "fits U database"
  shows "map_res pk_payload (BuildLogin7 U pid host username password database app_name n utf8 server_name) =
    Ret (l7_head (of_nat (len + (if utf8 then 10 else 0))) (l7_fixed n pid 2 (if utf8 then 0x10 else 0))
      [(94, of_nat (length h div 2)), (of_nat (94 + length h), of_nat (length u div 2)),
       (of_nat (94 + length h + length u), of_nat (length p div 2)),
       (of_nat (94 + length h + length u + length p), of_nat (length a div 2)),
       (of_nat (94 + length h + length u + length p + length a), of_nat (length s div 2)),
       (of_nat len, if utf8 then 4 else 0), (of_nat (len - length d), 0), (of_nat (len - length d), 0),
       (of_nat (len - length d), of_nat (length d div 2))]
      (replicate 3 (of_nat (len + (if utf8 then 4 else 0)), 0)) 0 @
      h @ u @ map obfuscate p @ a @ s @ d @
      (if utf8 then le32 (of_nat (len + 4)) @ [0x0A, 0, 0, 0, 0, 0xFF] else []))"
proof -
  note E = simdutf_contract.EncodeLogin7VarField_eq [OF U]
  have len: "len + 4 < 65536" unfolding len_def h_def u_def p_def a_def s_def d_def
    using fit [THEN simdutf_contract.fits_length [OF U]] by simp
  note [simp] = E fit Let_def
  have ucasts: "ucast (of_nat len :: u16) = (of_nat len :: u32)"
      "ucast (of_nat (len + 4) :: u16) = (of_nat (len + 4) :: u32)"
    using len by (simp_all only: ucast_of_nat)
  show ?thesis
    unfolding BuildLogin7_def bind_res.simps map_res.simps
    using ucasts unfolding len_def
    by (cases utf8) (simp_all add: append_defs login7_header_payload units_def h_def u_def p_def a_def s_def d_def
       AppendUtf8SupportFeature_def UTF8_SUPPORT_EXT_LEN_def ac_simps numeral_3_eq_3 le32_0)
qed

lemma l7_slot:
  assumes head: "length fixed = 32" "length pairs = 9" "length more_pairs = 3"
    and m: "m = l7_head tot fixed pairs more_pairs sl @ d" "d = pre @ x @ post"
    and slot: "i < 9" "pairs ! i = (of_nat (94 + length pre), of_nat (length x div 2))" "k = 36 + 4 * i"
    and small: "even (length x)" "94 + length pre < 65536" "length x < 65536"
  shows "l7_field m k = Ret x"
proof (rule l7_field_at)
  show "rd_u16le m k = Ret (of_nat (length (l7_head tot fixed pairs more_pairs sl @ pre)))"
    "rd_u16le m (k + 2) = Ret (of_nat (length x div 2))"
    using l7_head_reads [OF head] slot m(1) by simp_all
qed (use l7_head_reads(1) [OF head] m small in simp_all)

lemma l7_features_at:
  assumes head: "length fixed = 32" "length pairs = 9" "length more_pairs = 3"
    and m: "m = l7_head tot fixed pairs more_pairs sl @ d" "d = pre @ le32 (of_nat (94 + length pre + 4)) @ feats"
    and slot: "fst (pairs ! 5) = of_nat (94 + length pre)" and small: "94 + length pre < 65536"
  shows "l7_features m = Ret feats"
proof -
  let ?p = "l7_head tot fixed pairs more_pairs sl @ pre" and ?v = "of_nat (94 + length pre + 4) :: u32"
  have len: "length ?p = 94 + length pre" using l7_head_reads(1) [OF head] by simp
  have "rd_u16le m 56 = Ret (of_nat (length ?p))"
    using l7_head_reads(3) [OF head, of 5] m slot len by simp
  moreover have "rd_u32le m (length ?p) = Ret ?v" using rd_u32le_at [of ?p _ ?v feats] m by simp
  moreover have "unat (of_nat (length ?p) :: u16) = length ?p" "unat ?v = length ?p + 4"
    using small len by (simp_all only: u16_unat u32_unat)
  moreover have "drop (length ?p + 4) m = feats" "length ?p + 4 \<le> length m" using m by simp_all
  ultimately show ?thesis by (simp add: l7_features_def)
qed

text \<open>A message with the header and the six fields of a SQL login, read slot by slot.\<close>

lemma l7_sql_reads:
  fixes h u p a s d :: "byte list" and utf8 :: bool
  defines "len \<equiv> 94 + length h + length u + length p + length a + length s + length d"
  assumes m: "m = l7_head (of_nat (len + (if utf8 then 10 else 0))) (l7_fixed n pid f2 f3)
      [(94, of_nat (length h div 2)), (of_nat (94 + length h), of_nat (length u div 2)),
       (of_nat (94 + length h + length u), of_nat (length p div 2)),
       (of_nat (94 + length h + length u + length p), of_nat (length a div 2)),
       (of_nat (94 + length h + length u + length p + length a), of_nat (length s div 2)),
       (of_nat len, if utf8 then 4 else 0), (of_nat (len - length d), 0), (of_nat (len - length d), 0),
       (of_nat (len - length d), of_nat (length d div 2))] (replicate 3 z) 0 @
      h @ u @ p @ a @ s @ d @ (if utf8 then le32 (of_nat (len + 4)) @ feats else [])"
    and small: "list_all (\<lambda>x. even (length x) \<and> length x \<le> 256) [h, u, p, a, s, d]"
  shows "l7_field m 36 = Ret h" "l7_field m 40 = Ret u" "l7_field m 44 = Ret p" "l7_field m 48 = Ret a"
    "l7_field m 52 = Ret s" "l7_field m 68 = Ret d" "utf8 \<Longrightarrow> l7_features m = Ret feats"
    "rd_u16le m 58 = Ret (if utf8 then 4 else 0)" "length feats = 6 \<Longrightarrow> rd_u32le m 0 = Ret (of_nat (length m))"
    "length m \<le> 1634 + length feats"
proof -
  note slot = l7_slot [OF length_l7_fixed _ _ m]
  show "l7_field m 36 = Ret h" by (rule slot [of "[]" h _ 0]) (use small in simp_all)
  show "l7_field m 40 = Ret u" by (rule slot [of h u _ 1]) (use small in simp_all)
  show "l7_field m 44 = Ret p" by (rule slot [of "h @ u" p _ 2]) (use small in simp_all)
  show "l7_field m 48 = Ret a" by (rule slot [of "h @ u @ p" a _ 3]) (use small in simp_all)
  show "l7_field m 52 = Ret s" by (rule slot [of "h @ u @ p @ a" s _ 4]) (use small in simp_all)
  show "l7_field m 68 = Ret d" by (rule slot [of "h @ u @ p @ a @ s" d _ 8]) (use small in \<open>simp_all add: len_def\<close>)
  show "l7_features m = Ret feats" if utf8
    by (rule l7_features_at [OF length_l7_fixed _ _ m, of "h @ u @ p @ a @ s @ d"])
      (use small that in \<open>simp_all add: len_def\<close>)
  note reads = l7_head_reads [OF length_l7_fixed]
  show "rd_u16le m 58 = Ret (if utf8 then 4 else 0)" using reads(4) [of _ _ 5] m by simp
  have len: "length m = len + (if utf8 then 4 + length feats else 0)" using reads(1) m by (simp add: len_def)
  with small show "length m \<le> 1634 + length feats" by (simp add: len_def)
  show "rd_u32le m 0 = Ret (of_nat (length m))" if "length feats = 6" using reads(2) m len that by simp
qed

text \<open>C37: the LOGIN7 message of a SQL login. When every text field fits the limit of 128 code units the
  builder returns a message whose length field is its length and from which a receiver reads, through the
  offset and length slots of the fixed header, exactly the UTF-16 text of host, user, application, server
  and database name and, after undoing the obfuscation, of the password. When UTF-8 support is requested
  the extension slot leads to a feature list with that feature and the terminator.\<close>

theorem BuildLogin7_correct:
  assumes "simdutf_contract U"
    and "list_all (fits U) [host, username, password, app_name, if server_name = [] then host else server_name, database]"
  shows "\<exists>packet m. BuildLogin7 U pid host username password database app_name packet_size utf8 server_name = Ret packet \<and>
     m = pk_payload packet \<and> length m \<le> 1640 \<and> rd_u32le m 0 = Ret (of_nat (length m)) \<and>
     l7_field m 36 = Ret (Utf16LEEncode U host) \<and> l7_field m 40 = Ret (Utf16LEEncode U username) \<and>
     map_res (map deobfuscate) (l7_field m 44) = Ret (Utf16LEEncode U password) \<and>
     l7_field m 48 = Ret (Utf16LEEncode U app_name) \<and>
     l7_field m 52 = Ret (Utf16LEEncode U (if server_name = [] then host else server_name)) \<and>
     l7_field m 68 = Ret (Utf16LEEncode U database) \<and>
     (if utf8 then l7_features m = Ret [FeatureExtId_UTF8SUPPORT, 0, 0, 0, 0, FeatureExtId_TERMINATOR]
      else rd_u16le m 58 = Ret 0)"
proof -
  let ?server = "if server_name = [] then host else server_name"
  let ?b = "BuildLogin7 U pid host username password database app_name packet_size utf8 server_name"
  have fit: "fits U host" "fits U username" "fits U password" "fits U app_name" "fits U ?server" "fits U database"
    using assms(2) by (simp_all only: list.pred_inject)
  note eq = BuildLogin7_eq [OF assms(1) fit, of pid packet_size utf8]
  then obtain packet where b: "?b = Ret packet" by (cases ?b) auto
  have "list_all (\<lambda>x. even (length x) \<and> length x \<le> 256) [Utf16LEEncode U host, Utf16LEEncode U username,
      map obfuscate (Utf16LEEncode U password), Utf16LEEncode U app_name, Utf16LEEncode U ?server, Utf16LEEncode U database]"
    using fit [THEN simdutf_contract.fits_length [OF assms(1)]]
    by (simp only: list.pred_inject length_map simdutf_contract.even_Encode [OF assms(1)] simp_thms)
  note reads = l7_sql_reads [OF _ this, of "pk_payload packet" utf8 _ _ _ _ _ "[0x0A, 0, 0, 0, 0, 0xFF]"]
  note reads = reads [unfolded length_map, OF eq [unfolded b map_res.simps res.inject]]
  have "m = pk_payload packet \<Longrightarrow> rd_u32le m 0 = Ret (of_nat (length m)) \<and> length m \<le> 1640" for m
    using reads(9,10) by (simp del: rd_u32le_in)
  then show ?thesis using b reads(1-6) reads(7,8)
    by (intro exI [of _ packet] exI [of _ "pk_payload packet"]) (simp del: rd_u32le_in rd_u16le_in)
qed

lemma ascii_units:
  assumes "simdutf_contract U" "\<forall>b \<in> set s. unat b < 128"
  shows "units U s = length s"
  using simdutf_contract.Encode_eq [OF assms(1), of s] General_ascii [of s] assms(2)
  by (simp add: units_def length_widen)

lemma fits_short:
  "list_all (fits ref_simdutf) (map bytes_of_str [''db'', ''sa'', ''Pw'', ''x''])"
  by (simp add: fits_def ascii_units [OF ref.simdutf_contract_axioms] LOGIN7_MAX_FIELD_CODE_UNITS_def bytes_of_str_def)

theorem BuildLogin7_correct_witness:
  "\<exists>packet m. BuildLogin7 ref_simdutf 7 (bytes_of_str ''db'') (bytes_of_str ''sa'') (bytes_of_str ''Pw'')
       (bytes_of_str ''x'') (bytes_of_str ''x'') 4096 True [] = Ret packet \<and> m = pk_payload packet \<and>
     map_res (map deobfuscate) (l7_field m 44) = Ret (Utf16LEEncode ref_simdutf (bytes_of_str ''Pw''))"
  using BuildLogin7_correct [OF ref.simdutf_contract_axioms, of "bytes_of_str ''db''" "bytes_of_str ''sa''"
      "bytes_of_str ''Pw''" "bytes_of_str ''x''" "[]" "bytes_of_str ''x''" 7 4096 True] fits_short
  by fastforce

subsection \<open>The other builders\<close>

definition first_over :: "simdutf \<Rightarrow> (string \<times> byte list) list \<Rightarrow> string option" where
  "first_over U fs =
     map_option (\<lambda>(name, s). field_limit_message name (units U s)) (find (\<lambda>(name, s). \<not> fits U s) fs)"

lemma first_over_simps [simp]:
  "first_over U [] = None"
  "first_over U ((name, s) # fs) =
     (if fits U s then first_over U fs else Some (field_limit_message name (units U s)))"
  by (simp_all add: first_over_def)

definition outcome :: "'a res \<Rightarrow> string option \<Rightarrow> bool" where
  "outcome r e \<longleftrightarrow> (case e of Some msg \<Rightarrow> r = Throw msg | None \<Rightarrow> \<exists>x. r = Ret x)"

lemma ucast_le: "\<not> 0xFFFF < (ucast (w :: u16) :: u32)"
  using u16_less [of w] by (simp add: word_less_nat_alt unsigned_ucast_eq take_bit_nat_eq_self)

text \<open>C40: the field limit in every LOGIN7 builder. Each builder returns a message exactly when every text
  field it sends has at most 128 UTF-16 units, and otherwise throws the error naming the first field that
  does not and its size; no offset ever exceeds its 16-bit slot, so the guard on the SSPI offset never
  fires.\<close>

theorem login7_field_limit:
  assumes "simdutf_contract U"
  shows "outcome (BuildLogin7 U pid host username password database app_name n utf8 server_name)
      (first_over U [(''HostName'', host), (''UserName'', username), (''Password'', password), (''AppName'', app_name),
         (''ServerName'', if server_name = [] then host else server_name), (''Database'', database)]) \<and>
    outcome (BuildLogin7WithSSPI U pid host server_name database blob app_name n utf8)
      (first_over U [(''HostName'', host), (''AppName'', app_name), (''ServerName'', server_name), (''Database'', database)]) \<and>
    outcome (BuildLogin7WithFedAuth U pid host server_name database token echo app_name n utf8)
      (first_over U [(''HostName'', host), (''AppName'', app_name), (''ServerName'', server_name), (''Database'', database)]) \<and>
    outcome (BuildLogin7WithADAL U pid host server_name database echo app_name n utf8)
      (first_over U [(''HostName'', host), (''AppName'', app_name), (''ServerName'', server_name), (''Database'', database)])"
proof -
  note E = simdutf_contract.EncodeLogin7VarField_eq [OF assms]
  have [simp]: "fits U []" by (simp add: fits_def units_def simdutf_contract.Encode_Nil [OF assms])
  show ?thesis
    by (intro conjI)
      (simp_all add: outcome_def E Let_def BuildLogin7_def BuildLogin7WithSSPI_def BuildLogin7WithFedAuth_def
        BuildLogin7WithADAL_def login7_fedauth_def ucast_le)
qed

theorem login7_field_limit_witness:
  "BuildLogin7WithADAL ref_simdutf 7 (bytes_of_str ''c'') (replicate 129 0x41) [] True [] 4096 False =
     Throw (field_limit_message ''ServerName'' 129)"
proof -
  have "first_over ref_simdutf [(''HostName'', bytes_of_str ''c''), (''AppName'', []), (''ServerName'', replicate 129 0x41),
      (''Database'', [])] = Some (field_limit_message ''ServerName'' 129)"
    by (simp add: fits_def ascii_units [OF ref.simdutf_contract_axioms] LOGIN7_MAX_FIELD_CODE_UNITS_def bytes_of_str_def)
  with login7_field_limit [OF ref.simdutf_contract_axioms, of 7 "bytes_of_str ''c''" "[]" "[]" "[]" "[]" 4096 False
      "replicate 129 0x41" "[]" "[]" True]
  show ?thesis by (simp add: outcome_def)
qed

text \<open>
  The security blob as the protocol reads it: the short length, or the long one when the short one is
  saturated and the long one is not zero.
\<close>

definition l7_sspi :: "byte list \<Rightarrow> byte list res" where
  "l7_sspi msg =
     bind_res (rd_u16le msg 78) (\<lambda>offset. bind_res (rd_u16le msg 80) (\<lambda>count. bind_res (rd_u32le msg 90) (\<lambda>long.
       rd_block msg (unat offset) (if count = 0xFFFF \<and> long \<noteq> 0 then unat long else unat count))))"

definition sat16 :: "nat \<Rightarrow> u16" where
  "sat16 n = (if n > 0xFFFF then 0xFFFF else of_nat n)"

lemma u32_gt: "n < 4294967296 \<Longrightarrow> (of_nat n > (0xFFFF :: u32)) = (n > 0xFFFF)"
  by (simp add: word_less_nat_alt u32_unat)

lemma ucast_u32_u16: "n < 65536 \<Longrightarrow> ucast (of_nat n :: u32) = (of_nat n :: u16)"
  by (simp add: word_unat_eq_iff unat_of_nat unsigned_ucast_eq take_bit_nat_eq_self)

lemma sat16_cast: "(if n > 0xFFFF then 0xFFFF else ucast (of_nat n :: u32)) = sat16 n"
  by (simp add: sat16_def ucast_u32_u16)

lemma of_nats:
  "of_nat i + of_nat j = (of_nat (i + j) :: u16)" "94 + of_nat j = (of_nat (94 + j) :: u16)"
  "of_nat i + of_nat j = (of_nat (i + j) :: u32)" "of_nat i + 4 = (of_nat (i + 4) :: u32)"
  "of_nat i + 10 = (of_nat (i + 10) :: u32)"
  by simp_all

lemma BuildLogin7WithSSPI_eq:
  fixes U host server_name database app_name blob
  defines "h \<equiv> Utf16LEEncode U host" and "a \<equiv> Utf16LEEncode U app_name"
    and "s \<equiv> Utf16LEEncode U server_name" and "d \<equiv> Utf16LEEncode U database"
  defines "off \<equiv> 94 + length h + length a + length s + length d"
  assumes U: "simdutf_contract U"
    and fit: "fits U host" "fits U app_name" "fits U server_name" "fits U database"
    and blob: "length blob < 4294960000"
  shows "map_res pk_payload (BuildLogin7WithSSPI U pid host server_name database blob app_name n utf8) =
    Ret (l7_head (of_nat (off + length blob + (if utf8 then 10 else 0))) (l7_fixed n pid 0x82 (if utf8 then 0x10 else 0))
      [(94, of_nat (length h div 2)), (of_nat (94 + length h), 0), (of_nat (94 + length h), 0),
       (of_nat (94 + length h), of_nat (length a div 2)), (of_nat (94 + length h + length a), of_nat (length s div 2)),
       (sat16 (off + length blob), if utf8 then 4 else 0), (of_nat (off - length d), 0), (of_nat (off - length d), 0),
       (of_nat (off - length d), of_nat (length d div 2))]
      [(of_nat off, sat16 (length blob)), (sat16 (off + length blob), 0), (sat16 (off + length blob), 0)]
      (if length blob > 0xFFFF then of_nat (length blob) else 0) @
      h @ a @ s @ d @ blob @
      (if utf8 then le32 (of_nat (off + length blob + 4)) @ [0x0A, 0, 0, 0, 0, 0xFF] else []))"
proof -
  note E = simdutf_contract.EncodeLogin7VarField_eq [OF U]
  have off: "94 + length h + length a + length s + length d = off" by (simp add: off_def)
  have "off \<le> 1118" unfolding off_def h_def a_def s_def d_def
    using fit [THEN simdutf_contract.fits_length [OF U]] by simp
  with blob have small: "off < 65536" and big: "off < 4294967296" "off + length blob < 4294967296" "length blob < 4294967296" by simp_all
  have d: "off - length d = 94 + length h + length a + length s" by (simp add: off_def)
  note enc = h_def [symmetric] a_def [symmetric] s_def [symmetric] d_def [symmetric]
  show ?thesis
    unfolding BuildLogin7WithSSPI_def d
    by (simp add: E fit Let_def ucast_le units_def enc of_nats off small ucast_of_nat [OF small] ucast_u32_u16 [OF small]
        big [THEN u32_gt] sat16_cast UTF8_SUPPORT_EXT_LEN_def del: of_nat_add split del: if_split cong: if_cong)
      (simp add: append_defs login7_header_payload AppendUtf8SupportFeature_def le32_0)
qed

text \<open>A message of the integrated builder, read slot by slot.\<close>

lemma l7_sspi_reads:
  fixes h a s d blob :: "byte list" and utf8 :: bool
  defines "off \<equiv> 94 + length h + length a + length s + length d"
  assumes m: "m = l7_head (of_nat (off + length blob + (if utf8 then 10 else 0))) (l7_fixed n pid f2 f3)
      [(94, of_nat (length h div 2)), (of_nat (94 + length h), 0), (of_nat (94 + length h), 0),
       (of_nat (94 + length h), of_nat (length a div 2)), (of_nat (94 + length h + length a), of_nat (length s div 2)),
       (sat16 (off + length blob), if utf8 then 4 else 0), (of_nat (off - length d), 0), (of_nat (off - length d), 0),
       (of_nat (off - length d), of_nat (length d div 2))]
      [(of_nat off, sat16 (length blob)), z, z] (if length blob > 0xFFFF then of_nat (length blob) else 0) @
      h @ a @ s @ d @ blob @ (if utf8 then le32 (of_nat (off + length blob + 4)) @ feats else [])"
    and small: "list_all (\<lambda>x. even (length x) \<and> length x \<le> 256) [h, a, s, d]" "length blob < 4294960000"
  shows "l7_field m 36 = Ret h" "l7_field m 48 = Ret a" "l7_field m 52 = Ret s" "l7_field m 68 = Ret d"
    "l7_sspi m = Ret blob" "length feats = 6 \<Longrightarrow> rd_u32le m 0 = Ret (of_nat (length m))"
    "utf8 \<Longrightarrow> off + length blob \<le> 0xFFFF \<Longrightarrow> l7_features m = Ret feats"
    "rd_u16le m 56 = Ret (sat16 (off + length blob))"
    "utf8 \<Longrightarrow> rd_u32le m (off + length blob) = Ret (of_nat (off + length blob + 4))"
    "length m = off + length blob + (if utf8 then 4 + length feats else 0)"
proof -
  note slot = l7_slot [OF length_l7_fixed _ _ m]
  show "l7_field m 36 = Ret h" by (rule slot [of "[]" h _ 0]) (use small in simp_all)
  show "l7_field m 48 = Ret a" by (rule slot [of h a _ 3]) (use small in simp_all)
  show "l7_field m 52 = Ret s" by (rule slot [of "h @ a" s _ 4]) (use small in simp_all)
  show "l7_field m 68 = Ret d" by (rule slot [of "h @ a @ s" d _ 8]) (use small in \<open>simp_all add: off_def\<close>)
  note reads = l7_reads [OF m]
  have len: "length m = off + length blob + (if utf8 then 4 + length feats else 0)"
    using reads(1) by (simp add: off_def)
  show "rd_u32le m 0 = Ret (of_nat (length m))" if "length feats = 6"
    using reads(2) len that by (simp del: rd_u32le_in)
  show "rd_u16le m 56 = Ret (sat16 (off + length blob))" using reads(3) [of 5] by (simp del: rd_u16le_in)
  have off: "unat (of_nat off :: u16) = off" using small by (intro u16_unat) (simp add: off_def)
  have "take (length blob) (drop off m) = blob"
    using reads(8) [of "off - 94"] by (simp add: off_def add.assoc)
  then have "rd_block m off (length blob) = Ret blob" using len by simp
  moreover have "rd_u16le m 78 = Ret (of_nat off)" "rd_u16le m 80 = Ret (sat16 (length blob))"
    "rd_u32le m 90 = Ret (if length blob > 0xFFFF then of_nat (length blob) else 0)"
    using reads(5,6) [of 0] reads(7) by (simp_all del: rd_u16le_in rd_u32le_in)
  moreover have "(if sat16 (length blob) = 0xFFFF \<and> (if length blob > 0xFFFF then of_nat (length blob) else 0) \<noteq> (0 :: u32)
      then unat (if length blob > 0xFFFF then of_nat (length blob) else 0 :: u32) else unat (sat16 (length blob))) = length blob"
    using small(2) u32_unat [of "length blob"] u16_unat [of "length blob"] by (auto simp: sat16_def)
  ultimately show "l7_sspi m = Ret blob" by (simp add: l7_sspi_def off del: rd_block_in)
  show "l7_features m = Ret feats" if utf8 "off + length blob \<le> 0xFFFF"
    by (rule l7_features_at [OF length_l7_fixed _ _ m, of "h @ a @ s @ d @ blob"])
      (use small that in \<open>simp_all add: off_def sat16_def\<close>)
  show "rd_u32le m (off + length blob) = Ret (of_nat (off + length blob + 4))" if utf8
  proof -
    have "drop (off + length blob) m = le32 (of_nat (off + length blob + 4)) @ feats"
      using reads(8) [of "off - 94 + length blob"] that by (simp add: off_def add.assoc)
    then show ?thesis
      using rd_u32le_at [of "take (off + length blob) m" "off + length blob" "of_nat (off + length blob + 4)" feats] len
      by (metis add_leD1 append_take_drop_id le_add1 length_take min.absorb2)
  qed
  show "length m = off + length blob + (if utf8 then 4 + length feats else 0)" by (rule len)
qed

lemma fits_slots:
  "simdutf_contract U \<Longrightarrow> list_all (fits U) xs \<Longrightarrow>
     list_all (\<lambda>x. even (length x) \<and> length x \<le> 256) (map (Utf16LEEncode U) xs)"
  by (induction xs) (simp_all add: simdutf_contract.even_Encode simdutf_contract.fits_length)

text \<open>C38: the LOGIN7 message of integrated security. The receiver reads back the four text fields and
  the security blob, of any size below 4294960000 bytes (so that the 32-bit length of the message does not wrap):
  through the 16-bit length slot, and through the 32-bit one when the blob does not fit it. The slots are where the
  protocol has them, the blob's offset and length at 78 and 80 and its long length at 90 (the comments of the source say
  36, 38 and 86). The length field is the message's length, and the feature list is reachable
  as long as the blob ends within 64 KB.\<close>

theorem BuildLogin7WithSSPI_correct:
  assumes "simdutf_contract U" "list_all (fits U) [host, app_name, server_name, database]" "length blob < 4294960000"
  shows "\<exists>packet m. BuildLogin7WithSSPI U pid host server_name database blob app_name packet_size utf8 = Ret packet \<and>
     m = pk_payload packet \<and> rd_u32le m 0 = Ret (of_nat (length m)) \<and>
     l7_field m 36 = Ret (Utf16LEEncode U host) \<and> l7_field m 48 = Ret (Utf16LEEncode U app_name) \<and>
     l7_field m 52 = Ret (Utf16LEEncode U server_name) \<and> l7_field m 68 = Ret (Utf16LEEncode U database) \<and>
     l7_sspi m = Ret blob \<and>
     (utf8 \<and> length m \<le> 65545 \<longrightarrow>
        l7_features m = Ret [FeatureExtId_UTF8SUPPORT, 0, 0, 0, 0, FeatureExtId_TERMINATOR])"
proof -
  let ?b = "BuildLogin7WithSSPI U pid host server_name database blob app_name packet_size utf8"
  have fit: "fits U host" "fits U app_name" "fits U server_name" "fits U database"
    using assms(2) by simp_all
  note eq = BuildLogin7WithSSPI_eq [OF assms(1) fit assms(3), of pid packet_size utf8]
  then obtain packet where b: "?b = Ret packet" by (cases ?b) auto
  note reads = l7_sspi_reads [OF eq [unfolded b map_res.simps res.inject]
      fits_slots [OF assms(1,2), unfolded list.map] assms(3)]
  show ?thesis using b reads(1-5) reads(6,7,10)
    by (intro exI [of _ packet] exI [of _ "pk_payload packet"]) (simp del: rd_u32le_in)
qed

lemma fits_empty: "simdutf_contract U \<Longrightarrow> fits U []"
  by (simp add: fits_def units_def simdutf_contract.Encode_Nil)

theorem BuildLogin7WithSSPI_correct_witness:
  "\<exists>packet m. BuildLogin7WithSSPI ref_simdutf 7 (bytes_of_str ''db'') (bytes_of_str ''sa'') [] (replicate 70000 7) [] 4096 False =
     Ret packet \<and> m = pk_payload packet \<and> l7_sspi m = Ret (replicate 70000 7)"
  using BuildLogin7WithSSPI_correct [OF ref.simdutf_contract_axioms, of "bytes_of_str ''db''" "[]" "bytes_of_str ''sa''" "[]"
      "replicate 70000 7" 7 4096 False] fits_short fits_empty [OF ref.simdutf_contract_axioms]
  by fastforce

text \<open>an integrated login that asks for UTF-8 support and carries a security blob reaching past
  64 KB sends a message whose feature list cannot be found: the DWORD with its offset is written behind
  the blob, but the 16-bit extension slot that should point at it is clamped to 65535, a position inside
  the blob.\<close>

theorem sspi_extension_misplaced:
  assumes "simdutf_contract U" "list_all (fits U) [host, app_name, server_name, database]"
    and "65536 \<le> length blob" "length blob < 4294960000"
  shows "\<exists>packet m pos. BuildLogin7WithSSPI U pid host server_name database blob app_name packet_size True = Ret packet \<and>
     m = pk_payload packet \<and> rd_u32le m pos = Ret (of_nat (pos + 4)) \<and>
     drop (pos + 4) m = [FeatureExtId_UTF8SUPPORT, 0, 0, 0, 0, FeatureExtId_TERMINATOR] \<and>
     rd_u16le m 56 = Ret 0xFFFF \<and> pos > 0xFFFF"
proof -
  let ?b = "BuildLogin7WithSSPI U pid host server_name database blob app_name packet_size True"
  have fit: "fits U host" "fits U app_name" "fits U server_name" "fits U database"
    using assms(2) by simp_all
  note eq = BuildLogin7WithSSPI_eq [OF assms(1) fit assms(4), of pid packet_size True]
  then obtain packet where b: "?b = Ret packet" by (cases ?b) auto
  note eq = eq [unfolded b map_res.simps res.inject]
  note reads = l7_sspi_reads [OF eq fits_slots [OF assms(1,2), unfolded list.map] assms(4)]
  let ?pos = "94 + length (Utf16LEEncode U host) + length (Utf16LEEncode U app_name) +
    length (Utf16LEEncode U server_name) + length (Utf16LEEncode U database) + length blob"
  have "drop (?pos + 4) (pk_payload packet) = [0x0A, 0, 0, 0, 0, 0xFF]"
    using l7_reads(8) [OF eq, of "?pos - 90"] by (simp add: add.assoc)
  moreover have "rd_u16le (pk_payload packet) 56 = Ret 0xFFFF" "?pos > 0xFFFF"
    using reads(8) assms(3) by (simp_all add: sat16_def del: rd_u16le_in)
  ultimately show ?thesis using b reads(9) [OF TrueI]
    by (intro exI [of _ packet] exI [of _ "pk_payload packet"] exI [of _ ?pos]) (simp del: rd_u16le_in rd_u32le_in)
qed

theorem sspi_extension_misplaced_witness:
  "\<exists>packet. BuildLogin7WithSSPI ref_simdutf 7 (bytes_of_str ''db'') (bytes_of_str ''sa'') [] (replicate 70000 7) [] 4096 True =
     Ret packet \<and> rd_u16le (pk_payload packet) 56 = Ret 0xFFFF"
  using sspi_extension_misplaced [OF ref.simdutf_contract_axioms, of "bytes_of_str ''db''" "[]" "bytes_of_str ''sa''" "[]"
      "replicate 70000 7" 7 4096] fits_short fits_empty [OF ref.simdutf_contract_axioms]
  by fastforce

lemma login7_fedauth_eq:
  fixes U host server_name database app_name data
  defines "h \<equiv> Utf16LEEncode U host" and "a \<equiv> Utf16LEEncode U app_name"
    and "s \<equiv> Utf16LEEncode U server_name" and "d \<equiv> Utf16LEEncode U database"
  defines "off \<equiv> 94 + length h + length a + length s + length d"
  assumes U: "simdutf_contract U"
    and fit: "fits U host" "fits U app_name" "fits U server_name" "fits U database"
  shows "map_res pk_payload (login7_fedauth U pid host server_name database app_name n utf8 (of_nat (length data)) data) =
    Ret (l7_head (of_nat (off + length data + (if utf8 then 15 else 10))) (l7_fixed n pid 0x02 0x10)
      [(94, of_nat (length h div 2)), (of_nat (94 + length h), 0), (of_nat (94 + length h), 0),
       (of_nat (94 + length h), of_nat (length a div 2)), (of_nat (94 + length h + length a), of_nat (length s div 2)),
       (of_nat off, 4), (of_nat (off - length d), 0), (of_nat (off - length d), 0),
       (of_nat (off - length d), of_nat (length d div 2))] (replicate 3 (of_nat off, 0)) 0 @
      (h @ a @ s @ d) @ le32 (of_nat (off + 4)) @ FeatureExtId_FEDAUTH # le32 (of_nat (length data)) @ data @
      (if utf8 then [0x0A, 0, 0, 0, 0] else []) @ [0xFF])"
proof -
  note E = simdutf_contract.EncodeLogin7VarField_eq [OF U]
  have "off \<le> 1118" unfolding off_def h_def a_def s_def d_def
    using fit [THEN simdutf_contract.fits_length [OF U]] by simp
  then have u: "ucast (of_nat (off + 4) :: u16) = (of_nat (off + 4) :: u32)" by (simp only: ucast_of_nat)
  have [simp]: "Utf16LEEncode U [] = []" "fits U []" using U by (simp_all add: simdutf_contract.Encode_Nil fits_empty)
  note enc = h_def [symmetric] a_def [symmetric] s_def [symmetric] d_def [symmetric]
  show ?thesis
    unfolding login7_fedauth_def using u unfolding off_def
    by (simp add: E fit Let_def units_def enc UTF8_SUPPORT_EXT_LEN_def append_defs login7_header_payload
        AppendUtf8SupportFeature_def le32_0 numeral_3_eq_3 ac_simps)
qed

lemma l7_fedauth_reads:
  fixes h a s d feats :: "byte list"
  defines "off \<equiv> 94 + length h + length a + length s + length d"
  assumes m: "m = l7_head tot (l7_fixed n pid f2 f3)
      [(94, of_nat (length h div 2)), (of_nat (94 + length h), 0), (of_nat (94 + length h), 0),
       (of_nat (94 + length h), of_nat (length a div 2)), (of_nat (94 + length h + length a), of_nat (length s div 2)),
       (of_nat off, 4), (of_nat (off - length d), 0), (of_nat (off - length d), 0),
       (of_nat (off - length d), of_nat (length d div 2))] (replicate 3 z) 0 @
      (h @ a @ s @ d) @ le32 (of_nat (off + 4)) @ feats"
    and small: "list_all (\<lambda>x. even (length x) \<and> length x \<le> 256) [h, a, s, d]"
  shows "l7_field m 36 = Ret h" "l7_field m 48 = Ret a" "l7_field m 52 = Ret s" "l7_field m 68 = Ret d"
    "l7_features m = Ret feats" "rd_u32le m 0 = Ret tot" "length m = off + 4 + length feats"
proof -
  note slot = l7_slot [OF length_l7_fixed _ _ m]
  show "l7_field m 36 = Ret h" by (rule slot [of "[]" h _ 0]) (use small in simp_all)
  show "l7_field m 48 = Ret a" by (rule slot [of h a _ 3]) (use small in simp_all)
  show "l7_field m 52 = Ret s" by (rule slot [of "h @ a" s _ 4]) (use small in simp_all)
  show "l7_field m 68 = Ret d" by (rule slot [of "h @ a @ s" d _ 8]) (use small in \<open>simp_all add: off_def\<close>)
  show "l7_features m = Ret feats"
    by (rule l7_features_at [OF length_l7_fixed _ _ m, of "h @ a @ s @ d"]) (use small in \<open>simp_all add: off_def\<close>)
  show "rd_u32le m 0 = Ret tot" "length m = off + 4 + length feats"
    using l7_reads(1,2) [OF m] by (simp_all add: off_def del: rd_u32le_in)
qed

definition fedauth_features :: "byte list \<Rightarrow> bool \<Rightarrow> byte list" where
  "fedauth_features data utf8 =
     FeatureExtId_FEDAUTH # le32 (of_nat (length data)) @ data @
     (if utf8 then [FeatureExtId_UTF8SUPPORT, 0, 0, 0, 0] else []) @ [FeatureExtId_TERMINATOR]"

text \<open>C39: the LOGIN7 messages of federated authentication, with the access token in the message and with
  the token requested later. A receiver reads back host, application, server and database name, and a
  feature list with the FEDAUTH feature (its length, library and echo bits, and the token or the password
  workflow), UTF-8 support when requested, and the terminator; the length field is the message's
  length.\<close>

theorem fedauth_login_correct:
  assumes "simdutf_contract U" "list_all (fits U) [host, app_name, server_name, database]"
    and "length token < 4294960000"
    and "build = (BuildLogin7WithFedAuth U pid host server_name database token echo app_name packet_size utf8,
            (2 OR (if echo then 1 else 0)) # le32 (of_nat (length token)) @ token) \<or>
         build = (BuildLogin7WithADAL U pid host server_name database echo app_name packet_size utf8,
            [4 OR (if echo then 1 else 0), 1])"
  shows "\<exists>packet m. fst build = Ret packet \<and> m = pk_payload packet \<and> rd_u32le m 0 = Ret (of_nat (length m)) \<and>
     l7_field m 36 = Ret (Utf16LEEncode U host) \<and> l7_field m 48 = Ret (Utf16LEEncode U app_name) \<and>
     l7_field m 52 = Ret (Utf16LEEncode U server_name) \<and> l7_field m 68 = Ret (Utf16LEEncode U database) \<and>
     l7_features m = Ret (fedauth_features (snd build) utf8)"
proof -
  obtain r data where build: "build = (r, data)" by (cases build)
  have r: "r = login7_fedauth U pid host server_name database app_name packet_size utf8 (of_nat (length data)) data"
    using assms(4) build
    by (auto simp: BuildLogin7WithFedAuth_def BuildLogin7WithADAL_def Let_def add.commute)
  have fit: "fits U host" "fits U app_name" "fits U server_name" "fits U database"
    using assms(2) by simp_all
  note eq = login7_fedauth_eq [OF assms(1) fit, of pid packet_size utf8 data, folded r]
  then obtain packet where b: "r = Ret packet" by (cases r) auto
  note reads = l7_fedauth_reads [OF eq [unfolded b map_res.simps res.inject] fits_slots [OF assms(1,2), unfolded list.map]]
  show ?thesis using b build reads
    by (intro exI [of _ packet] exI [of _ "pk_payload packet"])
      (simp add: fedauth_features_def ac_simps del: rd_u32le_in)
qed

theorem fedauth_login_correct_witness:
  "\<exists>packet. BuildLogin7WithADAL ref_simdutf 7 (bytes_of_str ''db'') (bytes_of_str ''sa'') [] True [] 4096 True = Ret packet \<and>
     l7_features (pk_payload packet) = Ret [2, 2, 0, 0, 0, 5, 1, 0x0A, 0, 0, 0, 0, 0xFF]"
  using fedauth_login_correct [OF ref.simdutf_contract_axioms, of "bytes_of_str ''db''" "[]" "bytes_of_str ''sa''" "[]" "[]"
      "(BuildLogin7WithADAL ref_simdutf 7 (bytes_of_str ''db'') (bytes_of_str ''sa'') [] True [] 4096 True,
        [4 OR (if True then 1 else 0), 1])" 7 True 4096 True] fits_short fits_empty [OF ref.simdutf_contract_axioms]
  by (auto simp: fedauth_features_def le32_def)

end
