(* ===== verification/Connection.thy ===== *)
theory Connection
  imports Action Socket_Framing Login_Response Login7
begin

text \<open>
  The connection of \<open>src/tds/tds_connection.cpp\<close>: its state machine, the three login sequences with the
  routing hops, batches, cancellation, ping and close. The object is the record \<open>TdsConnection\<close> with its
  socket; what the outside world answers (results of dialling, sending and the TLS handshake, received
  bytes, clock readings) is the field \<open>c_net\<close>, which also collects the bytes handed to the transport.
  Atomic state changes (\<open>compare_exchange_strong\<close>) are tests and updates of the state. The socket pointer
  is never null: nothing moves a connection. Debug output is left out.
\<close>

record network =
  sends :: "send_event list"
  recvs :: "recv_event list"
  handshakes :: "tls_event list"
  dials :: "string option list"
  clock :: "nat \<Rightarrow> int"
  ticks :: nat
  wire :: "byte list"

record client_env =
  e_simd :: simdutf
  e_pid :: u32
  e_hostname :: "byte list"

datatype LoginAttemptOutcome = Success | Route | Failure

record TdsConnection =
  c_socket :: TdsSocket
  c_state :: ConnectionState
  c_request_utf8_support :: bool
  c_utf8_support_acked :: bool
  c_host :: "byte list"
  c_port :: u16
  c_database :: "byte list"
  c_spid :: u16
  c_last_used_at :: int
  c_last_error :: string
  c_last_error_number :: u32
  c_last_error_state :: byte
  c_next_packet_id :: byte
  c_tls_enabled :: bool
  c_connect_timeout_seconds :: int
  c_requested_packet_size :: u32
  c_negotiated_packet_size :: u32
  c_transaction_descriptor :: "byte list"
  c_has_transaction_descriptor :: bool
  c_needs_reset :: bool
  c_fedauth_echo :: bool
  c_has_routing :: bool
  c_routed_server :: "byte list"
  c_routed_port :: u16
  c_tds_server_name :: "byte list"
  c_net :: network

definition new_connection :: "network \<Rightarrow> TdsConnection" where
  "new_connection net =
     \<lparr> c_socket = new_socket, c_state = Disconnected, c_request_utf8_support = True, c_utf8_support_acked = False,
       c_host = [], c_port = 0, c_database = [], c_spid = 0, c_last_used_at = clock net (ticks net), c_last_error = [],
       c_last_error_number = 0, c_last_error_state = 0, c_next_packet_id = 1, c_tls_enabled = False,
       c_connect_timeout_seconds = DEFAULT_CONNECTION_TIMEOUT,
       c_requested_packet_size = of_nat TDS_DEFAULT_PACKET_SIZE, c_negotiated_packet_size = of_nat TDS_DEFAULT_PACKET_SIZE,
       c_transaction_descriptor = replicate 8 0, c_has_transaction_descriptor = False, c_needs_reset = False,
       c_fedauth_echo = False, c_has_routing = False, c_routed_server = [], c_routed_port = 0, c_tds_server_name = [],
       c_net = net\<lparr> ticks := ticks net + 1 \<rparr> \<rparr>"

type_synonym 'a conn_act = "(TdsConnection, 'a) act"

subsection \<open>The socket of a connection\<close>

definition next_event :: "'e \<Rightarrow> 'e list \<Rightarrow> 'e" where
  "next_event dflt events = (case events of [] \<Rightarrow> dflt | e # _ \<Rightarrow> e)"

definition socket_Send :: "byte list \<Rightarrow> bool conn_act" where
  "socket_Send data c =
     (let net = c_net c;
          (ok, s) = Send (next_event (SendError ''Send timeout'' False) (sends net)) (c_socket c)
      in (Ret ok, c\<lparr> c_socket := s,
                    c_net := net\<lparr> sends := tl (sends net), wire := (if ok then wire net @ data else wire net) \<rparr> \<rparr>))"

definition SendPacket :: "tds_packet \<Rightarrow> bool conn_act" where
  "SendPacket packet = socket_Send (Serialize packet)"

definition socket_ReceiveMessage :: "byte list option conn_act" where
  "socket_ReceiveMessage c =
     (case ReceiveMessage (recvs (c_net c)) (c_socket c) of
        None \<Rightarrow> (More, c)
      | Some (r, s, es) \<Rightarrow> (r, c\<lparr> c_socket := s, c_net := (c_net c)\<lparr> recvs := es \<rparr> \<rparr>))"

definition socket_Connect :: "bool conn_act" where
  "socket_Connect c =
     (let net = c_net c; (ok, s) = sock_Connect (next_event (Some ''Connection timed out'') (dials net)) (c_socket c)
      in (Ret ok, c\<lparr> c_socket := s, c_net := net\<lparr> dials := tl (dials net) \<rparr> \<rparr>))"

definition socket_EnableTls :: "bool conn_act" where
  "socket_EnableTls c =
     (let net = c_net c;
          (ok, n, s) = EnableTls (next_event (TlsError ''TLS handshake timeout'' 0) (handshakes net)) (c_socket c)
      in (Ret ok, c\<lparr> c_socket := s, c_net := net\<lparr> handshakes := tl (handshakes net) \<rparr>,
                    c_next_packet_id := c_next_packet_id c + of_nat n \<rparr>))"

definition socket_Close :: "TdsConnection \<Rightarrow> TdsConnection" where
  "socket_Close c = c\<lparr> c_socket := sock_Close (c_socket c) \<rparr>"

definition read_clock :: "int conn_act" where
  "read_clock c = (Ret (clock (c_net c) (ticks (c_net c))), c\<lparr> c_net := (c_net c)\<lparr> ticks := ticks (c_net c) + 1 \<rparr> \<rparr>)"

definition UpdateLastUsed :: "unit conn_act" where
  "UpdateLastUsed = bind_act read_clock (\<lambda>now. upd_act (\<lambda>c. c\<lparr> c_last_used_at := now \<rparr>))"

definition take_packet_id :: "byte conn_act" where
  "take_packet_id c = (Ret (c_next_packet_id c), c\<lparr> c_next_packet_id := c_next_packet_id c + 1 \<rparr>)"

definition fail :: "string \<Rightarrow> 'a \<Rightarrow> 'a conn_act" where
  "fail msg v = after_upd (\<lambda>c. c\<lparr> c_last_error := msg \<rparr>) (ret_act v)"

definition fail_socket :: "string \<Rightarrow> 'a \<Rightarrow> 'a conn_act" where
  "fail_socket msg v = after_upd (\<lambda>c. c\<lparr> c_last_error := msg @ sock_error (c_socket c) \<rparr>) (ret_act v)"

subsection \<open>Set-up\<close>

definition SetRequestedPacketSize :: "nat \<Rightarrow> TdsConnection \<Rightarrow> TdsConnection" where
  "SetRequestedPacketSize packet_size c =
     (if packet_size = 0 then c\<lparr> c_requested_packet_size := of_nat TDS_DEFAULT_PACKET_SIZE \<rparr>
      else c\<lparr> c_requested_packet_size := of_nat
             (if packet_size < TDS_MIN_PACKET_SIZE then TDS_MIN_PACKET_SIZE
              else if packet_size > TDS_MAX_PACKET_SIZE then TDS_MAX_PACKET_SIZE else packet_size) \<rparr>)"

definition SetRequestUtf8Support :: "bool \<Rightarrow> TdsConnection \<Rightarrow> TdsConnection" where
  "SetRequestUtf8Support request c = c\<lparr> c_request_utf8_support := request \<rparr>"

definition SetNeedsReset :: "bool \<Rightarrow> TdsConnection \<Rightarrow> TdsConnection" where
  "SetNeedsReset reset c = c\<lparr> c_needs_reset := reset \<rparr>"

definition NoteFeatureAcks :: "LoginResponse \<Rightarrow> TdsConnection \<Rightarrow> TdsConnection" where
  "NoteFeatureAcks r c = c\<lparr> c_utf8_support_acked := c_request_utf8_support c \<and> utf8_support_acked r \<rparr>"

definition ApplyNegotiatedFraming :: "TdsConnection \<Rightarrow> TdsConnection" where
  "ApplyNegotiatedFraming c =
     (let packet_size = (if unat (c_negotiated_packet_size c) < TDS_MIN_PACKET_SIZE then of_nat TDS_DEFAULT_PACKET_SIZE
                         else c_negotiated_packet_size c);
          frames = of_nat (TDS_RECV_BUFFER_TARGET_BYTES div unat packet_size);
          frames = (if frames < TDS_RECV_MIN_FRAMES then TDS_RECV_MIN_FRAMES else frames)
      in c\<lparr> c_socket := SetReceiveFraming packet_size frames (c_socket c) \<rparr>)"

definition Connect :: "byte list \<Rightarrow> u16 \<Rightarrow> int \<Rightarrow> bool conn_act" where
  "Connect host port timeout_seconds c =
     (if c_state c \<noteq> Disconnected then
        fail (''Invalid state for Connect: '' @ ConnectionStateToString (c_state c)) False c
      else
        after_upd (\<lambda>c. c\<lparr> c_state := Authenticating, c_host := host, c_port := port,
            c_connect_timeout_seconds := timeout_seconds, c_last_error := [] \<rparr>)
          (bind_act socket_Connect (\<lambda>ok.
             if \<not> ok then after_upd (\<lambda>c. c\<lparr> c_last_error := sock_error (c_socket c), c_state := Disconnected \<rparr>) (ret_act False)
             else ret_act True)) c)"

subsection \<open>One login attempt\<close>

definition DoPrelogin :: "bool \<Rightarrow> bool conn_act" where
  "DoPrelogin use_encrypt =
     bind_act take_packet_id (\<lambda>packet_id.
     bind_act (SendPacket (SetPacketId packet_id (BuildPrelogin use_encrypt))) (\<lambda>sent.
     if \<not> sent then fail_socket ''Failed to send PRELOGIN: '' False else
     bind_act socket_ReceiveMessage (\<lambda>message.
     case message of None \<Rightarrow> fail_socket ''Failed to receive PRELOGIN response: '' False
     | Some response \<Rightarrow>
     bind_act (lift_res (ParsePreloginResponse response)) (\<lambda>prelogin_response.
     if \<not> pre_success prelogin_response then fail (''PRELOGIN failed: '' @ pre_error_message prelogin_response) False
     else if use_encrypt then
       (if pre_encryption prelogin_response = EncryptionOption_ENCRYPT_NOT_SUP then
          fail ''TLS requested but server does not support encryption (ENCRYPT_NOT_SUP)'' False
        else if pre_encryption prelogin_response = EncryptionOption_ENCRYPT_OFF then
          fail ''TLS requested but server declined encryption (ENCRYPT_OFF)'' False
        else bind_act socket_EnableTls (\<lambda>ok.
          if \<not> ok then fail_socket ''TLS handshake failed: '' False
          else after_upd (\<lambda>c. c\<lparr> c_tls_enabled := True \<rparr>) (ret_act True)))
     else if pre_encryption prelogin_response = EncryptionOption_ENCRYPT_REQ then
       fail ''Server requires encryption (ENCRYPT_REQ) but use_encrypt=false'' False
     else after_upd (\<lambda>c. c\<lparr> c_tls_enabled := False \<rparr>) (ret_act True)))))"

definition DoPreloginWithFedAuth :: "bool \<Rightarrow> bool conn_act" where
  "DoPreloginWithFedAuth use_encrypt =
     bind_act take_packet_id (\<lambda>packet_id.
     bind_act (SendPacket (SetPacketId packet_id (BuildPreloginWithFedAuth use_encrypt True))) (\<lambda>sent.
     if \<not> sent then fail_socket ''Failed to send PRELOGIN: '' False else
     bind_act socket_ReceiveMessage (\<lambda>message.
     case message of None \<Rightarrow> fail_socket ''Failed to receive PRELOGIN response: '' False
     | Some response \<Rightarrow>
     bind_act (lift_res (ParsePreloginResponse response)) (\<lambda>prelogin_response.
     if \<not> pre_success prelogin_response then fail (''PRELOGIN failed: '' @ pre_error_message prelogin_response) False
     else after_upd (\<lambda>c. c\<lparr> c_fedauth_echo := pre_fedauth_echo prelogin_response \<rparr>)
     (if use_encrypt then
       (if pre_encryption prelogin_response = EncryptionOption_ENCRYPT_NOT_SUP then
          fail ''TLS required for Azure AD but server does not support encryption'' False
        else if pre_encryption prelogin_response = EncryptionOption_ENCRYPT_OFF then
          fail ''TLS required for Azure AD but server declined encryption'' False
        else bind_act socket_EnableTls (\<lambda>ok.
          if \<not> ok then fail_socket ''TLS handshake failed: '' False
          else after_upd (\<lambda>c. c\<lparr> c_tls_enabled := True \<rparr>) (ret_act True)))
     else if pre_encryption prelogin_response = EncryptionOption_ENCRYPT_REQ then
       fail ''Server requires encryption but TLS not requested'' False
     else after_upd (\<lambda>c. c\<lparr> c_tls_enabled := False \<rparr>) (ret_act True))))))"

definition default_app_name :: "byte list \<Rightarrow> byte list" where
  "default_app_name app_name = (if app_name = [] then bytes_of_str ''DuckDB MSSQL Extension'' else app_name)"

definition note_routing :: "LoginResponse \<Rightarrow> TdsConnection \<Rightarrow> TdsConnection" where
  "note_routing r c = c\<lparr> c_has_routing := True, c_routed_server := routed_server r, c_routed_port := routed_port r \<rparr>"

definition note_login :: "LoginResponse \<Rightarrow> TdsConnection \<Rightarrow> TdsConnection" where
  "note_login r c =
     ApplyNegotiatedFraming (c\<lparr> c_spid := spid r, c_negotiated_packet_size := negotiated_packet_size r \<rparr>)"

definition note_error :: "LoginResponse \<Rightarrow> string \<Rightarrow> TdsConnection \<Rightarrow> TdsConnection" where
  "note_error r msg c =
     c\<lparr> c_last_error_number := error_number r, c_last_error_state := ucast (error_state r), c_last_error := msg \<rparr>"

definition DoLogin7 ::
    "client_env \<Rightarrow> byte list \<Rightarrow> byte list \<Rightarrow> byte list \<Rightarrow> byte list \<Rightarrow> LoginAttemptOutcome conn_act" where
  "DoLogin7 env username password db app_name =
     bind_act (get_act id) (\<lambda>c.
     bind_act (lift_res (BuildLogin7 (e_simd env) (e_pid env) (c_host c) username password db (default_app_name app_name)
         (c_requested_packet_size c) (c_request_utf8_support c) (c_tds_server_name c))) (\<lambda>login.
     bind_act take_packet_id (\<lambda>packet_id.
     bind_act (SendPacket (SetPacketId packet_id login)) (\<lambda>sent.
     if \<not> sent then fail_socket ''Failed to send LOGIN7: '' Failure else
     bind_act socket_ReceiveMessage (\<lambda>message.
     case message of None \<Rightarrow> fail_socket ''Failed to receive LOGIN7 response: '' Failure
     | Some response \<Rightarrow>
     bind_act (lift_res (total_res (ParseLoginResponse response))) (\<lambda>r.
     after_upd (NoteFeatureAcks r)
     (if has_routing r then after_upd (note_routing r) (ret_act Route)
      else if \<not> success r then
        after_upd (note_error r
          (if error_number r > 0
           then ''Authentication failed (error '' @ to_string (unat (error_number r)) @ '', state '' @
                  to_string (unat (error_state r)) @ ''): '' @ str_of_bytes (error_message r)
           else ''Authentication failed: '' @ str_of_bytes (error_message r))) (ret_act Failure)
      else after_upd (note_login r) (ret_act Success))))))))"

fun number_packets :: "byte \<Rightarrow> tds_packet list \<Rightarrow> tds_packet list" where
  "number_packets packet_id [] = []"
| "number_packets packet_id (p # ps) = SetPacketId packet_id p # number_packets (packet_id + 1) ps"

fun send_token_packets :: "nat \<Rightarrow> tds_packet list \<Rightarrow> bool conn_act" where
  "send_token_packets i [] = ret_act True"
| "send_token_packets i (p # ps) =
     bind_act (SendPacket p) (\<lambda>sent.
       if \<not> sent then fail_socket (''Failed to send FEDAUTH_TOKEN packet '' @ to_string i @ '': '') False
       else send_token_packets (i + 1) ps)"

definition finish_fedauth :: "LoginResponse \<Rightarrow> LoginAttemptOutcome conn_act" where
  "finish_fedauth r =
     (if has_routing r then after_upd (note_routing r) (ret_act Route)
      else if \<not> success r then
        after_upd (note_error r
          (if error_number r > 0
           then ''Azure AD authentication failed (error '' @ to_string (unat (error_number r)) @ ''): '' @
                  str_of_bytes (error_message r)
           else ''Azure AD authentication failed: '' @ str_of_bytes (error_message r))) (ret_act Failure)
      else after_upd (note_login r) (ret_act Success))"

definition DoLogin7WithFedAuth ::
    "client_env \<Rightarrow> byte list \<Rightarrow> byte list \<Rightarrow> byte list \<Rightarrow> LoginAttemptOutcome conn_act" where
  "DoLogin7WithFedAuth env db fedauth_token app_name =
     bind_act (get_act id) (\<lambda>c.
     bind_act (lift_res (BuildLogin7WithADAL (e_simd env) (e_pid env) (e_hostname env) (c_tds_server_name c) db
         (c_fedauth_echo c) (default_app_name app_name) (c_requested_packet_size c) (c_request_utf8_support c))) (\<lambda>login.
     bind_act take_packet_id (\<lambda>packet_id.
     bind_act (SendPacket (SetPacketId packet_id login)) (\<lambda>sent.
     if \<not> sent then fail_socket ''Failed to send LOGIN7: '' Failure else
     bind_act socket_ReceiveMessage (\<lambda>message.
     case message of None \<Rightarrow> fail_socket ''Failed to receive LOGIN7 response: '' Failure
     | Some response \<Rightarrow>
     bind_act (lift_res (total_res (ParseLoginResponse response))) (\<lambda>r.
     after_upd (NoteFeatureAcks r)
     (if has_fedauth_info r then
        bind_act (lift_res (total_res (map_option Ret (BuildFedAuthTokenMultiPacket fedauth_token TDS_DEFAULT_PACKET_SIZE [])))) (\<lambda>token_packets.
        bind_act (send_token_packets 0 (number_packets 1 token_packets)) (\<lambda>sent.
        if \<not> sent then ret_act Failure else
        bind_act socket_ReceiveMessage (\<lambda>message.
        case message of None \<Rightarrow> fail_socket ''Failed to receive LOGINACK after FEDAUTH_TOKEN: '' Failure
        | Some response \<Rightarrow>
        bind_act (lift_res (total_res (ParseLoginResponse response))) (\<lambda>r.
          after_upd (NoteFeatureAcks r) (finish_fedauth r)))))
      else finish_fedauth r)))))))"

subsection \<open>Integrated security\<close>

text \<open>
  The authenticator of the platform (GSSAPI or SSPI): its first blob and, for the server's blobs so far,
  the next one; either may throw. The factory gets the number of the attempt besides host and port, so
  that it may answer differently each time; an absent factory answers nothing.
\<close>

record authenticator =
  InitialBytes :: "byte list res"
  NextBytes :: "byte list list \<Rightarrow> byte list res"

type_synonym authenticator_factory = "nat \<Rightarrow> byte list \<Rightarrow> u16 \<Rightarrow> authenticator option"

fun send_numbered :: "string \<Rightarrow> nat \<Rightarrow> nat \<Rightarrow> tds_packet list \<Rightarrow> bool conn_act" where
  "send_numbered what count i [] = ret_act True"
| "send_numbered what count i (p # ps) =
     bind_act take_packet_id (\<lambda>packet_id.
     bind_act (SendPacket (SetPacketId packet_id p)) (\<lambda>sent.
       if \<not> sent then fail_socket (what @ to_string (i + 1) @ ''/'' @ to_string count @ '': '') False
       else send_numbered what count (i + 1) ps))"

text \<open>\<open>try { ... } catch (const std::exception &e)\<close> around a call of the authenticator.\<close>

definition catching :: "'a res \<Rightarrow> ('a \<Rightarrow> LoginAttemptOutcome conn_act) \<Rightarrow> LoginAttemptOutcome conn_act" where
  "catching r f =
     (case r of Ret x \<Rightarrow> f x | Throw e \<Rightarrow> fail e Failure | More \<Rightarrow> lift_res More | OOB \<Rightarrow> lift_res OOB)"

fun sspi_rounds :: "nat \<Rightarrow> authenticator \<Rightarrow> nat \<Rightarrow> byte list list \<Rightarrow> LoginAttemptOutcome conn_act" where
  "sspi_rounds fragment_size auth 0 blobs =
     fail ''MSSQL Kerberos auth failed: SPNEGO did not converge in 8 rounds (possible cross-realm misconfiguration)'' Failure"
| "sspi_rounds fragment_size auth (Suc left) blobs =
     bind_act socket_ReceiveMessage (\<lambda>message.
     case message of None \<Rightarrow> fail_socket ''Failed to receive LOGIN7 response (integrated): '' Failure
     | Some response \<Rightarrow>
     bind_act (lift_res (total_res (ParseLoginResponse response))) (\<lambda>r.
     after_upd (NoteFeatureAcks r)
     (if has_routing r then after_upd (note_routing r) (ret_act Route)
      else if success r then after_upd (note_login r) (ret_act Success)
      else if \<not> has_sspi_token r then
        after_upd (note_error r
          (if error_number r > 0
           then ''MSSQL Kerberos auth rejected by server (error '' @ to_string (unat (error_number r)) @ ''): '' @
                  str_of_bytes (error_message r)
           else if error_message r \<noteq> [] then ''MSSQL Kerberos auth rejected: '' @ str_of_bytes (error_message r)
           else ''MSSQL Kerberos auth rejected by server (no SSPI token, no LOGINACK)'')) (ret_act Failure)
      else
        catching (NextBytes auth (blobs @ [sspi_token r])) (\<lambda>next_blob.
        if next_blob = [] then sspi_rounds fragment_size auth left (blobs @ [sspi_token r])
        else
          bind_act (lift_res (total_res (map_option Ret (SplitIntoPackets (BuildSSPIMessage next_blob) fragment_size)))) (\<lambda>packets.
          bind_act (send_numbered ''Failed to send SSPI continuation packet '' (length packets) 0 packets) (\<lambda>sent.
          if \<not> sent then ret_act Failure
          else sspi_rounds fragment_size auth left (blobs @ [sspi_token r])))))))"

definition MAX_SSPI_ROUNDS :: nat where
  "MAX_SSPI_ROUNDS = 8"

definition no_authenticator_message :: "nat \<Rightarrow> TdsConnection \<Rightarrow> string" where
  "no_authenticator_message hop c =
     (if hop = 0 then
        ''MSSQL Error: This build of the mssql extension was compiled without Kerberos / SSPI support. '' @
        ''Rebuild with -DENABLE_KRB5=ON or use SQL authentication.''
      else
        (let target = str_of_bytes (c_host c) @ '':'' @ to_string (unat (c_port c)) in
         ''MSSQL Kerberos auth failed: could not build an authenticator for routed server '' @ target @
         '' (expected SPN MSSQLSvc/'' @ target @ '' unless service_principal_name= overrides it)''))"

definition integrated_attempt ::
    "client_env \<Rightarrow> authenticator_factory \<Rightarrow> byte list \<Rightarrow> bool \<Rightarrow> byte list \<Rightarrow> nat \<Rightarrow> nat \<Rightarrow> LoginAttemptOutcome conn_act" where
  "integrated_attempt env factory db use_encrypt app_name fragment_size hop =
     bind_act (get_act id) (\<lambda>c.
     case factory hop (c_host c) (c_port c) of
       None \<Rightarrow> fail (no_authenticator_message hop c) Failure
     | Some auth \<Rightarrow>
     bind_act (DoPrelogin use_encrypt) (\<lambda>ok.
     if \<not> ok then ret_act Failure else
     catching (InitialBytes auth) (\<lambda>initial_blob.
     if initial_blob = [] then
       fail ''MSSQL Kerberos auth failed: authenticator returned empty initial SPNEGO blob'' Failure
     else
     bind_act (get_act id) (\<lambda>c.
     bind_act (lift_res (BuildLogin7WithSSPI (e_simd env) (e_pid env) (e_hostname env)
         (if c_tds_server_name c = [] then c_host c else c_tds_server_name c) db initial_blob (default_app_name app_name)
         (c_requested_packet_size c) (c_request_utf8_support c))) (\<lambda>login.
     bind_act (lift_res (total_res (map_option Ret (SplitIntoPackets login fragment_size)))) (\<lambda>login_packets.
     bind_act (send_numbered ''Failed to send LOGIN7 (integrated) packet '' (length login_packets) 0 login_packets) (\<lambda>sent.
     if \<not> sent then ret_act Failure else sspi_rounds fragment_size auth MAX_SSPI_ROUNDS [])))))))"

subsection \<open>Routing hops\<close>

definition rfind :: "byte \<Rightarrow> byte list \<Rightarrow> nat option" where
  "rfind x s = (let tail = takeWhile (\<lambda>b. b \<noteq> x) (rev s) in
     if length tail = length s then None else Some (length s - length tail - 1))"

definition COLON :: byte where "COLON = 0x3A"
definition BACKSLASH :: byte where "BACKSLASH = 0x5C"

definition routed_port_suffix :: "byte list \<Rightarrow> u16 \<Rightarrow> byte list \<times> u16" where
  "routed_port_suffix server port =
     (case rfind COLON server of
        None \<Rightarrow> (server, port)
      | Some last_colon \<Rightarrow>
          (let port_str = drop (last_colon + 1) server in
           if port_str \<noteq> [] \<and> list_all is_digit port_str \<and> digits_value port_str \<le> 2147483647 \<and>
              digits_value port_str > 0 \<and> digits_value port_str \<le> 65535
           then (take last_colon server, of_nat (digits_value port_str)) else (server, port)))"

definition NormalizeRoutedTarget :: "byte list \<Rightarrow> u16 \<Rightarrow> (byte list \<times> u16) conn_act" where
  "NormalizeRoutedTarget server port =
     (let (next_server, next_port) = routed_port_suffix server port
      in after_upd (\<lambda>c. c\<lparr> c_tds_server_name := next_server \<rparr>)
           (ret_act (takeWhile (\<lambda>b. b \<noteq> BACKSLASH) next_server, next_port)))"

definition MAX_ROUTING_HOPS :: nat where
  "MAX_ROUTING_HOPS = 5"

definition reset_attempt :: "TdsConnection \<Rightarrow> TdsConnection" where
  "reset_attempt c = c\<lparr> c_has_routing := False, c_routed_server := [], c_routed_port := 0, c_last_error_number := 0,
     c_last_error_state := 0, c_next_packet_id := 1, c_tls_enabled := False, c_fedauth_echo := False \<rparr>"

definition disconnect :: "TdsConnection \<Rightarrow> TdsConnection" where
  "disconnect c = socket_Close (c\<lparr> c_state := Disconnected \<rparr>)"

definition too_many_hops :: "TdsConnection \<Rightarrow> string" where
  "too_many_hops c = ''Too many routing hops (6) - aborting; last routed target was '' @ str_of_bytes (c_routed_server c) @
     '':'' @ to_string (unat (c_routed_port c))"

text \<open>The loop over \<open>routing_hop\<close>; the argument \<open>left\<close> is \<open>MAX_ROUTING_HOPS - routing_hop\<close>.\<close>

fun routing_loop :: "(nat \<Rightarrow> LoginAttemptOutcome conn_act) \<Rightarrow> nat \<Rightarrow> bool conn_act" where
  "routing_loop attempt left =
     after_upd reset_attempt (bind_act (attempt (MAX_ROUTING_HOPS - left)) (\<lambda>outcome.
     case outcome of
       Success \<Rightarrow> after_upd (\<lambda>c. c\<lparr> c_state := Idle \<rparr>) (ret_act True)
     | Failure \<Rightarrow> after_upd disconnect (ret_act False)
     | Route \<Rightarrow>
         (case left of
            0 \<Rightarrow> after_upd (\<lambda>c. disconnect (c\<lparr> c_last_error := too_many_hops c \<rparr>)) (ret_act False)
          | Suc left' \<Rightarrow>
              bind_act (get_act id) (\<lambda>c.
              bind_act (NormalizeRoutedTarget (c_routed_server c) (c_routed_port c)) (\<lambda>(next_server, next_port).
              after_upd (\<lambda>c. (socket_Close c)\<lparr> c_host := next_server, c_port := next_port \<rparr>)
              (bind_act socket_Connect (\<lambda>ok.
               if \<not> ok then
                 after_upd (\<lambda>c. c\<lparr> c_last_error := ''Failed to connect to routed server '' @ str_of_bytes next_server @
                     '':'' @ to_string (unat next_port) @ '': '' @ sock_error (c_socket c), c_state := Disconnected \<rparr>) (ret_act False)
               else routing_loop attempt left')))))))"

declare routing_loop.simps [simp del]

definition RunWithRoutingHops :: "(nat \<Rightarrow> LoginAttemptOutcome conn_act) \<Rightarrow> bool conn_act" where
  "RunWithRoutingHops attempt = routing_loop attempt MAX_ROUTING_HOPS"

subsection \<open>Authentication\<close>

definition authenticate :: "byte list \<Rightarrow> (nat \<Rightarrow> LoginAttemptOutcome conn_act) \<Rightarrow> bool conn_act" where
  "authenticate db attempt c =
     (if c_state c \<noteq> Authenticating then fail ''Cannot authenticate: not in Authenticating state'' False c
      else
        after_upd (\<lambda>c. c\<lparr> c_tds_server_name := c_host c, c_database := db \<rparr>)
          (bind_act (RunWithRoutingHops attempt) (\<lambda>ok.
             if \<not> ok then after_upd (\<lambda>c. c\<lparr> c_database := [] \<rparr>) (ret_act False)
             else bind_act UpdateLastUsed (\<lambda>_. ret_act True))) c)"

definition Authenticate ::
    "client_env \<Rightarrow> byte list \<Rightarrow> byte list \<Rightarrow> byte list \<Rightarrow> bool \<Rightarrow> byte list \<Rightarrow> bool conn_act" where
  "Authenticate env username password db use_encrypt app_name =
     authenticate db (\<lambda>hop. bind_act (DoPrelogin use_encrypt) (\<lambda>ok.
       if \<not> ok then ret_act Failure else DoLogin7 env username password db app_name))"

definition AuthenticateWithFedAuth ::
    "client_env \<Rightarrow> byte list \<Rightarrow> byte list \<Rightarrow> bool \<Rightarrow> byte list \<Rightarrow> bool conn_act" where
  "AuthenticateWithFedAuth env db fedauth_token use_encrypt app_name =
     authenticate db (\<lambda>hop. bind_act (DoPreloginWithFedAuth use_encrypt) (\<lambda>ok.
       if \<not> ok then ret_act Failure else DoLogin7WithFedAuth env db fedauth_token app_name))"

definition AuthenticateIntegrated ::
    "client_env \<Rightarrow> byte list \<Rightarrow> authenticator_factory \<Rightarrow> bool \<Rightarrow> byte list \<Rightarrow> nat \<Rightarrow> bool conn_act" where
  "AuthenticateIntegrated env db factory use_encrypt app_name login7_max_packet =
     (let fragment_size = (if login7_max_packet \<ge> 256 \<and> login7_max_packet \<le> TDS_MAX_PACKET_SIZE
                           then login7_max_packet else TDS_DEFAULT_PACKET_SIZE)
      in authenticate db (integrated_attempt env factory db use_encrypt app_name fragment_size))"

subsection \<open>Liveness, cancellation and close\<close>

definition IsAlive :: "TdsConnection \<Rightarrow> bool" where
  "IsAlive c \<longleftrightarrow> c_state c \<noteq> Disconnected \<and> connected (c_socket c)"

definition Ping :: "client_env \<Rightarrow> bool conn_act" where
  "Ping env c =
     (if c_state c \<noteq> Idle then (Ret (c_state c = Executing), c)
      else
        after_upd (\<lambda>c. c\<lparr> c_state := Executing \<rparr>)
        (bind_act take_packet_id (\<lambda>packet_id.
         bind_act (SendPacket (SetPacketId packet_id (BuildPing (e_simd env)))) (\<lambda>sent.
         bind_act (if sent then
                     bind_act socket_ReceiveMessage (\<lambda>message.
                     case message of None \<Rightarrow> ret_act False
                     | Some response \<Rightarrow> lift_res (total_res (IsSuccessResponse response)))
                   else ret_act False) (\<lambda>ok.
         if ok then after_upd (\<lambda>c. c\<lparr> c_state := Idle \<rparr>) (bind_act UpdateLastUsed (\<lambda>_. ret_act True))
         else after_upd (\<lambda>c. c\<lparr> c_last_error := ''Ping failed: '' @ sock_error (c_socket c), c_state := Disconnected \<rparr>)
                (ret_act False))))) c)"

definition ValidateWithPing :: "client_env \<Rightarrow> bool conn_act" where
  "ValidateWithPing env c = (if \<not> IsAlive c then (Ret False, c) else Ping env c)"

definition SendAttention :: "bool conn_act" where
  "SendAttention c =
     (if c_state c \<noteq> Executing then (Ret False, c)
      else
        after_upd (\<lambda>c. c\<lparr> c_state := Cancelling \<rparr>)
        (bind_act take_packet_id (\<lambda>packet_id.
         bind_act (SendPacket (SetPacketId packet_id BuildAttention)) (\<lambda>sent.
         if \<not> sent then
           after_upd (\<lambda>c. c\<lparr> c_last_error := ''Failed to send ATTENTION: '' @ sock_error (c_socket c), c_state := Disconnected \<rparr>)
             (ret_act False)
         else ret_act True))) c)"

lemma socket_ReceiveMessage_shorter:
  "socket_ReceiveMessage c = (Ret (Some x), c') \<Longrightarrow> shorter (recvs (c_net c')) (c_socket c') (recvs (c_net c)) (c_socket c)"
  by (auto simp: socket_ReceiveMessage_def dest: ReceiveMessage_shorter split: option.splits prod.splits)

function attention_wait :: "int \<Rightarrow> int \<Rightarrow> bool conn_act" where
  "attention_wait start timeout_ms c =
     (let elapsed = clock (c_net c) (ticks (c_net c)) - start; c = snd (read_clock c) in
      if elapsed \<ge> timeout_ms then
        (Ret False, c\<lparr> c_last_error := ''ATTENTION acknowledgment timeout'', c_state := Disconnected \<rparr>)
      else
        (case socket_ReceiveMessage c of
           (Ret (Some response), c) \<Rightarrow>
             (case total_res (ParseDoneForAttentionAck response) of
                Ret acked \<Rightarrow>
                  (if acked then bind_act UpdateLastUsed (\<lambda>_. ret_act True) (c\<lparr> c_state := Idle \<rparr>)
                   else attention_wait start timeout_ms c)
              | Throw e \<Rightarrow> (Throw e, c) | More \<Rightarrow> (More, c) | OOB \<Rightarrow> (OOB, c))
         | (Ret None, c) \<Rightarrow> (Ret False, c\<lparr> c_state := Disconnected \<rparr>)
         | (Throw e, c) \<Rightarrow> (Throw e, c)
         | (More, c) \<Rightarrow> (More, c)
         | (OOB, c) \<Rightarrow> (OOB, c)))"
  by pat_completeness auto
termination
  by (relation "inv_image (less_than <*lex*> less_than)
        (\<lambda>(start, timeout_ms, c). (length (recvs (c_net c)),
           length (receive_buffer (c_socket c)) - receive_pos (c_socket c)))")
    (auto simp: read_clock_def shorter_def dest!: socket_ReceiveMessage_shorter [OF sym])

declare attention_wait.simps [simp del]

definition WaitForAttentionAck :: "int \<Rightarrow> bool conn_act" where
  "WaitForAttentionAck timeout_ms c =
     (if c_state c \<noteq> Cancelling then (Ret False, c)
      else bind_act read_clock (\<lambda>start. attention_wait start timeout_ms) c)"

definition Close :: "unit conn_act" where
  "Close c =
     (if c_state c = Disconnected then (Ret (), c)
      else
        bind_act (if c_state c = Executing
                  then bind_act SendAttention (\<lambda>_. WaitForAttentionAck (CANCELLATION_TIMEOUT * 1000))
                  else ret_act True) (\<lambda>_.
        upd_act (\<lambda>c. (socket_Close c)\<lparr> c_state := Disconnected, c_spid := 0, c_database := [] \<rparr>)) c)"

definition TransitionState :: "ConnectionState \<Rightarrow> ConnectionState \<Rightarrow> bool conn_act" where
  "TransitionState from_state to_state c =
     (if c_state c = from_state then (Ret True, c\<lparr> c_state := to_state \<rparr>) else (Ret False, c))"

text \<open>The clock is in milliseconds; rounding a negative duration does not matter for the comparison.\<close>

definition IsLongIdle :: "bool conn_act" where
  "IsLongIdle = bind_act read_clock (\<lambda>now. get_act (\<lambda>c. (now - c_last_used_at c) div 1000 > LONG_IDLE_THRESHOLD))"

subsection \<open>Transactions and batches\<close>

definition SetTransactionDescriptor :: "byte list option \<Rightarrow> TdsConnection \<Rightarrow> TdsConnection" where
  "SetTransactionDescriptor descriptor c =
     (case descriptor of
        Some d \<Rightarrow> c\<lparr> c_transaction_descriptor := take 8 d, c_has_transaction_descriptor := True \<rparr>
      | None \<Rightarrow> c\<lparr> c_transaction_descriptor := replicate 8 0, c_has_transaction_descriptor := False \<rparr>)"

definition GetTransactionDescriptor :: "TdsConnection \<Rightarrow> byte list option" where
  "GetTransactionDescriptor c = (if c_has_transaction_descriptor c then Some (c_transaction_descriptor c) else None)"

definition ClearTransactionDescriptor :: "TdsConnection \<Rightarrow> TdsConnection" where
  "ClearTransactionDescriptor c = c\<lparr> c_transaction_descriptor := replicate 8 0, c_has_transaction_descriptor := False \<rparr>"

definition mark_reset :: "tds_packet list \<Rightarrow> tds_packet list" where
  "mark_reset packets = (case packets of [] \<Rightarrow> []
     | first # rest \<Rightarrow> SetStatus (pk_status first OR PacketStatus_RESET_CONNECTION) first # rest)"

fun send_tls_packets :: "nat \<Rightarrow> nat \<Rightarrow> tds_packet list \<Rightarrow> bool conn_act" where
  "send_tls_packets i count [] = ret_act True"
| "send_tls_packets i count (p # ps) =
     bind_act (SendPacket p) (\<lambda>sent.
       if \<not> sent then
         after_upd (\<lambda>c. c\<lparr> c_last_error := ''Failed to send TLS packet '' @ to_string (i + 1) @ ''/'' @ to_string count @
             '': '' @ sock_error (c_socket c), c_state := Disconnected \<rparr>) (ret_act False)
       else send_tls_packets (i + 1) count ps)"

definition send_batch :: "tds_packet list \<Rightarrow> bool conn_act" where
  "send_batch packets =
     bind_act (get_act id) (\<lambda>c.
     if length packets > 1 then
       (let numbered = number_packets 1 packets in
        if \<not> tls_context (c_socket c) then
          bind_act (socket_Send (concat (map Serialize numbered))) (\<lambda>sent.
            if \<not> sent then
              after_upd (\<lambda>c. c\<lparr> c_last_error := ''Failed to send multi-packet SQL_BATCH: '' @ sock_error (c_socket c),
                  c_state := Disconnected \<rparr>) (ret_act False)
            else ret_act True)
        else send_tls_packets 0 (length packets) numbered)
     else
       (case packets of
          [] \<Rightarrow> ret_act True
        | packet # _ \<Rightarrow>
            bind_act take_packet_id (\<lambda>packet_id.
            bind_act (SendPacket (SetPacketId packet_id packet)) (\<lambda>sent.
              if \<not> sent then
                after_upd (\<lambda>c. c\<lparr> c_last_error := ''Failed to send SQL_BATCH: '' @ sock_error (c_socket c),
                    c_state := Disconnected \<rparr>) (ret_act False)
              else ret_act True))))"

definition ExecuteBatch :: "client_env \<Rightarrow> byte list \<Rightarrow> bool conn_act" where
  "ExecuteBatch env sql c =
     (if c_state c \<noteq> Idle then
        fail (''Cannot execute: connection not in Idle state (current: '' @ ConnectionStateToString (c_state c) @ '')'') False c
      else
        after_upd (\<lambda>c. c\<lparr> c_state := Executing \<rparr>)
        (bind_act (lift_res (total_res (map_option Ret (BuildSqlBatchMultiPacket (e_simd env) sql
            (unat (c_negotiated_packet_size c)) (GetTransactionDescriptor c))))) (\<lambda>packets.
         if c_needs_reset c \<and> packets \<noteq> []
         then after_upd (\<lambda>c. c\<lparr> c_needs_reset := False \<rparr>) (send_batch (mark_reset packets))
         else send_batch packets)) c)"

definition ReceiveData :: "nat \<Rightarrow> byte list option conn_act" where
  "ReceiveData buffer_size c =
     (if c_state c \<noteq> Executing \<and> c_state c \<noteq> Cancelling then
        fail ''Cannot receive: connection not in Executing or Cancelling state'' None c
      else
        (let net = c_net c;
             (received, s) = Receive buffer_size (next_event poll_timeout (recvs net)) (c_socket c);
             c = c\<lparr> c_socket := s, c_net := net\<lparr> recvs := tl (recvs net) \<rparr> \<rparr>
         in case received of
              None \<Rightarrow> (Ret None, c\<lparr> c_last_error := ''Receive error: '' @ sock_error s, c_state := Disconnected \<rparr>)
            | Some [] \<Rightarrow> (Ret (Some []), c\<lparr> c_state := Disconnected \<rparr>)
            | Some bs \<Rightarrow> (Ret (Some bs), c)))"

end
