(* ===== verification/Connection_Login.thy ===== *)
theory Connection_Login
  imports Connection
begin

text \<open>
  The contract of a login. An attempt runs on a connected socket in state \<open>Authenticating\<close>; it may not
  touch the state, and reports success only on a live socket without a pending route. Those obligations,
  stated in the code next to \<open>RunWithRoutingHops\<close>, are the locale \<open>login_attempt\<close>; the driver's promise is
  proved inside it, and the three kinds of login are its interpretations.
\<close>

definition conn_inv :: "TdsConnection \<Rightarrow> bool" where
  "conn_inv c \<longleftrightarrow> sock_inv (c_socket c) \<and> TDS_MIN_PACKET_SIZE \<le> unat (c_negotiated_packet_size c) \<and>
     unat (c_negotiated_packet_size c) \<le> TDS_MAX_PACKET_SIZE \<and> length (c_transaction_descriptor c) = 8"

definition pending_login :: "TdsConnection \<Rightarrow> bool" where
  "pending_login c \<longleftrightarrow> conn_inv c \<and> c_state c = Authenticating"

definition open_login :: "TdsConnection \<Rightarrow> bool" where
  "open_login c \<longleftrightarrow> pending_login c \<and> connected (c_socket c) \<and> \<not> c_has_routing c"

definition thrown :: "TdsConnection \<Rightarrow> bool" where
  "thrown c \<longleftrightarrow> pending_login c \<and> connected (c_socket c)"

definition attempt_post :: "LoginAttemptOutcome \<Rightarrow> TdsConnection \<Rightarrow> bool" where
  "attempt_post result c \<longleftrightarrow> pending_login c \<and>
     (result = Success \<longrightarrow> connected (c_socket c) \<and> \<not> c_has_routing c) \<and>
     (result = Route \<longrightarrow> c_routed_server c \<noteq> [])"

definition step_post :: "bool \<Rightarrow> TdsConnection \<Rightarrow> bool" where
  "step_post ok c \<longleftrightarrow> (if ok then open_login c else pending_login c)"

named_theorems login_rules \<open>a first step of a login routine and what remains\<close>

lemma open_pending: "open_login c \<Longrightarrow> pending_login c" "open_login c \<Longrightarrow> thrown c"
  by (simp_all add: open_login_def thrown_def)

subsection \<open>Steps on the socket\<close>

lemma runs_SendPacket: "runs open_login (SendPacket p) step_post thrown"
  by (rule runsI) (auto simp: SendPacket_def socket_Send_def Send_def step_post_def open_login_def pending_login_def
      conn_inv_def sock_inv_def Let_def split: send_event.splits)

lemma runs_ReceiveMessage:
  "runs open_login socket_ReceiveMessage (\<lambda>m. step_post (m \<noteq> None)) thrown"
proof (rule runsI)
  fix c assume c: "open_login c"
  then have inv: "sock_inv (c_socket c)" by (simp add: open_login_def pending_login_def conn_inv_def)
  from ReceiveMessage_returns [OF this, of "recvs (c_net c)"] obtain r s es where
    r: "ReceiveMessage (recvs (c_net c)) (c_socket c) = Some (r, s, es)" "r \<noteq> OOB" "r \<noteq> More" "sock_inv s" by blast
  with c show "ends (\<lambda>m. step_post (m \<noteq> None)) thrown (socket_ReceiveMessage c)"
    by (cases r) (auto simp: socket_ReceiveMessage_def step_post_def open_login_def pending_login_def conn_inv_def
        thrown_def dest: ReceiveMessage_connected)
qed

lemma runs_EnableTls: "runs open_login socket_EnableTls step_post thrown"
  by (rule runsI) (auto simp: socket_EnableTls_def EnableTls_def step_post_def open_login_def pending_login_def
      conn_inv_def sock_inv_def Let_def split: tls_event.splits)

lemma runs_take_packet_id: "runs open_login take_packet_id (\<lambda>_. open_login) thrown"
  by (rule runsI) (simp add: take_packet_id_def open_login_def pending_login_def conn_inv_def)

lemma runs_get_open: "runs open_login (get_act f) (\<lambda>_. open_login) thrown"
  by (rule runs_get)

subsection \<open>Values computed in between\<close>

lemma runs_lift:
  "r \<noteq> OOB \<Longrightarrow> r \<noteq> More \<Longrightarrow> runs open_login (lift_res r) (\<lambda>x c. open_login c \<and> r = Ret x) thrown"
  by (rule runsI, cases r) (auto simp: lift_res_def open_pending)

lemma runs_lift_bind:
  assumes "r \<noteq> OOB" "r \<noteq> More" and "\<And>x. r = Ret x \<Longrightarrow> runs open_login (f x) Q thrown"
  shows "runs open_login (bind_act (lift_res r) f) Q thrown"
proof (rule runs_bind [OF runs_lift [OF assms(1,2)]])
  fix x
  show "runs (\<lambda>c. open_login c \<and> r = Ret x) (f x) Q thrown"
    using assms(3) [of x] by (auto simp: runs_def)
qed

lemma runs_parse_prelogin [login_rules]:
  assumes "\<And>p. runs open_login (f p) Q thrown"
  shows "runs open_login (bind_act (lift_res (ParsePreloginResponse d)) f) Q thrown"
  using ParsePreloginResponse_Ret [of d] by (intro runs_lift_bind assms) auto

lemma runs_parse_login [login_rules]:
  assumes "\<And>r. lr_ok r \<Longrightarrow> runs open_login (f r) Q thrown"
  shows "runs open_login (bind_act (lift_res (total_res (ParseLoginResponse d))) f) Q thrown"
  using ParseLoginResponse_ok [of d] by (intro runs_lift_bind assms) (auto simp: total_res_def)

lemma EncodeLogin7VarField_outcome: "EncodeLogin7VarField U n s off ob \<noteq> OOB \<and> EncodeLogin7VarField U n s off ob \<noteq> More"
  by (simp add: EncodeLogin7VarField_def Let_def)

lemmas field_outcome = EncodeLogin7VarField_outcome [THEN conjunct1] EncodeLogin7VarField_outcome [THEN conjunct2]

lemma login7_outcomes:
  "BuildLogin7 U pid h u p d a n b s \<noteq> OOB" "BuildLogin7 U pid h u p d a n b s \<noteq> More"
  "BuildLogin7WithADAL U pid h s d e a n b \<noteq> OOB" "BuildLogin7WithADAL U pid h s d e a n b \<noteq> More"
  "BuildLogin7WithSSPI U pid h s d blob a n b \<noteq> OOB" "BuildLogin7WithSSPI U pid h s d blob a n b \<noteq> More"
  by (simp_all add: BuildLogin7_def BuildLogin7WithADAL_def BuildLogin7WithSSPI_def login7_fedauth_def Let_def field_outcome
      bind_res_OOB_iff bind_res_More_iff split: prod.splits)

lemma runs_build [login_rules]:
  "(\<And>x. runs open_login (f x) Q thrown) \<Longrightarrow>
     runs open_login (bind_act (lift_res (BuildLogin7 U pid h u p d a n b s)) f) Q thrown"
  "(\<And>x. runs open_login (f x) Q thrown) \<Longrightarrow>
     runs open_login (bind_act (lift_res (BuildLogin7WithADAL U pid h s d e a n b)) f) Q thrown"
  "(\<And>x. runs open_login (f x) Q thrown) \<Longrightarrow>
     runs open_login (bind_act (lift_res (BuildLogin7WithSSPI U pid h s d blob a n b)) f) Q thrown"
  by (intro runs_lift_bind login7_outcomes; assumption)+

subsection \<open>Rules that follow the program text\<close>

lemmas [login_rules] = runs_bind [OF runs_SendPacket] runs_bind [OF runs_ReceiveMessage] runs_bind [OF runs_EnableTls]
  runs_bind [OF runs_take_packet_id] runs_bind [OF runs_get_open]

lemma runs_branch [login_rules]:
  assumes "runs pending_login m Q E" "runs open_login n Q E"
  shows "runs (step_post ok) (if \<not> ok then m else n) Q E"
  using assms by (cases ok) (simp_all add: step_post_def [abs_def])

lemma runs_message [login_rules]:
  assumes "runs pending_login m Q E" "\<And>response. runs open_login (n response) Q E"
  shows "runs (step_post (x \<noteq> None)) (case x of None \<Rightarrow> m | Some response \<Rightarrow> n response) Q E"
  using assms by (cases x) (simp_all add: step_post_def [abs_def])

lemma runs_open_if [login_rules]:
  "(b \<Longrightarrow> runs open_login m Q E) \<Longrightarrow> (\<not> b \<Longrightarrow> runs open_login n Q E) \<Longrightarrow> runs open_login (if b then m else n) Q E"
  by simp

lemma runs_return: "(\<And>c. P c \<Longrightarrow> Q v c) \<Longrightarrow> runs P (ret_act v) Q E"
  by (rule runs_ret)

lemma runs_update_return: "(\<And>c. P c \<Longrightarrow> Q v (f c)) \<Longrightarrow> runs P (after_upd f (ret_act v)) Q E"
  by (simp add: runs_def after_upd_def ret_act_def)

lemma runs_update: "(\<And>c. P c \<Longrightarrow> P' (f c)) \<Longrightarrow> runs P' m Q E \<Longrightarrow> runs P (after_upd f m) Q E"
  by (simp add: runs_def after_upd_def)

lemma runs_failing [login_rules]:
  assumes "\<And>c. pending_login c \<Longrightarrow> Q v c"
  shows "runs pending_login (fail msg v) Q E" "runs open_login (fail msg v) Q E"
    "runs pending_login (fail_socket msg v) Q E" "runs open_login (fail_socket msg v) Q E"
  using assms unfolding fail_def fail_socket_def
  by (intro runs_update_return; simp add: open_login_def pending_login_def conn_inv_def)+

lemma runs_open_pending: "runs pending_login m Q E \<Longrightarrow> runs open_login m Q E"
  by (simp add: runs_def open_pending)

lemma posts:
  "attempt_post Failure c \<longleftrightarrow> pending_login c" "step_post False c \<longleftrightarrow> pending_login c" "step_post True c \<longleftrightarrow> open_login c"
  by (simp_all add: attempt_post_def step_post_def)

subsection \<open>The attempts\<close>

lemma set_flag [simp]:
  "open_login (c\<lparr> c_tls_enabled := b \<rparr>) = open_login c" "open_login (c\<lparr> c_fedauth_echo := b \<rparr>) = open_login c"
  "open_login (NoteFeatureAcks r c) = open_login c"
  by (simp_all add: open_login_def pending_login_def conn_inv_def NoteFeatureAcks_def)

lemma runs_flags:
  "runs open_login m Q E \<Longrightarrow> runs open_login (after_upd (NoteFeatureAcks r) m) Q E"
  "runs open_login m Q E \<Longrightarrow> runs open_login (after_upd (\<lambda>c. c\<lparr> c_fedauth_echo := b \<rparr>) m) Q E"
  by (simp_all add: runs_update [of open_login open_login])

lemma runs_Prelogin: "runs open_login (DoPrelogin e) step_post thrown"
  unfolding DoPrelogin_def by (intro login_rules runs_update_return) (simp_all add: posts)

lemma runs_PreloginWithFedAuth: "runs open_login (DoPreloginWithFedAuth e) step_post thrown"
  unfolding DoPreloginWithFedAuth_def
  by (intro login_rules runs_flags runs_update_return) (simp_all add: posts)

lemma note_routing_post: "open_login c \<Longrightarrow> lr_ok r \<Longrightarrow> has_routing r \<Longrightarrow> attempt_post Route (note_routing r c)"
  by (simp add: open_login_def pending_login_def attempt_post_def note_routing_def conn_inv_def lr_ok_def)

lemma note_error_post: "open_login c \<Longrightarrow> attempt_post Failure (note_error r msg c)"
  by (simp add: open_login_def pending_login_def attempt_post_def note_error_def conn_inv_def)

lemma note_login_post: "open_login c \<Longrightarrow> lr_ok r \<Longrightarrow> attempt_post Success (note_login r c)"
  by (simp add: open_login_def pending_login_def attempt_post_def note_login_def ApplyNegotiatedFraming_def
      SetReceiveFraming_def conn_inv_def sock_inv_def lr_ok_def Let_def)

lemma note_error_pending: "open_login c \<Longrightarrow> pending_login (note_error r msg c)"
  using note_error_post [of c r msg] by (simp add: attempt_post_def)

lemmas note_posts = note_routing_post note_error_pending note_login_post

lemma runs_DoLogin7: "runs open_login (DoLogin7 env u p d a) attempt_post thrown"
  unfolding DoLogin7_def
  by (intro login_rules runs_flags runs_update_return) (simp_all add: posts note_posts)

lemma runs_finish_fedauth: "lr_ok r \<Longrightarrow> runs open_login (finish_fedauth r) attempt_post thrown"
  unfolding finish_fedauth_def by (intro runs_if runs_update_return) (simp_all add: posts note_posts)

lemma runs_send_token_packets: "runs open_login (send_token_packets i ps) step_post thrown"
proof (induction ps arbitrary: i)
  case Nil
  show ?case unfolding send_token_packets.simps by (rule runs_return) (simp add: posts)
next
  case (Cons p ps)
  show ?case unfolding send_token_packets.simps by (intro login_rules Cons.IH) (simp_all add: posts)
qed

lemma runs_send_numbered: "runs open_login (send_numbered what n i ps) step_post thrown"
proof (induction ps arbitrary: i)
  case Nil
  show ?case unfolding send_numbered.simps by (rule runs_return) (simp add: posts)
next
  case (Cons p ps)
  show ?case unfolding send_numbered.simps by (intro login_rules Cons.IH) (simp_all add: posts)
qed

lemmas runs_sending = runs_bind [OF runs_send_token_packets] runs_bind [OF runs_send_numbered] runs_bind [OF runs_Prelogin]
  runs_bind [OF runs_PreloginWithFedAuth]

lemma runs_packets:
  assumes "ps \<noteq> None" "\<And>x. runs open_login (f x) Q thrown"
  shows "runs open_login (bind_act (lift_res (total_res (map_option Ret ps))) f) Q thrown"
  using assms by (intro runs_lift_bind) (auto simp: total_res_def)

lemma split_returns:
  "SplitIntoPackets message n \<noteq> None" "BuildFedAuthTokenMultiPacket token TDS_DEFAULT_PACKET_SIZE nonce \<noteq> None"
proof -
  define k where "k = (if n > TDS_HEADER_SIZE then n - TDS_HEADER_SIZE else TDS_DEFAULT_PACKET_SIZE - TDS_HEADER_SIZE)"
  have "0 < k" by (simp add: k_def)
  have "pk_payload message \<noteq> []" if "\<not> length (pk_payload message) \<le> k" using that by auto
  with split_loop_carries [OF \<open>0 < k\<close>, of 0 "pk_payload message" "pk_type message" "[]"]
  show "SplitIntoPackets message n \<noteq> None"
    by (fastforce simp: SplitIntoPackets_def Let_def simp flip: k_def)
  have "fedauth_payload token nonce \<noteq> []" by (simp add: fedauth_payload_def le32_def Let_def)
  with packetize_carries [of TDS_DEFAULT_PACKET_SIZE "fedauth_payload token nonce" PacketType_FEDAUTH_TOKEN]
  show "BuildFedAuthTokenMultiPacket token TDS_DEFAULT_PACKET_SIZE nonce \<noteq> None"
    by (auto simp: BuildFedAuthTokenMultiPacket_def)
qed

lemma runs_DoLogin7WithFedAuth: "runs open_login (DoLogin7WithFedAuth env d tok a) attempt_post thrown"
  unfolding DoLogin7WithFedAuth_def
  by (intro login_rules runs_flags runs_sending runs_packets split_returns runs_return runs_finish_fedauth)
    (simp_all add: posts)

text \<open>An authenticator answers or throws.\<close>

definition auth_total :: "authenticator \<Rightarrow> bool" where
  "auth_total auth \<longleftrightarrow> InitialBytes auth \<noteq> OOB \<and> InitialBytes auth \<noteq> More \<and>
     (\<forall>blobs. NextBytes auth blobs \<noteq> OOB \<and> NextBytes auth blobs \<noteq> More)"

definition factory_total :: "authenticator_factory \<Rightarrow> bool" where
  "factory_total factory \<longleftrightarrow> (\<forall>hop host port auth. factory hop host port = Some auth \<longrightarrow> auth_total auth)"

lemma runs_catching:
  assumes "r \<noteq> OOB" "r \<noteq> More" "\<And>x. runs open_login (f x) attempt_post thrown"
  shows "runs open_login (catching r f) attempt_post thrown"
  using assms runs_failing(2) [of attempt_post Failure] by (cases r) (simp_all add: catching_def posts)

lemma runs_sspi_rounds:
  "auth_total auth \<Longrightarrow> runs open_login (sspi_rounds n auth left blobs) attempt_post thrown"
proof (induction left arbitrary: blobs)
  case 0
  show ?case unfolding sspi_rounds.simps by (intro login_rules) (simp add: posts)
next
  case (Suc left)
  show ?case unfolding sspi_rounds.simps
    using Suc.prems
    by (intro login_rules runs_flags runs_update_return runs_catching runs_sending runs_packets split_returns runs_return Suc.IH)
      (simp_all add: posts note_posts auth_total_def)
qed

lemma runs_integrated:
  assumes "\<And>host port auth. factory hop host port = Some auth \<Longrightarrow> auth_total auth"
  shows "runs open_login (integrated_attempt env factory d e a n hop) attempt_post thrown"
  unfolding integrated_attempt_def
proof (intro login_rules)
  fix c
  show "runs open_login (case factory hop (c_host c) (c_port c) of None \<Rightarrow> fail (no_authenticator_message hop c) Failure
     | Some auth \<Rightarrow> bind_act (DoPrelogin e) (\<lambda>ok. if \<not> ok then ret_act Failure else
         catching (InitialBytes auth) (\<lambda>initial_blob.
         if initial_blob = [] then
           fail ''MSSQL Kerberos auth failed: authenticator returned empty initial SPNEGO blob'' Failure
         else bind_act (get_act id) (\<lambda>c.
         bind_act (lift_res (BuildLogin7WithSSPI (e_simd env) (e_pid env) (e_hostname env)
             (if c_tds_server_name c = [] then c_host c else c_tds_server_name c) d initial_blob (default_app_name a)
             (c_requested_packet_size c) (c_request_utf8_support c))) (\<lambda>login.
         bind_act (lift_res (total_res (map_option Ret (SplitIntoPackets login n)))) (\<lambda>login_packets.
         bind_act (send_numbered ''Failed to send LOGIN7 (integrated) packet '' (length login_packets) 0 login_packets) (\<lambda>sent.
         if \<not> sent then ret_act Failure else sspi_rounds n auth MAX_SSPI_ROUNDS []))))))) attempt_post thrown"
  proof (cases "factory hop (c_host c) (c_port c)")
    case None
    then show ?thesis by (simp add: runs_failing posts)
  next
    case (Some auth)
    from assms [OF this] have a: "auth_total auth" .
    then show ?thesis unfolding Some option.case
      by (intro login_rules runs_catching runs_sending runs_packets split_returns runs_return runs_sspi_rounds)
        (simp_all add: posts auth_total_def)
  qed
qed

subsection \<open>The driver\<close>

lemma open_connect: "runs (\<lambda>c. pending_login c \<and> \<not> connected (c_socket c)) socket_Connect
   (\<lambda>ok c. pending_login c \<and> connected (c_socket c) = ok) thrown"
  by (rule runsI) (auto simp: socket_Connect_def sock_Connect_def pending_login_def conn_inv_def sock_inv_def Let_def
      split: option.splits)

lemma pending_simps [simp]:
  "pending_login (c\<lparr> c_tds_server_name := x \<rparr>) = pending_login c" "pending_login (c\<lparr> c_database := x \<rparr>) = pending_login c"
  "pending_login (c\<lparr> c_last_error := e \<rparr>) = pending_login c"
  by (simp_all add: pending_login_def conn_inv_def)

definition driver_post :: "bool \<Rightarrow> TdsConnection \<Rightarrow> bool" where
  "driver_post ok c \<longleftrightarrow> conn_inv c \<and>
     (if ok then c_state c = Idle \<and> connected (c_socket c) \<and> \<not> c_has_routing c
      else c_state c = Disconnected \<and> \<not> connected (c_socket c))"

locale login_attempt =
  fixes attempt :: "nat \<Rightarrow> LoginAttemptOutcome conn_act"
  assumes attempt: "runs open_login (attempt hop) attempt_post thrown"
begin

lemma after_attempt:
  assumes "runs (attempt_post Route) hop_on driver_post thrown"
  shows "runs (\<lambda>c. pending_login c \<and> connected (c_socket c)) (after_upd reset_attempt (bind_act (attempt n) (\<lambda>result.
     case result of Success \<Rightarrow> after_upd (\<lambda>c. c\<lparr> c_state := Idle \<rparr>) (ret_act True)
     | Failure \<Rightarrow> after_upd disconnect (ret_act False) | Route \<Rightarrow> hop_on))) driver_post thrown"
proof (rule runs_update)
  show "pending_login c \<and> connected (c_socket c) \<Longrightarrow> open_login (reset_attempt c)" for c
    by (simp add: open_login_def pending_login_def conn_inv_def reset_attempt_def)
  show "runs open_login (bind_act (attempt n) (\<lambda>result.
     case result of Success \<Rightarrow> after_upd (\<lambda>c. c\<lparr> c_state := Idle \<rparr>) (ret_act True)
     | Failure \<Rightarrow> after_upd disconnect (ret_act False) | Route \<Rightarrow> hop_on)) driver_post thrown"
  proof (rule runs_bind [OF attempt])
    fix result
    show "runs (attempt_post result) (case result of Success \<Rightarrow> after_upd (\<lambda>c. c\<lparr> c_state := Idle \<rparr>) (ret_act True)
     | Failure \<Rightarrow> after_upd disconnect (ret_act False) | Route \<Rightarrow> hop_on) driver_post thrown"
      using assms
      by (cases result) (auto intro!: runs_update_return simp: attempt_post_def pending_login_def driver_post_def conn_inv_def
          disconnect_def socket_Close_def sock_Close_def sock_inv_def)
  qed
qed

lemma routing_loop_runs:
  "runs (\<lambda>c. pending_login c \<and> connected (c_socket c)) (routing_loop attempt left) driver_post thrown"
proof (induction left)
  case 0
  have "runs (attempt_post Route)
      (after_upd (\<lambda>c. disconnect (c\<lparr> c_last_error := too_many_hops c \<rparr>)) (ret_act False)) driver_post thrown"
    by (rule runs_update_return) (simp add: attempt_post_def pending_login_def driver_post_def conn_inv_def
        disconnect_def socket_Close_def sock_Close_def sock_inv_def)
  from after_attempt [OF this, of "MAX_ROUTING_HOPS - 0"] show ?case by (subst routing_loop.simps) simp
next
  case (Suc left)
  let ?dial = "\<lambda>(next_server, next_port). after_upd (\<lambda>c. (socket_Close c)\<lparr> c_host := next_server, c_port := next_port \<rparr>)
      (bind_act socket_Connect (\<lambda>ok. if \<not> ok then
         after_upd (\<lambda>c. c\<lparr> c_last_error := ''Failed to connect to routed server '' @ str_of_bytes next_server @
             '':'' @ to_string (unat next_port) @ '': '' @ sock_error (c_socket c), c_state := Disconnected \<rparr>) (ret_act False)
       else routing_loop attempt left))"
  have dial: "runs pending_login (?dial target) driver_post thrown" for target
  proof (cases target)
    case (Pair host port)
    have "runs (\<lambda>c. pending_login c \<and> \<not> connected (c_socket c)) (bind_act socket_Connect (\<lambda>ok. if \<not> ok then
         after_upd (\<lambda>c. c\<lparr> c_last_error := ''Failed to connect to routed server '' @ str_of_bytes host @
             '':'' @ to_string (unat port) @ '': '' @ sock_error (c_socket c), c_state := Disconnected \<rparr>) (ret_act False)
       else routing_loop attempt left)) driver_post thrown"
    proof (rule runs_bind [OF open_connect])
      fix ok
      show "runs (\<lambda>c. pending_login c \<and> connected (c_socket c) = ok) (if \<not> ok then
         after_upd (\<lambda>c. c\<lparr> c_last_error := ''Failed to connect to routed server '' @ str_of_bytes host @
             '':'' @ to_string (unat port) @ '': '' @ sock_error (c_socket c), c_state := Disconnected \<rparr>) (ret_act False)
       else routing_loop attempt left) driver_post thrown"
      proof (cases ok)
        case True
        with Suc.IH show ?thesis by simp
      next
        case False
        then show ?thesis
          by (auto intro!: runs_update_return simp: pending_login_def driver_post_def conn_inv_def)
      qed
    qed
    then show ?thesis unfolding Pair prod.case
      by (rule runs_update [rotated]) (simp add: pending_login_def conn_inv_def socket_Close_def sock_Close_def sock_inv_def)
  qed
  have norm: "runs pending_login (NormalizeRoutedTarget server port) (\<lambda>_. pending_login) thrown" for server port
    by (auto simp: NormalizeRoutedTarget_def intro!: runs_update_return split: prod.splits)
  have "runs (attempt_post Route) (bind_act (get_act id) (\<lambda>c.
      bind_act (NormalizeRoutedTarget (c_routed_server c) (c_routed_port c)) ?dial)) driver_post thrown"
  proof (rule runs_bind [OF runs_get [where Q = "\<lambda>_. pending_login"]])
    show "attempt_post Route c \<Longrightarrow> pending_login c" for c by (simp add: attempt_post_def)
    show "runs pending_login (bind_act (NormalizeRoutedTarget (c_routed_server c) (c_routed_port c)) ?dial)
        driver_post thrown" for c by (rule runs_bind [OF norm dial])
  qed
  from after_attempt [OF this, of "MAX_ROUTING_HOPS - Suc left"] show ?case by (subst routing_loop.simps) simp
qed

lemma RunWithRoutingHops_runs:
  "runs (\<lambda>c. pending_login c \<and> connected (c_socket c)) (RunWithRoutingHops attempt) driver_post thrown"
  unfolding RunWithRoutingHops_def by (rule routing_loop_runs)

end

lemma runs_UpdateLastUsed:
  assumes "\<And>c n t. P c \<Longrightarrow> Q () (c\<lparr> c_net := (c_net c)\<lparr> ticks := n \<rparr>, c_last_used_at := t \<rparr>)"
  shows "runs P UpdateLastUsed Q E"
  using assms by (auto simp: runs_def UpdateLastUsed_def act_defs read_clock_def)

definition login_post :: "byte list \<Rightarrow> bool \<Rightarrow> TdsConnection \<Rightarrow> bool" where
  "login_post db ok c \<longleftrightarrow> conn_inv c \<and>
     (if ok then c_state c = Idle \<and> connected (c_socket c) \<and> \<not> c_has_routing c
      else c_state c = Disconnected \<and> \<not> connected (c_socket c) \<and> c_database c = [])"

context login_attempt
begin

lemma authenticate_runs:
  "runs (\<lambda>c. pending_login c \<and> connected (c_socket c)) (authenticate db attempt) (login_post db) thrown"
proof (rule runsI)
  fix c assume c: "pending_login c \<and> connected (c_socket c)"
  let ?c = "c\<lparr> c_tds_server_name := c_host c, c_database := db \<rparr>"
  have finish: "runs (driver_post ok) (if \<not> ok then after_upd (\<lambda>c. c\<lparr> c_database := [] \<rparr>) (ret_act False)
      else bind_act UpdateLastUsed (\<lambda>_. ret_act True)) (login_post db) thrown" for ok
    by (cases ok) (auto intro!: runs_update_return runs_bind [OF runs_UpdateLastUsed [where Q = "\<lambda>_. driver_post True"]]
        runs_return simp: driver_post_def login_post_def conn_inv_def)
  have "ends (login_post db) thrown
     (bind_act (RunWithRoutingHops attempt) (\<lambda>ok. if \<not> ok then after_upd (\<lambda>c. c\<lparr> c_database := [] \<rparr>) (ret_act False)
        else bind_act UpdateLastUsed (\<lambda>_. ret_act True)) ?c)"
    by (rule runsD [OF runs_bind [OF RunWithRoutingHops_runs finish]]) (use c in simp)
  then show "ends (login_post db) thrown (authenticate db attempt c)"
    using c by (simp add: authenticate_def pending_login_def after_upd_def)
qed

end

interpretation sql_login: login_attempt "\<lambda>hop. bind_act (DoPrelogin e) (\<lambda>ok. if \<not> ok then ret_act Failure else DoLogin7 env u p d a)"
  by unfold_locales (intro login_rules runs_sending runs_return runs_DoLogin7; simp add: posts)

interpretation fedauth_login: login_attempt
    "\<lambda>hop. bind_act (DoPreloginWithFedAuth e) (\<lambda>ok. if \<not> ok then ret_act Failure else DoLogin7WithFedAuth env d tok a)"
  by unfold_locales (intro login_rules runs_sending runs_return runs_DoLogin7WithFedAuth; simp add: posts)

lemma integrated_login_attempt:
  "factory_total factory \<Longrightarrow> login_attempt (integrated_attempt env factory d e a n)"
  by unfold_locales (rule runs_integrated, simp add: factory_total_def)

text \<open>C4: the contract of a login. From a connected socket in state \<open>Authenticating\<close>, with any peer and any
  number of routing answers, each of the three kinds of login comes to an end without leaving its
  buffers. If it returns true the connection is \<open>Idle\<close> on a live socket, with no route pending and a packet
  size in the protocol's range; if it returns false it is \<open>Disconnected\<close>, its socket is closed and it is in
  no database. Only an exception (a field beyond its limit, a frame beyond the maximum) leaves the
  connection in state \<open>Authenticating\<close>.\<close>

theorem login_contract:
  assumes "c_state c = Authenticating" "connected (c_socket c)" "conn_inv c"
    and "factory_total factory"
    and "login = Authenticate env username password db use_encrypt app_name \<or>
         login = AuthenticateWithFedAuth env db token use_encrypt app_name \<or>
         login = AuthenticateIntegrated env db factory use_encrypt app_name max_packet"
  shows "(\<exists>c'. login c = (Ret True, c') \<and> conn_inv c' \<and> c_state c' = Idle \<and> connected (c_socket c') \<and> \<not> c_has_routing c') \<or>
    (\<exists>c'. login c = (Ret False, c') \<and> c_state c' = Disconnected \<and> \<not> connected (c_socket c') \<and> c_database c' = []) \<or>
    (\<exists>c' msg. login c = (Throw msg, c') \<and> c_state c' = Authenticating)"
proof -
  have c: "pending_login c \<and> connected (c_socket c)" using assms(1-3) by (simp add: pending_login_def)
  have "ends (login_post db) thrown (login c)"
    using assms(5) runsD [OF sql_login.authenticate_runs c] runsD [OF fedauth_login.authenticate_runs c]
      runsD [OF login_attempt.authenticate_runs [OF integrated_login_attempt [OF assms(4)]] c]
    by (auto simp: Authenticate_def AuthenticateWithFedAuth_def AuthenticateIntegrated_def Let_def)
  then show ?thesis
    by (cases "login c"; cases "fst (login c)") (auto simp: login_post_def thrown_def pending_login_def split: if_splits)
qed

text \<open>A connection just dialled, for an environment in which nothing else happens.\<close>

definition quiet_network :: network where
  "quiet_network = \<lparr> sends = [], recvs = [], handshakes = [], dials = [None], clock = int, ticks = 0, wire = [] \<rparr>"

definition plain_env :: client_env where
  "plain_env = \<lparr> e_simd = ref_simdutf, e_pid = 7, e_hostname = bytes_of_str ''HOST'' \<rparr>"

definition dialled :: TdsConnection where
  "dialled = snd (Connect [0x68] 1433 30 (new_connection quiet_network))"

lemma dialled_open: "c_state dialled = Authenticating" "connected (c_socket dialled)" "conn_inv dialled"
  by (simp_all add: dialled_def Connect_def new_connection_def socket_Connect_def sock_Connect_def new_socket_def
      next_event_def quiet_network_def act_defs Let_def conn_inv_def sock_inv_def)

theorem login_contract_witness:
  "\<exists>c'. AuthenticateIntegrated plain_env [] (\<lambda>_ _ _. None) True [] 0 dialled = (Ret False, c') \<and>
      c_state c' = Disconnected \<and> \<not> connected (c_socket c') \<and> c_database c' = []"
proof -
  let ?login = "AuthenticateIntegrated plain_env [] (\<lambda>_ _ _. None) True [] 0"
  have "fst (?login dialled) = Ret False"
    by (simp add: AuthenticateIntegrated_def authenticate_def dialled_open RunWithRoutingHops_def routing_loop.simps
        integrated_attempt_def fail_def act_defs Let_def)
  with login_contract [OF dialled_open, of "\<lambda>_ _ _. None" ?login plain_env "[]" "[]" "[]" True "[]" "[]" 0] show ?thesis
    by (auto simp: factory_total_def)
qed

end
