(* ===== verification/Connection_Machine.thy ===== *)
theory Connection_Machine
  imports Connection_Login
begin

text \<open>
  The state machine of a connection. Every public operation is run from every state it can be called in:
  it comes to an end, keeps the invariant and moves along the transitions of the machine. On top of it,
  what a batch puts on the wire, and that a receiver reassembles it.
\<close>

definition at_state :: "ConnectionState \<Rightarrow> TdsConnection \<Rightarrow> bool" where
  "at_state st c \<longleftrightarrow> conn_inv c \<and> c_state c = st"

lemma at_state_other [simp]:
  "at_state st (c\<lparr> c_last_error := e \<rparr>) = at_state st c" "at_state st (c\<lparr> c_needs_reset := b \<rparr>) = at_state st c"
  "at_state st (c\<lparr> c_net := n \<rparr>) = at_state st c" "at_state st (c\<lparr> c_last_used_at := t \<rparr>) = at_state st c"
  "at_state st (c\<lparr> c_next_packet_id := i \<rparr>) = at_state st c"
  by (simp_all add: at_state_def conn_inv_def)

lemma at_state_set [simp]: "at_state st (c\<lparr> c_state := st' \<rparr>) \<longleftrightarrow> conn_inv c \<and> st = st'"
  by (auto simp: at_state_def conn_inv_def)

lemma at_state_inv: "at_state st c \<Longrightarrow> conn_inv c"
  by (simp add: at_state_def)

subsection \<open>Steps that keep the state\<close>

lemma runs_at_Send: "runs (at_state st) (socket_Send d) (\<lambda>_. at_state st) E"
  by (rule runsI) (auto simp: socket_Send_def Send_def at_state_def conn_inv_def sock_inv_def Let_def split: send_event.splits)

lemma runs_at_SendPacket: "runs (at_state st) (SendPacket p) (\<lambda>_. at_state st) E"
  unfolding SendPacket_def by (rule runs_at_Send)

lemma runs_at_ReceiveMessage: "runs (at_state st) socket_ReceiveMessage (\<lambda>_. at_state st) (at_state st)"
proof (rule runsI)
  fix c assume c: "at_state st c"
  then have "sock_inv (c_socket c)" by (simp add: at_state_def conn_inv_def)
  from ReceiveMessage_returns [OF this, of "recvs (c_net c)"] obtain r s es where
    "ReceiveMessage (recvs (c_net c)) (c_socket c) = Some (r, s, es)" "r \<noteq> OOB" "r \<noteq> More" "sock_inv s" by blast
  with c show "ends (\<lambda>_. at_state st) (at_state st) (socket_ReceiveMessage c)"
    by (cases r) (auto simp: socket_ReceiveMessage_def at_state_def conn_inv_def)
qed

lemma runs_at_take_id: "runs (at_state st) take_packet_id (\<lambda>_. at_state st) E"
  by (rule runsI) (simp add: take_packet_id_def at_state_def conn_inv_def)

lemma runs_at_clock: "runs (at_state st) read_clock (\<lambda>_. at_state st) E"
  by (rule runsI) (simp add: read_clock_def)

lemma runs_at_UpdateLastUsed: "runs (at_state st) UpdateLastUsed (\<lambda>_. at_state st) E"
  by (rule runs_UpdateLastUsed) simp

named_theorems at_rules \<open>a first step that keeps the state, and what remains\<close>

lemmas [at_rules] = runs_bind [OF runs_at_SendPacket] runs_bind [OF runs_at_Send] runs_bind [OF runs_at_ReceiveMessage]
  runs_bind [OF runs_at_take_id] runs_bind [OF runs_at_clock] runs_bind [OF runs_at_UpdateLastUsed] runs_if

subsection \<open>The operations\<close>

definition alive_post :: "bool \<Rightarrow> TdsConnection \<Rightarrow> bool" where
  "alive_post ok = at_state (if ok then Idle else Disconnected)"

lemma runs_Ping: "runs (at_state Idle) (Ping env) alive_post (at_state Executing)"
proof -
  have answer: "runs (at_state Executing) (if sent then bind_act socket_ReceiveMessage (\<lambda>message.
        case message of None \<Rightarrow> ret_act False | Some response \<Rightarrow> lift_res (total_res (IsSuccessResponse response)))
      else ret_act False) (\<lambda>_. at_state Executing) (at_state Executing)" for sent
  proof (intro at_rules runs_ret)
    fix message
    show "runs (at_state Executing) (case message of None \<Rightarrow> ret_act False
        | Some response \<Rightarrow> lift_res (total_res (IsSuccessResponse response))) (\<lambda>_. at_state Executing) (at_state Executing)"
    proof (cases message)
      case None
      then show ?thesis by (simp add: runs_ret)
    next
      case (Some response)
      from attention_success_Ret(2) [of response] obtain b where "IsSuccessResponse response = Some (Ret b)" by blast
      with Some show ?thesis by (simp add: runs_def lift_res_def total_res_def)
    qed
  qed
  have "runs (at_state Executing) (bind_act take_packet_id (\<lambda>packet_id.
         bind_act (SendPacket (SetPacketId packet_id (BuildPing (e_simd env)))) (\<lambda>sent.
         bind_act (if sent then bind_act socket_ReceiveMessage (\<lambda>message.
              case message of None \<Rightarrow> ret_act False | Some response \<Rightarrow> lift_res (total_res (IsSuccessResponse response)))
            else ret_act False) (\<lambda>ok.
         if ok then after_upd (\<lambda>c. c\<lparr> c_state := Idle \<rparr>) (bind_act UpdateLastUsed (\<lambda>_. ret_act True))
         else after_upd (\<lambda>c. c\<lparr> c_last_error := ''Ping failed: '' @ sock_error (c_socket c), c_state := Disconnected \<rparr>)
                (ret_act False))))) alive_post (at_state Executing)"
    by (intro at_rules runs_bind [OF answer] runs_update [of _ "at_state Idle"] runs_update_return runs_ret)
      (simp_all add: at_state_inv alive_post_def)
  then show ?thesis
    by (auto simp: runs_def Ping_def at_state_def conn_inv_def after_upd_def)
qed

lemma runs_SendAttention:
  "runs (at_state Executing) SendAttention (\<lambda>ok. at_state (if ok then Cancelling else Disconnected)) E"
proof -
  have "runs (at_state Cancelling) (bind_act take_packet_id (\<lambda>packet_id.
         bind_act (SendPacket (SetPacketId packet_id BuildAttention)) (\<lambda>sent.
         if \<not> sent then
           after_upd (\<lambda>c. c\<lparr> c_last_error := ''Failed to send ATTENTION: '' @ sock_error (c_socket c), c_state := Disconnected \<rparr>)
             (ret_act False)
         else ret_act True))) (\<lambda>ok. at_state (if ok then Cancelling else Disconnected)) E"
    by (intro at_rules runs_update_return runs_ret) (simp_all add: at_state_inv)
  then show ?thesis by (auto simp: runs_def SendAttention_def at_state_def conn_inv_def after_upd_def)
qed

lemma attention_wait_ends:
  "at_state Cancelling c \<Longrightarrow> ends alive_post (at_state Cancelling) (attention_wait start timeout c)"
proof (induction start timeout c rule: attention_wait.induct)
  case (1 start timeout c)
  define d where "d = snd (read_clock c)"
  have d: "at_state Cancelling d" using 1(2) by (simp add: d_def read_clock_def)
  note recv = runsD [OF runs_at_ReceiveMessage d]
  show ?case
  proof (cases "clock (c_net c) (ticks (c_net c)) - start \<ge> timeout")
    case True
    with d show ?thesis
      by (subst attention_wait.simps) (simp add: Let_def alive_post_def at_state_inv flip: d_def)
  next
    case False
    obtain r e where e: "socket_ReceiveMessage d = (r, e)" by force
    show ?thesis
    proof (cases "\<exists>response. r = Ret (Some response)")
      case True
      then obtain response where r: "r = Ret (Some response)" by blast
      from attention_success_Ret(1) [of response] obtain acked where
        a: "ParseDoneForAttentionAck response = Some (Ret acked)" by blast
      have "ends alive_post (at_state Cancelling) (bind_act UpdateLastUsed (\<lambda>_. ret_act True) (e\<lparr> c_state := Idle \<rparr>))"
        by (rule runsD [of "at_state Idle"], intro at_rules runs_ret) (use recv e r in \<open>simp_all add: alive_post_def at_state_inv\<close>)
      moreover have "\<not> acked \<Longrightarrow> ends alive_post (at_state Cancelling) (attention_wait start timeout e)"
        using 1(1) [OF refl refl False, of r e "Some response" response acked] recv e r a
        by (simp add: total_res_def d_def)
      ultimately show ?thesis using False e r a
        by (subst attention_wait.simps) (simp add: Let_def total_res_def flip: d_def)
    next
      case no: False
      with False e recv show ?thesis
        by (subst attention_wait.simps, cases r)
          (auto simp: Let_def alive_post_def at_state_inv simp flip: d_def split: option.splits)
    qed
  qed
qed

lemma runs_WaitForAttentionAck: "runs (at_state Cancelling) (WaitForAttentionAck timeout) alive_post (at_state Cancelling)"
proof -
  have "runs (at_state Cancelling) (bind_act read_clock (\<lambda>start. attention_wait start timeout)) alive_post (at_state Cancelling)"
    by (intro at_rules) (rule runsI, rule attention_wait_ends)
  then show ?thesis by (auto simp: runs_def WaitForAttentionAck_def at_state_def)
qed

lemma close_end:
  "runs conn_inv (upd_act (\<lambda>c. (socket_Close c)\<lparr> c_state := Disconnected, c_spid := 0, c_database := [] \<rparr>))
     (\<lambda>_ c. at_state Disconnected c \<and> \<not> connected (c_socket c)) E"
  by (rule runs_upd) (simp add: socket_Close_def sock_Close_def at_state_def conn_inv_def sock_inv_def)

lemma runs_Close_waiting:
  "runs (at_state Executing) (bind_act SendAttention (\<lambda>_. WaitForAttentionAck timeout)) (\<lambda>_. conn_inv) (at_state Cancelling)"
proof (rule runs_bind [OF runs_SendAttention])
  fix ok
  have "runs (at_state Disconnected) (WaitForAttentionAck timeout) (\<lambda>_. conn_inv) (at_state Cancelling)"
    by (auto simp: runs_def WaitForAttentionAck_def at_state_def)
  with runs_WaitForAttentionAck [of timeout]
  show "runs (at_state (if ok then Cancelling else Disconnected)) (WaitForAttentionAck timeout) (\<lambda>_. conn_inv) (at_state Cancelling)"
    by (cases ok) (auto elim!: runs_weaken simp: alive_post_def at_state_inv)
qed

lemma Close_ends:
  assumes "conn_inv c"
  shows "ends (\<lambda>_ c'. at_state Disconnected c' \<and> (c_state c \<noteq> Disconnected \<longrightarrow> \<not> connected (c_socket c')))
     (\<lambda>c'. c_state c = Executing \<and> at_state Cancelling c') (Close c)"
proof (cases "c_state c = Executing")
  case True
  with assms have c: "at_state Executing c" by (simp add: at_state_def)
  have "ends (\<lambda>_ c'. at_state Disconnected c' \<and> \<not> connected (c_socket c')) (at_state Cancelling)
     (bind_act (bind_act SendAttention (\<lambda>_. WaitForAttentionAck (CANCELLATION_TIMEOUT * 1000))) (\<lambda>_.
        upd_act (\<lambda>c. (socket_Close c)\<lparr> c_state := Disconnected, c_spid := 0, c_database := [] \<rparr>)) c)"
    by (rule runsD [OF runs_bind [OF runs_Close_waiting close_end] c])
  with True have "ends (\<lambda>_ c'. at_state Disconnected c' \<and> \<not> connected (c_socket c')) (at_state Cancelling) (Close c)"
    by (simp add: Close_def cong: if_cong)
  from ends_mono [OF this] True show ?thesis by simp
next
  case False
  from runsD [OF close_end assms, of "\<lambda>_. False"] False assms show ?thesis
    by (auto simp: Close_def at_state_def bind_act_def ret_act_def elim!: ends_mono)
qed

subsection \<open>Batches\<close>

definition batch_post :: "bool \<Rightarrow> TdsConnection \<Rightarrow> bool" where
  "batch_post ok = at_state (if ok then Executing else Disconnected)"

lemma runs_send_tls_packets: "runs (at_state Executing) (send_tls_packets i n ps) batch_post E"
proof (induction ps arbitrary: i)
  case Nil
  show ?case by (simp add: runs_ret batch_post_def)
next
  case (Cons p ps)
  show ?case unfolding send_tls_packets.simps
    by (intro at_rules runs_update_return Cons.IH) (simp add: batch_post_def at_state_inv)
qed

lemma runs_send_batch: "runs (at_state Executing) (send_batch ps) batch_post E"
proof -
  have one: "runs (at_state Executing) (case ps of [] \<Rightarrow> ret_act True
      | packet # _ \<Rightarrow> bind_act take_packet_id (\<lambda>packet_id. bind_act (SendPacket (SetPacketId packet_id packet)) (\<lambda>sent.
          if \<not> sent then after_upd (\<lambda>c. c\<lparr> c_last_error := ''Failed to send SQL_BATCH: '' @ sock_error (c_socket c),
            c_state := Disconnected \<rparr>) (ret_act False) else ret_act True))) batch_post E"
  proof (cases ps)
    case Nil
    then show ?thesis by (simp add: runs_ret batch_post_def)
  next
    case (Cons p qs)
    show ?thesis unfolding Cons list.case
      by (intro at_rules runs_update_return runs_ret) (simp_all add: batch_post_def at_state_inv)
  qed
  show ?thesis unfolding send_batch_def Let_def
    by (rule runs_bind [OF runs_get [where Q = "\<lambda>_. at_state Executing"]], assumption)
      (intro at_rules runs_update_return runs_ret runs_send_tls_packets one; simp add: batch_post_def at_state_inv)
qed

lemma batch_returns:
  assumes "conn_inv c"
  shows "\<exists>ps. BuildSqlBatchMultiPacket U sql (unat (c_negotiated_packet_size c)) td = Some ps"
proof -
  have "TDS_HEADER_SIZE < unat (c_negotiated_packet_size c)" using assms by (simp add: conn_inv_def)
  from packetize_carries [OF this, of "all_headers td @ Utf16LEEncode U sql" PacketType_SQL_BATCH] show ?thesis
    by (auto simp: BuildSqlBatchMultiPacket_def Let_def)
qed

lemma runs_ExecuteBatch: "runs (at_state Idle) (ExecuteBatch env sql) batch_post (\<lambda>_. False)"
proof (rule runsI)
  fix c assume c: "at_state Idle c"
  from batch_returns [OF at_state_inv [OF c], of "e_simd env" sql "GetTransactionDescriptor c"] obtain ps where
    ps: "BuildSqlBatchMultiPacket (e_simd env) sql (unat (c_negotiated_packet_size c)) (GetTransactionDescriptor c) = Some ps" ..
  have "at_state Executing (c\<lparr> c_state := Executing \<rparr>)" "at_state Executing (c\<lparr> c_state := Executing, c_needs_reset := False \<rparr>)"
    using c by (simp_all add: at_state_inv)
  moreover have "ends batch_post (\<lambda>_. False) (send_batch q d)" if "at_state Executing d" for q d
    by (rule runsD [OF runs_send_batch that])
  ultimately show "ends batch_post (\<lambda>_. False) (ExecuteBatch env sql c)"
    using c ps by (simp add: ExecuteBatch_def at_state_def act_defs total_res_def)
qed

lemma runs_ReceiveData:
  "runs (\<lambda>c. at_state st c \<and> (st = Executing \<or> st = Cancelling)) (ReceiveData n)
     (\<lambda>r c. at_state (if r = None \<or> r = Some [] then Disconnected else st) c) E"
  by (rule runsI) (auto simp: ReceiveData_def Receive_def at_state_def conn_inv_def sock_inv_def Let_def
      split: recv_event.splits list.splits option.splits)

subsection \<open>The machine\<close>

text \<open>
  Every way the rest of the program drives a connection: its own operations, and reading payloads and
  dropping buffered input through \<open>GetSocket()\<close>. The state changes its clients ask for are those of
  \<open>client_transition\<close>.
\<close>

datatype conn_op =
    Op_Connect "byte list" u16 int
  | Op_Authenticate "byte list" "byte list" "byte list" bool "byte list"
  | Op_FedAuth "byte list" "byte list" bool "byte list"
  | Op_Integrated "byte list" bool "byte list" nat
  | Op_ExecuteBatch "byte list"
  | Op_ReceiveData nat
  | Op_Ping
  | Op_ValidateWithPing
  | Op_SendAttention
  | Op_WaitForAttentionAck int
  | Op_Close
  | Op_TransitionState ConnectionState ConnectionState
  | Op_ReceivePayloadView
  | Op_ClearReceiveBuffer
  | Op_SetTransactionDescriptor "byte list"
  | Op_ClearTransactionDescriptor
  | Op_SetNeedsReset bool
  | Op_SetRequestedPacketSize nat
  | Op_SetRequestUtf8Support bool

definition socket_ReceivePayloadView :: "byte list option conn_act" where
  "socket_ReceivePayloadView c =
     (case ReceivePayloadView (recvs (c_net c)) (c_socket c) of
        (r, s, es) \<Rightarrow> (r, c\<lparr> c_socket := s, c_net := (c_net c)\<lparr> recvs := es \<rparr> \<rparr>))"

definition silent :: "'a conn_act \<Rightarrow> unit conn_act" where
  "silent m = bind_act m (\<lambda>_. ret_act ())"

fun run_op :: "client_env \<Rightarrow> authenticator_factory \<Rightarrow> conn_op \<Rightarrow> unit conn_act" where
  "run_op env factory (Op_Connect host port timeout) = silent (Connect host port timeout)"
| "run_op env factory (Op_Authenticate u p d e a) = silent (Authenticate env u p d e a)"
| "run_op env factory (Op_FedAuth d t e a) = silent (AuthenticateWithFedAuth env d t e a)"
| "run_op env factory (Op_Integrated d e a n) = silent (AuthenticateIntegrated env d factory e a n)"
| "run_op env factory (Op_ExecuteBatch sql) = silent (ExecuteBatch env sql)"
| "run_op env factory (Op_ReceiveData n) = silent (ReceiveData n)"
| "run_op env factory Op_Ping = silent (Ping env)"
| "run_op env factory Op_ValidateWithPing = silent (ValidateWithPing env)"
| "run_op env factory Op_SendAttention = silent SendAttention"
| "run_op env factory (Op_WaitForAttentionAck t) = silent (WaitForAttentionAck t)"
| "run_op env factory Op_Close = Close"
| "run_op env factory (Op_TransitionState a b) = silent (TransitionState a b)"
| "run_op env factory Op_ReceivePayloadView = silent socket_ReceivePayloadView"
| "run_op env factory Op_ClearReceiveBuffer = upd_act (\<lambda>c. c\<lparr> c_socket := ClearReceiveBuffer (c_socket c) \<rparr>)"
| "run_op env factory (Op_SetTransactionDescriptor d) = upd_act (SetTransactionDescriptor (Some d))"
| "run_op env factory Op_ClearTransactionDescriptor = upd_act ClearTransactionDescriptor"
| "run_op env factory (Op_SetNeedsReset b) = upd_act (SetNeedsReset b)"
| "run_op env factory (Op_SetRequestedPacketSize n) = upd_act (SetRequestedPacketSize n)"
| "run_op env factory (Op_SetRequestUtf8Support b) = upd_act (SetRequestUtf8Support b)"

definition client_transition :: "ConnectionState \<Rightarrow> ConnectionState \<Rightarrow> bool" where
  "client_transition a b \<longleftrightarrow> (a, b) \<in> {(Executing, Idle), (Idle, Executing), (Executing, Disconnected), (Cancelling, Idle)}"

fun op_used :: "conn_op \<Rightarrow> TdsConnection \<Rightarrow> bool" where
  "op_used (Op_TransitionState a b) c = client_transition a b"
| "op_used Op_ReceivePayloadView c = (c_state c = Executing \<or> c_state c = Cancelling)"
| "op_used (Op_SetTransactionDescriptor d) c = (length d = 8)"
| "op_used _ c = True"

definition leads :: "ConnectionState \<Rightarrow> ConnectionState \<Rightarrow> bool" where
  "leads a b \<longleftrightarrow> a = b \<or> b = Disconnected \<or> client_transition a b \<or>
     (a, b) \<in> {(Disconnected, Authenticating), (Authenticating, Idle), (Executing, Cancelling)}"

definition conn_ok :: "TdsConnection \<Rightarrow> bool" where
  "conn_ok c \<longleftrightarrow> conn_inv c \<and> (c_state c = Authenticating \<longrightarrow> connected (c_socket c))"

text \<open>What an operation owes: it returns or throws, in a state it may lead to.\<close>

definition moves :: "ConnectionState \<Rightarrow> ('a res \<times> TdsConnection) \<Rightarrow> bool" where
  "moves a p \<longleftrightarrow> ends (\<lambda>_ c. conn_ok c \<and> leads a (c_state c)) (\<lambda>c. conn_ok c \<and> leads a (c_state c)) p"

inductive conn_reachable :: "client_env \<Rightarrow> authenticator_factory \<Rightarrow> TdsConnection \<Rightarrow> bool" for env factory where
  conn_new: "conn_reachable env factory (new_connection net)"
| conn_step: "conn_reachable env factory c \<Longrightarrow> op_used op c \<Longrightarrow> conn_reachable env factory (snd (run_op env factory op c))"

lemma moves_silent: "moves a (m c) \<Longrightarrow> moves a (silent m c)"
  by (cases "m c"; cases "fst (m c)") (auto simp: moves_def silent_def act_defs)

lemma movesI:
  assumes "ends Q E p" "\<And>x c. Q x c \<Longrightarrow> conn_ok c \<and> leads a (c_state c)" "\<And>c. E c \<Longrightarrow> conn_ok c \<and> leads a (c_state c)"
  shows "moves a p"
  unfolding moves_def by (rule ends_mono [OF assms(1)]) (use assms(2,3) in auto)

lemma moves_refused: "conn_ok c \<Longrightarrow> c_state c = a \<Longrightarrow> moves a (r, c) \<longleftrightarrow> r \<noteq> More \<and> r \<noteq> OOB"
  by (cases r) (auto simp: moves_def leads_def)

lemma at_state_ok: "at_state st c \<Longrightarrow> st \<noteq> Authenticating \<Longrightarrow> conn_ok c \<and> c_state c = st"
  by (simp add: at_state_def conn_ok_def)

lemma ok_at: "conn_ok c \<Longrightarrow> at_state (c_state c) c"
  by (simp add: at_state_def conn_ok_def)

lemma leads_simps: "leads a a" "leads a Disconnected" "leads Idle Executing" "leads Executing Idle" "leads Executing Cancelling"
  "leads Cancelling Idle" "leads Authenticating Idle" "leads Disconnected Authenticating"
  by (simp_all add: leads_def client_transition_def)

lemma conn_ok_error [simp]: "conn_ok (c\<lparr> c_last_error := e \<rparr>) = conn_ok c"
  by (simp add: conn_ok_def conn_inv_def)

lemma moves_fail: "conn_ok c \<Longrightarrow> moves (c_state c) (fail msg v c)"
  by (simp add: moves_def fail_def act_defs leads_simps)

lemma moves_Connect: "conn_ok c \<Longrightarrow> moves (c_state c) (Connect host port t c)"
  by (auto simp: Connect_def moves_fail)
    (auto simp: act_defs socket_Connect_def sock_Connect_def Let_def moves_def conn_ok_def conn_inv_def sock_inv_def
        sock_Close_def leads_simps split: option.splits)

lemma moves_authenticate:
  assumes "login_attempt attempt" "conn_ok c"
  shows "moves (c_state c) (authenticate db attempt c)"
proof (cases "c_state c = Authenticating")
  case True
  with assms(2) have "pending_login c \<and> connected (c_socket c)" by (simp add: pending_login_def conn_ok_def)
  from runsD [OF login_attempt.authenticate_runs [OF assms(1)] this, of db] show ?thesis
    by (rule movesI) (use True in \<open>auto simp: login_post_def thrown_def pending_login_def conn_ok_def leads_simps split: if_splits\<close>)
next
  case False
  with assms(2) show ?thesis by (simp add: authenticate_def moves_fail)
qed

lemma moves_Ping: "conn_ok c \<Longrightarrow> moves (c_state c) (Ping env c)"
proof (cases "c_state c = Idle")
  case True
  assume "conn_ok c"
  with True have "at_state Idle c" using ok_at by fastforce
  from runsD [OF runs_Ping this, of env] show ?thesis
    by (rule movesI) (use True in \<open>auto simp: alive_post_def leads_simps dest!: at_state_ok split: if_splits\<close>)
qed (simp add: Ping_def moves_refused)

lemma moves_SendAttention: "conn_ok c \<Longrightarrow> moves (c_state c) (SendAttention c)"
proof (cases "c_state c = Executing")
  case True
  assume "conn_ok c"
  with True have "at_state Executing c" using ok_at by fastforce
  from runsD [OF runs_SendAttention this, of "\<lambda>_. False"] show ?thesis
    by (rule movesI) (use True in \<open>auto simp: leads_simps dest!: at_state_ok split: if_splits\<close>)
qed (simp add: SendAttention_def moves_refused)

lemma moves_Wait: "conn_ok c \<Longrightarrow> moves (c_state c) (WaitForAttentionAck t c)"
proof (cases "c_state c = Cancelling")
  case True
  assume "conn_ok c"
  with True have "at_state Cancelling c" using ok_at by fastforce
  from runsD [OF runs_WaitForAttentionAck this, of t] show ?thesis
    by (rule movesI) (use True in \<open>auto simp: alive_post_def leads_simps dest!: at_state_ok split: if_splits\<close>)
qed (simp add: WaitForAttentionAck_def moves_refused)

lemma moves_ExecuteBatch: "conn_ok c \<Longrightarrow> moves (c_state c) (ExecuteBatch env sql c)"
proof (cases "c_state c = Idle")
  case True
  assume "conn_ok c"
  with True have "at_state Idle c" using ok_at by fastforce
  from runsD [OF runs_ExecuteBatch this, of env sql] show ?thesis
    by (rule movesI) (use True in \<open>auto simp: batch_post_def leads_simps dest!: at_state_ok split: if_splits\<close>)
qed (simp add: ExecuteBatch_def moves_fail)

lemma moves_ReceiveData: "conn_ok c \<Longrightarrow> moves (c_state c) (ReceiveData n c)"
proof (cases "c_state c = Executing \<or> c_state c = Cancelling")
  case True
  assume "conn_ok c"
  with True have "at_state (c_state c) c \<and> (c_state c = Executing \<or> c_state c = Cancelling)" by (simp add: ok_at)
  from runsD [OF runs_ReceiveData this, of "\<lambda>_. False" n] show ?thesis
    by (rule movesI) (use True in \<open>auto simp: leads_simps dest!: at_state_ok split: if_splits\<close>)
qed (simp add: ReceiveData_def moves_fail)

lemma moves_Close: "conn_ok c \<Longrightarrow> moves (c_state c) (Close c)"
  by (rule movesI [OF Close_ends]) (auto simp: conn_ok_def leads_simps at_state_def)

lemma moves_View:
  assumes "conn_ok c" "c_state c = Executing \<or> c_state c = Cancelling"
  shows "moves (c_state c) (socket_ReceivePayloadView c)"
proof -
  obtain r s es where p: "ReceivePayloadView (recvs (c_net c)) (c_socket c) = (r, s, es)" by (metis prod_cases3)
  from assms(1) ReceivePayloadView_safe [OF _ p] have "r \<noteq> OOB \<and> r \<noteq> More \<and> sock_inv s"
    by (auto simp: conn_ok_def conn_inv_def)
  with p assms show ?thesis
    by (cases r) (auto simp: socket_ReceivePayloadView_def moves_def conn_ok_def conn_inv_def leads_simps)
qed

lemma moves_upd:
  "conn_ok (f c) \<Longrightarrow> c_state (f c) = c_state c \<Longrightarrow> moves (c_state c) (upd_act f c)"
  by (simp add: moves_def upd_act_def leads_simps)

lemma moves_Transition: "conn_ok c \<Longrightarrow> client_transition a b \<Longrightarrow> moves (c_state c) (TransitionState a b c)"
  by (cases "c_state c = a")
    (auto simp: TransitionState_def moves_refused moves_def leads_def conn_ok_def conn_inv_def client_transition_def)

lemmas setter_defs = SetTransactionDescriptor_def ClearTransactionDescriptor_def SetNeedsReset_def
  SetRequestedPacketSize_def SetRequestUtf8Support_def ClearReceiveBuffer_def

lemma run_op_moves:
  assumes "factory_total factory"
    and "conn_ok c" "op_used op c"
  shows "moves (c_state c) (run_op env factory op c)"
proof (cases op)
  case (Op_TransitionState a b)
  with assms(2,3) show ?thesis by (auto intro!: moves_silent moves_Transition)
next
  case (Op_ValidateWithPing)
  with assms(2) show ?thesis by (auto intro!: moves_silent simp: ValidateWithPing_def moves_Ping moves_refused)
qed (use assms in \<open>auto intro!: moves_silent moves_Connect moves_authenticate moves_Ping moves_SendAttention moves_Wait
    moves_ExecuteBatch moves_ReceiveData moves_Close moves_View moves_upd integrated_login_attempt
    sql_login.login_attempt_axioms fedauth_login.login_attempt_axioms
    simp: Authenticate_def AuthenticateWithFedAuth_def AuthenticateIntegrated_def setter_defs conn_ok_def conn_inv_def sock_inv_def\<close>)


lemma reachable_ok:
  assumes "factory_total factory"
    and "conn_reachable env factory c"
  shows "conn_ok c"
  using assms(2)
proof (induction rule: conn_reachable.induct)
  case (conn_new net)
  show ?case by (simp add: new_connection_def conn_ok_def conn_inv_def sock_inv_def new_socket_def)
next
  case (conn_step c op)
  from run_op_moves [where env = env, OF assms(1) conn_step.IH conn_step.hyps(2)] show ?case
    by (cases "run_op env factory op c"; cases "fst (run_op env factory op c)") (auto simp: moves_def)
qed

text \<open>C3: the state machine of a connection. However a connection was driven, with any peer and any network
  failures, every operation comes to an end (it returns or throws, it never leaves its buffers and never
  hangs), moves the state only along the transitions of the machine, keeps the negotiated packet size in
  the protocol's range and the receive buffer consistent, and a connection is left in state
  \<open>Authenticating\<close> only with an open socket.\<close>

theorem connection_machine:
  assumes "conn_reachable env factory c" and "op_used op c"
    and "factory_total factory"
  shows "\<exists>r c'. run_op env factory op c = (r, c') \<and> r \<noteq> OOB \<and> r \<noteq> More \<and> leads (c_state c) (c_state c') \<and>
    sock_inv (c_socket c') \<and> TDS_MIN_PACKET_SIZE \<le> unat (c_negotiated_packet_size c') \<and>
    unat (c_negotiated_packet_size c') \<le> TDS_MAX_PACKET_SIZE \<and>
    (c_state c' = Authenticating \<longrightarrow> connected (c_socket c'))"
proof -
  from run_op_moves [where env = env, OF assms(3) reachable_ok [OF assms(3) assms(1)] assms(2)] show ?thesis
    by (cases "run_op env factory op c"; cases "fst (run_op env factory op c)")
      (auto simp: moves_def conn_ok_def conn_inv_def)
qed


lemma dialled_reachable: "conn_reachable plain_env (\<lambda>_ _ _. None) dialled"
proof -
  have "snd (run_op plain_env (\<lambda>_ _ _. None) (Op_Connect [0x68] 1433 30) (new_connection quiet_network)) = dialled"
    by (simp add: dialled_def silent_def bind_act_def)
      (cases "Connect [0x68] 1433 30 (new_connection quiet_network)";
       cases "fst (Connect [0x68] 1433 30 (new_connection quiet_network))"; simp add: ret_act_def)
  with conn_step [OF conn_new, of "Op_Connect [0x68] 1433 30" quiet_network plain_env "\<lambda>_ _ _. None"] show ?thesis by simp
qed

theorem connection_machine_witness:
  "\<exists>r c'. run_op plain_env (\<lambda>_ _ _. None) (Op_Authenticate [] [] [] True []) dialled = (r, c') \<and> r \<noteq> OOB \<and> r \<noteq> More \<and>
     leads Authenticating (c_state c') \<and> sock_inv (c_socket c')"
  using connection_machine [OF dialled_reachable, of "Op_Authenticate [] [] [] True []"]
  by (auto simp: dialled_open factory_total_def)


subsection \<open>What a batch puts on the wire\<close>

lemma number_packets_last: "ps \<noteq> [] \<Longrightarrow> IsEndOfMessage (last (number_packets i ps)) = IsEndOfMessage (last ps)"
  by (induction ps arbitrary: i) (auto simp: IsEndOfMessage_def SetPacketId_def split: list.splits elim: number_packets.elims)

lemma number_packets_butlast:
  "list_all (\<lambda>p. \<not> IsEndOfMessage p) (butlast (number_packets i ps)) = list_all (\<lambda>p. \<not> IsEndOfMessage p) (butlast ps)"
proof (induction ps arbitrary: i)
  case (Cons p ps)
  have "number_packets (i + 1) ps = [] \<longleftrightarrow> ps = []" by (cases ps) auto
  with Cons show ?case by (simp add: IsEndOfMessage_def SetPacketId_def)
qed simp

lemma number_packets_payload:
  "concat (map pk_payload (number_packets i ps)) = concat (map pk_payload ps)"
  "list_all (\<lambda>p. pk_type p = ty \<and> length (pk_payload p) \<le> k) (number_packets i ps) =
     list_all (\<lambda>p. pk_type p = ty \<and> length (pk_payload p) \<le> k) ps"
  "number_packets i ps = [] \<longleftrightarrow> ps = []"
  by (induction ps arbitrary: i) (auto simp: SetPacketId_def)

lemma carries_number: "carries ty k payload ps \<Longrightarrow> carries ty k payload (number_packets i ps)"
  by (simp add: carries_def number_packets_payload number_packets_last number_packets_butlast)

lemma eom_reset: "(st OR PacketStatus_RESET_CONNECTION) AND PacketStatus_END_OF_MESSAGE = (st :: byte) AND PacketStatus_END_OF_MESSAGE"
  by (simp add: bit.conj_disj_distrib2)

lemma carries_reset: "carries ty k payload ps \<Longrightarrow> carries ty k payload (mark_reset ps)"
  by (cases ps) (auto simp: carries_def mark_reset_def SetStatus_def IsEndOfMessage_def eom_reset)

definition has_reset :: "tds_packet list \<Rightarrow> bool" where
  "has_reset ps \<longleftrightarrow> ps \<noteq> [] \<and> pk_status (hd ps) AND PacketStatus_RESET_CONNECTION \<noteq> 0"

lemma has_reset_simps: "has_reset (number_packets i ps) = has_reset ps" "ps \<noteq> [] \<Longrightarrow> has_reset (mark_reset ps)"
  by (cases ps; simp add: has_reset_def mark_reset_def SetPacketId_def SetStatus_def bit.conj_disj_distrib2)+

definition wired :: "TdsConnection \<Rightarrow> tds_packet list \<Rightarrow> TdsConnection \<Rightarrow> bool" where
  "wired c ps c' \<longleftrightarrow> wire (c_net c') = wire (c_net c) @ concat (map Serialize ps) \<and> c_needs_reset c' = c_needs_reset c"

lemma socket_Send_wire:
  "socket_Send d c = (Ret True, c') \<Longrightarrow> wire (c_net c') = wire (c_net c) @ d \<and> c_needs_reset c' = c_needs_reset c"
  by (auto simp: socket_Send_def Let_def split: prod.splits)

lemma socket_Send_returns: obtains ok d where "socket_Send x c = (Ret ok, d)"
  by (cases "Send (next_event (SendError ''Send timeout'' False) (sends (c_net c))) (c_socket c)")
    (auto simp: socket_Send_def Let_def)

lemma send_tls_packets_wire:
  "send_tls_packets i n ps c = (Ret True, c') \<Longrightarrow> wired c ps c'"
proof (induction ps arbitrary: i c)
  case Nil
  then show ?case by (simp add: wired_def act_defs)
next
  case (Cons p ps)
  obtain ok d where d: "socket_Send (Serialize p) c = (Ret ok, d)" by (rule socket_Send_returns)
  with Cons.prems have "ok" "send_tls_packets (i + 1) n ps d = (Ret True, c')"
    by (auto simp: SendPacket_def act_defs split: if_splits)
  with Cons.IH d socket_Send_wire show ?case by (fastforce simp: wired_def)
qed

lemma send_batch_wire:
  assumes "send_batch ps c = (Ret True, c')" "carries ty k payload ps"
  shows "\<exists>qs. carries ty k payload qs \<and> has_reset qs = has_reset ps \<and> wired c qs c'"
proof (cases "length ps > 1")
  case True
  let ?qs = "number_packets 1 ps"
  obtain ok d where d: "socket_Send (concat (map Serialize ?qs)) c = (Ret ok, d)"
    by (rule socket_Send_returns)
  have "wired c ?qs c'"
  proof (cases "tls_context (c_socket c)")
    case True
    with \<open>length ps > 1\<close> assms(1) have "send_tls_packets 0 (length ps) ?qs c = (Ret True, c')"
      by (simp add: send_batch_def act_defs Let_def)
    then show ?thesis by (rule send_tls_packets_wire)
  next
    case False
    with \<open>length ps > 1\<close> assms(1) d have "ok \<and> c' = d"
      by (auto simp: send_batch_def act_defs Let_def split: if_splits)
    with socket_Send_wire d show ?thesis by (auto simp: wired_def)
  qed
  with assms(2) show ?thesis by (intro exI [of _ ?qs]) (simp add: carries_number has_reset_simps)
next
  case False
  with assms(2) obtain p where p: "ps = [p]" by (cases ps) (auto simp: carries_def)
  let ?p = "SetPacketId (c_next_packet_id c) p" and ?c = "snd (take_packet_id c)"
  obtain ok d where d: "socket_Send (Serialize ?p) ?c = (Ret ok, d)" by (rule socket_Send_returns)
  with p assms(1) have "ok \<and> c' = d"
    by (auto simp: send_batch_def act_defs SendPacket_def take_packet_id_def split: if_splits)
  with socket_Send_wire [of "Serialize ?p" ?c d] d have "wired c (number_packets (c_next_packet_id c) ps) c'"
    by (simp add: wired_def p take_packet_id_def)
  with assms(2) show ?thesis
    by (intro exI [of _ "number_packets (c_next_packet_id c) ps"]) (simp add: carries_number has_reset_simps)
qed

abbreviation no_reset :: "tds_packet list \<Rightarrow> bool" where
  "no_reset \<equiv> list_all (\<lambda>p. pk_status p AND PacketStatus_RESET_CONNECTION = 0)"

lemma split_loop_status: "split_loop ty m payload offset packets = Some ps \<Longrightarrow> no_reset packets \<Longrightarrow> no_reset ps"
proof -
  have "no_reset packets \<longrightarrow> no_reset ps" if "split_loop ty m payload offset packets = Some ps"
    using that
    by (rule split_loop.raw_induct [where P = "\<lambda>ty m payload offset packets ps. no_reset packets \<longrightarrow> no_reset ps", rotated])
      (fastforce simp: Let_def SetEndOfMessage_def split: if_splits)
  then show "split_loop ty m payload offset packets = Some ps \<Longrightarrow> no_reset packets \<Longrightarrow> no_reset ps" by blast
qed

lemma packetize_status: "packetize ty payload n = Some ps \<Longrightarrow> \<not> has_reset ps"
  using split_loop_status [of ty _ payload 0 "[]" ps]
  by (cases ps) (auto simp: packetize_def has_reset_def Let_def split: if_splits)

lemma mark_reset_nonempty: "mark_reset ps = [] \<longleftrightarrow> ps = []"
  by (cases ps) (simp_all add: mark_reset_def)

text \<open>C7: a query reaches the server unchanged. When \<open>ExecuteBatch\<close> reports success the connection is
  executing, and the bytes it added to the wire are a sequence of packets within the negotiated size, the
  first of which asks for a session reset exactly when one was due. However the network cuts those bytes
  up, a receiver reassembles the transaction header followed by the UTF-16 text of the query, and what
  follows on the wire is untouched.\<close>

theorem batch_transport:
  assumes "conn_inv c"
    and "ExecuteBatch env sql c = (Ret True, c')" and "Utf16LEEncode (e_simd env) sql \<noteq> []"
  shows "c_state c' = Executing \<and> \<not> c_needs_reset c' \<and>
    (\<exists>ps. wire (c_net c') = wire (c_net c) @ concat (map Serialize ps) \<and> ps \<noteq> [] \<and>
       list_all (\<lambda>p. pk_type p = PacketType_SQL_BATCH \<and>
          TDS_HEADER_SIZE + length (pk_payload p) \<le> unat (c_negotiated_packet_size c)) ps \<and>
       (c_needs_reset c \<longleftrightarrow> has_reset ps) \<and>
       (\<forall>s cs rest. live s \<and> pieces s cs \<and> pending s @ concat cs = concat (map Serialize ps) @ rest \<longrightarrow>
         (\<exists>s' cs'. ReceiveMessage (map RecvData cs) s =
             Some (Ret (Some (all_headers (GetTransactionDescriptor c) @ Utf16LEEncode (e_simd env) sql)), s', map RecvData cs') \<and>
           pending s' @ concat cs' = rest)))"
proof -
  define n where "n = unat (c_negotiated_packet_size c)"
  define payload where "payload = all_headers (GetTransactionDescriptor c) @ Utf16LEEncode (e_simd env) sql"
  have n: "TDS_HEADER_SIZE < n" "n \<le> TDS_MAX_PACKET_SIZE" using assms(1) by (simp_all add: conn_inv_def n_def)
  have idle: "c_state c = Idle" using assms(2) by (auto simp: ExecuteBatch_def fail_def act_defs split: if_splits)
  then have "at_state Idle c" using assms(1) by (simp add: at_state_def)
  from runsD [OF runs_ExecuteBatch this, of env sql] assms(2) have st: "c_state c' = Executing"
    by (simp add: batch_post_def at_state_def)
  from assms(3) n packetize_carries [OF n(1), of payload PacketType_SQL_BATCH] obtain ps where
    ps: "BuildSqlBatchMultiPacket (e_simd env) sql n (GetTransactionDescriptor c) = Some ps"
      "carries PacketType_SQL_BATCH (n - TDS_HEADER_SIZE) payload ps"
    by (auto simp: BuildSqlBatchMultiPacket_def payload_def Let_def)
  from ps(1) assms(3) have "packetize PacketType_SQL_BATCH payload n = Some ps"
    by (simp add: BuildSqlBatchMultiPacket_def payload_def Let_def)
  from packetize_status [OF this] have clear: "\<not> has_reset ps" .
  define qs where "qs = (if c_needs_reset c then mark_reset ps else ps)"
  define d where "d = (if c_needs_reset c then c\<lparr> c_state := Executing, c_needs_reset := False \<rparr> else c\<lparr> c_state := Executing \<rparr>)"
  have "ps \<noteq> []" using ps(2) by (simp add: carries_def)
  with idle ps(1) assms(2) have send: "send_batch qs d = (Ret True, c')"
    by (auto simp: ExecuteBatch_def act_defs total_res_def qs_def d_def n_def split: if_splits)
  have q: "carries PacketType_SQL_BATCH (n - TDS_HEADER_SIZE) payload qs" "has_reset qs = c_needs_reset c"
    using ps(2) clear \<open>ps \<noteq> []\<close> by (simp_all add: qs_def carries_reset has_reset_simps)
  from send_batch_wire [OF send q(1)] obtain xs where
    xs: "carries PacketType_SQL_BATCH (n - TDS_HEADER_SIZE) payload xs" "has_reset xs = c_needs_reset c" "wired d xs c'"
    unfolding q(2) by blast
  have fits: "n - TDS_HEADER_SIZE + TDS_HEADER_SIZE \<le> TDS_MAX_PACKET_SIZE" using n by simp
  have "list_all (\<lambda>p. pk_type p = PacketType_SQL_BATCH \<and> TDS_HEADER_SIZE + length (pk_payload p) \<le> n) xs"
    using xs(1) n(1) by (auto simp: carries_def list_all_iff)
  moreover have "wire (c_net c') = wire (c_net c) @ concat (map Serialize xs)" "\<not> c_needs_reset c'"
    using xs(3) by (simp_all add: wired_def d_def split: if_splits)
  moreover have "xs \<noteq> []" using xs(1) by (simp add: carries_def)
  moreover have "\<exists>s' cs'. ReceiveMessage (map RecvData cs) s = Some (Ret (Some payload), s', map RecvData cs') \<and>
      pending s' @ concat cs' = rest"
    if "live s \<and> pieces s cs \<and> pending s @ concat cs = concat (map Serialize xs) @ rest" for s cs rest
    using message_loop_carries [OF xs(1) fits, of s cs rest "[]"] that unfolding ReceiveMessage_def by auto
  ultimately show ?thesis using xs(2) st unfolding n_def payload_def by blast
qed


definition idle_conn :: TdsConnection where
  "idle_conn = dialled\<lparr> c_state := Idle, c_needs_reset := True, c_net := quiet_network\<lparr> sends := [Sent] \<rparr> \<rparr>"

theorem batch_transport_witness:
  "\<exists>c' ps. ExecuteBatch plain_env (bytes_of_str ''GO'') idle_conn = (Ret True, c') \<and> c_state c' = Executing \<and>
     wire (c_net c') = concat (map Serialize ps) \<and> has_reset ps \<and>
     (\<exists>s' cs'. ReceiveMessage (map RecvData (map (\<lambda>b. [b]) (concat (map Serialize ps)))) open_socket =
        Some (Ret (Some (all_headers None @ [0x47, 0, 0x4F, 0])), s', map RecvData cs') \<and> pending s' @ concat cs' = [])"
proof -
  have enc: "Utf16LEEncode (e_simd plain_env) (bytes_of_str ''GO'') = [0x47, 0, 0x4F, 0]"
    by (simp add: plain_env_def ping_text)
  have inv: "conn_inv idle_conn" using dialled_open by (simp add: idle_conn_def conn_inv_def)
  have fields: "c_needs_reset idle_conn" "GetTransactionDescriptor idle_conn = None" "wire (c_net idle_conn) = []"
    "unat (c_negotiated_packet_size idle_conn) = TDS_DEFAULT_PACKET_SIZE"
    by (simp_all add: idle_conn_def dialled_def GetTransactionDescriptor_def Connect_def new_connection_def socket_Connect_def
      sock_Connect_def new_socket_def next_event_def quiet_network_def act_defs Let_def)
  have "fst (ExecuteBatch plain_env (bytes_of_str ''GO'') idle_conn) = Ret True"
    using enc fields dialled_open
    by (simp add: ExecuteBatch_def idle_conn_def act_defs total_res_def BuildSqlBatchMultiPacket_def packetize_def
        all_headers_def descriptor_bytes_def mark_reset_def send_batch_def take_packet_id_def SendPacket_def socket_Send_def
        Send_def next_event_def Let_def)
  then obtain c' where c': "ExecuteBatch plain_env (bytes_of_str ''GO'') idle_conn = (Ret True, c')" by (metis prod.collapse)
  have p: "live open_socket" "pieces open_socket (map (\<lambda>b. [b]) bs)" "pending open_socket = []" for bs :: "byte list"
    by (simp_all add: live_def sock_inv_def pending_def pieces_def open_socket_def sock_Connect_def new_socket_def Let_def list_all_iff)
  have singles: "concat (map (\<lambda>b. [b]) bs) = bs" for bs :: "byte list" by (induction bs) auto
  from batch_transport [OF inv c'] enc fields obtain ps where
    ps: "c_state c' = Executing" "wire (c_net c') = concat (map Serialize ps)" "has_reset ps" and
    rcv: "\<forall>s cs rest. live s \<and> pieces s cs \<and> pending s @ concat cs = concat (map Serialize ps) @ rest \<longrightarrow>
       (\<exists>s' cs'. ReceiveMessage (map RecvData cs) s = Some (Ret (Some (all_headers None @ [0x47, 0, 0x4F, 0])), s', map RecvData cs') \<and>
          pending s' @ concat cs' = rest)" by auto
  from rcv [rule_format, of open_socket "map (\<lambda>b. [b]) (concat (map Serialize ps))" "[]"] p singles
  have "\<exists>s' cs'. ReceiveMessage (map RecvData (map (\<lambda>b. [b]) (concat (map Serialize ps)))) open_socket =
      Some (Ret (Some (all_headers None @ [0x47, 0, 0x4F, 0])), s', map RecvData cs') \<and> pending s' @ concat cs' = []" by simp
  with c' ps show ?thesis by blast
qed

end
