(* ===== verification/Connection_Pool.thy ===== *)
theory Connection_Pool
  imports Connection_Machine "HOL-Library.AList"
begin

text \<open>
  The connection pool of \<open>src/tds/tds_connection_pool.cpp\<close>. A shared pointer is a number, the objects are
  \<open>p_conns\<close>; the containers never hold a null pointer. The code between two points where a thread takes
  and gives up \<open>pool_mutex_\<close> is one operation on the pool: \<open>acquire_enter\<close> either is done or
  leaves the lock to create a connection (\<open>acquire_created\<close> follows) or to wait (\<open>acquire_wake\<close> follows);
  \<open>Acquire\<close> is their sequence, given what happens while the lock is free.
  Counters are 64-bit words. Clock readings are arguments, in milliseconds; the connections read their own.
  Notifications, the destruction of unreferenced objects and debug output are left out.
\<close>

record PoolConfiguration =
  connection_limit :: u64
  connection_cache :: bool
  connection_timeout :: int
  idle_timeout :: int
  min_connections :: u64
  acquire_timeout :: int

record ConnectionMetadata =
  m_connection :: nat
  m_connection_id :: u64
  m_last_released :: int

record PoolStatistics =
  total_connections :: u64
  idle_connections :: u64
  active_connections :: u64
  connections_created :: u64
  connections_closed :: u64
  acquire_count :: u64
  acquire_timeout_count :: u64
  acquire_wait_total_ms :: u64
  pinned_count :: u64

record ConnectionPool =
  p_config :: PoolConfiguration
  p_idle :: "ConnectionMetadata list"
  p_active :: "(u64 \<times> nat) list"
  p_stats :: PoolStatistics
  p_next_connection_id :: u64
  p_shutdown :: bool
  p_pinned :: u64
  p_conns :: "nat \<Rightarrow> TdsConnection"

type_synonym 'a pool_act = "(ConnectionPool, 'a) act"

definition no_stats :: PoolStatistics where
  "no_stats = \<lparr> total_connections = 0, idle_connections = 0, active_connections = 0, connections_created = 0,
     connections_closed = 0, acquire_count = 0, acquire_timeout_count = 0, acquire_wait_total_ms = 0, pinned_count = 0 \<rparr>"

definition new_pool :: "PoolConfiguration \<Rightarrow> (nat \<Rightarrow> TdsConnection) \<Rightarrow> ConnectionPool" where
  "new_pool config conns = \<lparr> p_config = config, p_idle = [], p_active = [], p_stats = no_stats, p_next_connection_id = 1,
     p_shutdown = False, p_pinned = 0, p_conns = conns \<rparr>"

definition on_conn :: "nat \<Rightarrow> 'a conn_act \<Rightarrow> 'a pool_act" where
  "on_conn ptr m p = (case m (p_conns p ptr) of (r, c) \<Rightarrow> (r, p\<lparr> p_conns := (p_conns p)(ptr := c) \<rparr>))"

definition upd_stats :: "(PoolStatistics \<Rightarrow> PoolStatistics) \<Rightarrow> ConnectionPool \<Rightarrow> ConnectionPool" where
  "upd_stats f p = p\<lparr> p_stats := f (p_stats p) \<rparr>"

subsection \<open>Handing out idle connections\<close>

definition ValidateConnection :: "client_env \<Rightarrow> nat \<Rightarrow> bool pool_act" where
  "ValidateConnection env ptr p =
     (if \<not> IsAlive (p_conns p ptr) then (Ret False, p)
      else on_conn ptr (bind_act IsLongIdle (\<lambda>long_idle. if long_idle then ValidateWithPing env else ret_act True)) p)"

definition activate :: "u64 \<Rightarrow> nat \<Rightarrow> ConnectionPool \<Rightarrow> ConnectionPool" where
  "activate cid ptr p = p\<lparr> p_active := AList.update cid ptr (p_active p) \<rparr>"

definition count_closed :: "PoolStatistics \<Rightarrow> PoolStatistics" where
  "count_closed st = st\<lparr> connections_closed := connections_closed st + 1, total_connections := total_connections st - 1 \<rparr>"

fun try_idle :: "client_env \<Rightarrow> ConnectionMetadata list \<Rightarrow> nat option pool_act" where
  "try_idle env [] = ret_act None"
| "try_idle env (meta # rest) =
     after_upd (\<lambda>p. upd_stats (\<lambda>st. st\<lparr> idle_connections := idle_connections st - 1 \<rparr>) (p\<lparr> p_idle := rest \<rparr>))
     (bind_act (ValidateConnection env (m_connection meta)) (\<lambda>valid.
      if valid then
        after_upd (\<lambda>p. upd_stats (\<lambda>st. st\<lparr> active_connections := active_connections st + 1 \<rparr>)
            (activate (m_connection_id meta) (m_connection meta) p))
        (bind_act (on_conn (m_connection meta) UpdateLastUsed) (\<lambda>_. ret_act (Some (m_connection meta))))
      else
        bind_act (on_conn (m_connection meta) Close) (\<lambda>_. after_upd (upd_stats count_closed) (try_idle env rest))))"

definition TryAcquireIdle :: "client_env \<Rightarrow> nat option pool_act" where
  "TryAcquireIdle env p = try_idle env (p_idle p) p"

subsection \<open>Acquire\<close>

datatype acquired = Acquired nat | Refused | Creating | Waiting

definition count_wait :: "int \<Rightarrow> PoolStatistics \<Rightarrow> PoolStatistics" where
  "count_wait elapsed st = st\<lparr> acquire_wait_total_ms := acquire_wait_total_ms st + of_int elapsed \<rparr>"

definition acquire_wait :: "int \<Rightarrow> int \<Rightarrow> int \<Rightarrow> acquired pool_act" where
  "acquire_wait timeout_ms start now p =
     (let timed_out = (\<lambda>st. st\<lparr> acquire_timeout_count := acquire_timeout_count st + 1 \<rparr>) in
      if timeout_ms = 0 then (Ret Refused, upd_stats timed_out p)
      else if now - start \<ge> timeout_ms then (Ret Refused, upd_stats (count_wait (now - start)) (upd_stats timed_out p))
      else (Ret Waiting, p))"

definition acquire_loop :: "client_env \<Rightarrow> int \<Rightarrow> int \<Rightarrow> int \<Rightarrow> acquired pool_act" where
  "acquire_loop env timeout_ms start now =
     bind_act (TryAcquireIdle env) (\<lambda>conn.
     case conn of
       Some ptr \<Rightarrow> after_upd (upd_stats (count_wait (now - start))) (ret_act (Acquired ptr))
     | None \<Rightarrow>
         bind_act (get_act (\<lambda>p. total_connections (p_stats p) < connection_limit (p_config p))) (\<lambda>under.
         if under then ret_act Creating else acquire_wait timeout_ms start now))"

text \<open>The time to wait. The product is one of C++ \<open>int\<close>s; where it leaves the type the standard gives it no meaning, and
  it wraps here as it does on the usual compilers.\<close>

definition acquire_budget :: "int \<Rightarrow> ConnectionPool \<Rightarrow> int" where
  "acquire_budget timeout_ms p =
     (if timeout_ms < 0 then sint (of_int (acquire_timeout (p_config p) * 1000) :: 32 word) else timeout_ms)"

definition acquire_enter :: "client_env \<Rightarrow> int \<Rightarrow> int \<Rightarrow> int \<Rightarrow> acquired pool_act" where
  "acquire_enter env timeout_ms start now p =
     (if p_shutdown p then (Ret Refused, p)
      else after_upd (upd_stats (\<lambda>st. st\<lparr> acquire_count := acquire_count st + 1 \<rparr>))
             (acquire_loop env (acquire_budget timeout_ms p) start now) p)"

definition acquire_created :: "int \<Rightarrow> int \<Rightarrow> int \<Rightarrow> nat option \<Rightarrow> acquired pool_act" where
  "acquire_created timeout_ms start now conn p =
     (case conn of
        Some ptr \<Rightarrow>
          (Ret (Acquired ptr),
           upd_stats (\<lambda>st. count_wait (now - start) (st\<lparr> total_connections := total_connections st + 1,
               active_connections := active_connections st + 1, connections_created := connections_created st + 1 \<rparr>))
             ((activate (p_next_connection_id p) ptr p)\<lparr> p_next_connection_id := p_next_connection_id p + 1 \<rparr>))
      | None \<Rightarrow> acquire_wait (acquire_budget timeout_ms p) start now p)"

definition acquire_wake :: "client_env \<Rightarrow> int \<Rightarrow> int \<Rightarrow> int \<Rightarrow> acquired pool_act" where
  "acquire_wake env timeout_ms start now p =
     (if p_shutdown p then (Ret Refused, p)
      else acquire_loop env (acquire_budget timeout_ms p) start now p)"

text \<open>What happens while a thread in \<open>Acquire\<close> does not have the lock: what the other threads make of the pool, what the
  factory answers if the thread is creating a connection (which may be an exception), and the time at
  which it has the lock again. A wait ends with a notification, spuriously or at the deadline.\<close>

record gap =
  g_others :: "ConnectionPool \<Rightarrow> ConnectionPool"
  g_made :: "nat option res"
  g_now :: int

definition acquire_step :: "client_env \<Rightarrow> int \<Rightarrow> int \<Rightarrow> gap \<Rightarrow> acquired \<Rightarrow> acquired pool_act" where
  "acquire_step env timeout_ms start g a =
     after_upd (g_others g)
       (if a = Creating then bind_act (lift_res (g_made g)) (\<lambda>conn. acquire_created timeout_ms start (g_now g) conn)
        else acquire_wake env timeout_ms start (g_now g))"

fun resume :: "client_env \<Rightarrow> int \<Rightarrow> int \<Rightarrow> gap list \<Rightarrow> acquired \<Rightarrow> acquired pool_act" where
  "resume env timeout_ms start [] a = ret_act a"
| "resume env timeout_ms start (g # gaps) a =
     (if a = Creating \<or> a = Waiting then bind_act (acquire_step env timeout_ms start g a) (resume env timeout_ms start gaps)
      else ret_act a)"

definition Acquire :: "client_env \<Rightarrow> int \<Rightarrow> int \<Rightarrow> int \<Rightarrow> gap list \<Rightarrow> acquired pool_act" where
  "Acquire env timeout_ms start now gaps =
     bind_act (acquire_enter env timeout_ms start now) (resume env timeout_ms start gaps)"

subsection \<open>Release\<close>

definition find_active :: "nat \<Rightarrow> ConnectionPool \<Rightarrow> u64 option" where
  "find_active ptr p = map_option fst (find (\<lambda>entry. snd entry = ptr) (p_active p))"

definition close_released :: "nat \<Rightarrow> unit pool_act" where
  "close_released ptr = bind_act (on_conn ptr Close) (\<lambda>_. upd_act (upd_stats count_closed))"

definition Release :: "nat option \<Rightarrow> int \<Rightarrow> unit pool_act" where
  "Release conn now p =
     (case conn of
        None \<Rightarrow> (Ret (), p)
      | Some ptr \<Rightarrow>
          if p_shutdown p then (Ret (), p)
          else
            (let found = find_active ptr p;
                 p = (case found of None \<Rightarrow> p
                      | Some cid \<Rightarrow> upd_stats (\<lambda>st. st\<lparr> active_connections := active_connections st - 1 \<rparr>)
                                    (p\<lparr> p_active := AList.delete cid (p_active p) \<rparr>))
             in if c_state (p_conns p ptr) \<noteq> Idle then close_released ptr p
                else if \<not> connection_cache (p_config p) \<or> \<not> IsAlive (p_conns p ptr) then close_released ptr p
                else
                  (let (cid, next_id) = (case found of Some cid \<Rightarrow> (cid, p_next_connection_id p)
                                        | None \<Rightarrow> (p_next_connection_id p, p_next_connection_id p + 1));
                       meta = \<lparr> m_connection = ptr, m_connection_id = cid, m_last_released = now \<rparr>
                   in (Ret (), upd_stats (\<lambda>st. st\<lparr> idle_connections := idle_connections st + 1 \<rparr>)
                         (p\<lparr> p_next_connection_id := next_id, p_idle := p_idle p @ [meta] \<rparr>)))))"

text \<open>The second reading of the flag, under the lock: it was set after the first one.\<close>

definition release_late :: "nat \<Rightarrow> unit pool_act" where
  "release_late ptr = on_conn ptr Close"

subsection \<open>Cleanup and shutdown\<close>

fun cleanup_loop :: "int \<Rightarrow> nat \<Rightarrow> ConnectionMetadata list \<Rightarrow> ConnectionMetadata list \<Rightarrow> unit pool_act" where
  "cleanup_loop now to_keep [] remaining = upd_act (\<lambda>p. p\<lparr> p_idle := remaining \<rparr>)"
| "cleanup_loop now to_keep (meta # rest) remaining =
     after_upd (\<lambda>p. p\<lparr> p_idle := rest \<rparr>)
     (bind_act (get_act (\<lambda>p. (now - m_last_released meta) div 1000 > idle_timeout (p_config p) \<and> length remaining \<ge> to_keep))
       (\<lambda>should_close.
        if should_close then
          bind_act (on_conn (m_connection meta) Close) (\<lambda>_.
          after_upd (upd_stats (\<lambda>st. (count_closed st)\<lparr> idle_connections := idle_connections st - 1 \<rparr>))
            (cleanup_loop now to_keep rest remaining))
        else cleanup_loop now to_keep rest (remaining @ [meta])))"

definition idle_to_keep :: "ConnectionPool \<Rightarrow> nat" where
  "idle_to_keep p = (if min_connections (p_config p) > active_connections (p_stats p)
     then unat (min_connections (p_config p) - active_connections (p_stats p)) else 0)"

definition cleanup_pass :: "int \<Rightarrow> unit pool_act" where
  "cleanup_pass now p =
     (if p_shutdown p \<or> idle_timeout (p_config p) \<le> 0 then (Ret (), p)
      else cleanup_loop now (idle_to_keep p) (p_idle p) [] p)"

fun close_idle :: "ConnectionMetadata list \<Rightarrow> unit pool_act" where
  "close_idle [] = ret_act ()"
| "close_idle (meta # rest) =
     bind_act (on_conn (m_connection meta) Close) (\<lambda>_.
     after_upd (\<lambda>p. upd_stats (\<lambda>st. st\<lparr> connections_closed := connections_closed st + 1 \<rparr>) (p\<lparr> p_idle := rest \<rparr>))
       (close_idle rest))"

fun close_active :: "(u64 \<times> nat) list \<Rightarrow> unit pool_act" where
  "close_active [] = ret_act ()"
| "close_active ((cid, ptr) # rest) =
     bind_act (on_conn ptr Close) (\<lambda>_.
     after_upd (upd_stats (\<lambda>st. st\<lparr> connections_closed := connections_closed st + 1 \<rparr>)) (close_active rest))"

text \<open>\<open>D_ASSERT\<close> throws in a debug build and is nothing in a release build, where the code only writes a warning.\<close>

definition D_ASSERT :: "bool \<Rightarrow> string \<Rightarrow> bool \<Rightarrow> unit pool_act" where
  "D_ASSERT debug text holds = (if debug \<and> \<not> holds then lift_res (Throw text) else ret_act ())"

definition Shutdown :: "bool \<Rightarrow> unit pool_act" where
  "Shutdown debug =
     bind_act (get_act (\<lambda>p. length (p_active p))) (\<lambda>leaked.
     after_upd (\<lambda>p. p\<lparr> p_shutdown := True \<rparr>)
     (bind_act (get_act p_idle) (\<lambda>idle. bind_act (close_idle idle) (\<lambda>_.
      bind_act (get_act p_active) (\<lambda>active. bind_act (close_active active) (\<lambda>_.
      bind_act (upd_act (\<lambda>p. upd_stats (\<lambda>st. st\<lparr> total_connections := 0, idle_connections := 0, active_connections := 0 \<rparr>)
         (p\<lparr> p_active := [] \<rparr>))) (\<lambda>_.
      D_ASSERT debug ''leaked == 0'' (leaked = 0))))))))"

subsection \<open>Statistics and pins\<close>

definition GetStats :: "ConnectionPool \<Rightarrow> PoolStatistics" where
  "GetStats p = (p_stats p)\<lparr> pinned_count := p_pinned p \<rparr>"

definition IncrementPinned :: "ConnectionPool \<Rightarrow> ConnectionPool" where
  "IncrementPinned p = p\<lparr> p_pinned := p_pinned p + 1 \<rparr>"

definition DecrementPinned :: "ConnectionPool \<Rightarrow> ConnectionPool" where
  "DecrementPinned p = p\<lparr> p_pinned := p_pinned p - 1 \<rparr>"

definition GetPinnedCount :: "ConnectionPool \<Rightarrow> int" where
  "GetPinnedCount p = sint (p_pinned p)"

end
