(* ===== verification/Pool_Invariant.thy ===== *)
theory Pool_Invariant
  imports Connection_Pool
begin

text \<open>
  The invariant of the pool and the ways it is run. \<open>pool_run\<close> interleaves the critical sections of any number of
  threads with what holders do to their connections; its ghost state is the set of connections handed
  out, the number of threads creating one, and the number of connections the total still counts
  although an exception took them out of the pool.
\<close>

subsection \<open>What the pool needs of a connection\<close>

definition usable :: "TdsConnection \<Rightarrow> bool" where
  "usable c \<longleftrightarrow> conn_inv c \<and> c_state c = Idle \<and> connected (c_socket c)"

lemma socket_Send_connected: "socket_Send d c = (Ret True, c') \<Longrightarrow> connected (c_socket c')"
  by (auto simp: socket_Send_def Send_def Let_def split: if_splits send_event.splits)

lemma socket_ReceiveMessage_connected:
  "socket_ReceiveMessage c = (Ret (Some x), c') \<Longrightarrow> connected (c_socket c') = connected (c_socket c)"
  by (auto simp: socket_ReceiveMessage_def split: option.splits dest: ReceiveMessage_connected)

lemma Ping_connected:
  assumes "c_state c = Idle" "Ping env c = (Ret True, c')"
  shows "connected (c_socket c')"
proof -
  define d where "d = snd (take_packet_id (c\<lparr> c_state := Executing \<rparr>))"
  let ?p = "Serialize (SetPacketId (c_next_packet_id c) (BuildPing (e_simd env)))"
  obtain ok e where e: "socket_Send ?p d = (Ret ok, e)" by (rule socket_Send_returns)
  obtain r f where f: "socket_ReceiveMessage e = (r, f)" by force
  have "ok" using assms e by (rule_tac ccontr) (simp add: Ping_def act_defs SendPacket_def take_packet_id_def d_def)
  moreover from this assms e f obtain x where x: "r = Ret (Some x)"
    by (cases r) (auto simp: Ping_def act_defs SendPacket_def take_packet_id_def d_def split: option.splits)
  moreover from attention_success_Ret(2) [of x] obtain b where b: "IsSuccessResponse x = Some (Ret b)" by blast
  moreover from assms e f \<open>ok\<close> x b have "connected (c_socket c') = connected (c_socket f)"
    by (cases b) (auto simp: Ping_def act_defs SendPacket_def take_packet_id_def d_def UpdateLastUsed_def read_clock_def total_res_def)
  ultimately show ?thesis using e f socket_Send_connected socket_ReceiveMessage_connected by auto
qed

lemma Ping_usable:
  assumes "usable c"
  shows "ends (\<lambda>ok c'. conn_inv c' \<and> (if ok then usable c' else c_state c' = Disconnected)) conn_inv (Ping env c)"
proof -
  from assms have "at_state Idle c" by (simp add: usable_def at_state_def)
  note runsD [OF runs_Ping this, of env]
  with Ping_connected [of c env] assms show ?thesis
    by (cases "Ping env c"; cases "fst (Ping env c)")
      (auto simp: alive_post_def at_state_def usable_def split: if_splits)
qed

lemma validate_usable:
  assumes "usable c"
  shows "ends (\<lambda>ok c'. conn_inv c' \<and> (if ok then usable c' else c_state c' = Disconnected)) conn_inv
     (bind_act IsLongIdle (\<lambda>long_idle. if long_idle then ValidateWithPing env else ret_act True) c)"
proof -
  define d where "d = snd (read_clock c)"
  have d: "usable d" using assms by (simp add: d_def read_clock_def usable_def conn_inv_def)
  then have "IsAlive d" by (simp add: usable_def IsAlive_def)
  obtain b where "IsLongIdle c = (Ret b, d)" by (simp add: IsLongIdle_def act_defs read_clock_def d_def)
  with Ping_usable [OF d, of env] d \<open>IsAlive d\<close> show ?thesis
    by (auto simp: act_defs ValidateWithPing_def usable_def)
qed

lemma Close_quiet:
  assumes "conn_inv c" "c_state c \<noteq> Executing"
  shows "\<exists>c'. Close c = (Ret (), c') \<and> conn_inv c' \<and> c_state c' = Disconnected"
  using Close_ends [OF assms(1)] assms(2)
  by (cases "Close c"; cases "fst (Close c)") (auto simp: at_state_def)

lemma touch_usable: "usable c \<Longrightarrow> \<exists>c'. UpdateLastUsed c = (Ret (), c') \<and> usable c'"
  by (simp add: UpdateLastUsed_def act_defs read_clock_def usable_def conn_inv_def)

subsection \<open>The invariant\<close>

definition pointers :: "ConnectionPool \<Rightarrow> nat list" where
  "pointers p = map m_connection (p_idle p) @ map snd (p_active p)"

definition ids :: "ConnectionPool \<Rightarrow> u64 list" where
  "ids p = map m_connection_id (p_idle p) @ map fst (p_active p)"

definition pool_size :: "ConnectionPool \<Rightarrow> nat" where
  "pool_size p = length (p_idle p) + length (p_active p)"

definition pool_inv :: "nat set \<Rightarrow> nat \<Rightarrow> ConnectionPool \<Rightarrow> bool" where
  "pool_inv held lost p \<longleftrightarrow>
     distinct (pointers p) \<and> snd ` set (p_active p) = held \<and>
     (\<forall>m \<in> set (p_idle p). usable (p_conns p (m_connection m))) \<and> (\<forall>ptr \<in> held. conn_inv (p_conns p ptr)) \<and>
     distinct (ids p) \<and> (\<forall>i \<in> set (ids p). 0 < i \<and> i < p_next_connection_id p) \<and> 0 < p_next_connection_id p \<and>
     idle_connections (p_stats p) = of_nat (length (p_idle p)) \<and>
     active_connections (p_stats p) = of_nat (length (p_active p)) \<and>
     total_connections (p_stats p) = of_nat (pool_size p + lost)"

text \<open>What an operation that only moves connections leaves as it is.\<close>

definition same_frame :: "ConnectionPool \<Rightarrow> ConnectionPool \<Rightarrow> bool" where
  "same_frame q p \<longleftrightarrow> p_config p = p_config q \<and> p_next_connection_id p = p_next_connection_id q \<and> p_shutdown p = p_shutdown q"

text \<open>The state while one idle connection has been taken out of the queue and is still counted.\<close>

definition taken :: "nat set \<Rightarrow> nat \<Rightarrow> ConnectionMetadata \<Rightarrow> ConnectionPool \<Rightarrow> bool" where
  "taken held lost meta p \<longleftrightarrow> pool_inv held (lost + 1) p \<and> m_connection meta \<notin> set (pointers p) \<and>
     m_connection_id meta \<notin> set (ids p) \<and> 0 < m_connection_id meta \<and> m_connection_id meta < p_next_connection_id p"

lemma taken_start:
  assumes "pool_inv held lost p" "p_idle p = meta # rest"
  shows "taken held lost meta (upd_stats (\<lambda>st. st\<lparr> idle_connections := idle_connections st - 1 \<rparr>) (p\<lparr> p_idle := rest \<rparr>)) \<and>
    usable (p_conns p (m_connection meta))"
  using assms by (auto simp: taken_def pool_inv_def pointers_def ids_def upd_stats_def pool_size_def)

lemma pool_inv_conns:
  assumes "pool_inv held lost p" "ptr \<notin> set (pointers p)"
  shows "pool_inv held lost (p\<lparr> p_conns := (p_conns p)(ptr := c) \<rparr>)"
  using assms by (fastforce simp: pool_inv_def pointers_def ids_def pool_size_def)

lemma pool_inv_use:
  assumes "pool_inv held lost p" "ptr \<in> held" "conn_inv c"
  shows "pool_inv held lost (p\<lparr> p_conns := (p_conns p)(ptr := c) \<rparr>)"
proof -
  have "ptr \<notin> m_connection ` set (p_idle p)" using assms(1,2) by (auto simp: pool_inv_def pointers_def)
  with assms show ?thesis by (fastforce simp: pool_inv_def pointers_def ids_def pool_size_def)
qed

lemma taken_conns:
  "taken held lost meta p \<Longrightarrow> taken held lost meta (p\<lparr> p_conns := (p_conns p)(m_connection meta := c) \<rparr>)"
  unfolding taken_def using pool_inv_conns by (auto simp: pointers_def ids_def)

lemma pool_inv_stats:
  assumes "idle_connections (f (p_stats p)) = idle_connections (p_stats p)"
    "active_connections (f (p_stats p)) = active_connections (p_stats p)"
    "total_connections (f (p_stats p)) = total_connections (p_stats p)"
  shows "pool_inv held lost (upd_stats f p) = pool_inv held lost p"
  using assms by (simp add: pool_inv_def upd_stats_def pointers_def ids_def pool_size_def)

lemma taken_drop:
  "taken held lost meta p \<Longrightarrow> pool_inv held lost (upd_stats count_closed p)"
  by (auto simp: taken_def pool_inv_def upd_stats_def count_closed_def pointers_def ids_def pool_size_def)

lemma update_new: "k \<notin> fst ` set xs \<Longrightarrow> AList.update k v xs = xs @ [(k, v)]"
  by (induction xs) auto

lemma taken_activate:
  assumes "taken held lost meta p" "conn_inv (p_conns p (m_connection meta))"
  shows "pool_inv (insert (m_connection meta) held) lost
    (upd_stats (\<lambda>st. st\<lparr> active_connections := active_connections st + 1 \<rparr>) (activate (m_connection_id meta) (m_connection meta) p))"
proof -
  have new: "m_connection_id meta \<notin> fst ` set (p_active p)" using assms(1) by (auto simp: taken_def ids_def)
  show ?thesis using assms
    by (auto simp: taken_def pool_inv_def upd_stats_def activate_def pointers_def ids_def pool_size_def update_new [OF new])
qed

subsection \<open>The critical sections\<close>

definition idle_post :: "nat set \<Rightarrow> nat \<Rightarrow> ConnectionPool \<Rightarrow> nat option \<Rightarrow> ConnectionPool \<Rightarrow> bool" where
  "idle_post held lost p r q \<longleftrightarrow> same_frame p q \<and> pool_size q \<le> pool_size p \<and>
     (case r of None \<Rightarrow> pool_inv held lost q \<and> p_idle q = []
      | Some ptr \<Rightarrow> ptr \<notin> held \<and> pool_inv (insert ptr held) lost q \<and> usable (p_conns q ptr))"

definition lost_post :: "nat set \<Rightarrow> nat \<Rightarrow> ConnectionPool \<Rightarrow> ConnectionPool \<Rightarrow> bool" where
  "lost_post held lost p q \<longleftrightarrow> same_frame p q \<and> pool_size q + 1 \<le> pool_size p \<and> pool_inv held (lost + 1) q"

lemma frame_simps [simp]:
  "same_frame p p" "same_frame p (upd_stats f q) = same_frame p q" "same_frame p (q\<lparr> p_idle := metas \<rparr>) = same_frame p q"
  "same_frame p (q\<lparr> p_active := a \<rparr>) = same_frame p q" "same_frame p (q\<lparr> p_conns := h \<rparr>) = same_frame p q"
  "same_frame p (activate i ptr q) = same_frame p q"
  by (simp_all add: same_frame_def upd_stats_def activate_def)

lemma size_simps [simp]:
  "pool_size (upd_stats f q) = pool_size q" "pool_size (q\<lparr> p_conns := h \<rparr>) = pool_size q"
  by (simp_all add: pool_size_def upd_stats_def)

lemma conns_simps [simp]: "p_conns (upd_stats f q) = p_conns q" "p_conns (activate i ptr q) = p_conns q"
  "p_idle (upd_stats f q) = p_idle q" "p_idle (activate i ptr q) = p_idle q"
  by (simp_all add: upd_stats_def activate_def)

lemma taken_size: "taken held lost meta p \<Longrightarrow> pool_size (activate (m_connection_id meta) (m_connection meta) p) = pool_size p + 1"
  by (auto simp: taken_def ids_def pool_size_def activate_def update_new)

lemma idle_post_trans:
  "idle_post held lost q r x \<Longrightarrow> same_frame p q \<Longrightarrow> pool_size q \<le> pool_size p \<Longrightarrow> idle_post held lost p r x"
  "lost_post held lost q x \<Longrightarrow> same_frame p q \<Longrightarrow> pool_size q \<le> pool_size p \<Longrightarrow> lost_post held lost p x"
  by (auto simp: idle_post_def lost_post_def same_frame_def)

lemma try_idle_ends:
  "pool_inv held lost p \<Longrightarrow> p_idle p = metas \<Longrightarrow> ends (idle_post held lost p) (lost_post held lost p) (try_idle env metas p)"
proof (induction metas arbitrary: p)
  case Nil
  then show ?case by (simp add: ret_act_def idle_post_def)
next
  case (Cons meta rest)
  let ?ptr = "m_connection meta"
  define q where "q = upd_stats (\<lambda>st. st\<lparr> idle_connections := idle_connections st - 1 \<rparr>) (p\<lparr> p_idle := rest \<rparr>)"
  have q: "taken held lost meta q" "usable (p_conns q ?ptr)" "p_idle q = rest" "same_frame p q" "pool_size p = pool_size q + 1"
    using taken_start [OF Cons.prems] Cons.prems(2) by (simp_all add: q_def pool_size_def upd_stats_def same_frame_def)
  then have alive: "IsAlive (p_conns q ?ptr)" by (simp add: usable_def IsAlive_def)
  obtain r c where rc: "bind_act IsLongIdle (\<lambda>b. if b then ValidateWithPing env else ret_act True) (p_conns q ?ptr) = (r, c)" by force
  define v where "v = q\<lparr> p_conns := (p_conns q)(?ptr := c) \<rparr>"
  have v: "taken held lost meta v" "p_idle v = rest" "same_frame p v" "pool_size v = pool_size q"
    using q taken_conns by (auto simp: v_def)
  have val: "ValidateConnection env ?ptr q = (r, v)"
    using alive rc by (simp add: ValidateConnection_def on_conn_def v_def)
  have step: "try_idle env (meta # rest) p = follow (r, v) (\<lambda>valid. if valid then
        after_upd (\<lambda>p. upd_stats (\<lambda>st. st\<lparr> active_connections := active_connections st + 1 \<rparr>) (activate (m_connection_id meta) ?ptr p))
        (bind_act (on_conn ?ptr UpdateLastUsed) (\<lambda>_. ret_act (Some ?ptr)))
      else bind_act (on_conn ?ptr Close) (\<lambda>_. after_upd (upd_stats count_closed) (try_idle env rest)))"
    using val by (simp add: after_upd_def bind_act_def flip: q_def)
  note c = validate_usable [OF q(2), of env, unfolded rc]
  show ?case
  proof (cases r)
    case (Ret valid)
    show ?thesis
    proof (cases valid)
      case True
      with c Ret obtain d where d: "UpdateLastUsed c = (Ret (), d)" "usable d" using touch_usable [of c] by auto
      have "?ptr \<notin> held" using v(1) by (auto simp: taken_def pool_inv_def pointers_def)
      let ?w = "upd_stats (\<lambda>st. st\<lparr> active_connections := active_connections st + 1 \<rparr>) (activate (m_connection_id meta) ?ptr v)"
      have "pool_inv (insert ?ptr held) lost ?w" using taken_activate [OF v(1)] c Ret True by (simp add: v_def)
      from pool_inv_use [OF this, of ?ptr d] taken_size [OF v(1)] d v q True Ret step \<open>?ptr \<notin> held\<close> show ?thesis
        by (simp add: after_upd_def bind_act_def on_conn_def ret_act_def idle_post_def usable_def v_def)
    next
      case False
      with c Ret Close_quiet [of c] obtain d where d: "Close c = (Ret (), d)" by auto
      let ?w = "upd_stats count_closed (v\<lparr> p_conns := (p_conns v)(?ptr := d) \<rparr>)"
      have "pool_inv held lost ?w" by (rule taken_drop [OF taken_conns [OF v(1)]])
      from Cons.IH [OF this] v(2) have "ends (idle_post held lost ?w) (lost_post held lost ?w) (try_idle env rest ?w)" by simp
      then have "ends (idle_post held lost p) (lost_post held lost p) (try_idle env rest ?w)"
        by (rule ends_mono) (auto elim!: idle_post_trans simp: v q)
      with step Ret False d show ?thesis by (simp add: after_upd_def bind_act_def on_conn_def v_def)
    qed
  next
    case (Throw e)
    with step v q show ?thesis by (simp add: lost_post_def taken_def)
  qed (use c in simp_all)
qed

definition acquire_post :: "nat set \<Rightarrow> nat \<Rightarrow> ConnectionPool \<Rightarrow> acquired \<Rightarrow> ConnectionPool \<Rightarrow> bool" where
  "acquire_post held lost p r q \<longleftrightarrow> same_frame p q \<and> pool_size q \<le> pool_size p \<and>
     (case r of Acquired ptr \<Rightarrow> ptr \<notin> held \<and> pool_inv (insert ptr held) lost q \<and> usable (p_conns q ptr)
      | Creating \<Rightarrow> pool_inv held lost q \<and> (of_nat (pool_size q + lost) :: u64) < connection_limit (p_config q)
      | _ \<Rightarrow> pool_inv held lost q)"

lemma inv_counts:
  "pool_inv held lost (upd_stats (count_wait e) p) = pool_inv held lost p"
  "pool_inv held lost (upd_stats (\<lambda>st. st\<lparr> acquire_timeout_count := n st \<rparr>) p) = pool_inv held lost p"
  "pool_inv held lost (upd_stats (\<lambda>st. st\<lparr> acquire_count := n st \<rparr>) p) = pool_inv held lost p"
  by (simp_all add: pool_inv_stats count_wait_def)

lemma acquire_wait_ends:
  assumes "pool_inv held lost p"
  shows "ends (\<lambda>r q. acquire_post held lost p r q \<and> (r = Refused \<or> r = Waiting)) E (acquire_wait timeout start now p)"
  using assms by (simp add: acquire_wait_def Let_def acquire_post_def inv_counts)

lemma acquire_loop_ends:
  assumes "pool_inv held lost p"
  shows "ends (acquire_post held lost p) (lost_post held lost p) (acquire_loop env timeout start now p)"
proof -
  obtain r q where q: "TryAcquireIdle env p = (r, q)" by force
  have post: "ends (idle_post held lost p) (lost_post held lost p) (r, q)"
    using try_idle_ends [OF assms refl, of env] q by (simp add: TryAcquireIdle_def)
  show ?thesis
  proof (cases r)
    case (Ret conn)
    show ?thesis
    proof (cases conn)
      case None
      with post Ret have inv: "pool_inv held lost q" "same_frame p q" "pool_size q \<le> pool_size p" by (simp_all add: idle_post_def)
      have "ends (acquire_post held lost p) (lost_post held lost p) (acquire_wait timeout start now q)"
        using acquire_wait_ends [OF inv(1), of "lost_post held lost p" timeout start now]
        by (rule ends_mono) (use inv in \<open>auto simp: acquire_post_def same_frame_def split: acquired.splits\<close>)
      with inv q Ret None show ?thesis
        by (auto simp: acquire_loop_def act_defs acquire_post_def pool_inv_def)
    next
      case (Some ptr)
      with post Ret q show ?thesis
        by (simp add: acquire_loop_def act_defs acquire_post_def idle_post_def inv_counts)
    qed
  qed (use post q in \<open>simp_all add: acquire_loop_def act_defs\<close>)
qed

lemma acquire_enter_ends:
  assumes "pool_inv held lost p"
  shows "ends (acquire_post held lost p) (lost_post held lost p) (acquire_enter env timeout start now p)"
proof -
  let ?q = "upd_stats (\<lambda>st. st\<lparr> acquire_count := acquire_count st + 1 \<rparr>) p"
  have "ends (acquire_post held lost p) (lost_post held lost p) (acquire_loop env (acquire_budget timeout p) start now ?q)"
    using acquire_loop_ends [of held lost ?q env "acquire_budget timeout p" start now] assms unfolding inv_counts
    by (auto elim!: ends_mono simp: acquire_post_def lost_post_def same_frame_def upd_stats_def pool_size_def)
  with assms show ?thesis by (simp add: acquire_enter_def after_upd_def acquire_post_def)
qed

lemma acquire_wake_ends:
  assumes "pool_inv held lost p"
  shows "ends (acquire_post held lost p) (lost_post held lost p) (acquire_wake env timeout start now p)"
  using acquire_loop_ends [OF assms] assms by (simp add: acquire_wake_def acquire_post_def)

lemma word_less_Suc: "i \<le> n \<Longrightarrow> n \<noteq> - 1 \<Longrightarrow> i < n + (1 :: u64)"
  using unatSuc [of n] by (simp add: word_less_nat_alt word_le_nat_alt eq_neg_iff_add_eq_0 add.commute)

lemma created_ends:
  assumes "pool_inv held lost p" "ptr \<notin> set (pointers p)" "usable (p_conns p ptr)" "p_next_connection_id p \<noteq> - 1"
  shows "\<exists>q. acquire_created timeout start now (Some ptr) p = (Ret (Acquired ptr), q) \<and> ptr \<notin> held \<and>
    pool_inv (insert ptr held) lost q \<and> pool_size q = pool_size p + 1 \<and> p_conns q = p_conns p \<and>
    p_config q = p_config p \<and> p_shutdown q = p_shutdown p"
proof -
  have "i < p_next_connection_id p + 1" if "i \<le> p_next_connection_id p" for i
    using that assms(4) by (rule word_less_Suc)
  from this [of 0] this [OF less_imp_le] this [OF order_refl] have
    "0 < p_next_connection_id p + 1" "\<And>i. i < p_next_connection_id p \<Longrightarrow> i < p_next_connection_id p + 1"
    "p_next_connection_id p < p_next_connection_id p + 1" by auto
  moreover have new: "p_next_connection_id p \<notin> fst ` set (p_active p)" using assms(1) by (auto simp: pool_inv_def ids_def)
  ultimately show ?thesis using assms(1-3)
    by (auto simp: acquire_created_def upd_stats_def activate_def pool_inv_def pointers_def ids_def pool_size_def
        update_new [OF new] usable_def count_wait_def)
qed

lemma entry_unique: "distinct (map f xs) \<Longrightarrow> x \<in> set xs \<Longrightarrow> y \<in> set xs \<Longrightarrow> f x = f y \<Longrightarrow> x = y"
  by (auto simp: distinct_map dest: inj_onD)

lemma distinct_sub: "distinct (a @ b) \<Longrightarrow> distinct c \<Longrightarrow> set c \<subseteq> set b \<Longrightarrow> distinct (a @ c)"
  by auto

lemma in_set_map: "x \<in> set xs \<Longrightarrow> f x \<in> set (map f xs)"
  by simp

lemma delete_entry:
  assumes "distinct (map fst xs)" "(k, v) \<in> set xs"
  shows "set (AList.delete k xs) = set xs - {(k, v)}" "length xs = Suc (length (AList.delete k xs))"
    "distinct (map fst (AList.delete k xs))" "distinct (map snd xs) \<Longrightarrow> distinct (map snd (AList.delete k xs))"
proof -
  have del: "AList.delete k xs = filter (\<lambda>x. fst x \<noteq> k) xs" unfolding AList.delete_eq by (rule filter_cong) auto
  show set: "set (AList.delete k xs) = set xs - {(k, v)}"
    unfolding del by (auto dest: entry_unique [OF assms(1) _ assms(2)])
  have d: "distinct xs" "distinct (AList.delete k xs)" using assms(1) by (auto simp: del distinct_map)
  have "length (AList.delete k xs) = card (set xs - {(k, v)})" using distinct_card [OF d(2)] set by simp
  moreover have "0 < card (set xs)" using assms(2) card_gt_0_iff by fastforce
  ultimately show "length xs = Suc (length (AList.delete k xs))" using assms(2) distinct_card [OF d(1)] by simp
  show "distinct (map fst (AList.delete k xs))" "distinct (map snd xs) \<Longrightarrow> distinct (map snd (AList.delete k xs))"
    using assms(1) by (simp_all add: del distinct_map_filter)
qed

lemma find_active_held:
  assumes "pool_inv held lost p" "ptr \<in> held"
  obtains cid where "find_active ptr p = Some cid" "(cid, ptr) \<in> set (p_active p)"
proof -
  from assms obtain k where "(k, ptr) \<in> set (p_active p)" by (auto simp: pool_inv_def)
  then have "find (\<lambda>entry. snd entry = ptr) (p_active p) \<noteq> None" unfolding find_None_iff by auto
  then obtain e where e: "find (\<lambda>entry. snd entry = ptr) (p_active p) = Some e" by blast
  then have "e \<in> set (p_active p)" "snd e = ptr" by (auto simp: find_Some_iff)
  with e show thesis by (intro that [of "fst e"]) (auto simp: find_active_def)
qed

lemma pool_inv_shrink:
  assumes "pool_inv held lost p" "set xs \<subseteq> set (p_active p)" "length (p_active p) = Suc (length xs)"
    "distinct (map fst xs)" "distinct (map snd xs)"
  shows "pool_inv (snd ` set xs) (lost + 1)
    (upd_stats (\<lambda>st. st\<lparr> active_connections := active_connections st - 1 \<rparr>) (p\<lparr> p_active := xs \<rparr>))"
proof -
  let ?q = "upd_stats (\<lambda>st. st\<lparr> active_connections := active_connections st - 1 \<rparr>) (p\<lparr> p_active := xs \<rparr>)"
  from assms(1) have "distinct (map m_connection (p_idle p) @ map snd (p_active p))"
    "distinct (map m_connection_id (p_idle p) @ map fst (p_active p))"
    unfolding pool_inv_def pointers_def ids_def by blast+
  note distinct_sub [OF this(1) assms(5)] distinct_sub [OF this(2) assms(4)]
  with assms(2) have "distinct (pointers ?q)" "distinct (ids ?q)"
    by (simp_all add: pointers_def ids_def upd_stats_def image_mono)
  moreover have "set (ids ?q) \<subseteq> set (ids p)" "snd ` set xs \<subseteq> held"
    using image_mono [OF assms(2), of fst] image_mono [OF assms(2), of snd] assms(1)
    by (auto simp: ids_def upd_stats_def pool_inv_def)
  ultimately show ?thesis using assms(1,3) unfolding pool_inv_def
    by (intro conjI) (simp_all add: upd_stats_def subset_iff pool_size_def)
qed

lemma taken_release:
  assumes "pool_inv held lost p" "(cid, ptr) \<in> set (p_active p)"
  shows "taken (held - {ptr}) lost \<lparr> m_connection = ptr, m_connection_id = cid, m_last_released = now \<rparr>
    (upd_stats (\<lambda>st. st\<lparr> active_connections := active_connections st - 1 \<rparr>) (p\<lparr> p_active := AList.delete cid (p_active p) \<rparr>))"
proof -
  define xs where "xs = AList.delete cid (p_active p)"
  have d: "distinct (map fst (p_active p))" "distinct (map snd (p_active p))" using assms(1) by (auto simp: pool_inv_def pointers_def ids_def)
  note xs = delete_entry [OF d(1) assms(2), folded xs_def] delete_entry(4) [OF d(1) assms(2) d(2), folded xs_def]
  have held: "snd ` set (p_active p) = held" using assms(1) by (simp add: pool_inv_def)
  have snd: "snd ` set xs = held - {ptr}"
    unfolding held [symmetric] xs(1) by (auto dest: entry_unique [OF d(2) _ assms(2)])
  have "pool_inv (held - {ptr}) (lost + 1)
      (upd_stats (\<lambda>st. st\<lparr> active_connections := active_connections st - 1 \<rparr>) (p\<lparr> p_active := xs \<rparr>))"
    unfolding snd [symmetric] using xs by (intro pool_inv_shrink [OF assms(1)]) auto
  moreover have "cid \<notin> fst ` set xs" unfolding xs(1) by (auto dest: entry_unique [OF d(1) _ assms(2)])
  moreover have "cid \<notin> set (map m_connection_id (p_idle p))" "ptr \<notin> set (map m_connection (p_idle p))" "0 < cid" "cid < p_next_connection_id p"
    using in_set_map [OF assms(2), of fst] in_set_map [OF assms(2), of snd] assms(1)
    by (auto simp: pool_inv_def pointers_def ids_def simp del: set_map)
  ultimately show ?thesis using snd unfolding taken_def pointers_def ids_def upd_stats_def xs_def [symmetric] by simp
qed

lemma taken_push:
  assumes "taken held lost meta p" "usable (p_conns p (m_connection meta))"
  shows "pool_inv held lost (upd_stats (\<lambda>st. st\<lparr> idle_connections := idle_connections st + 1 \<rparr>)
    (p\<lparr> p_next_connection_id := p_next_connection_id p, p_idle := p_idle p @ [meta] \<rparr>))"
  using assms by (auto simp: taken_def pool_inv_def pointers_def ids_def upd_stats_def pool_size_def)

definition release_post :: "nat set \<Rightarrow> nat \<Rightarrow> ConnectionPool \<Rightarrow> unit \<Rightarrow> ConnectionPool \<Rightarrow> bool" where
  "release_post held lost p r q \<longleftrightarrow> same_frame p q \<and> pool_size q \<le> pool_size p \<and> pool_inv held lost q"

lemma close_taken:
  assumes "taken held lost meta p" "conn_inv (p_conns p (m_connection meta))"
  shows "ends (\<lambda>r q. same_frame p q \<and> pool_size q = pool_size p \<and> pool_inv held lost q)
    (\<lambda>q. same_frame p q \<and> pool_size q = pool_size p \<and> pool_inv held (lost + 1) q) (close_released (m_connection meta) p)"
proof -
  obtain r c where c: "Close (p_conns p (m_connection meta)) = (r, c)" by force
  let ?q = "p\<lparr> p_conns := (p_conns p)(m_connection meta := c) \<rparr>"
  have t: "taken held lost meta ?q" using taken_conns [OF assms(1)] .
  from Close_ends [OF assms(2)] c taken_drop [OF t] t show ?thesis
    by (cases r) (simp_all add: close_released_def act_defs on_conn_def taken_def)
qed

lemma Release_ends:
  assumes "pool_inv held lost p" "ptr \<in> held" "\<not> p_shutdown p"
  shows "ends (release_post (held - {ptr}) lost p) (lost_post (held - {ptr}) lost p) (Release (Some ptr) now p)"
proof -
  from find_active_held [OF assms(1,2)] obtain cid where cid: "find_active ptr p = Some cid" "(cid, ptr) \<in> set (p_active p)" .
  define meta where "meta = \<lparr> m_connection = ptr, m_connection_id = cid, m_last_released = now \<rparr>"
  define q where "q = upd_stats (\<lambda>st. st\<lparr> active_connections := active_connections st - 1 \<rparr>) (p\<lparr> p_active := AList.delete cid (p_active p) \<rparr>)"
  have t: "taken (held - {ptr}) lost meta q" unfolding meta_def q_def by (rule taken_release [OF assms(1) cid(2)])
  have conns: "p_conns q = p_conns p" "p_config q = p_config p" "p_next_connection_id q = p_next_connection_id p" "same_frame p q"
    by (simp_all add: q_def upd_stats_def same_frame_def)
  have "distinct (map fst (p_active p))" using assms(1) by (auto simp: pool_inv_def ids_def)
  from delete_entry(2) [OF this cid(2)] have size: "pool_size p = pool_size q + 1" by (simp add: q_def pool_size_def upd_stats_def)
  have inv: "conn_inv (p_conns q (m_connection meta))" using assms(1,2) by (simp add: pool_inv_def conns meta_def)
  have closing: "ends (release_post (held - {ptr}) lost p) (lost_post (held - {ptr}) lost p) (close_released ptr q)"
    using close_taken [OF t inv] unfolding meta_def ConnectionMetadata.simps
    by (rule ends_mono) (use conns size in \<open>auto simp: release_post_def lost_post_def same_frame_def\<close>)
  let ?push = "upd_stats (\<lambda>st. st\<lparr> idle_connections := idle_connections st + 1 \<rparr>)
     (q\<lparr> p_next_connection_id := p_next_connection_id q, p_idle := p_idle q @ [meta] \<rparr>)"
  have kept: "release_post (held - {ptr}) lost p () ?push" if "usable (p_conns q ptr)"
    using taken_push [OF t] that conns size by (simp add: release_post_def same_frame_def meta_def) (simp add: pool_size_def upd_stats_def)
  show ?thesis
  proof (cases "c_state (p_conns p ptr) \<noteq> Idle \<or> \<not> connection_cache (p_config p) \<or> \<not> IsAlive (p_conns p ptr)")
    case True
    with closing assms(3) cid(1) conns show ?thesis by (auto simp: Release_def Let_def simp flip: q_def)
  next
    case False
    then have "usable (p_conns q ptr)" using inv conns by (simp add: usable_def IsAlive_def meta_def)
    with kept False assms(3) cid(1) conns show ?thesis by (simp add: Release_def Let_def meta_def flip: q_def)
  qed
qed

lemma inv_queue:
  "pool_inv held lost p \<Longrightarrow> p_idle p = meta # rest \<Longrightarrow> usable (p_conns p (m_connection meta))"
  by (simp add: pool_inv_def)

lemma inv_evict:
  assumes "pool_inv held lost (p\<lparr> p_idle := a @ meta # b \<rparr>)"
  shows "pool_inv held lost ((upd_stats (\<lambda>st. (count_closed st)\<lparr> idle_connections := idle_connections st - 1 \<rparr>)
    (p\<lparr> p_idle := b, p_conns := (p_conns p)(m_connection meta := c) \<rparr>))\<lparr> p_idle := a @ b \<rparr>)"
proof -
  have d: "m_connection meta \<notin> m_connection ` set (a @ b)" "m_connection meta \<notin> held"
    using assms by (auto simp: pool_inv_def pointers_def)
  have "m_connection m \<noteq> m_connection meta" if "m \<in> set (a @ b)" for m using imageI [OF that, of m_connection] d(1) by auto
  moreover have "x \<noteq> m_connection meta" if "x \<in> held" for x using that d(2) by auto
  ultimately show ?thesis using assms by (auto simp: pool_inv_def pointers_def ids_def pool_size_def upd_stats_def count_closed_def)
qed

text \<open>One pass of the cleanup thread, seen as a queue that is worked off: \<open>remaining\<close> is still part of the pool.\<close>

lemma cleanup_loop_ends:
  assumes "pool_inv held lost (p\<lparr> p_idle := remaining @ metas \<rparr>)"
  shows "ends (\<lambda>_ q. same_frame p q \<and> pool_inv held lost q \<and> p_active q = p_active p \<and> length (p_idle q) \<le> length (remaining @ metas) \<and>
      (\<exists>kept. p_idle q = remaining @ kept \<and> set kept \<subseteq> set metas \<and>
        (\<forall>m \<in> set metas - set kept. (now - m_last_released m) div 1000 > idle_timeout (p_config p)) \<and>
        min to_keep (length (remaining @ metas)) \<le> length (p_idle q)))
     (\<lambda>_. False) (cleanup_loop now to_keep metas remaining p)"
  using assms
proof (induction metas arbitrary: p remaining)
  case Nil
  then show ?case by (simp add: upd_act_def same_frame_def)
next
  case (Cons meta rest)
  let ?p = "p\<lparr> p_idle := rest \<rparr>"
  have p: "same_frame p ?p" "p_config ?p = p_config p" "p_active ?p = p_active p" by simp_all
  show ?case
  proof (cases "(now - m_last_released meta) div 1000 > idle_timeout (p_config p) \<and> length remaining \<ge> to_keep")
    case True
    have "usable (p_conns p (m_connection meta))" using Cons.prems by (simp add: pool_inv_def)
    then obtain c where c: "Close (p_conns p (m_connection meta)) = (Ret (), c)"
      using Close_quiet [of "p_conns p (m_connection meta)"] by (auto simp: usable_def)
    define q where "q = upd_stats (\<lambda>st. (count_closed st)\<lparr> idle_connections := idle_connections st - 1 \<rparr>)
        (?p\<lparr> p_conns := (p_conns p)(m_connection meta := c) \<rparr>)"
    have "pool_inv held lost (q\<lparr> p_idle := remaining @ rest \<rparr>)"
      using inv_evict [OF Cons.prems, of c] by (simp add: q_def)
    note Cons.IH [OF this]
    moreover have "cleanup_loop now to_keep (meta # rest) remaining p = cleanup_loop now to_keep rest remaining q"
      using True c by (simp add: act_defs on_conn_def q_def)
    moreover have "same_frame p q" "p_config q = p_config p" "p_active q = p_active p"
      by (simp_all add: q_def) (simp_all add: upd_stats_def)
    ultimately show ?thesis using True by (auto elim!: ends_mono simp: same_frame_def)
  next
    case False
    then have "cleanup_loop now to_keep (meta # rest) remaining p = cleanup_loop now to_keep rest (remaining @ [meta]) ?p"
      by (auto simp: act_defs)
    moreover have "pool_inv held lost (?p\<lparr> p_idle := (remaining @ [meta]) @ rest \<rparr>)" using Cons.prems by simp
    note Cons.IH [OF this]
    ultimately show ?thesis
      by (auto elim!: ends_mono simp: same_frame_def)
  qed
qed

end
