(* ===== verification/Pool_Run.thy ===== *)
theory Pool_Run
  imports Pool_Invariant
begin

text \<open>
  The runs of the pool: any interleaving of the critical sections of its threads, of the cleanup thread and of
  what the holders do to their connections. At most \<open>k\<close> threads create a connection at the same time. A
  new connection is an object the pool does not know, connected and idle, which is what a login returns
  (\<open>login_contract\<close>); the factory may also throw, which leaves the pool as it is. Runs stop before 2^64 connections have been created.
\<close>

fun held_after :: "acquired res \<Rightarrow> nat set \<Rightarrow> nat set" where
  "held_after (Ret (Acquired ptr)) held = insert ptr held"
| "held_after _ held = held"

fun threw :: "'a res \<Rightarrow> nat" where
  "threw (Throw e) = 1"
| "threw _ = 0"

definition creating_after :: "acquired res \<Rightarrow> nat \<Rightarrow> nat" where
  "creating_after r n = (if r = Ret Creating then n + 1 else n)"

inductive pool_run :: "client_env \<Rightarrow> nat \<Rightarrow> PoolConfiguration \<Rightarrow> ConnectionPool \<Rightarrow> nat set \<Rightarrow> nat \<Rightarrow> nat \<Rightarrow> bool"
  for env k config where
  run_new: "pool_run env k config (new_pool config conns) {} 0 0"
| run_enter: "pool_run env k config p held n lost \<Longrightarrow> acquire_enter env timeout start now p = (r, q) \<Longrightarrow>
    (r = Ret Creating \<Longrightarrow> n < k) \<Longrightarrow> pool_run env k config q (held_after r held) (creating_after r n) (lost + threw r)"
| run_wake: "pool_run env k config p held n lost \<Longrightarrow> acquire_wake env timeout start now p = (r, q) \<Longrightarrow>
    (r = Ret Creating \<Longrightarrow> n < k) \<Longrightarrow> pool_run env k config q (held_after r held) (creating_after r n) (lost + threw r)"
| run_created: "pool_run env k config p held (Suc n) lost \<Longrightarrow> acquire_created timeout start now conn p = (r, q) \<Longrightarrow>
    (\<And>ptr. conn = Some ptr \<Longrightarrow> ptr \<notin> set (pointers p) \<and> usable (p_conns p ptr) \<and> p_next_connection_id p \<noteq> - 1) \<Longrightarrow>
    pool_run env k config q (held_after r held) n lost"
| run_failed: "pool_run env k config p held (Suc n) lost \<Longrightarrow> pool_run env k config p held n lost"
| run_release: "pool_run env k config p held n lost \<Longrightarrow> ptr \<in> held \<Longrightarrow> Release (Some ptr) now p = (r, q) \<Longrightarrow>
    pool_run env k config q (held - {ptr}) n (lost + threw r)"
| run_cleanup: "pool_run env k config p held n lost \<Longrightarrow> cleanup_pass now p = (r, q) \<Longrightarrow> pool_run env k config q held n lost"
| run_object: "pool_run env k config p held n lost \<Longrightarrow> ptr \<notin> m_connection ` set (p_idle p) \<Longrightarrow> (ptr \<in> held \<Longrightarrow> conn_inv c) \<Longrightarrow>
    pool_run env k config (p\<lparr> p_conns := (p_conns p)(ptr := c) \<rparr>) held n lost"
| run_pin: "pool_run env k config p held n lost \<Longrightarrow> pool_run env k config (IncrementPinned p) held n lost"
| run_unpin: "pool_run env k config p held n lost \<Longrightarrow> pool_run env k config (DecrementPinned p) held n lost"

definition run_ok :: "nat \<Rightarrow> PoolConfiguration \<Rightarrow> ConnectionPool \<Rightarrow> nat set \<Rightarrow> nat \<Rightarrow> nat \<Rightarrow> bool" where
  "run_ok k config p held n lost \<longleftrightarrow> pool_inv held lost p \<and> \<not> p_shutdown p \<and> p_config p = config \<and> n \<le> k \<and>
     (0 < k \<longrightarrow> unat (connection_limit config) + k < 2 ^ 64 \<longrightarrow> pool_size p + lost + n < unat (connection_limit config) + k)"

lemma pool_inv_pinned [simp]: "pool_inv held lost (p\<lparr> p_pinned := w \<rparr>) = pool_inv held lost p"
  by (simp add: pool_inv_def pointers_def ids_def pool_size_def)

lemma run_ok_acquire:
  assumes "run_ok k config p held n lost" "ends (acquire_post held lost p) (lost_post held lost p) (r, q)"
    and "r = Ret Creating \<Longrightarrow> n < k"
  shows "run_ok k config q (held_after r held) (creating_after r n) (lost + threw r)"
proof (cases r)
  case (Ret a)
  show ?thesis
  proof (cases "a = Creating")
    case True
    have small: "unat (of_nat x :: u64) = x" if "x < 2 ^ 64" for x using that by (simp add: unsigned_of_nat take_bit_nat_eq_self)
    have "pool_size q + lost < unat (connection_limit config)"
      if "0 < k" "unat (connection_limit config) + k < 2 ^ 64"
    proof -
      from assms(1) that have "pool_size p + lost + n < unat (connection_limit config) + k" by (simp add: run_ok_def)
      moreover have "pool_size q \<le> pool_size p" "(of_nat (pool_size q + lost) :: u64) < connection_limit config"
        using assms(1,2) Ret True by (auto simp: acquire_post_def run_ok_def same_frame_def)
      ultimately show ?thesis using small [of "pool_size q + lost"] that by (simp add: word_less_nat_alt)
    qed
    with assms Ret True show ?thesis
      by (auto simp: run_ok_def acquire_post_def same_frame_def creating_after_def)
  next
    case False
    with assms Ret show ?thesis
      by (cases a) (auto simp: run_ok_def acquire_post_def same_frame_def creating_after_def)
  qed
next
  case (Throw e)
  with assms show ?thesis by (auto simp: run_ok_def lost_post_def same_frame_def creating_after_def)
qed (use assms(2) in simp_all)

lemma run_ok_move:
  assumes "run_ok k config p held n lost" "same_frame p q" "pool_inv held' lost' q" "n' \<le> n"
    "pool_size q + lost' + n' \<le> pool_size p + lost + n"
  shows "run_ok k config q held' n' lost'"
  using assms by (auto simp: run_ok_def same_frame_def)

lemma cleanup_pass_ends:
  assumes "pool_inv held lost p"
  shows "\<exists>q. cleanup_pass now p = (Ret (), q) \<and> same_frame p q \<and> pool_inv held lost q \<and> p_active q = p_active p \<and>
    set (p_idle q) \<subseteq> set (p_idle p) \<and> length (p_idle q) \<le> length (p_idle p) \<and>
    (\<forall>m \<in> set (p_idle p) - set (p_idle q). (now - m_last_released m) div 1000 > idle_timeout (p_config p)) \<and>
    min (idle_to_keep p) (length (p_idle p)) \<le> length (p_idle q)"
proof (cases "p_shutdown p \<or> idle_timeout (p_config p) \<le> 0")
  case True
  with assms show ?thesis by (simp add: cleanup_pass_def)
next
  case False
  have "pool_inv held lost (p\<lparr> p_idle := [] @ p_idle p \<rparr>)" using assms by simp
  from cleanup_loop_ends [OF this, of now "idle_to_keep p"] False show ?thesis
    by (cases "cleanup_loop now (idle_to_keep p) (p_idle p) [] p"; cases "fst (cleanup_loop now (idle_to_keep p) (p_idle p) [] p)")
      (auto simp: cleanup_pass_def)
qed

lemma pool_run_ok: "pool_run env k config p held n lost \<Longrightarrow> run_ok k config p held n lost"
proof (induction rule: pool_run.induct)
  case (run_new conns)
  show ?case by (simp add: run_ok_def new_pool_def pool_inv_def no_stats_def pointers_def ids_def pool_size_def)
next
  case (run_enter p held n lost timeout start now r q)
  from run_enter.IH have "pool_inv held lost p" by (simp add: run_ok_def)
  from acquire_enter_ends [OF this] run_enter.hyps(2) have "ends (acquire_post held lost p) (lost_post held lost p) (r, q)" by metis
  with run_enter.IH show ?case using run_enter.hyps(3) by (rule run_ok_acquire)
next
  case (run_wake p held n lost timeout start now r q)
  from run_wake.IH have "pool_inv held lost p" by (simp add: run_ok_def)
  from acquire_wake_ends [OF this] run_wake.hyps(2) have "ends (acquire_post held lost p) (lost_post held lost p) (r, q)" by metis
  with run_wake.IH show ?case using run_wake.hyps(3) by (rule run_ok_acquire)
next
  case (run_created p held n lost timeout start now conn r q)
  from run_created.IH have inv: "pool_inv held lost p" by (simp add: run_ok_def)
  show ?case
  proof (cases conn)
    case None
    with run_created.hyps(2) have w: "acquire_wait (acquire_budget timeout p) start now p = (r, q)" by (simp add: acquire_created_def)
    from acquire_wait_ends [OF inv, of "\<lambda>_. False" "acquire_budget timeout p" start now] w
    have "same_frame p q" "pool_size q \<le> pool_size p" "pool_inv held lost q" "held_after r held = held"
      by (cases r; auto simp: acquire_post_def)+
    with run_ok_move [OF run_created.IH, of q held lost n] show ?thesis by simp
  next
    case (Some ptr)
    from created_ends [OF inv, of ptr timeout start now] run_created.hyps(2,3) Some
    have "r = Ret (Acquired ptr) \<and> pool_inv (insert ptr held) lost q \<and> pool_size q = pool_size p + 1 \<and>
        p_config q = p_config p \<and> p_shutdown q = p_shutdown p" by auto
    with run_created.IH show ?thesis by (auto simp: run_ok_def)
  qed
next
  case (run_release p held n lost ptr now r q)
  from run_release.IH have inv: "pool_inv held lost p" "\<not> p_shutdown p" by (simp_all add: run_ok_def)
  from Release_ends [OF inv(1) run_release.hyps(2) inv(2), of now] run_release.hyps(3)
  have "same_frame p q \<and> pool_inv (held - {ptr}) (lost + threw r) q \<and> pool_size q + threw r \<le> pool_size p"
    by (cases r) (auto simp: release_post_def lost_post_def)
  with run_ok_move [OF run_release.IH, of q "held - {ptr}" "lost + threw r" n] show ?case by simp
next
  case (run_cleanup p held n lost now r q)
  from run_cleanup.IH have inv: "pool_inv held lost p" by (simp add: run_ok_def)
  from cleanup_pass_ends [OF this, of now] run_cleanup.hyps(2)
  have "same_frame p q" "pool_inv held lost q" "pool_size q \<le> pool_size p" by (auto simp: pool_size_def)
  with run_ok_move [OF run_cleanup.IH, of q held lost n] show ?case by simp
next
  case (run_object p held n lost ptr c)
  from run_object.IH have inv: "pool_inv held lost p" by (simp add: run_ok_def)
  have "pool_inv held lost (p\<lparr> p_conns := (p_conns p)(ptr := c) \<rparr>)"
  proof (cases "ptr \<in> held")
    case True
    with run_object.hyps(3) show ?thesis by (intro pool_inv_use [OF inv])
  next
    case False
    with run_object.hyps(2) inv show ?thesis by (intro pool_inv_conns [OF inv]) (auto simp: pointers_def pool_inv_def)
  qed
  with run_ok_move [OF run_object.IH, of _ held lost n] show ?case by simp
qed (auto simp: run_ok_def IncrementPinned_def DecrementPinned_def pool_size_def)

subsection \<open>Shutdown\<close>

lemma Close_disconnects:
  "conn_inv c \<Longrightarrow> ends (\<lambda>_ c'. c_state c' = Disconnected) (\<lambda>_. c_state c = Executing) (Close c)"
  by (rule ends_mono [OF Close_ends]) (auto simp: at_state_def)

definition shut :: "ConnectionPool \<Rightarrow> nat list \<Rightarrow> ConnectionPool \<Rightarrow> bool" where
  "shut p closed q \<longleftrightarrow> p_shutdown q = p_shutdown p \<and> (\<forall>ptr \<in> set closed. c_state (p_conns q ptr) = Disconnected) \<and>
     (\<forall>ptr. ptr \<notin> set closed \<longrightarrow> p_conns q ptr = p_conns p ptr)"

lemma close_one:
  assumes "conn_inv (p_conns p ptr)"
  shows "ends (\<lambda>_ q. shut p [ptr] q \<and> p_idle q = p_idle p \<and> p_active q = p_active p)
    (\<lambda>q. p_shutdown q = p_shutdown p \<and> c_state (p_conns p ptr) = Executing) (on_conn ptr Close p)"
  using Close_disconnects [OF assms]
  by (cases "Close (p_conns p ptr)"; cases "fst (Close (p_conns p ptr))") (auto simp: on_conn_def shut_def)

lemma close_idle_ends:
  assumes "\<forall>m \<in> set metas. usable (p_conns p (m_connection m))" "distinct (map m_connection metas)" "p_idle p = metas"
  shows "\<exists>q. close_idle metas p = (Ret (), q) \<and> shut p (map m_connection metas) q \<and> p_idle q = [] \<and> p_active q = p_active p"
  using assms
proof (induction metas arbitrary: p)
  case Nil
  then show ?case by (simp add: ret_act_def shut_def)
next
  case (Cons meta rest)
  let ?ptr = "m_connection meta"
  from Cons.prems have "conn_inv (p_conns p ?ptr)" "c_state (p_conns p ?ptr) \<noteq> Executing" by (simp_all add: usable_def)
  with close_one [of p ?ptr] obtain q where q: "on_conn ?ptr Close p = (Ret (), q)" "shut p [?ptr] q" "p_active q = p_active p"
    by (cases "on_conn ?ptr Close p"; cases "fst (on_conn ?ptr Close p)") auto
  define r where "r = upd_stats (\<lambda>st. st\<lparr> connections_closed := connections_closed st + 1 \<rparr>) (q\<lparr> p_idle := rest \<rparr>)"
  have r: "p_idle r = rest" "p_active r = p_active p" "p_shutdown r = p_shutdown q" "p_conns r = p_conns q"
    using q(3) by (simp_all add: r_def upd_stats_def)
  have keep: "p_conns q x = p_conns p x" if "x \<noteq> ?ptr" for x using q(2) that by (simp add: shut_def)
  have "usable (p_conns r (m_connection m))" if "m \<in> set rest" for m
  proof -
    have "m_connection m \<noteq> ?ptr" using Cons.prems(2) imageI [OF that, of m_connection] by auto
    with Cons.prems(1) that keep r(4) show ?thesis by simp
  qed
  with Cons.IH [of r] Cons.prems(2) r(1) obtain s where
    s: "close_idle rest r = (Ret (), s)" "shut r (map m_connection rest) s" "p_idle s = []" "p_active s = p_active r" by auto
  have "shut p (map m_connection (meta # rest)) s"
    using s(2) q(2) r Cons.prems(2) unfolding shut_def by auto
  with s q(1) r show ?case by (simp add: act_defs flip: r_def)
qed

lemma close_active_ends:
  assumes "\<forall>e \<in> set es. conn_inv (p_conns p (snd e))" "distinct (map snd es)"
  shows "ends (\<lambda>_ q. shut p (map snd es) q \<and> p_idle q = p_idle p)
    (\<lambda>q. p_shutdown q = p_shutdown p \<and> (\<exists>e \<in> set es. c_state (p_conns p (snd e)) = Executing)) (close_active es p)"
  using assms
proof (induction es arbitrary: p)
  case Nil
  then show ?case by (simp add: ret_act_def shut_def)
next
  case (Cons e rest)
  obtain cid ptr where e: "e = (cid, ptr)" by force
  obtain r q where q: "on_conn ptr Close p = (r, q)" by force
  from Cons.prems(1) e have one: "ends (\<lambda>_ q. shut p [ptr] q \<and> p_idle q = p_idle p \<and> p_active q = p_active p)
    (\<lambda>q. p_shutdown q = p_shutdown p \<and> c_state (p_conns p ptr) = Executing) (r, q)"
    using close_one [of p ptr] q by simp
  show ?case
  proof (cases r)
    case (Ret u)
    define w where "w = upd_stats (\<lambda>st. st\<lparr> connections_closed := connections_closed st + 1 \<rparr>) q"
    from one Ret have s: "shut p [ptr] w" "p_idle w = p_idle p" by (auto simp: w_def shut_def upd_stats_def)
    have same: "p_conns w (snd x) = p_conns p (snd x)" if "x \<in> set rest" for x
    proof -
      have "snd x \<noteq> ptr" using Cons.prems(2) e imageI [OF that, of snd] by auto
      with s(1) show ?thesis by (simp add: shut_def)
    qed
    have "ends (\<lambda>_ q. shut w (map snd rest) q \<and> p_idle q = p_idle w)
        (\<lambda>q. p_shutdown q = p_shutdown w \<and> (\<exists>e \<in> set rest. c_state (p_conns w (snd e)) = Executing)) (close_active rest w)"
      by (rule Cons.IH) (use Cons.prems same in auto)
    then have "ends (\<lambda>_ q. shut p (map snd (e # rest)) q \<and> p_idle q = p_idle p)
        (\<lambda>q. p_shutdown q = p_shutdown p \<and> (\<exists>e \<in> set (e # rest). c_state (p_conns p (snd e)) = Executing)) (close_active rest w)"
      by (rule ends_mono) (use s same e Cons.prems(2) in \<open>auto simp: shut_def\<close>)
    with Ret q e show ?thesis by (simp add: act_defs flip: w_def)
  next
    case (Throw m)
    with one q e show ?thesis by (simp add: act_defs)
  qed (use one in simp_all)
qed

end
