(* ===== verification/Pool_Acquire.thy ===== *)
theory Pool_Acquire
  imports Pool_Run
begin

text \<open>
  \<open>Acquire\<close> as a whole: a sequence of critical sections with other threads at work between them. The other
  threads are only known by what they leave, a pool that some run reaches (\<open>scheduled\<close>); the
  caller's own sections are followed one by one. \<open>outcome\<close> is what each of them may end with, and two sections
  that take place after the deadline end the call.
\<close>

subsection \<open>The other threads\<close>

abbreviation holders :: "ConnectionPool \<Rightarrow> nat set" where
  "holders p \<equiv> snd ` set (p_active p)"

definition in_progress :: "acquired res \<Rightarrow> bool" where
  "in_progress r \<longleftrightarrow> r = Ret Creating \<or> r = Ret Waiting"

definition reachable :: "client_env \<Rightarrow> PoolConfiguration \<Rightarrow> ConnectionPool \<Rightarrow> bool" where
  "reachable env config p \<longleftrightarrow> (\<exists>k held n lost. pool_run env k config p held n lost)"

text \<open>A connection the factory made: an object the pool does not know, connected and idle, as a login leaves it.\<close>

definition new_object :: "nat \<Rightarrow> ConnectionPool \<Rightarrow> bool" where
  "new_object ptr p \<longleftrightarrow> ptr \<notin> set (pointers p) \<and> usable (p_conns p ptr) \<and> p_next_connection_id p \<noteq> - 1"

definition gap_ok :: "client_env \<Rightarrow> PoolConfiguration \<Rightarrow> gap \<Rightarrow> acquired res \<Rightarrow> ConnectionPool \<Rightarrow> bool" where
  "gap_ok env config g r p \<longleftrightarrow> reachable env config (g_others g p) \<and>
     (r = Ret Creating \<longrightarrow> (\<exists>made. g_made g = Ret made \<and> (\<forall>ptr. made = Some ptr \<longrightarrow> new_object ptr (g_others g p))) \<or>
        (\<exists>e. g_made g = Throw e))"

fun scheduled :: "client_env \<Rightarrow> PoolConfiguration \<Rightarrow> int \<Rightarrow> int \<Rightarrow> gap list \<Rightarrow> acquired res \<times> ConnectionPool \<Rightarrow> bool" where
  "scheduled env config timeout start [] x \<longleftrightarrow> True"
| "scheduled env config timeout start (g # gaps) (r, p) \<longleftrightarrow> (in_progress r \<longrightarrow> gap_ok env config g r p \<and>
     scheduled env config timeout start gaps (follow (r, p) (acquire_step env timeout start g)))"

lemma reachable_pool_inv:
  assumes "reachable env config p"
  shows "\<exists>lost. pool_inv (holders p) lost p" "\<not> p_shutdown p" "p_config p = config"
proof -
  from assms obtain k held n lost where "pool_run env k config p held n lost" by (auto simp: reachable_def)
  from pool_run_ok [OF this] show "\<exists>lost. pool_inv (holders p) lost p" "\<not> p_shutdown p" "p_config p = config"
    by (auto simp: run_ok_def pool_inv_def)
qed

subsection \<open>One section\<close>

definition handed_out :: "nat \<Rightarrow> ConnectionPool \<Rightarrow> ConnectionPool \<Rightarrow> bool" where
  "handed_out ptr p q \<longleftrightarrow> ptr \<notin> holders p \<and> holders q = insert ptr (holders p) \<and>
     distinct (map m_connection (p_idle q) @ map snd (p_active q)) \<and> c_state (p_conns q ptr) = Idle \<and> connected (c_socket (p_conns q ptr))"

fun outcome :: "ConnectionPool set \<Rightarrow> int set \<Rightarrow> int \<Rightarrow> acquired res \<times> ConnectionPool \<Rightarrow> bool" where
  "outcome pools waited budget (Ret (Acquired ptr), q) \<longleftrightarrow> (\<exists>p \<in> pools. handed_out ptr p q)"
| "outcome pools waited budget (Ret Refused, q) \<longleftrightarrow> (\<exists>p \<in> pools. holders q = holders p) \<and> (budget = 0 \<or> (\<exists>t \<in> waited. budget \<le> t))"
| "outcome pools waited budget (Ret a, q) \<longleftrightarrow> (\<exists>p \<in> pools. holders q = holders p)"
| "outcome pools waited budget (Throw e, q) \<longleftrightarrow> (\<exists>p \<in> pools. holders q = holders p)"
| "outcome pools waited budget (r, q) \<longleftrightarrow> False"

lemma section_outcome_mono: "outcome P T b x \<Longrightarrow> P \<subseteq> P' \<Longrightarrow> T \<subseteq> T' \<Longrightarrow> outcome P' T' b x"
  by (induction P T b x rule: outcome.induct) auto

text \<open>Only the budget makes a section refuse, and past it no section goes on waiting.\<close>

lemma acquire_wait_when:
  "fst (acquire_wait budget start now p) = Ret Refused \<longleftrightarrow> budget = 0 \<or> budget \<le> now - start"
  "fst (acquire_wait budget start now p) = Ret Waiting \<longleftrightarrow> budget \<noteq> 0 \<and> \<not> budget \<le> now - start"
  "fst (acquire_wait budget start now p) \<noteq> Ret Creating"
  by (simp_all add: acquire_wait_def Let_def)

lemma acquire_loop_when:
  "fst (acquire_loop env budget start now p) = Ret Refused \<Longrightarrow> budget = 0 \<or> budget \<le> now - start"
  "fst (acquire_loop env budget start now p) = Ret Waiting \<Longrightarrow> \<not> budget \<le> now - start"
proof -
  obtain r q where q: "TryAcquireIdle env p = (r, q)" by force
  show "fst (acquire_loop env budget start now p) = Ret Refused \<Longrightarrow> budget = 0 \<or> budget \<le> now - start"
    "fst (acquire_loop env budget start now p) = Ret Waiting \<Longrightarrow> \<not> budget \<le> now - start"
    using acquire_wait_when [of budget start now q]
    by (cases r; simp add: acquire_loop_def act_defs q split: option.splits if_splits)+
qed

definition section_ok :: "int \<Rightarrow> int \<Rightarrow> ConnectionPool \<Rightarrow> acquired res \<times> ConnectionPool \<Rightarrow> bool" where
  "section_ok budget waited p x \<longleftrightarrow> outcome {p} {waited} budget x \<and> (fst x = Ret Waiting \<longrightarrow> \<not> budget \<le> waited)"

lemma handed_outI:
  "pool_inv (insert ptr (holders p)) lost q \<Longrightarrow> ptr \<notin> holders p \<Longrightarrow> usable (p_conns q ptr) \<Longrightarrow> handed_out ptr p q"
  unfolding handed_out_def pool_inv_def pointers_def usable_def by blast

lemma inv_holders: "pool_inv held lost p \<Longrightarrow> holders p = held"
  by (simp add: pool_inv_def)

lemma section_post:
  assumes "pool_inv (holders p) lost p" "ends (acquire_post (holders p) lost p) (lost_post (holders p) lost p) x"
    and "fst x = Ret Refused \<Longrightarrow> budget = 0 \<or> budget \<le> t" "fst x = Ret Waiting \<Longrightarrow> \<not> budget \<le> t"
  shows "section_ok budget t p x"
proof -
  obtain r q where x: "x = (r, q)" by force
  have "outcome {p} {t} budget (r, q)"
  proof (cases r)
    case (Ret a)
    have same: "holders q = holders p" if "\<And>ptr. a \<noteq> Acquired ptr"
      using assms(2) x Ret that by (cases a; intro inv_holders) (auto simp: acquire_post_def)
    show ?thesis
    proof (cases a)
      case (Acquired ptr)
      with assms(2) x Ret have "handed_out ptr p q" by (intro handed_outI) (auto simp: acquire_post_def)
      with Acquired Ret show ?thesis by simp
    qed (use same Ret assms(3) x in simp_all)
  next
    case (Throw e)
    with assms(2) x have "holders q = holders p" by (intro inv_holders) (auto simp: lost_post_def)
    with Throw show ?thesis by simp
  qed (use assms(2) x in simp_all)
  with assms(4) x show ?thesis by (simp add: section_ok_def)
qed

lemma enter_ok:
  assumes "reachable env config p"
  shows "section_ok (acquire_budget timeout p) (now - start) p (acquire_enter env timeout start now p)"
proof -
  from reachable_pool_inv [OF assms] obtain lost where inv: "pool_inv (holders p) lost p" "\<not> p_shutdown p" by blast
  let ?q = "upd_stats (\<lambda>st. st\<lparr> acquire_count := acquire_count st + 1 \<rparr>) p"
  have eq: "fst (acquire_enter env timeout start now p) = fst (acquire_loop env (acquire_budget timeout p) start now ?q)"
    using inv(2) by (simp add: acquire_enter_def after_upd_def)
  note loop = acquire_loop_when [of env "acquire_budget timeout p" start now ?q, folded eq]
  show ?thesis by (rule section_post [OF inv(1) acquire_enter_ends [OF inv(1)] loop])
qed

lemma wake_ok:
  assumes "reachable env config p"
  shows "section_ok (acquire_budget timeout p) (now - start) p (acquire_wake env timeout start now p)"
proof -
  from reachable_pool_inv [OF assms] obtain lost where inv: "pool_inv (holders p) lost p" "\<not> p_shutdown p" by blast
  have eq: "fst (acquire_wake env timeout start now p) = fst (acquire_loop env (acquire_budget timeout p) start now p)"
    using inv(2) by (simp add: acquire_wake_def)
  note loop = acquire_loop_when [of env "acquire_budget timeout p" start now p, folded eq]
  show ?thesis by (rule section_post [OF inv(1) acquire_wake_ends [OF inv(1)] loop])
qed

lemma created_ok:
  assumes "reachable env config p" "\<And>ptr. made = Some ptr \<Longrightarrow> new_object ptr p"
  shows "section_ok (acquire_budget timeout p) (now - start) p (acquire_created timeout start now made p)"
    "fst (acquire_created timeout start now made p) \<noteq> Ret Creating"
proof -
  from reachable_pool_inv [OF assms(1)] obtain lost where inv: "pool_inv (holders p) lost p" by blast
  let ?w = "acquire_wait (acquire_budget timeout p) start now p"
  have "section_ok (acquire_budget timeout p) (now - start) p (acquire_created timeout start now made p) \<and>
    fst (acquire_created timeout start now made p) \<noteq> Ret Creating"
  proof (cases made)
    case None
    have "ends (acquire_post (holders p) lost p) (lost_post (holders p) lost p) ?w"
      by (rule ends_mono [OF acquire_wait_ends [OF inv, of "lost_post (holders p) lost p"]]) auto
    from section_post [OF inv this] acquire_wait_when [of "acquire_budget timeout p" start now p] None show ?thesis
      by (simp add: acquire_created_def)
  next
    case (Some ptr)
    with assms(2) have "new_object ptr p" by simp
    with created_ends [OF inv, of ptr timeout start now] obtain q where
      "acquire_created timeout start now (Some ptr) p = (Ret (Acquired ptr), q)" "ptr \<notin> holders p"
      "pool_inv (insert ptr (holders p)) lost q" "usable (p_conns q ptr)" by (auto simp: new_object_def)
    with handed_outI Some show ?thesis by (auto simp: section_ok_def)
  qed
  then show "section_ok (acquire_budget timeout p) (now - start) p (acquire_created timeout start now made p)"
    "fst (acquire_created timeout start now made p) \<noteq> Ret Creating" by blast+
qed

lemma step_ok:
  assumes "gap_ok env config g (Ret a) p" "a = Creating \<or> a = Waiting" "\<And>q. p_config q = config \<Longrightarrow> acquire_budget timeout q = budget"
  shows "section_ok budget (g_now g - start) (g_others g p) (acquire_step env timeout start g a p)"
    "a = Creating \<Longrightarrow> fst (acquire_step env timeout start g a p) \<noteq> Ret Creating"
proof -
  let ?p = "g_others g p"
  from assms(1) have reach: "reachable env config ?p" by (simp add: gap_ok_def)
  with assms(3) have b: "acquire_budget timeout ?p = budget" by (simp add: reachable_pool_inv(3))
  have "section_ok budget (g_now g - start) ?p (acquire_step env timeout start g a p) \<and>
    (a = Creating \<longrightarrow> fst (acquire_step env timeout start g a p) \<noteq> Ret Creating)"
  proof (cases "a = Creating")
    case False
    with wake_ok [OF reach, of timeout "g_now g" start] b show ?thesis by (simp add: acquire_step_def act_defs)
  next
    case True
    with assms(1) consider made where "g_made g = Ret made" "\<And>ptr. made = Some ptr \<Longrightarrow> new_object ptr ?p" | e where "g_made g = Throw e"
      by (auto simp: gap_ok_def)
    then show ?thesis
    proof cases
      case 1
      with True created_ok [OF reach 1(2), where timeout = timeout and start = start and now = "g_now g"] b show ?thesis by (simp add: acquire_step_def act_defs)
    next
      case 2
      with True show ?thesis by (simp add: acquire_step_def act_defs section_ok_def)
    qed
  qed
  then show "section_ok budget (g_now g - start) ?p (acquire_step env timeout start g a p)"
    "a = Creating \<Longrightarrow> fst (acquire_step env timeout start g a p) \<noteq> Ret Creating" by blast+
qed

subsection \<open>The call\<close>

text \<open>The pools as the call finds them when it takes the lock again.\<close>

fun found :: "client_env \<Rightarrow> int \<Rightarrow> int \<Rightarrow> gap list \<Rightarrow> acquired res \<times> ConnectionPool \<Rightarrow> ConnectionPool list" where
  "found env timeout start [] x = []"
| "found env timeout start (g # gaps) (r, p) =
     (if in_progress r then g_others g p # found env timeout start gaps (follow (r, p) (acquire_step env timeout start g)) else [])"

lemma resume_outcome:
  assumes "outcome {p0} T budget x" "scheduled env config timeout start gaps x" "\<And>q. p_config q = config \<Longrightarrow> acquire_budget timeout q = budget"
  shows "outcome {last (p0 # found env timeout start gaps x)} (T \<union> (\<lambda>g. g_now g - start) ` set gaps) budget
    (follow x (resume env timeout start gaps))"
  using assms(1,2)
proof (induction gaps arbitrary: x p0 T)
  case Nil
  then show ?case by (cases x; cases "fst x") (auto simp: ret_act_def)
next
  case (Cons g gaps)
  obtain r p where x: "x = (r, p)" by force
  show ?case
  proof (cases "in_progress r")
    case False
    then have same: "follow x (resume env timeout start (g # gaps)) = x" "found env timeout start (g # gaps) x = []"
      by (cases r; auto simp: x in_progress_def ret_act_def)+
    show ?thesis unfolding same by (rule section_outcome_mono [OF Cons.prems(1)]) auto
  next
    case True
    then obtain a where a: "r = Ret a" "a = Creating \<or> a = Waiting" by (auto simp: in_progress_def)
    with Cons.prems(2) True have gap: "gap_ok env config g (Ret a) p"
      and rest: "scheduled env config timeout start gaps (acquire_step env timeout start g a p)" by (simp_all add: x)
    from step_ok(1) [OF gap a(2) assms(3)] have "outcome {g_others g p} {g_now g - start} budget (acquire_step env timeout start g a p)"
      by (simp add: section_ok_def)
    then have "outcome {g_others g p} (insert (g_now g - start) T) budget (acquire_step env timeout start g a p)"
      by (rule section_outcome_mono) auto
    from Cons.IH [OF this rest] a True show ?thesis
      by (simp add: x bind_act_def)
  qed
qed

lemma resume_done: "\<not> in_progress (fst x) \<Longrightarrow> fst (follow x (resume env timeout start gaps)) = fst x"
  by (cases x; cases "fst x"; cases gaps) (auto simp: in_progress_def ret_act_def)

lemma late_step:
  assumes "scheduled env config timeout start (g # gaps) (r, p)" "in_progress r" "budget \<le> g_now g - start"
    "\<And>q. p_config q = config \<Longrightarrow> acquire_budget timeout q = budget"
  obtains y where "scheduled env config timeout start gaps y"
    "follow (r, p) (resume env timeout start (g # gaps)) = follow y (resume env timeout start gaps)"
    "fst y \<noteq> Ret Waiting" "r = Ret Creating \<Longrightarrow> fst y \<noteq> Ret Creating"
proof -
  from assms(2) obtain a where a: "r = Ret a" "a = Creating \<or> a = Waiting" by (auto simp: in_progress_def)
  with assms(1,2) have gap: "gap_ok env config g (Ret a) p"
    and rest: "scheduled env config timeout start gaps (acquire_step env timeout start g a p)" by simp_all
  from step_ok [OF gap a(2) assms(4), of start] assms(3) a rest show thesis
    by (intro that [of "acquire_step env timeout start g a p"]) (auto simp: section_ok_def bind_act_def)
qed

lemma resume_ends:
  assumes "scheduled env config timeout start (early @ g1 # g2 # late) x" "budget \<le> g_now g1 - start" "budget \<le> g_now g2 - start"
    and budget: "\<And>q. p_config q = config \<Longrightarrow> acquire_budget timeout q = budget"
  shows "\<not> in_progress (fst (follow x (resume env timeout start (early @ g1 # g2 # late))))"
  using assms(1)
proof (induction early arbitrary: x)
  case Nil
  obtain r p where x: "x = (r, p)" by force
  show ?case
  proof (cases "in_progress r")
    case False
    with resume_done [of x env timeout start "g1 # g2 # late"] x show ?thesis by (simp del: resume.simps)
  next
    case True
    from late_step [OF Nil [unfolded x append_Nil] True assms(2) budget] obtain y where
      y: "scheduled env config timeout start (g2 # late) y" "fst y \<noteq> Ret Waiting"
      "follow x (resume env timeout start (g1 # g2 # late)) = follow y (resume env timeout start (g2 # late))" by (metis x)
    obtain r' p' where y': "y = (r', p')" by force
    show ?thesis
    proof (cases "in_progress r'")
      case False
      with resume_done [of y env timeout start "g2 # late"] y(3) y' show ?thesis by (simp del: resume.simps)
    next
      case True
      with y(2) y' have c: "r' = Ret Creating" by (auto simp: in_progress_def)
      from late_step [OF y(1) [unfolded y'] True assms(3) budget] obtain z where
        "follow y (resume env timeout start (g2 # late)) = follow z (resume env timeout start late)"
        "fst z \<noteq> Ret Waiting" "fst z \<noteq> Ret Creating" by (metis y' c)
      with resume_done [of z env timeout start late] y(3) show ?thesis by (simp add: in_progress_def del: resume.simps)
    qed
  qed
next
  case (Cons g early)
  obtain r p where x: "x = (r, p)" by force
  show ?case
  proof (cases "in_progress r")
    case False
    with resume_done [of x env timeout start "g # early @ g1 # g2 # late"] x show ?thesis by (simp del: resume.simps)
  next
    case True
    then obtain a where a: "r = Ret a" "a = Creating \<or> a = Waiting" by (auto simp: in_progress_def)
    with Cons.prems True have "scheduled env config timeout start (early @ g1 # g2 # late) (acquire_step env timeout start g a p)"
      by (simp add: x)
    from Cons.IH [OF this] a show ?thesis by (simp add: x bind_act_def)
  qed
qed

end
