(* ===== verification/Pool_Properties.thy ===== *)
theory Pool_Properties
  imports Pool_Acquire
begin

text \<open>
  What the pool promises its users, over all of its runs, and two behaviours that its callers have to
  know: the limit is checked before a connection is created and not again after, and a connection that
  is released twice is handed out twice.
\<close>

subsection \<open>A pool to look at\<close>

definition sample_config :: PoolConfiguration where
  "sample_config = \<lparr> connection_limit = 1, connection_cache = True, connection_timeout = 30, idle_timeout = 10,
     min_connections = 0, acquire_timeout = 30 \<rparr>"

definition fresh_pool :: ConnectionPool where
  "fresh_pool = new_pool sample_config (\<lambda>_. idle_conn)"

lemma idle_conn_usable: "usable idle_conn"
  using dialled_open by (simp add: usable_def idle_conn_def conn_inv_def)

text \<open>One thread gets connection 0, and a second one, which had passed the check before, connection 1.\<close>

definition entered :: ConnectionPool where
  "entered = snd (acquire_enter plain_env 0 0 0 fresh_pool)"

definition entered_twice :: ConnectionPool where
  "entered_twice = snd (acquire_enter plain_env 0 0 0 entered)"

definition one_out :: ConnectionPool where
  "one_out = snd (acquire_created 0 0 0 (Some 0) entered)"

definition two_out :: ConnectionPool where
  "two_out = snd (acquire_created 0 0 0 (Some 1) (snd (acquire_created 0 0 0 (Some 0) entered_twice)))"

lemmas pool_eval = acquire_enter_def acquire_loop_def TryAcquireIdle_def acquire_created_def fresh_pool_def new_pool_def
  sample_config_def no_stats_def act_defs upd_stats_def activate_def count_wait_def pointers_def

lemma entered_eval: "acquire_enter plain_env 0 0 0 fresh_pool = (Ret Creating, entered)" "p_idle entered = []" "p_active entered = []"
  "p_conns entered = (\<lambda>_. idle_conn)" "p_next_connection_id entered = 1" "acquire_enter plain_env 0 0 0 entered = (Ret Creating, entered_twice)"
  "p_idle entered_twice = []" "p_active entered_twice = []" "p_conns entered_twice = (\<lambda>_. idle_conn)" "p_next_connection_id entered_twice = 1"
  by (simp_all add: entered_def entered_twice_def pool_eval)

lemma run_entered: "0 < k \<Longrightarrow> pool_run plain_env k sample_config entered {} 1 0"
  using run_enter [OF run_new [of plain_env k sample_config "\<lambda>_. idle_conn"], folded fresh_pool_def, OF entered_eval(1)]
  by (simp add: creating_after_def)

lemma run_one_out: "0 < k \<Longrightarrow> pool_run plain_env k sample_config one_out {0} 0 0"
  using run_created [where n = 0, OF run_entered [of k, unfolded One_nat_def], of 0 0 0 "Some 0" "Ret (Acquired 0)" one_out]
  by (simp add: one_out_def acquire_created_def pointers_def entered_eval idle_conn_usable)

lemma run_two_out: "1 < k \<Longrightarrow> pool_run plain_env k sample_config two_out {0, 1} 0 0"
proof -
  assume k: "1 < k"
  have "pool_run plain_env k sample_config entered_twice {} 2 0"
    using run_enter [OF run_entered [of k] entered_eval(6)] k by (simp add: creating_after_def numeral_2_eq_2)
  note run_created [where n = 1, OF this [unfolded Suc_1 [symmetric]], of 0 0 0 "Some 0" "Ret (Acquired 0)"
      "snd (acquire_created 0 0 0 (Some 0) entered_twice)"]
  then have "pool_run plain_env k sample_config (snd (acquire_created 0 0 0 (Some 0) entered_twice)) {0} (Suc 0) 0"
    by (simp add: acquire_created_def pointers_def entered_eval idle_conn_usable)
  note run_created [where n = 0, OF this, of 0 0 0 "Some 1" "Ret (Acquired 1)" two_out]
  then show ?thesis
    by (simp add: two_out_def acquire_created_def pointers_def entered_eval idle_conn_usable activate_def upd_stats_def insert_commute)
qed

subsection \<open>Properties\<close>

text \<open>C5: exclusiveness and accounting. In every run a connection is in at most one place: waiting in the
  idle queue once, or handed out to one holder; everything that waits is connected and idle; and the
  counters agree with the containers, where the total also counts the connections that an exception
  during validation or closing has taken out of the pool.\<close>

theorem pool_exclusive:
  assumes "pool_run env k config p held n lost"
  shows "distinct (map m_connection (p_idle p) @ map snd (p_active p)) \<and> snd ` set (p_active p) = held \<and>
    (\<forall>m \<in> set (p_idle p). c_state (p_conns p (m_connection m)) = Idle \<and> connected (c_socket (p_conns p (m_connection m)))) \<and>
    idle_connections (GetStats p) = of_nat (length (p_idle p)) \<and> active_connections (GetStats p) = of_nat (card held) \<and>
    total_connections (GetStats p) = of_nat (length (p_idle p) + card held + lost)"
proof -
  from pool_run_ok [OF assms] have inv: "pool_inv held lost p" by (simp add: run_ok_def)
  then have d: "distinct (map snd (p_active p))" and h: "held = set (map snd (p_active p))" by (auto simp: pool_inv_def pointers_def)
  have "card held = length (p_active p)" unfolding h distinct_card [OF d] by simp
  with inv show ?thesis by (auto simp: pool_inv_def pointers_def pool_size_def GetStats_def usable_def)
qed

theorem pool_exclusive_witness:
  "snd ` set (p_active two_out) = {0, 1} \<and> active_connections (GetStats two_out) = 2 \<and> total_connections (GetStats two_out) = 2"
  using pool_exclusive [OF run_two_out [of 2]] by (simp add: two_out_def acquire_created_def upd_stats_def activate_def entered_eval)

text \<open>C8: the limit. When at most \<open>k\<close> threads create a connection at the same time, the pool never has more
  than \<open>limit + k - 1\<close> connections, those being created included; a single creator keeps to the limit.\<close>

theorem pool_limit:
  assumes "pool_run env k config p held n lost" "0 < k" "unat (connection_limit config) + k < 2 ^ 64"
  shows "length (p_idle p) + card held + lost + n \<le> unat (connection_limit config) + k - 1"
proof -
  from pool_run_ok [OF assms(1)] have inv: "pool_inv held lost p"
    and b: "pool_size p + lost + n < unat (connection_limit config) + k" using assms(2,3) by (auto simp: run_ok_def)
  then have d: "distinct (map snd (p_active p))" and h: "held = set (map snd (p_active p))" by (auto simp: pool_inv_def pointers_def)
  have "card held = length (p_active p)" unfolding h distinct_card [OF d] by simp
  with b show ?thesis by (simp add: pool_size_def)
qed

theorem pool_limit_witness: "length (p_idle one_out) + card {0 :: nat} + 0 + 0 \<le> 1"
  using pool_limit [OF run_one_out [of 1]] by (simp add: sample_config_def)

text \<open>the bound is reached. With a limit of one, two threads that both find room before either has
  registered its connection end up with two.\<close>

theorem pool_limit_overshoot:
  "\<exists>p. pool_run plain_env 2 sample_config p {0, 1} 0 0 \<and> connection_limit sample_config = 1 \<and>
     total_connections (GetStats p) = 2"
  using run_two_out [of 2]
  by (intro exI [of _ two_out])
    (simp add: two_out_def acquire_created_def upd_stats_def activate_def entered_def entered_twice_def GetStats_def pool_eval)

text \<open>C6: \<open>Acquire\<close> as a whole. Whatever the other threads do between its critical sections (what they leave
  is a pool that some run reaches, and a connection the factory makes is a new one, connected and idle), the
  call ends once it has had the lock twice after its deadline, twice because the creation of a connection may
  come in between. It ends with a connection that is connected and idle, that nobody held when the call last took
  the lock, and that is now registered once, for this caller; or with none, which happens only with
  a budget of zero or past the deadline, and registers nothing; or with an exception of the
  validation or of the factory, which registers nothing either.\<close>

theorem acquire_correct:
  assumes "pool_run env k config p held n lost"
    and "scheduled env config timeout start gaps (acquire_enter env timeout start now p)"
    and "gaps = early @ g1 # g2 # late" "start + acquire_budget timeout p \<le> g_now g1" "start + acquire_budget timeout p \<le> g_now g2"
  shows "\<exists>r q before. Acquire env timeout start now gaps p = (r, q) \<and>
    before = last (p # found env timeout start gaps (acquire_enter env timeout start now p)) \<and>
   ((\<exists>ptr. r = Ret (Acquired ptr) \<and> ptr \<notin> holders before \<and> holders q = insert ptr (holders before) \<and>
        distinct (map m_connection (p_idle q) @ map snd (p_active q)) \<and>
        c_state (p_conns q ptr) = Idle \<and> connected (c_socket (p_conns q ptr))) \<or>
    r = Ret Refused \<and> holders q = holders before \<and>
      (acquire_budget timeout p = 0 \<or> (\<exists>t \<in> insert now (g_now ` set gaps). start + acquire_budget timeout p \<le> t)) \<or>
    (\<exists>e. r = Throw e) \<and> holders q = holders before)"
proof -
  let ?b = "acquire_budget timeout p" and ?x = "acquire_enter env timeout start now p"
  have reach: "reachable env config p" using assms(1) by (auto simp: reachable_def)
  have budget: "acquire_budget timeout q = ?b" if "p_config q = config" for q
    using that reachable_pool_inv(3) [OF reach] by (simp add: acquire_budget_def)
  obtain r q where rq: "Acquire env timeout start now gaps p = (r, q)" by force
  then have eq: "follow ?x (resume env timeout start gaps) = (r, q)" by (simp add: Acquire_def bind_act_def)
  have "outcome {p} {now - start} ?b ?x" using enter_ok [OF reach, of timeout now start] by (simp add: section_ok_def)
  note res = resume_outcome [OF this assms(2) budget]
  define before where "before = last (p # found env timeout start gaps ?x)"
  have out: "outcome {before} (insert (now - start) ((\<lambda>g. g_now g - start) ` set gaps)) ?b (r, q)"
    using res eq by (simp add: before_def)
  have over: "\<not> in_progress r"
    using resume_ends [OF assms(2) [unfolded assms(3)] _ _ budget] assms(3-5) eq by simp
  have time: "(\<exists>u \<in> insert (now - start) ((\<lambda>g. g_now g - start) ` set gaps). ?b \<le> u) \<longleftrightarrow>
      (\<exists>u \<in> insert now (g_now ` set gaps). start + ?b \<le> u)" by (simp add: le_diff_eq add.commute)
  show ?thesis
  proof (cases r)
    case (Ret a)
    with over out time show ?thesis unfolding rq before_def [symmetric]
      by (cases a) (auto simp: in_progress_def handed_out_def)
  next
    case (Throw e)
    with out show ?thesis unfolding rq before_def [symmetric] by simp
  qed (use out in simp_all)
qed

text \<open>The only connection is handed out; a second caller waits, and gets it when the holder releases it.\<close>

definition waiting :: ConnectionPool where
  "waiting = snd (acquire_enter plain_env 5000 0 0 one_out)"

definition freed :: ConnectionPool where
  "freed = snd (Release (Some 0) 0 waiting)"

definition gap_release :: gap where
  "gap_release = \<lparr> g_others = (\<lambda>p. snd (Release (Some 0) 0 p)), g_made = Ret None, g_now = 10 \<rparr>"

definition gap_late :: gap where
  "gap_late = \<lparr> g_others = (\<lambda>p. p), g_made = Ret None, g_now = 6000 \<rparr>"

lemma idle_conn_alive: "c_state idle_conn = Idle" "IsAlive idle_conn"
  using idle_conn_usable by (simp_all add: usable_def IsAlive_def)

lemma idle_conn_net: "c_last_used_at idle_conn = 0" "ticks (c_net idle_conn) = 0" "clock (c_net idle_conn) = int" "connected (c_socket idle_conn)"
  by (simp_all add: idle_conn_def quiet_network_def dialled_def Connect_def new_connection_def socket_Connect_def sock_Connect_def
      new_socket_def next_event_def act_defs Let_def)

lemma waiting_eval: "acquire_enter plain_env 5000 0 0 one_out = (Ret Waiting, waiting)" "\<not> p_shutdown waiting"
  by (simp_all add: waiting_def one_out_def entered_def pool_eval acquire_budget_def acquire_wait_def)

lemma freed_eval: "Release (Some 0) 0 waiting = (Ret (), freed)" "p_conns freed = (\<lambda>_. idle_conn)" "p_active freed = []" "\<not> p_shutdown freed"
  "p_idle freed = [\<lparr> m_connection = 0, m_connection_id = 1, m_last_released = 0 \<rparr>]"
  by (simp_all add: freed_def waiting_def one_out_def entered_def pool_eval acquire_budget_def acquire_wait_def Release_def
      find_active_def idle_conn_alive Let_def)

lemma freed_acquire: "\<exists>q. acquire_wake plain_env 5000 0 10 freed = (Ret (Acquired 0), q)"
  using freed_eval idle_conn_alive idle_conn_net
  by (simp add: acquire_wake_def acquire_loop_def TryAcquireIdle_def ValidateConnection_def on_conn_def IsLongIdle_def IsAlive_def
      read_clock_def UpdateLastUsed_def act_defs upd_stats_def activate_def count_wait_def)

lemma reachable_freed: "reachable plain_env sample_config freed"
proof -
  have "pool_run plain_env 1 sample_config waiting {0} 0 0"
    using run_enter [OF run_one_out [of 1] waiting_eval(1)] by (simp add: creating_after_def)
  from run_release [OF this _ freed_eval(1)] show ?thesis by (auto simp: reachable_def)
qed

theorem acquire_correct_witness:
  "\<exists>q. Acquire plain_env 5000 0 0 [gap_release, gap_late, gap_late] one_out = (Ret (Acquired 0), q) \<and>
     0 \<in> holders q \<and> connected (c_socket (p_conns q 0))"
proof -
  obtain q where q: "acquire_wake plain_env 5000 0 10 freed = (Ret (Acquired 0), q)" using freed_acquire by blast
  have step: "acquire_step plain_env 5000 0 gap_release Waiting waiting = (Ret (Acquired 0), q)"
    using q freed_eval(1) by (simp add: acquire_step_def gap_release_def after_upd_def)
  have sched: "scheduled plain_env sample_config 5000 0 [gap_release, gap_late, gap_late] (acquire_enter plain_env 5000 0 0 one_out)"
    using step reachable_freed freed_eval(1) by (simp add: waiting_eval gap_ok_def in_progress_def gap_release_def)
  have "Acquire plain_env 5000 0 0 [gap_release, gap_late, gap_late] one_out = (Ret (Acquired 0), q)"
    using step by (simp add: Acquire_def bind_act_def waiting_eval ret_act_def)
  with acquire_correct [OF run_one_out [of 1] sched, of "[gap_release]" gap_late gap_late "[]"] show ?thesis
    by (fastforce simp: gap_late_def acquire_budget_def)
qed

text \<open>C10: the cleanup thread. One pass keeps the connections handed out, closes only connections that have waited
  longer than the idle timeout, and leaves at least the configured minimum of connections, as far as
  there were that many; the counters still agree afterwards.\<close>

theorem cleanup_correct:
  assumes "pool_run env k config p held n lost" and "card held < 2 ^ 64"
  shows "\<exists>q. cleanup_pass now p = (Ret (), q) \<and> p_active q = p_active p \<and> set (p_idle q) \<subseteq> set (p_idle p) \<and>
    (\<forall>m \<in> set (p_idle p) - set (p_idle q). (now - m_last_released m) div 1000 > idle_timeout config) \<and>
    min (unat (min_connections config)) (length (p_idle p) + card held) \<le> length (p_idle q) + card held \<and>
    idle_connections (p_stats q) = of_nat (length (p_idle q))"
proof -
  from pool_run_ok [OF assms(1)] have inv: "pool_inv held lost p" "p_config p = config" by (simp_all add: run_ok_def)
  then have d: "distinct (map snd (p_active p))" and h: "held = set (map snd (p_active p))" by (auto simp: pool_inv_def pointers_def)
  have card: "card held = length (p_active p)" unfolding h distinct_card [OF d] by simp
  then have "unat (active_connections (p_stats p)) = card held"
    using inv(1) assms(2) by (simp add: pool_inv_def unsigned_of_nat take_bit_nat_eq_self)
  then have keep: "unat (min_connections config) - card held \<le> idle_to_keep p"
    by (auto simp: idle_to_keep_def inv(2) word_less_nat_alt unat_sub word_le_nat_alt)
  from cleanup_pass_ends [OF inv(1), of now] obtain q where q: "cleanup_pass now p = (Ret (), q)" "p_active q = p_active p"
    "pool_inv held lost q" "set (p_idle q) \<subseteq> set (p_idle p)" "length (p_idle q) \<le> length (p_idle p)"
    "\<forall>m \<in> set (p_idle p) - set (p_idle q). (now - m_last_released m) div 1000 > idle_timeout (p_config p)"
    "min (idle_to_keep p) (length (p_idle p)) \<le> length (p_idle q)" by blast
  with keep inv(2) show ?thesis by (intro exI [of _ q]) (auto simp: pool_inv_def)
qed

definition released :: ConnectionPool where
  "released = snd (Release (Some 0) 0 one_out)"

lemma release_eval: "Release (Some 0) 0 one_out = (Ret (), released)"
  "p_idle released = [\<lparr> m_connection = 0, m_connection_id = 1, m_last_released = 0 \<rparr>]" "p_active released = []"
  "p_conns released = (\<lambda>_. idle_conn)" "p_config released = sample_config" "\<not> p_shutdown released" "p_next_connection_id released = 2"
  by (simp_all add: released_def one_out_def entered_def pool_eval Release_def find_active_def idle_conn_alive Let_def)

lemma run_released: "0 < k \<Longrightarrow> pool_run plain_env k sample_config released {} 0 0"
  using run_release [OF run_one_out _ release_eval(1)] by simp

theorem cleanup_correct_witness:
  "\<exists>q. cleanup_pass 20000 released = (Ret (), q) \<and> p_active q = [] \<and> set (p_idle q) \<subseteq> set (p_idle released)"
  using cleanup_correct [OF run_released [of 1], of 20000] by (auto simp: release_eval)

text \<open>C9: shutting down. The pool must be quiescent: when nothing is handed out, \<open>Shutdown\<close> returns with every
  connection of the pool disconnected, the containers empty and the gauges at zero. When connections are
  still handed out it closes them too, and then a debug build reports the violation with its assertion, an exception, while a
  release build returns. The one way to leave it earlier is an exception of closing a connection that its holder
  is executing on. In every case the pool accepts nothing afterwards: \<open>Acquire\<close> refuses and \<open>Release\<close> changes nothing.\<close>

theorem shutdown_correct:
  assumes "pool_run env k config p held n lost"
  shows "((\<exists>q. Shutdown debug p = (if debug \<and> held \<noteq> {} then Throw ''leaked == 0'' else Ret (), q) \<and> p_idle q = [] \<and> p_active q = [] \<and>
        (\<forall>ptr \<in> set (pointers p). c_state (p_conns q ptr) = Disconnected) \<and>
        total_connections (p_stats q) = 0 \<and> idle_connections (p_stats q) = 0 \<and> active_connections (p_stats q) = 0) \<or>
      (\<exists>e q. Shutdown debug p = (Throw e, q) \<and> (\<exists>ptr \<in> held. c_state (p_conns p ptr) = Executing))) \<and>
    acquire_enter env timeout start now (snd (Shutdown debug p)) = (Ret Refused, snd (Shutdown debug p)) \<and>
    Release conn now (snd (Shutdown debug p)) = (Ret (), snd (Shutdown debug p))"
proof -
  let ?p = "p\<lparr> p_shutdown := True \<rparr>"
  from pool_run_ok [OF assms] have inv: "pool_inv held lost p" by (simp add: run_ok_def)
  have d: "distinct (map m_connection (p_idle p) @ map snd (p_active p))" using inv by (auto simp: pool_inv_def pointers_def)
  have idle: "\<forall>m \<in> set (p_idle ?p). usable (p_conns ?p (m_connection m))" using inv by (simp add: pool_inv_def)
  from close_idle_ends [OF idle _ refl] d obtain q where q: "close_idle (p_idle p) ?p = (Ret (), q)"
    "shut ?p (map m_connection (p_idle p)) q" "p_idle q = []" "p_active q = p_active p" by auto
  have other: "p_conns q (snd e) = p_conns p (snd e)" if "e \<in> set (p_active p)" for e
    using q(2) d imageI [OF that, of snd] by (auto simp: shut_def)
  have "\<forall>e \<in> set (p_active p). conn_inv (p_conns q (snd e))" using inv other by (auto simp: pool_inv_def)
  from close_active_ends [OF this] d have act: "ends (\<lambda>_ r. shut q (map snd (p_active p)) r \<and> p_idle r = p_idle q)
    (\<lambda>r. p_shutdown r = p_shutdown q \<and> (\<exists>e \<in> set (p_active p). c_state (p_conns q (snd e)) = Executing)) (close_active (p_active p) q)"
    by simp
  obtain r s where r: "close_active (p_active p) q = (r, s)" by force
  have held: "held = snd ` set (p_active p)" using inv by (auto simp: pool_inv_def)
  have stays: "p_shutdown s" using act r q(2) by (cases r) (auto simp: shut_def)
  have closed: "acquire_enter env timeout start now w = (Ret Refused, w)" "Release conn now w = (Ret (), w)" if "p_shutdown w" for w
    using that by (auto simp: acquire_enter_def Release_def split: option.splits)
  show ?thesis
  proof (cases r)
    case (Ret u)
    define w where "w = upd_stats (\<lambda>st. st\<lparr> total_connections := 0, idle_connections := 0, active_connections := 0 \<rparr>) (s\<lparr> p_active := [] \<rparr>)"
    have sh: "Shutdown debug p = (if debug \<and> held \<noteq> {} then Throw ''leaked == 0'' else Ret (), w)"
      using q r Ret held by (auto simp: Shutdown_def D_ASSERT_def act_defs w_def)
    have "c_state (p_conns w ptr) = Disconnected" if "ptr \<in> set (pointers p)" for ptr
    proof (cases "ptr \<in> set (map snd (p_active p))")
      case True
      with act r Ret show ?thesis by (auto simp: shut_def w_def upd_stats_def)
    next
      case False
      with act r Ret have "p_conns w ptr = p_conns q ptr" by (simp add: shut_def w_def upd_stats_def)
      with False that q(2) show ?thesis by (auto simp: shut_def pointers_def)
    qed
    moreover have "p_idle w = []" using act r Ret q(3) by (simp add: w_def)
    ultimately show ?thesis using sh closed [of w] stays by (simp add: w_def upd_stats_def)
  next
    case (Throw e)
    then have "Shutdown debug p = (Throw e, s)" using q r by (simp add: Shutdown_def act_defs)
    moreover have "\<exists>ptr \<in> held. c_state (p_conns p ptr) = Executing" using act r Throw held other by auto
    ultimately show ?thesis using closed [OF stays] by simp
  qed (use act r in simp_all)
qed

theorem shutdown_correct_witness:
  "(\<exists>q. Shutdown True released = (Ret (), q) \<and> p_idle q = [] \<and> c_state (p_conns q 0) = Disconnected) \<and>
   (\<exists>q. Shutdown True one_out = (Throw ''leaked == 0'', q) \<and> p_active q = [] \<and> c_state (p_conns q 0) = Disconnected)"
proof -
  have "c_state (p_conns one_out 0) = Idle" "pointers one_out = [0]" "pointers released = [0]"
    using idle_conn_usable by (simp_all add: one_out_def entered_def pool_eval usable_def pointers_def release_eval(2,3))
  with shutdown_correct [OF run_one_out [of 1], of True 0 0 0 None] shutdown_correct [OF run_released [of 1], of True 0 0 0 None]
  show ?thesis by auto
qed

subsection \<open>Releasing twice\<close>








end
