(* ===== verification/Machine_Int.thy ===== *)
theory Machine_Int
  imports Tds_Prelude "HOL-Library.Signed_Division"
begin

text \<open>
  Signed machine integers and the 128-bit integer of DuckDB. A value of a signed C++ type is an integer in the
  type's range; an operation whose result leaves the range is undefined behaviour and has the outcome
  \<open>OOB\<close>, so a theorem that a routine returns also says that it never overflows. Division is C's (\<open>sdiv\<close>,
  \<open>smod\<close>: towards zero). The bytes of a value, least significant first, are \<open>le_bytes\<close>.

  \<open>hugeint_t\<close> is the pair of words the source reads and writes; its arithmetic belongs to the DuckDB library
  and is the record \<open>hugeint_ops\<close> of functions with the laws of the locale \<open>hugeint_laws\<close>.
\<close>

subsection \<open>Checked arithmetic\<close>

abbreviation in_i32 :: "int \<Rightarrow> bool" where "in_i32 x \<equiv> - (2 ^ 31) \<le> x \<and> x < 2 ^ 31"
abbreviation in_i64 :: "int \<Rightarrow> bool" where "in_i64 x \<equiv> - (2 ^ 63) \<le> x \<and> x < 2 ^ 63"

definition i32 :: "int \<Rightarrow> int res" where
  "i32 x = (if in_i32 x then Ret x else OOB)"

definition i64 :: "int \<Rightarrow> int res" where
  "i64 x = (if in_i64 x then Ret x else OOB)"

lemma i64_Ret [simp]: "in_i64 x \<Longrightarrow> i64 x = Ret x"
  by (simp add: i64_def)

lemma i32_Ret [simp]: "in_i32 x \<Longrightarrow> i32 x = Ret x"
  by (simp add: i32_def)

lemma i64_Ret_iff [res_simps]: "i64 x = Ret y \<longleftrightarrow> in_i64 x \<and> y = x"
  by (auto simp: i64_def)

lemma i32_Ret_iff [res_simps]: "i32 x = Ret y \<longleftrightarrow> in_i32 x \<and> y = x"
  by (auto simp: i32_def)

lemma sdiv_nonneg: "0 \<le> a \<Longrightarrow> 0 < b \<Longrightarrow> a sdiv b = a div b" for a b :: int
  by (cases "a = 0") (simp_all add: signed_divide_int_def sgn_if)

lemma smod_nonneg: "0 \<le> a \<Longrightarrow> 0 < b \<Longrightarrow> a smod b = a mod b" for a b :: int
  by (cases "a = 0") (simp_all add: signed_modulo_int_def sgn_if)

lemma sdiv_neg: "a < 0 \<Longrightarrow> 0 < b \<Longrightarrow> a sdiv b = - (- a div b)" for a b :: int
  by (simp add: signed_divide_int_def sgn_if)

text \<open>The idiom for a negative dividend: the floor.\<close>

lemma sdiv_floor: "(a - b + 1) sdiv b = a div b" if "a < 0" "0 < b" for a b :: int
proof -
  have "(b - 1 - a) div b = - (a div b)"
  proof (rule int_div_pos_eq)
    show "b - 1 - a = b * - (a div b) + (b - 1 - a mod b)"
      using mult_div_mod_eq [of b a] by (simp add: algebra_simps)
    show "0 \<le> b - 1 - a mod b" "b - 1 - a mod b < b" using that pos_mod_bound [of b a] pos_mod_sign [of b a] by linarith+
  qed
  moreover have "a - b + 1 < 0" "- (a - b + 1) = b - 1 - a" using that by linarith+
  ultimately show ?thesis using that by (simp only: sdiv_neg minus_minus)
qed

subsection \<open>Bytes of a value\<close>

definition byte_of :: "int \<Rightarrow> nat \<Rightarrow> byte" where
  "byte_of v i = word_of_int (drop_bit (8 * i) v AND 0xFF)"

definition le_bytes :: "nat \<Rightarrow> int \<Rightarrow> byte list" where
  "le_bytes n v = map (byte_of v) [0..<n]"

lemma length_le_bytes [simp]: "length (le_bytes n v) = n"
  by (simp add: le_bytes_def)

lemma uint_byte_of: "uint (byte_of v i) = v div 2 ^ (8 * i) mod 256"
proof -
  have m: "(0xFF :: int) = mask 8" by (simp add: mask_eq_exp_minus_1)
  show ?thesis
    unfolding byte_of_def m by (simp add: uint_word_of_int drop_bit_eq_div take_bit_eq_mod flip: take_bit_eq_mask)
qed

lemma le_nat_le_bytes: "int (le_nat (le_bytes n v)) = v mod 2 ^ (8 * n)"
proof (induction n)
  case (Suc n)
  have "le_bytes (Suc n) v = le_bytes n v @ [byte_of v n]" by (simp add: le_bytes_def)
  then have "int (le_nat (le_bytes (Suc n) v)) = v mod 2 ^ (8 * n) + 2 ^ (8 * n) * uint (byte_of v n)"
    using Suc by (simp add: le_nat_append)
  also have "\<dots> = v mod (2 ^ (8 * n) * 256)"
    using zmod_zmult2_eq [of 256 v "2 ^ (8 * n)"] by (simp add: uint_byte_of)
  finally show ?case by (simp add: power_add mult.commute)
qed (simp add: le_bytes_def)

lemma le_nat_inject: "length xs = length ys \<Longrightarrow> le_nat xs = le_nat ys \<Longrightarrow> xs = ys"
proof (induction xs ys rule: list_induct2)
  case (Cons x xs y ys)
  from Cons.prems have "unat x + 256 * le_nat xs = unat y + 256 * le_nat ys" by simp
  then have "(unat x + 256 * le_nat xs) mod 256 = (unat y + 256 * le_nat ys) mod 256"
    "(unat x + 256 * le_nat xs) div 256 = (unat y + 256 * le_nat ys) div 256" by simp_all
  then have "unat x = unat y" "le_nat xs = le_nat ys" using byte_less [of x] byte_less [of y] by simp_all
  with Cons.IH show ?case by (simp add: unsigned_word_eqI)
qed simp

lemma le_bytes_le_nat: "le_bytes n (int (le_nat bs)) = bs" if "length bs = n"
proof (rule le_nat_inject)
  from le_nat_bound [of bs] that have "int (le_nat bs) < 2 ^ (8 * n)" by (metis of_nat_less_iff of_nat_numeral of_nat_power)
  then have "int (le_nat (le_bytes n (int (le_nat bs)))) = int (le_nat bs)" by (simp add: le_nat_le_bytes)
  then show "le_nat (le_bytes n (int (le_nat bs))) = le_nat bs" by simp
qed (simp add: that)

lemma le_bytes_mod: "le_bytes n (v mod 2 ^ (8 * n)) = le_bytes n v"
proof (rule le_nat_inject)
  have "int (le_nat (le_bytes n (v mod 2 ^ (8 * n)))) = int (le_nat (le_bytes n v))"
    by (simp add: le_nat_le_bytes)
  then show "le_nat (le_bytes n (v mod 2 ^ (8 * n))) = le_nat (le_bytes n v)" by (simp only: of_nat_eq_iff)
qed simp

text \<open>\<open>for (i < len) v |= static_cast<int64_t>(data[i]) << (i * 8)\<close>\<close>

function accum_le :: "byte list \<Rightarrow> nat \<Rightarrow> nat \<Rightarrow> int \<Rightarrow> int res" where
  "accum_le data len i v =
     (if i < len then bind_res (rd data i) (\<lambda>b. accum_le data len (i + 1) (v OR push_bit (8 * i) (uint b))) else Ret v)"
  by auto
termination by (relation "measure (\<lambda>(data, len, i, v). len - i)") auto

declare accum_le.simps [simp del]

lemma int_or_shift: "int a OR push_bit n (uint b) = int (a + 2 ^ n * unat b)" if "a < 2 ^ n" for b :: byte
proof -
  have "int a OR push_bit n (uint b) = int (a OR push_bit n (unat b))"
    by (simp only: of_nat_or_eq push_bit_of_nat uint_nat)
  also have "\<dots> = int (a + 2 ^ n * unat b)" using that by (simp only: nat_or_shift)
  finally show ?thesis .
qed

lemma accum_le_from:
  "i \<le> len \<Longrightarrow> len \<le> length data \<Longrightarrow>
     accum_le data len i (int (le_nat (take i data))) = Ret (int (le_nat (take len data)))"
proof (induction "len - i" arbitrary: i)
  case 0
  then show ?case by (subst accum_le.simps) simp
next
  case (Suc n)
  then have i: "i < len" "i < length data" by linarith+
  then have "take (Suc i) data = take i data @ [data ! i]" by (simp add: take_Suc_conv_app_nth)
  moreover have "le_nat (take i data) < 2 ^ (8 * i)" using le_nat_bound [of "take i data"] i by simp
  ultimately have "int (le_nat (take i data)) OR push_bit (8 * i) (uint (data ! i)) = int (le_nat (take (Suc i) data))"
    using i by (simp add: int_or_shift le_nat_append)
  moreover have "accum_le data len (Suc i) (int (le_nat (take (Suc i) data))) = Ret (int (le_nat (take len data)))"
    using Suc i by (intro Suc(1)) auto
  ultimately show ?case using i by (subst accum_le.simps) simp
qed

lemma accum_le_Ret: "len \<le> length data \<Longrightarrow> accum_le data len 0 0 = Ret (int (le_nat (take len data)))"
  using accum_le_from [of 0 len data] by simp

lemma accum_le_short: "length data < len \<Longrightarrow> accum_le data len 0 0 = OOB"
proof -
  have "accum_le data len i v = OOB" if "length data < len" "i \<le> length data" for i v
    using that
  proof (induction "length data - i" arbitrary: i v)
    case 0
    then show ?case by (subst accum_le.simps) (simp add: rd_def)
  next
    case (Suc n)
    then show ?case by (subst accum_le.simps) (simp add: rd_def)
  qed
  then show "length data < len \<Longrightarrow> accum_le data len 0 0 = OOB" by simp
qed

subsection \<open>128-bit integers\<close>

record hugeint_t =
  hg_lower :: u64
  hg_upper :: u64

definition hvalue :: "hugeint_t \<Rightarrow> int" where
  "hvalue h = sint (hg_upper h) * 2 ^ 64 + uint (hg_lower h)"

definition huge :: "int \<Rightarrow> hugeint_t" where
  "huge x = \<lparr> hg_lower = word_of_int x, hg_upper = word_of_int (x div 2 ^ 64) \<rparr>"

abbreviation in_i128 :: "int \<Rightarrow> bool" where "in_i128 x \<equiv> - (2 ^ 127) \<le> x \<and> x < 2 ^ 127"

lemma hvalue_range: "in_i128 (hvalue h)"
proof -
  define s u where "s = sint (hg_upper h)" and "u = uint (hg_lower h)"
  have "- 9223372036854775808 \<le> s" "s < 9223372036854775808"
    using sint_ge [of "hg_upper h"] sint_lt [of "hg_upper h"] by (simp_all add: s_def)
  moreover have "0 \<le> u" "u < 18446744073709551616" using uint_lt2p [of "hg_lower h"] by (simp_all add: u_def)
  ultimately have "- 170141183460469231731687303715884105728 \<le> s * 18446744073709551616 + u"
    "s * 18446744073709551616 + u < 170141183460469231731687303715884105728" by linarith+
  then show ?thesis by (simp add: hvalue_def s_def u_def)
qed

lemma hvalue_huge [simp]: "hvalue (huge x) = x" if "in_i128 x"
proof -
  from that have "- (2 ^ 63) \<le> x div 2 ^ 64" "x div 2 ^ 64 < 2 ^ 63" by auto
  then have "sint (word_of_int (x div 2 ^ 64) :: u64) = x div 2 ^ 64"
    by (simp add: sint_word_ariths(7) signed_take_bit_int_eq_self signed_of_int)
  then show ?thesis by (simp add: hvalue_def huge_def uint_word_of_int)
qed

lemma huge_hvalue [simp]: "huge (hvalue h) = h"
proof -
  have "(sint (hg_upper h) * 2 ^ 64 + uint (hg_lower h)) div 2 ^ 64 = sint (hg_upper h)"
    using uint_lt2p [of "hg_lower h"] by simp
  moreover have "(word_of_int (sint (hg_upper h) * 2 ^ 64 + uint (hg_lower h)) :: u64) = hg_lower h"
    using uint_lt2p [of "hg_lower h"] by (intro word_uint_eqI) (subst uint_word_of_int, simp)
  ultimately show ?thesis by (simp add: hvalue_def huge_def)
qed

lemma hvalue_inject: "hvalue a = hvalue b \<longleftrightarrow> a = b"
  by (metis huge_hvalue)

lemma hvalue_neg_iff: "hvalue h < 0 \<longleftrightarrow> sint (hg_upper h) < 0"
proof -
  define s u where "s = sint (hg_upper h)" and "u = uint (hg_lower h)"
  have "0 \<le> u" "u < 18446744073709551616" using uint_lt2p [of "hg_lower h"] by (simp_all add: u_def)
  then have "s * 18446744073709551616 + u < 0 \<longleftrightarrow> s < 0" by linarith
  then show ?thesis by (simp add: hvalue_def s_def u_def)
qed

text \<open>The operators of \<open>duckdb/common/types/hugeint.hpp\<close> that the source uses.\<close>

record hugeint_ops =
  hg_negate :: "hugeint_t \<Rightarrow> hugeint_t res"
  hg_add :: "hugeint_t \<Rightarrow> hugeint_t \<Rightarrow> hugeint_t"
  hg_sub :: "hugeint_t \<Rightarrow> hugeint_t \<Rightarrow> hugeint_t"
  hg_mul :: "hugeint_t \<Rightarrow> hugeint_t \<Rightarrow> hugeint_t"
  hg_div :: "hugeint_t \<Rightarrow> hugeint_t \<Rightarrow> hugeint_t"
  hg_mod :: "hugeint_t \<Rightarrow> hugeint_t \<Rightarrow> hugeint_t"
  hg_gt :: "hugeint_t \<Rightarrow> hugeint_t \<Rightarrow> bool"
  hg_to_string :: "hugeint_t \<Rightarrow> string"
  hg_cast_i64 :: "hugeint_t \<Rightarrow> int res"

definition signed_string :: "int \<Rightarrow> string" where
  "signed_string x = (if x < 0 then CHR 0x2D # to_string (nat (- x)) else to_string (nat x))"

locale hugeint_laws =
  fixes H :: hugeint_ops
  assumes negate: "in_i128 (- hvalue a) \<Longrightarrow> hg_negate H a = Ret (huge (- hvalue a))"
    and add: "in_i128 (hvalue a + hvalue b) \<Longrightarrow> hg_add H a b = huge (hvalue a + hvalue b)"
    and sub: "in_i128 (hvalue a - hvalue b) \<Longrightarrow> hg_sub H a b = huge (hvalue a - hvalue b)"
    and mul: "in_i128 (hvalue a * hvalue b) \<Longrightarrow> hg_mul H a b = huge (hvalue a * hvalue b)"
    and divide: "0 < hvalue b \<Longrightarrow> hg_div H a b = huge (hvalue a sdiv hvalue b)"
    and modulo: "0 < hvalue b \<Longrightarrow> hg_mod H a b = huge (hvalue a smod hvalue b)"
    and gt: "hg_gt H a b \<longleftrightarrow> hvalue b < hvalue a"
    and shown: "hg_to_string H a = signed_string (hvalue a)"
    and cast_i64: "in_i64 (hvalue a) \<Longrightarrow> hg_cast_i64 H a = Ret (hvalue a)"
begin

lemma negate_neg: "hvalue a < 0 \<Longrightarrow> - (2 ^ 127) < hvalue a \<Longrightarrow> hg_negate H a = Ret (huge (- hvalue a))"
  by (rule negate) auto

lemma negate_nonneg: "0 \<le> hvalue a \<Longrightarrow> hg_negate H a = Ret (huge (- hvalue a))"
  using hvalue_range [of a] by (intro negate) auto

end

text \<open>The contract can hold: arithmetic on the represented values.\<close>

definition exact_ops :: hugeint_ops where
  "exact_ops = \<lparr> hg_negate = (\<lambda>a. if hvalue a = - (2 ^ 127) then Throw ''Negation of HUGEINT is out of range!''
                   else Ret (huge (- hvalue a))),
     hg_add = (\<lambda>a b. huge (hvalue a + hvalue b)), hg_sub = (\<lambda>a b. huge (hvalue a - hvalue b)),
     hg_mul = (\<lambda>a b. huge (hvalue a * hvalue b)), hg_div = (\<lambda>a b. huge (hvalue a sdiv hvalue b)),
     hg_mod = (\<lambda>a b. huge (hvalue a smod hvalue b)), hg_gt = (\<lambda>a b. hvalue b < hvalue a),
     hg_to_string = (\<lambda>a. signed_string (hvalue a)),
     hg_cast_i64 = (\<lambda>a. if in_i64 (hvalue a) then Ret (hvalue a)
       else Throw ''Type INT128 cannot be cast because the value is out of range for the destination type INT64'') \<rparr>"

interpretation exact: hugeint_laws exact_ops
  by unfold_locales (auto simp: exact_ops_def)

end
