(* ===== verification/Bcp_Column.thy ===== *)
theory Bcp_Column
  imports Machine_Int
begin

text \<open>
  What the bulk-load encoders know of a column: the DuckDB types the source names, and the target column of
  \<open>src/include/copy/target_resolver.hpp\<close>. A logical type is its id, its storage type and, for DECIMAL, its width and scale.
\<close>

datatype LogicalTypeId = BOOLEAN_ID | TINYINT_ID | UTINYINT_ID | SMALLINT_ID | USMALLINT_ID | INTEGER_ID | UINTEGER_ID
  | BIGINT_ID | UBIGINT_ID | HUGEINT_ID | UHUGEINT_ID | FLOAT_ID | DOUBLE_ID | DECIMAL_ID | UUID_ID | VARCHAR_ID | BLOB_ID
  | INTERVAL_ID | GEOMETRY_ID | DATE_ID | TIME_ID | TIMESTAMP_SEC | TIMESTAMP_MS | TIMESTAMP_US | TIMESTAMP_TZ | TIMESTAMP_NS | OTHER_ID

datatype PhysicalType = PT_BOOL | PT_INT8 | PT_UINT8 | PT_INT16 | PT_UINT16 | PT_INT32 | PT_UINT32 | PT_INT64 | PT_UINT64
  | PT_INT128 | PT_UINT128 | PT_FLOAT | PT_DOUBLE | PT_VARCHAR | PT_OTHER

record LogicalType =
  lt_id :: LogicalTypeId
  lt_physical :: PhysicalType
  lt_width :: byte
  lt_scale :: byte

fun GetTypeIdSize :: "PhysicalType \<Rightarrow> nat" where
  "GetTypeIdSize PT_BOOL = 1"
| "GetTypeIdSize PT_INT8 = 1"
| "GetTypeIdSize PT_UINT8 = 1"
| "GetTypeIdSize PT_INT16 = 2"
| "GetTypeIdSize PT_UINT16 = 2"
| "GetTypeIdSize PT_INT32 = 4"
| "GetTypeIdSize PT_UINT32 = 4"
| "GetTypeIdSize PT_FLOAT = 4"
| "GetTypeIdSize PT_INT64 = 8"
| "GetTypeIdSize PT_UINT64 = 8"
| "GetTypeIdSize PT_DOUBLE = 8"
| "GetTypeIdSize PT_INT128 = 16"
| "GetTypeIdSize PT_UINT128 = 16"
| "GetTypeIdSize PT_VARCHAR = 16"
| "GetTypeIdSize PT_OTHER = 16"

text \<open>The values a storage type holds; a floating-point value is its bit pattern.\<close>

fun stored :: "PhysicalType \<Rightarrow> int \<Rightarrow> bool" where
  "stored PT_INT8 v \<longleftrightarrow> - (2 ^ 7) \<le> v \<and> v < 2 ^ 7"
| "stored PT_UINT8 v \<longleftrightarrow> 0 \<le> v \<and> v < 2 ^ 8"
| "stored PT_INT16 v \<longleftrightarrow> - (2 ^ 15) \<le> v \<and> v < 2 ^ 15"
| "stored PT_UINT16 v \<longleftrightarrow> 0 \<le> v \<and> v < 2 ^ 16"
| "stored PT_INT32 v \<longleftrightarrow> - (2 ^ 31) \<le> v \<and> v < 2 ^ 31"
| "stored PT_UINT32 v \<longleftrightarrow> 0 \<le> v \<and> v < 2 ^ 32"
| "stored PT_INT64 v \<longleftrightarrow> - (2 ^ 63) \<le> v \<and> v < 2 ^ 63"
| "stored PT_UINT64 v \<longleftrightarrow> 0 \<le> v \<and> v < 2 ^ 64"
| "stored PT_INT128 v \<longleftrightarrow> in_i128 v"
| "stored PT_BOOL v \<longleftrightarrow> v = 0 \<or> v = 1"
| "stored PT_FLOAT v \<longleftrightarrow> 0 \<le> v \<and> v < 2 ^ 32"
| "stored PT_DOUBLE v \<longleftrightarrow> 0 \<le> v \<and> v < 2 ^ 64"
| "stored PT_UINT128 v \<longleftrightarrow> 0 \<le> v \<and> v < 2 ^ 128"
| "stored PT_VARCHAR v \<longleftrightarrow> False"
| "stored PT_OTHER v \<longleftrightarrow> False"

record BCPColumnMetadata =
  bc_name :: string
  bc_duckdb_type :: LogicalType
  bc_tds_type_token :: byte
  bc_max_length :: u16
  bc_precision :: byte
  bc_scale :: byte
  bc_nullable :: bool
  bc_collation :: "byte list"
  bc_collation_name :: string
  bc_null_only_source :: bool

definition IsVariableLengthUSHORT :: "BCPColumnMetadata \<Rightarrow> bool" where
  "IsVariableLengthUSHORT col \<longleftrightarrow> bc_tds_type_token col = 0xE7 \<or> bc_tds_type_token col = 0xA7 \<or> bc_tds_type_token col = 0xA5"

definition bc_IsPLPType :: "BCPColumnMetadata \<Rightarrow> bool" where
  "bc_IsPLPType col \<longleftrightarrow> bc_max_length col = 0xFFFF"

definition IsFixedLength :: "BCPColumnMetadata \<Rightarrow> bool" where
  "IsFixedLength col \<longleftrightarrow> bc_tds_type_token col \<in> {0x26, 0x68, 0x6D, 0x6A, 0x6C, 0x24, 0x28, 0x29, 0x2A, 0x2B}"

definition GetFlags :: "BCPColumnMetadata \<Rightarrow> u16" where
  "GetFlags col = (if bc_nullable col then 0x0008 OR 0x0001 else 0x0008)"

definition GetLengthPrefixSize :: "BCPColumnMetadata \<Rightarrow> nat" where
  "GetLengthPrefixSize col = (if IsVariableLengthUSHORT col then 2 else if IsFixedLength col then 1 else 0)"

end
