(* ===== verification/Chunk_Format.thy ===== *)
theory Chunk_Format
  imports Bcp_Column
begin

text \<open>
  What the bulk-load encoder sees of a chunk, and the loops in which it writes. A column is the unified format of a DuckDB
  vector: values, an optional selection of them and an optional validity mask. A \<open>for\<close> loop over an index range is
  \<open>for_each\<close>; \<open>outcome\<close> and its rules are the loop invariants the encoder's proofs share: a loop that writes blocks which
  all agree with one target buffer leaves that buffer, in whatever order it writes them.
\<close>

subsection \<open>Vectors\<close>

datatype cell = Num int | Str "byte list"

record vec =
  v_type :: LogicalType
  v_sel :: "nat list option"
  v_valid :: "bool list option"
  v_data :: "cell list"

definition get_index :: "vec \<Rightarrow> nat \<Rightarrow> nat" where
  "get_index v r = (case v_sel v of None \<Rightarrow> r | Some s \<Rightarrow> s ! r)"

definition RowIsValid :: "vec \<Rightarrow> nat \<Rightarrow> bool" where
  "RowIsValid v i = (case v_valid v of None \<Rightarrow> True | Some m \<Rightarrow> m ! i)"

definition AllValid :: "vec \<Rightarrow> bool" where
  "AllValid v \<longleftrightarrow> v_valid v = None"

definition FormatIsNull :: "vec \<Rightarrow> nat \<Rightarrow> bool" where
  "FormatIsNull v r \<longleftrightarrow> \<not> RowIsValid v (get_index v r)"

definition cell_at :: "vec \<Rightarrow> nat \<Rightarrow> cell" where
  "cell_at v r = v_data v ! get_index v r"

fun num :: "cell \<Rightarrow> int" where
  "num (Num i) = i"
| "num (Str b) = 0"

fun str :: "cell \<Rightarrow> byte list" where
  "str (Str b) = b"
| "str (Num i) = []"

lemma AllValid_not_null: "AllValid v \<Longrightarrow> \<not> FormatIsNull v r"
  by (simp add: AllValid_def FormatIsNull_def RowIsValid_def)

subsection \<open>Loops\<close>

fun for_each :: "('a \<Rightarrow> 's \<Rightarrow> 's res) \<Rightarrow> 'a list \<Rightarrow> 's \<Rightarrow> 's res" where
  "for_each f [] s = Ret s"
| "for_each f (i # is) s = bind_res (f i s) (for_each f is)"

lemma bind_Ret_right [simp]: "bind_res r Ret = r"
  by (cases r) simp_all

lemma bind_Ret_map: "bind_res r (\<lambda>x. Ret (f x)) = map_res f r"
  by (cases r) simp_all

lemma map_res_bind: "map_res g (bind_res r f) = bind_res r (\<lambda>x. map_res g (f x))"
  by (cases r) simp_all

lemma for_each_Nil: "for_each f [] = Ret"
  by (rule ext) simp

lemma for_each_single [simp]: "for_each f [i] = f i"
  by (rule ext) (simp add: for_each_Nil)

lemma for_each_append: "for_each f (is @ js) s = bind_res (for_each f is s) (for_each f js)"
proof (induction "is" arbitrary: s)
  case (Cons i "is")
  then show ?case by (cases "f i s") simp_all
qed simp

text \<open>How a step ends: in a state that satisfies \<open>Q\<close> when all is well, in an exception otherwise.\<close>

definition outcome :: "'s res \<Rightarrow> bool \<Rightarrow> ('s \<Rightarrow> bool) \<Rightarrow> bool" where
  "outcome r good Q \<longleftrightarrow> (if good then \<exists>s. r = Ret s \<and> Q s else \<exists>m. r = Throw m)"

lemma outcome_Ret [simp]: "outcome (Ret s) good Q \<longleftrightarrow> good \<and> Q s"
  by (simp add: outcome_def)

lemma outcome_Throw [simp]: "outcome (Throw m) good Q \<longleftrightarrow> \<not> good"
  by (simp add: outcome_def)

lemma outcome_bind:
  "outcome r g P \<Longrightarrow> (\<And>s. g \<Longrightarrow> P s \<Longrightarrow> outcome (f s) h Q) \<Longrightarrow> (\<not> g \<Longrightarrow> \<not> h) \<Longrightarrow> outcome (bind_res r f) h Q"
  by (cases r) (auto simp: outcome_def split: if_splits)

lemma outcome_mono: "outcome r g P \<Longrightarrow> (\<And>s. g \<Longrightarrow> P s \<Longrightarrow> Q s) \<Longrightarrow> outcome r g Q"
  by (auto simp: outcome_def)

text \<open>The loop rule: an invariant that knows the indices already done.\<close>

lemma for_each_outcome:
  assumes step: "\<And>xs i ys s. is = xs @ i # ys \<Longrightarrow> I xs s \<Longrightarrow> outcome (f i s) (good i) (I (xs @ [i]))" and init: "I [] s"
  shows "outcome (for_each f is s) (\<forall>i \<in> set is. good i) (I is)"
proof -
  have "outcome (for_each f zs s) (\<forall>i \<in> set zs. good i) (I is)" if "is = xs @ zs" "I xs s" for xs zs s
    using that
  proof (induction zs arbitrary: xs s)
    case (Cons z zs)
    have "outcome (f z s) (good z) (I (xs @ [z]))" using step [OF Cons.prems] .
    then show ?case
      unfolding for_each.simps
    proof (rule outcome_bind)
      fix s' assume "good z" "I (xs @ [z]) s'"
      moreover have "is = (xs @ [z]) @ zs" using Cons.prems(1) by simp
      ultimately show "outcome (for_each f zs s') (\<forall>i \<in> set (z # zs). good i) (I is)"
        using Cons.IH [of "xs @ [z]" s'] by simp
    qed auto
  qed simp
  from this [of "[]" "is"] init show ?thesis by simp
qed

lemma for_upto_outcome:
  assumes "\<And>k s. k < n \<Longrightarrow> I k s \<Longrightarrow> outcome (f k s) (good k) (I (Suc k))" "I 0 s"
  shows "outcome (for_each f [0..<n] s) (\<forall>k<n. good k) (I n)"
  using assms
proof (induction n)
  case (Suc n)
  have "outcome (for_each f [0..<n] s) (\<forall>k<n. good k) (I n)" using Suc by simp
  then have "outcome (bind_res (for_each f [0..<n] s) (for_each f [n])) (\<forall>k<Suc n. good k) (I (Suc n))"
  proof (rule outcome_bind)
    fix s' assume "\<forall>k<n. good k" "I n s'"
    moreover from Suc.prems(1) [of n s'] \<open>I n s'\<close> have "outcome (f n s') (good n) (I (Suc n))" by simp
    ultimately show "outcome (for_each f [n] s') (\<forall>k<Suc n. good k) (I (Suc n))"
      by (cases "f n s'") (auto simp: outcome_def less_Suc_eq split: if_splits)
  qed (auto intro: less_SucI)
  then show ?case by (simp add: for_each_append)
qed simp

lemma for_upto_inv:
  assumes "\<And>k s s'. k < n \<Longrightarrow> I k s \<Longrightarrow> f k s = Ret s' \<Longrightarrow> I (Suc k) s'" "I 0 s" "for_each f [0..<n] s = Ret s'"
  shows "I n s'"
  using assms
proof (induction n arbitrary: s')
  case (Suc n)
  have "for_each f ([0..<n] @ [n]) s = Ret s'" using Suc.prems(3) by simp
  then obtain t where t: "for_each f [0..<n] s = Ret t" "f n t = Ret s'" by (auto simp: for_each_append bind_res_Ret_iff)
  from Suc.IH [OF _ Suc.prems(2) t(1)] Suc.prems(1) have "I n t" by simp
  with Suc.prems(1) [of n t s'] t(2) show ?case by simp
qed simp

subsection \<open>Writing towards a target\<close>

text \<open>\<open>holds t i bs\<close>: the target has the bytes \<open>bs\<close> at \<open>i\<close>. \<open>agree buf t W\<close>: the buffer is as long as the target and equals it
  on the positions of \<open>W\<close>.\<close>

definition holds :: "byte list \<Rightarrow> nat \<Rightarrow> byte list \<Rightarrow> bool" where
  "holds t i bs \<longleftrightarrow> i + length bs \<le> length t \<and> take (length bs) (drop i t) = bs"

definition agree :: "byte list \<Rightarrow> byte list \<Rightarrow> nat set \<Rightarrow> bool" where
  "agree buf t W \<longleftrightarrow> length buf = length t \<and> (\<forall>i \<in> W. i < length t \<longrightarrow> buf ! i = t ! i)"

lemma holds_append: "holds t i (xs @ ys) \<longleftrightarrow> holds t i xs \<and> holds t (i + length xs) ys"
proof
  assume "holds t i (xs @ ys)"
  then have l: "i + length xs + length ys \<le> length t" and e: "take (length xs + length ys) (drop i t) = xs @ ys"
    by (auto simp: holds_def)
  have "xs = take (length xs) (xs @ ys)" "ys = drop (length xs) (xs @ ys)" by simp_all
  then show "holds t i xs \<and> holds t (i + length xs) ys"
    using l unfolding e [symmetric] holds_def by (auto simp: drop_take add.commute min_def)
next
  assume "holds t i xs \<and> holds t (i + length xs) ys"
  then show "holds t i (xs @ ys)" by (auto simp: holds_def take_add add.commute)
qed

lemma holds_Cons: "holds t i (x # xs) \<longleftrightarrow> holds t i [x] \<and> holds t (Suc i) xs"
  using holds_append [of t i "[x]" xs] by simp

lemma holds_Nil [simp]: "holds t i [] \<longleftrightarrow> i \<le> length t"
  by (simp add: holds_def)

lemma holds_self: "holds (a @ bs @ c) (length a) bs"
  by (simp add: holds_def)

lemma holds_nth: "holds t i bs \<Longrightarrow> k < length bs \<Longrightarrow> t ! (i + k) = bs ! k"
proof -
  assume h: "holds t i bs" "k < length bs"
  have e: "take (length bs) (drop i t) = bs" "i \<le> length t" using h(1) unfolding holds_def by auto
  have "drop i t ! k = t ! (i + k)" using e(2) by (rule nth_drop)
  then have "take (length bs) (drop i t) ! k = t ! (i + k)" by (simp only: nth_take [OF h(2)])
  then show ?thesis by (simp only: e(1))
qed

lemma wr_agree:
  assumes "agree buf t W" "holds t i bs"
  shows "\<exists>buf'. wr_block buf i bs = Ret buf' \<and> agree buf' t (W \<union> {i..<i + length bs})"
proof -
  have l: "i + length bs \<le> length buf" "length buf = length t" using assms by (auto simp: agree_def holds_def)
  define buf' where "buf' = take i buf @ bs @ drop (i + length bs) buf"
  have "buf' ! j = t ! j" if j: "j \<in> W \<union> {i..<i + length bs}" "j < length t" for j
  proof (cases "i \<le> j \<and> j < i + length bs")
    case True
    then have "j - i < length bs" "\<not> j < i" by linarith+
    then have "buf' ! j = bs ! (j - i)" using l by (simp add: buf'_def nth_append)
    then show ?thesis using True \<open>j - i < length bs\<close> holds_nth [OF assms(2), of "j - i"] by simp
  next
    case False
    then have "buf' ! j = buf ! j" using l j(2) by (auto simp: buf'_def nth_append)
    with False j assms(1) show ?thesis by (auto simp: agree_def)
  qed
  moreover have "length buf' = length t" using l by (simp add: buf'_def)
  ultimately show ?thesis using l by (auto simp: wr_block_def agree_def buf'_def)
qed

lemma agree_subset: "agree buf t W \<Longrightarrow> V \<subseteq> W \<Longrightarrow> agree buf t V"
  by (auto simp: agree_def)

lemma agree_full: "agree buf t W \<Longrightarrow> {0..<length t} \<subseteq> W \<Longrightarrow> buf = t"
  by (rule nth_equalityI) (auto simp: agree_def subset_iff)

lemma agree_init: "length buf = length t \<Longrightarrow> agree buf t {}"
  by (simp add: agree_def)

text \<open>A sequence of block writes.\<close>

definition write_at :: "nat \<times> byte list \<Rightarrow> byte list \<Rightarrow> byte list res" where
  "write_at w buf = wr_block buf (fst w) (snd w)"

definition covered :: "(nat \<times> byte list) list \<Rightarrow> nat set" where
  "covered ws = (\<Union>w \<in> set ws. {fst w..<fst w + length (snd w)})"

lemma covered_simps [simp]: "covered [] = {}" "covered ((i, bs) # ws) = {i..<i + length bs} \<union> covered ws"
  by (simp_all add: covered_def)

lemma writes_agree:
  "agree buf t W \<Longrightarrow> \<forall>w \<in> set ws. holds t (fst w) (snd w) \<Longrightarrow>
    \<exists>buf'. for_each write_at ws buf = Ret buf' \<and> agree buf' t (W \<union> covered ws)"
proof (induction ws arbitrary: buf W)
  case (Cons w ws)
  obtain i bs where w: "w = (i, bs)" by (cases w)
  from Cons.prems w have "holds t i bs" by simp
  from wr_agree [OF Cons.prems(1) this] obtain b where b: "wr_block buf i bs = Ret b" "agree b t (W \<union> {i..<i + length bs})" by blast
  from Cons.IH [OF b(2)] Cons.prems(2) show ?case by (auto simp: w b(1) write_at_def Un_assoc)
qed simp

lemma wr_block_length: "wr_block buf i bs = Ret buf' \<Longrightarrow> length buf' = length buf"
  by (auto simp: wr_block_def split: if_splits)

subsection \<open>Cells laid out one after the other\<close>

definition offset :: "byte list list \<Rightarrow> nat \<Rightarrow> nat" where
  "offset cs r = length (concat (take r cs))"

lemma offset_Suc: "r < length cs \<Longrightarrow> offset cs (Suc r) = offset cs r + length (cs ! r)"
  by (simp add: offset_def take_Suc_conv_app_nth)

lemma offset_all: "length cs \<le> r \<Longrightarrow> offset cs r = length (concat cs)"
  by (simp add: offset_def)

lemma holds_concat: "holds (concat cs) (offset cs r) (cs ! r)" if "r < length cs"
proof -
  have "concat cs = concat (take r cs) @ cs ! r @ concat (drop (Suc r) cs)"
    using arg_cong [OF id_take_nth_drop [OF that], of concat] by simp
  then show ?thesis using holds_self [of "concat (take r cs)" "cs ! r" "concat (drop (Suc r) cs)"] by (simp add: offset_def)
qed

lemma offset_covers: "x < offset cs n \<Longrightarrow> n \<le> length cs \<Longrightarrow> \<exists>r<n. x \<in> {offset cs r..<offset cs r + length (cs ! r)}"
proof (induction n)
  case (Suc n)
  show ?case
  proof (cases "x < offset cs n")
    case True
    with Suc show ?thesis by (auto intro: less_SucI)
  next
    case False
    with Suc.prems show ?thesis by (auto simp: offset_Suc intro!: exI [of _ n])
  qed
qed (simp add: offset_def)

lemma for_each_concat:
  assumes "\<And>i s. i \<in> set is \<Longrightarrow> f i s = Ret (s @ g i)"
  shows "for_each f is s = Ret (s @ concat (map g is))"
  using assms by (induction "is" arbitrary: s) simp_all

text \<open>A loop over rows that writes one cell of every row at the row's cursor and moves the cursor behind it.\<close>

definition advanced :: "nat set \<Rightarrow> (nat \<Rightarrow> byte list) \<Rightarrow> nat list \<Rightarrow> nat list \<Rightarrow> bool" where
  "advanced R cell c c' \<longleftrightarrow> length c' = length c \<and>
     (\<forall>r<length c. c' ! r = (if r \<in> R then c ! r + length (cell r) else c ! r))"

definition cells_at :: "nat set \<Rightarrow> (nat \<Rightarrow> byte list) \<Rightarrow> nat list \<Rightarrow> nat set" where
  "cells_at R cell c = (\<Union>r \<in> R. {c ! r..<c ! r + length (cell r)})"

lemma advanced_none: "advanced {} cell c c' \<longleftrightarrow> c' = c"
  by (auto simp: advanced_def intro: nth_equalityI)

lemma for_each_cursor:
  assumes step: "\<And>r buf c W. r \<in> set rs \<Longrightarrow> length c = n \<Longrightarrow> holds t (c ! r) (cell r) \<Longrightarrow> agree buf t W \<Longrightarrow>
      outcome (f r (buf, c)) (good r) (\<lambda>(buf', c'). c' = c[r := c ! r + length (cell r)] \<and> agree buf' t (W \<union> {c ! r..<c ! r + length (cell r)}))"
    and "distinct rs" "set rs \<subseteq> {0..<n}" "length c = n" "\<forall>r \<in> set rs. holds t (c ! r) (cell r)" "agree buf t W"
  shows "outcome (for_each f rs (buf, c)) (\<forall>r \<in> set rs. good r)
    (\<lambda>(buf', c'). advanced (set rs) cell c c' \<and> agree buf' t (W \<union> cells_at (set rs) cell c))"
proof (rule for_each_outcome [where I = "\<lambda>xs (buf', c'). advanced (set xs) cell c c' \<and> agree buf' t (W \<union> cells_at (set xs) cell c)"])
  show "case (buf, c) of (buf', c') \<Rightarrow> advanced (set []) cell c c' \<and> agree buf' t (W \<union> cells_at (set []) cell c)"
    using assms(6) by (simp add: advanced_none cells_at_def)
next
  fix xs r ys s
  assume rs: "rs = xs @ r # ys" and I: "case s of (buf', c') \<Rightarrow> advanced (set xs) cell c c' \<and> agree buf' t (W \<union> cells_at (set xs) cell c)"
  obtain b c' where s: "s = (b, c')" by (cases s)
  from assms(2) rs have r: "r \<in> set rs" "r \<notin> set xs" by auto
  with assms(3) have n: "r < n" by auto
  from I s r(2) n assms(4) have c': "length c' = n" "c' ! r = c ! r" by (auto simp: advanced_def)
  with assms(5) r(1) have "holds t (c' ! r) (cell r)" by simp
  moreover from I s have "agree b t (W \<union> cells_at (set xs) cell c)" by simp
  ultimately have "outcome (f r (b, c')) (good r) (\<lambda>(buf', c''). c'' = c'[r := c' ! r + length (cell r)] \<and>
      agree buf' t (W \<union> cells_at (set xs) cell c \<union> {c' ! r..<c' ! r + length (cell r)}))" using step [OF r(1) c'(1)] by blast
  then show "outcome (f r s) (good r) (\<lambda>(buf', c'). advanced (set (xs @ [r])) cell c c' \<and> agree buf' t (W \<union> cells_at (set (xs @ [r])) cell c))"
    unfolding s
  proof (rule outcome_mono, clarify)
    fix b'
    assume a: "agree b' t (W \<union> cells_at (set xs) cell c \<union> {c' ! r..<c' ! r + length (cell r)})"
    have "W \<union> cells_at (set xs) cell c \<union> {c' ! r..<c' ! r + length (cell r)} = W \<union> cells_at (set (xs @ [r])) cell c"
      using c'(2) by (auto simp: cells_at_def)
    with a have "agree b' t (W \<union> cells_at (set (xs @ [r])) cell c)" by simp
    moreover have "advanced (set (xs @ [r])) cell c (c'[r := c' ! r + length (cell r)])"
      using I s r(2) c' assms(4) n by (auto simp: advanced_def nth_list_update)
    ultimately show "advanced (set (xs @ [r])) cell c (c'[r := c' ! r + length (cell r)]) \<and>
      agree b' t (W \<union> cells_at (set (xs @ [r])) cell c)" by blast
  qed
qed

end
