(* ===== verification/Value_Encoding.thy ===== *)
theory Value_Encoding
  imports Machine_Int
begin

text \<open>
  The decoders of wire values: \<open>src/tds/encoding/datetime_encoding.cpp\<close>, \<open>decimal_encoding.cpp\<close> and
  \<open>guid_encoding.cpp\<close>. They take a pointer without a length, so each is safe for a value that is long enough.
  A \<open>date_t\<close> is its days, a \<open>dtime_t\<close> and a \<open>timestamp_t\<close> are their microseconds.
\<close>

subsection \<open>Dates and times\<close>

definition DAYS_FROM_0001_TO_EPOCH :: int where
  "DAYS_FROM_0001_TO_EPOCH = 719162"

definition DAYS_FROM_1900_TO_EPOCH :: int where
  "DAYS_FROM_1900_TO_EPOCH = 25567"

definition MICROS_PER_DAY :: int where
  "MICROS_PER_DAY = 86400000000"

definition MICROS_PER_SECOND :: int where
  "MICROS_PER_SECOND = 1000000"

definition GetTimeByteLength :: "byte \<Rightarrow> nat" where
  "GetTimeByteLength scale = (if scale \<le> 2 then 3 else if scale \<le> 4 then 4 else 5)"

definition rd_days :: "byte list \<Rightarrow> nat \<Rightarrow> int res" where
  "rd_days data i =
     bind_res (rd data i) (\<lambda>a. bind_res (rd data (i + 1)) (\<lambda>b. bind_res (rd data (i + 2)) (\<lambda>c.
       Ret (uint a OR push_bit 8 (uint b) OR push_bit 16 (uint c)))))"

definition ConvertDate :: "byte list \<Rightarrow> int res" where
  "ConvertDate data = bind_res (rd_days data 0) (\<lambda>days. Ret (days - DAYS_FROM_0001_TO_EPOCH))"

fun times10 :: "nat \<Rightarrow> int \<Rightarrow> int" where
  "times10 0 m = m"
| "times10 (Suc n) m = times10 n (m * 10)"

definition TimeTicksToMicroseconds :: "int \<Rightarrow> byte \<Rightarrow> int res" where
  "TimeTicksToMicroseconds ticks scale =
     (if scale \<le> 6 then i64 (ticks * times10 (6 - unat scale) 1) else Ret (ticks sdiv 10))"

definition ConvertTime :: "byte list \<Rightarrow> byte \<Rightarrow> int res" where
  "ConvertTime data scale =
     bind_res (accum_le data (GetTimeByteLength scale) 0 0) (\<lambda>ticks. TimeTicksToMicroseconds ticks scale)"

definition ConvertDatetime :: "byte list \<Rightarrow> int res" where
  "ConvertDatetime data =
     bind_res (rd_u32le data 0) (\<lambda>d. bind_res (rd_u32le data 4) (\<lambda>t.
       let days = sint d; ticks = sint t;
           unix_days = days - DAYS_FROM_1900_TO_EPOCH;
           microseconds = (ticks * 10000) sdiv 3;
           bits = (word_of_int unix_days * word_of_int MICROS_PER_DAY + word_of_int microseconds :: u64)
       in Ret (sint bits)))"

definition ConvertDatetime2 :: "byte list \<Rightarrow> byte \<Rightarrow> int res" where
  "ConvertDatetime2 data scale =
     (let time_len = GetTimeByteLength scale
      in bind_res (accum_le data time_len 0 0) (\<lambda>time_ticks. bind_res (rd_days data time_len) (\<lambda>days.
         let unix_days = days - DAYS_FROM_0001_TO_EPOCH
         in bind_res (TimeTicksToMicroseconds time_ticks scale) (\<lambda>microseconds.
            bind_res (i64 (unix_days * MICROS_PER_DAY)) (\<lambda>day. i64 (day + microseconds))))))"

definition ConvertSmallDatetime :: "byte list \<Rightarrow> int res" where
  "ConvertSmallDatetime data =
     bind_res (rd_u16le data 0) (\<lambda>days. bind_res (rd_u16le data 2) (\<lambda>minutes.
       let unix_days = uint days - DAYS_FROM_1900_TO_EPOCH;
           microseconds = uint minutes * 60 * MICROS_PER_SECOND
       in bind_res (i64 (unix_days * MICROS_PER_DAY)) (\<lambda>day. i64 (day + microseconds))))"

text \<open>The two offset bytes are not read.\<close>

definition ConvertDatetimeOffset :: "byte list \<Rightarrow> byte \<Rightarrow> int res" where
  "ConvertDatetimeOffset data scale =
     (let time_len = GetTimeByteLength scale
      in bind_res (accum_le data time_len 0 0) (\<lambda>time_ticks. bind_res (rd_days data time_len) (\<lambda>days.
         let unix_days = days - DAYS_FROM_0001_TO_EPOCH
         in bind_res (TimeTicksToMicroseconds time_ticks scale) (\<lambda>microseconds.
            bind_res (i64 (unix_days * MICROS_PER_DAY)) (\<lambda>day. i64 (day + microseconds))))))"

subsection \<open>Decimals and money\<close>

fun portable_loop :: "hugeint_ops \<Rightarrow> byte list \<Rightarrow> nat \<Rightarrow> hugeint_t \<Rightarrow> hugeint_t res" where
  "portable_loop H data 0 magnitude = Ret magnitude"
| "portable_loop H data (Suc i) magnitude =
     bind_res (rd data (Suc i)) (\<lambda>b. portable_loop H data i (hg_add H (hg_mul H magnitude (huge 256)) (huge (uint b))))"

definition ConvertDecimalPortable :: "hugeint_ops \<Rightarrow> byte list \<Rightarrow> nat \<Rightarrow> hugeint_t res" where
  "ConvertDecimalPortable H data len =
     bind_res (rd data 0) (\<lambda>sign. bind_res (portable_loop H data (len - 1) (huge 0)) (\<lambda>magnitude.
       if sign = 0 then hg_negate H magnitude else Ret magnitude))"

text \<open>\<open>memcpy\<close> of at most eight bytes into a zeroed word.\<close>

definition load64 :: "byte list \<Rightarrow> u64" where
  "load64 bs = of_nat (le_nat bs)"

definition ConvertDecimal :: "hugeint_ops \<Rightarrow> byte list \<Rightarrow> nat \<Rightarrow> hugeint_t res" where
  "ConvertDecimal H data len =
     (if len = 0 then Ret (huge 0)
      else let mag_bytes = len - 1
        in if mag_bytes \<le> 16 then
             let low_bytes = (if mag_bytes < 8 then mag_bytes else 8)
             in bind_res (if low_bytes > 0 then rd_block data 1 low_bytes else Ret []) (\<lambda>low.
                bind_res (if mag_bytes > 8 then rd_block data 9 (mag_bytes - 8) else Ret []) (\<lambda>high.
                let magnitude = \<lparr> hg_lower = load64 low, hg_upper = load64 high \<rparr>
                in bind_res (rd data 0) (\<lambda>sign. if sign = 0 then hg_negate H magnitude else Ret magnitude)))
           else ConvertDecimalPortable H data len)"

definition ConvertMoney :: "byte list \<Rightarrow> hugeint_t res" where
  "ConvertMoney data =
     bind_res (rd_u32le data 0) (\<lambda>high. bind_res (rd_u32le data 4) (\<lambda>low.
       let bits = push_bit 32 (ucast high) OR (ucast low :: u64) in Ret (huge (sint bits))))"

definition ConvertSmallMoney :: "byte list \<Rightarrow> hugeint_t res" where
  "ConvertSmallMoney data = bind_res (rd_u32le data 0) (\<lambda>value. Ret (huge (sint value)))"

subsection \<open>GUIDs\<close>

definition ReorderGuidBytes :: "byte list \<Rightarrow> byte list res" where
  "ReorderGuidBytes input =
     bind_res (mapM_res (rd input) [3, 2, 1, 0, 5, 4, 7, 6]) (\<lambda>head.
     bind_res (rd_block input 8 8) (\<lambda>data4. Ret (head @ data4)))"

definition UUID_FLIP :: u64 where
  "UUID_FLIP = push_bit 63 1"

definition ConvertGuid :: "byte list \<Rightarrow> hugeint_t res" where
  "ConvertGuid data =
     bind_res (rd_u32le data 0) (\<lambda>data1. bind_res (rd_u16le data 4) (\<lambda>data2. bind_res (rd_u16le data 6) (\<lambda>data3.
     bind_res (mapM_res (rd data) [8, 9, 10, 11, 12, 13, 14, 15]) (\<lambda>b.
       let upper = push_bit 32 (ucast data1) OR push_bit 16 (ucast data2) OR (ucast data3 :: u64);
           lower = push_bit 56 (ucast (b ! 0)) OR push_bit 48 (ucast (b ! 1)) OR push_bit 40 (ucast (b ! 2)) OR
                   push_bit 32 (ucast (b ! 3)) OR push_bit 24 (ucast (b ! 4)) OR push_bit 16 (ucast (b ! 5)) OR
                   push_bit 8 (ucast (b ! 6)) OR (ucast (b ! 7) :: u64)
       in Ret \<lparr> hg_lower = lower, hg_upper = upper XOR UUID_FLIP \<rparr>))))"

subsection \<open>Exact values\<close>

lemma times10_eq: "times10 n m = m * 10 ^ n"
  by (induction n arbitrary: m) simp_all

lemma rd_days_Ret: "i + 3 \<le> length data \<Longrightarrow> rd_days data i = Ret (int (le_nat (take 3 (drop i data))))"
proof -
  assume a: "i + 3 \<le> length data"
  define x y z where "x = data ! i" and "y = data ! (i + 1)" and "z = data ! (i + 2)"
  have "take 3 (drop i data) = [x, y, z]"
    using a by (intro nth_equalityI) (auto simp: x_def y_def z_def nth_Cons' less_Suc_eq numeral_3_eq_3)
  moreover have "uint x OR push_bit 8 (uint y) OR push_bit 16 (uint z) = int (le_nat [x, y, z])"
  proof -
    have "int (unat x) OR push_bit 8 (uint y) = int (unat x + 256 * unat y)"
      using int_or_shift [of "unat x" 8 y] byte_less [of x] by simp
    moreover have "int (unat x + 256 * unat y) OR push_bit 16 (uint z) = int (unat x + 256 * unat y + 65536 * unat z)"
      using int_or_shift [of "unat x + 256 * unat y" 16 z] byte_less [of x] byte_less [of y] by simp
    ultimately show ?thesis by (simp add: or.assoc [symmetric])
  qed
  ultimately show ?thesis using a by (simp add: rd_days_def x_def y_def z_def)
qed

lemma i64_nonneg: "0 \<le> x \<Longrightarrow> x < 2 ^ 63 \<Longrightarrow> i64 x = Ret x"
  by (simp add: i64_def)

lemma TimeTicks_Ret:
  assumes "0 \<le> ticks" "ticks < 2 ^ 40" "scale \<le> 7" "scale \<le> 4 \<Longrightarrow> ticks < 2 ^ 32"
  shows "TimeTicksToMicroseconds ticks scale = Ret (ticks * 10 ^ 6 div 10 ^ unat scale)"
proof -
  define s where "s = unat scale"
  have s: "s \<le> 7" "scale \<le> 6 \<longleftrightarrow> s \<le> 6" "s \<le> 4 \<Longrightarrow> ticks < 2 ^ 32"
    using assms by (simp_all add: s_def word_le_nat_alt)
  consider "s = 7" | "s \<le> 6" using s by linarith
  then show ?thesis
  proof cases
    case 1
    then show ?thesis using s assms by (simp add: TimeTicksToMicroseconds_def sdiv_nonneg flip: s_def)
  next
    case 2
    then have "ticks * 10 ^ 6 = ticks * 10 ^ (6 - s) * 10 ^ s" by (simp add: mult.assoc flip: power_add)
    then have "ticks * 10 ^ 6 div 10 ^ s = ticks * 10 ^ (6 - s)"
      by (metis nonzero_mult_div_cancel_right power_not_zero zero_neq_numeral)
    moreover have "ticks * 10 ^ (6 - s) < 2 ^ 63"
    proof (cases "s \<le> 4")
      case True
      have "ticks * 10 ^ (6 - s) \<le> ticks * 10 ^ 6" using assms(1) by (intro mult_left_mono power_increasing) auto
      with s(3) True show ?thesis by simp
    next
      case False
      have "ticks * 10 ^ (6 - s) \<le> ticks * 10 ^ 1"
        using assms(1) False by (intro mult_left_mono power_increasing) auto
      with assms(2) show ?thesis by simp
    qed
    moreover have "0 \<le> ticks * 10 ^ (6 - s)" using assms(1) by simp
    ultimately have "i64 (ticks * 10 ^ (6 - s)) = Ret (ticks * 10 ^ 6 div 10 ^ s)" by (metis i64_nonneg)
    then show ?thesis using 2 s assms(1) by (simp add: TimeTicksToMicroseconds_def times10_eq flip: s_def)
  qed
qed

lemma rd_days_bound: "rd_days data i = Ret days \<Longrightarrow> 0 \<le> days \<and> days < 2 ^ 24"
proof -
  assume r: "rd_days data i = Ret days"
  then have i: "i + 3 \<le> length data" by (auto simp: rd_days_def rd_def split: if_splits)
  from le_nat_bound [of "take 3 (drop i data)"] i have "le_nat (take 3 (drop i data)) < 2 ^ 24" by simp
  with r i show ?thesis by (simp add: rd_days_Ret)
qed

lemma accum_le_bound: "accum_le data len 0 0 = Ret v \<Longrightarrow> 0 \<le> v \<and> v < 2 ^ (8 * len)"
proof -
  assume r: "accum_le data len 0 0 = Ret v"
  then have i: "len \<le> length data" by (cases "length data < len") (auto simp: accum_le_short)
  from le_nat_bound [of "take len data"] i have "int (le_nat (take len data)) < 2 ^ (8 * len)"
    by (metis length_take min.absorb2 of_nat_less_iff of_nat_numeral of_nat_power)
  with r i show ?thesis by (simp add: accum_le_Ret)
qed

text \<open>The time field of a value: its ticks, and the exact microseconds they stand for.\<close>

definition micros_of_ticks :: "nat \<Rightarrow> int \<Rightarrow> int" where
  "micros_of_ticks s ticks = ticks * 10 ^ 6 div 10 ^ s"

lemma GetTimeByteLength_bounds: "3 \<le> GetTimeByteLength s" "GetTimeByteLength s \<le> 5" "s \<le> 4 \<Longrightarrow> GetTimeByteLength s \<le> 4"
  by (simp_all add: GetTimeByteLength_def)

lemma time_ticks_Ret:
  assumes "s \<le> 7" "accum_le data (GetTimeByteLength s) 0 0 = Ret ticks"
  shows "TimeTicksToMicroseconds ticks s = Ret (micros_of_ticks (unat s) ticks)" "0 \<le> ticks" "ticks < 2 ^ 40"
proof -
  from accum_le_bound [OF assms(2)] have b: "0 \<le> ticks" "ticks < 2 ^ (8 * GetTimeByteLength s)" by simp_all
  have "(2::int) ^ (8 * GetTimeByteLength s) \<le> 2 ^ 40" using GetTimeByteLength_bounds(2) [of s] by (intro power_increasing) auto
  then show t: "ticks < 2 ^ 40" using b by linarith
  have "ticks < 2 ^ 32" if "s \<le> 4"
  proof -
    have "(2::int) ^ (8 * GetTimeByteLength s) \<le> 2 ^ 32" using GetTimeByteLength_bounds(3) [OF that] by (intro power_increasing) auto
    then show ?thesis using b by linarith
  qed
  with b t assms(1) show "TimeTicksToMicroseconds ticks s = Ret (micros_of_ticks (unat s) ticks)"
    by (simp add: TimeTicks_Ret micros_of_ticks_def)
  show "0 \<le> ticks" by (rule b)
qed

lemma micros_of_ticks_bounds: "0 \<le> ticks \<Longrightarrow> ticks < 2 ^ 40 \<Longrightarrow> 0 \<le> micros_of_ticks s ticks \<and> micros_of_ticks s ticks < 2 ^ 60"
proof -
  assume t: "0 \<le> ticks" "ticks < 2 ^ 40"
  have "ticks * 10 ^ 6 div 10 ^ s \<le> ticks * 10 ^ 6" using t zdiv_mono2 [of "ticks * 10 ^ 6" 1 "10 ^ s"] by simp
  with t show ?thesis by (simp add: micros_of_ticks_def pos_imp_zdiv_nonneg_iff)
qed

text \<open>A day number of three bytes and a time of day stay within 64 bits.\<close>

lemma day_time_Ret:
  assumes "0 \<le> days" "days < 2 ^ 24" "0 \<le> micros" "micros < 2 ^ 60"
  shows "bind_res (i64 ((days - DAYS_FROM_0001_TO_EPOCH) * MICROS_PER_DAY)) (\<lambda>day. i64 (day + micros)) =
    Ret ((days - DAYS_FROM_0001_TO_EPOCH) * MICROS_PER_DAY + micros)"
  using assms by (simp add: DAYS_FROM_0001_TO_EPOCH_def MICROS_PER_DAY_def i64_def)

text \<open>The value a DATETIME2 or DATETIMEOFFSET payload stands for, in microseconds since 1970.\<close>

definition datetime2_value :: "nat \<Rightarrow> byte \<Rightarrow> byte list \<Rightarrow> int" where
  "datetime2_value s s' data =
     (let n = GetTimeByteLength s'
      in (int (le_nat (take 3 (drop n data))) - DAYS_FROM_0001_TO_EPOCH) * MICROS_PER_DAY +
         micros_of_ticks s (int (le_nat (take n data))))"

lemma le_nat3_bound: "int (le_nat (take 3 bs)) < 2 ^ 24"
proof -
  have "(2::nat) ^ (8 * length (take 3 bs)) \<le> 2 ^ 24" by (intro power_increasing) auto
  with le_nat_bound [of "take 3 bs"] show ?thesis by simp
qed

lemma ConvertTime_Ret:
  "s \<le> 7 \<Longrightarrow> GetTimeByteLength s \<le> length data \<Longrightarrow>
     ConvertTime data s = Ret (micros_of_ticks (unat s) (int (le_nat (take (GetTimeByteLength s) data))))"
  by (simp add: ConvertTime_def accum_le_Ret time_ticks_Ret(1) [OF _ accum_le_Ret])

lemma ConvertDatetime2_Ret:
  assumes "s \<le> 7" "GetTimeByteLength s + 3 \<le> length data"
  shows "ConvertDatetime2 data s = Ret (datetime2_value (unat s) s data)"
    and "ConvertDatetimeOffset data s = Ret (datetime2_value (unat s) s data)"
proof -
  let ?n = "GetTimeByteLength s"
  have t: "accum_le data ?n 0 0 = Ret (int (le_nat (take ?n data)))" using assms by (intro accum_le_Ret) simp
  note ticks = time_ticks_Ret [OF assms(1) t]
  have "rd_days data ?n = Ret (int (le_nat (take 3 (drop ?n data))))" using assms by (intro rd_days_Ret) simp
  with t ticks(1) day_time_Ret [OF _ le_nat3_bound] micros_of_ticks_bounds [OF ticks(2,3)]
  show "ConvertDatetime2 data s = Ret (datetime2_value (unat s) s data)"
    "ConvertDatetimeOffset data s = Ret (datetime2_value (unat s) s data)"
    by (simp_all add: ConvertDatetime2_def ConvertDatetimeOffset_def datetime2_value_def Let_def)
qed

lemma ConvertDate_Ret:
  "3 \<le> length data \<Longrightarrow> ConvertDate data = Ret (int (le_nat (take 3 data)) - DAYS_FROM_0001_TO_EPOCH)"
  by (simp add: ConvertDate_def rd_days_Ret)

lemma ConvertSmallDatetime_Ret: "4 \<le> length data \<Longrightarrow> \<exists>v. ConvertSmallDatetime data = Ret v"
proof -
  assume "4 \<le> length data"
  moreover have "in_i64 ((uint d - DAYS_FROM_1900_TO_EPOCH) * MICROS_PER_DAY) \<and>
      in_i64 ((uint d - DAYS_FROM_1900_TO_EPOCH) * MICROS_PER_DAY + uint m * 60 * MICROS_PER_SECOND)" for d m :: u16
  proof -
    define x y where "x = uint d" and "y = uint m"
    have "0 \<le> x" "x < 65536" "0 \<le> y" "y < 65536" using uint_lt2p [of d] uint_lt2p [of m] by (simp_all add: x_def y_def)
    then show ?thesis
      unfolding x_def [symmetric] y_def [symmetric] DAYS_FROM_1900_TO_EPOCH_def MICROS_PER_DAY_def MICROS_PER_SECOND_def
      by simp
  qed
  ultimately show ?thesis
    by (simp add: ConvertSmallDatetime_def Let_def)
qed

lemma ConvertDatetime_Ret: "8 \<le> length data \<Longrightarrow> \<exists>v. ConvertDatetime data = Ret v"
  by (simp add: ConvertDatetime_def Let_def)

subsection \<open>Decimals\<close>

lemma uint_load64: "length bs \<le> 8 \<Longrightarrow> uint (load64 bs) = int (le_nat bs)"
proof -
  assume a: "length bs \<le> 8"
  have "(2::nat) ^ (8 * length bs) \<le> 2 ^ 64" using a by (intro power_increasing) auto
  with le_nat_bound [of bs] have "int (le_nat bs) < 2 ^ 64" by simp
  then show ?thesis by (simp add: load64_def unsigned_of_nat take_bit_nat_eq_self)
qed

lemma le_nat_split8: "le_nat bs = le_nat (take 8 bs) + 2 ^ 64 * le_nat (drop 8 bs)"
proof (cases "8 \<le> length bs")
  case True
  then show ?thesis using le_nat_append [of "take 8 bs" "drop 8 bs"] by simp
next
  case False
  then show ?thesis by simp
qed

lemma load_pair: "length bs \<le> 16 \<Longrightarrow> \<lparr> hg_lower = load64 (take 8 bs), hg_upper = load64 (drop 8 bs) \<rparr> = huge (int (le_nat bs))"
proof -
  assume a: "length bs \<le> 16"
  let ?l = "int (le_nat (take 8 bs))" and ?u = "int (le_nat (drop 8 bs))"
  have u: "uint (load64 (take 8 bs)) = ?l" "uint (load64 (drop 8 bs)) = ?u" using a by (simp_all add: uint_load64)
  have l: "0 \<le> ?l" "?l < 2 ^ 64" using uint_lt2p [of "load64 (take 8 bs)"] unfolding u by simp_all
  have "int (le_nat bs) = ?l + 2 ^ 64 * ?u" by (subst le_nat_split8 [of bs]) simp
  then have "int (le_nat bs) mod 2 ^ 64 = ?l" "int (le_nat bs) div 2 ^ 64 = ?u" using l by simp_all
  then have "uint (word_of_int (int (le_nat bs)) :: u64) = ?l" "uint (word_of_int (int (le_nat bs) div 2 ^ 64) :: u64) = ?u"
    using uint_lt2p [of "load64 (drop 8 bs)"] unfolding u by (subst uint_word_of_int, simp)+
  then have "load64 (take 8 bs) = word_of_int (int (le_nat bs))" "load64 (drop 8 bs) = word_of_int (int (le_nat bs) div 2 ^ 64)"
    unfolding u [symmetric] by (simp_all only: word_uint_eq_iff)
  then show ?thesis by (simp add: huge_def)
qed

text \<open>The magnitude behind the sign byte.\<close>

definition magnitude :: "byte list \<Rightarrow> nat \<Rightarrow> int" where
  "magnitude data len = int (le_nat (take (len - 1) (drop 1 data)))"

definition decimal_value :: "byte list \<Rightarrow> nat \<Rightarrow> int" where
  "decimal_value data len = (if data ! 0 = 0 then - magnitude data len else magnitude data len)"

context hugeint_laws begin

lemma portable_loop_Ret:
  "n < length data \<Longrightarrow> 0 \<le> m \<Longrightarrow> m * 256 ^ n + int (le_nat (take n (drop 1 data))) < 2 ^ 127 \<Longrightarrow>
     portable_loop H data n (huge m) = Ret (huge (m * 256 ^ n + int (le_nat (take n (drop 1 data)))))"
proof (induction n arbitrary: m)
  case (Suc n)
  let ?b = "data ! Suc n" and ?t = "int (le_nat (take n (drop 1 data)))"
  from Suc.prems(1) have s: "take (Suc n) (drop 1 data) = take n (drop 1 data) @ [?b]" by (simp add: take_Suc_conv_app_nth)
  have t: "int (le_nat (take (Suc n) (drop 1 data))) = ?t + 256 ^ n * uint ?b"
  proof -
    have "length (take n (drop 1 data)) = n" using Suc.prems(1) by simp
    then have "le_nat (take (Suc n) (drop 1 data)) = le_nat (take n (drop 1 data)) + 2 ^ (8 * n) * le_nat [?b]"
      by (simp only: s le_nat_append)
    then show ?thesis by (simp add: power_mult del: One_nat_def)
  qed
  define b where "b = uint ?b"
  then have b: "0 \<le> b" "b < 256" using uint_lt2p [of ?b] by simp_all
  define m' where "m' = m * 256 + b"
  have eq: "m * 256 ^ Suc n + int (le_nat (take (Suc n) (drop 1 data))) = m' * 256 ^ n + ?t"
    unfolding t m'_def b_def by (simp add: algebra_simps)
  have "m' * 1 \<le> m' * 256 ^ n" using Suc.prems(2) b by (intro mult_left_mono) (simp_all add: m'_def)
  with Suc.prems(3) have small: "m' < 2 ^ 127" unfolding eq by linarith
  have "in_i128 m" "in_i128 (m * 256)" "in_i128 b" "in_i128 m'"
    using small Suc.prems(2) b unfolding m'_def by auto
  then have "hg_add H (hg_mul H (huge m) (huge 256)) (huge (uint ?b)) = huge m'"
    using mul [of "huge m" "huge 256"] add [of "huge (m * 256)" "huge b"] by (simp add: m'_def flip: b_def)
  moreover have "portable_loop H data n (huge m') = Ret (huge (m' * 256 ^ n + ?t))"
    using Suc.IH [of m'] Suc.prems b unfolding eq by (simp add: m'_def)
  ultimately show ?case using Suc.prems(1) unfolding eq by simp
qed simp

lemma signed_Ret: "0 \<le> m \<Longrightarrow> m < 2 ^ 127 \<Longrightarrow> hg_negate H (huge m) = Ret (huge (- m))"
  using negate_nonneg [of "huge m"] by simp

lemma ConvertDecimalPortable_Ret:
  assumes "0 < len" "len \<le> length data" "magnitude data len < 2 ^ 127"
  shows "ConvertDecimalPortable H data len = Ret (huge (decimal_value data len))"
proof -
  have "rd data 0 = Ret (data ! 0)" using assms by (intro rd_in) linarith
  moreover have "portable_loop H data (len - 1) (huge 0) = Ret (huge (magnitude data len))"
    using assms portable_loop_Ret [of "len - 1" data 0] by (simp add: magnitude_def)
  moreover have "hg_negate H (huge (magnitude data len)) = Ret (huge (- magnitude data len))"
    using assms by (intro signed_Ret) (simp_all add: magnitude_def)
  ultimately show ?thesis by (simp add: ConvertDecimalPortable_def decimal_value_def)
qed

lemma ConvertDecimal_Ret:
  assumes "0 < len" "len \<le> length data" "magnitude data len < 2 ^ 127"
  shows "ConvertDecimal H data len = Ret (huge (decimal_value data len))"
proof (cases "len - 1 \<le> 16")
  case True
  let ?bs = "take (len - 1) (drop 1 data)"
  have bs: "length ?bs = len - 1" using assms by simp
  have parts: "take (if len - 1 < 8 then len - 1 else 8) (drop 1 data) = take 8 ?bs"
    "take (len - 1 - 8) (drop 9 data) = drop 8 ?bs" by (simp_all add: min_def drop_take)
  have low: "(if (if len - 1 < 8 then len - 1 else 8) > 0 then rd_block data 1 (if len - 1 < 8 then len - 1 else 8) else Ret [])
      = Ret (take 8 ?bs)"
    using assms unfolding parts(1) [symmetric] by (auto simp: rd_block_def)
  have high: "(if len - 1 > 8 then rd_block data 9 (len - 1 - 8) else Ret []) = Ret (drop 8 ?bs)"
    using assms unfolding parts(2) [symmetric] by (auto simp: rd_block_def)
  have "\<lparr> hg_lower = load64 (take 8 ?bs), hg_upper = load64 (drop 8 ?bs) \<rparr> = huge (magnitude data len)"
    using True bs by (simp only: load_pair magnitude_def)
  moreover have "hg_negate H (huge (magnitude data len)) = Ret (huge (- magnitude data len))"
    using assms by (intro signed_Ret) (simp_all add: magnitude_def)
  moreover have "rd data 0 = Ret (data ! 0)" using assms by (intro rd_in) linarith
  ultimately show ?thesis using True assms(1) low high
    by (simp add: ConvertDecimal_def Let_def decimal_value_def del: One_nat_def cong: if_cong)
next
  case False
  then show ?thesis using ConvertDecimalPortable_Ret [OF assms] assms by (simp add: ConvertDecimal_def)
qed

end

subsection \<open>GUIDs\<close>

lemma unat_shift_ucast:
  "unat (push_bit n (ucast (w :: 'b::len word)) :: u64) = push_bit n (unat w)" if "n + LENGTH('b) \<le> 64"
proof -
  have "unat w < 2 ^ LENGTH('b)" by (rule unsigned_less)
  then have "2 ^ n * unat w < 2 ^ n * 2 ^ LENGTH('b)" by simp
  also have "\<dots> \<le> (2::nat) ^ 64" unfolding power_add [symmetric] using that by (intro power_increasing) auto
  finally have p: "2 ^ n * unat w < 2 ^ 64" .
  moreover have "unat w \<le> 2 ^ n * unat w" by simp
  ultimately have "unat w < 2 ^ 64" by linarith
  with p show ?thesis unfolding unsigned_push_bit_eq unsigned_ucast_eq
    by (simp add: take_bit_nat_eq_self push_bit_eq_mult mult.commute)
qed

lemma guid_upper:
  "push_bit 32 (ucast (u32le a b c d)) OR push_bit 16 (ucast (u16le e f)) OR (ucast (u16le g h) :: u64)
     = u64le g h e f a b c d"
proof -
  have "unat (ucast (u16le g h) OR (push_bit 16 (ucast (u16le e f)) OR push_bit 32 (ucast (u32le a b c d))) :: u64)
      = unat (u64le g h e f a b c d)"
  proof -
    have "unat (ucast (u16le g h) :: u64) = unat (u16le g h)" using unat_shift_ucast [of 0 "u16le g h"] by simp
    moreover have "unat (push_bit 16 (ucast (u16le e f)) :: u64) = push_bit 16 (unat (u16le e f))"
      "unat (push_bit 32 (ucast (u32le a b c d)) :: u64) = push_bit 32 (unat (u32le a b c d))"
      by (simp_all add: unat_shift_ucast)
    moreover have "unat (u16le g h) < 2 ^ 16" "unat (u16le g h) + 2 ^ 16 * unat (u16le e f) < 2 ^ 32"
      using u16_less [of "u16le g h"] u16_less [of "u16le e f"] by simp_all
    ultimately show ?thesis by (simp add: unsigned_or_eq nat_or_shift nat_or_shift_left le_simps)
  qed
  then show ?thesis by (simp add: or.commute or.left_commute or.assoc word_unat_eq_iff)
qed

definition be64 :: "byte list \<Rightarrow> u64" where
  "be64 bs = load64 (rev (take 8 bs))"

text \<open>The reference: the shuffled bytes read as a big-endian number, the top bit flipped.\<close>

definition guid_of_bytes :: "byte list \<Rightarrow> hugeint_t" where
  "guid_of_bytes bs = \<lparr> hg_lower = be64 (drop 8 bs), hg_upper = be64 bs XOR UUID_FLIP \<rparr>"

lemma u64le_load: "u64le b0 b1 b2 b3 b4 b5 b6 b7 = load64 [b0, b1, b2, b3, b4, b5, b6, b7]"
proof -
  have "le_nat [b0, b1, b2, b3, b4, b5, b6, b7] < 2 ^ 64" using le_nat_bound [of "[b0, b1, b2, b3, b4, b5, b6, b7]"] by simp
  then have "unat (load64 [b0, b1, b2, b3, b4, b5, b6, b7]) = le_nat [b0, b1, b2, b3, b4, b5, b6, b7]"
    unfolding load64_def unsigned_of_nat by (simp add: take_bit_nat_eq_self del: le_nat.simps)
  then show ?thesis by (simp only: word_unat_eq_iff unat_u64le)
qed

lemma ConvertGuid_Ret:
  assumes "16 \<le> length data"
  shows "ConvertGuid data = bind_res (ReorderGuidBytes data) (\<lambda>bs. Ret (guid_of_bytes bs))"
    and "\<exists>bs. ReorderGuidBytes data = Ret bs \<and> length bs = 16"
proof -
  obtain a b c d e f g h i j k l m n p q rest where
    data: "data = a # b # c # d # e # f # g # h # i # j # k # l # m # n # p # q # rest"
    using assms by (auto simp: Suc_le_length_iff numeral_eq_Suc)
  have lower: "push_bit 56 (ucast i) OR push_bit 48 (ucast j) OR push_bit 40 (ucast k) OR push_bit 32 (ucast l) OR
      push_bit 24 (ucast m) OR push_bit 16 (ucast n) OR push_bit 8 (ucast p) OR (ucast q :: u64) = u64le q p n m l k j i"
    by (simp only: u64le_def ac_simps)
  show "ConvertGuid data = bind_res (ReorderGuidBytes data) (\<lambda>bs. Ret (guid_of_bytes bs))"
    by (simp add: ConvertGuid_def ReorderGuidBytes_def data guid_upper lower u64le_load Let_def guid_of_bytes_def be64_def)
  show "\<exists>bs. ReorderGuidBytes data = Ret bs \<and> length bs = 16"
    by (simp add: ReorderGuidBytes_def data)
qed

end
