(* ===== verification/Bcp_Encoding.thy ===== *)
theory Bcp_Encoding
  imports Value_Encoding Row_Reader
begin

text \<open>
  The encoders of single values for bulk load, \<open>src/tds/encoding/bcp_row_encoder.cpp\<close>: each appends the length
  prefix and the bytes of a value to the buffer. A floating-point value is its bit pattern, a
  \<open>string_t\<close> its bytes. Every encoder is paired with the row reader's routine for the column type it declares and
  the decoder of \<open>Value_Encoding\<close>.
\<close>

subsection \<open>Integers, bits, floats\<close>

definition EncodeInt8 :: "byte list \<Rightarrow> int \<Rightarrow> byte list" where
  "EncodeInt8 buffer v = buffer @ [1] @ le_bytes 1 v"

definition EncodeInt16 :: "byte list \<Rightarrow> int \<Rightarrow> byte list" where
  "EncodeInt16 buffer v = buffer @ [2] @ le_bytes 2 v"

definition EncodeInt32 :: "byte list \<Rightarrow> int \<Rightarrow> byte list" where
  "EncodeInt32 buffer v = buffer @ [4] @ le_bytes 4 v"

definition EncodeInt64 :: "byte list \<Rightarrow> int \<Rightarrow> byte list" where
  "EncodeInt64 buffer v = buffer @ [8] @ le_bytes 8 v"

definition EncodeUInt8 :: "byte list \<Rightarrow> byte \<Rightarrow> byte list" where
  "EncodeUInt8 buffer v = buffer @ [1, v]"

definition EncodeBit :: "byte list \<Rightarrow> bool \<Rightarrow> byte list" where
  "EncodeBit buffer v = buffer @ [1, if v then 1 else 0]"

definition EncodeFloat :: "byte list \<Rightarrow> u32 \<Rightarrow> byte list" where
  "EncodeFloat buffer bits = buffer @ [4] @ le_bytes 4 (uint bits)"

definition EncodeDouble :: "byte list \<Rightarrow> u64 \<Rightarrow> byte list" where
  "EncodeDouble buffer bits = buffer @ [8] @ le_bytes 8 (uint bits)"

subsection \<open>Decimals\<close>

definition GetDecimalByteSize :: "byte \<Rightarrow> nat" where
  "GetDecimalByteSize p = (if p \<le> 9 then 5 else if p \<le> 19 then 9 else if p \<le> 28 then 13 else 17)"

definition huge_byte :: "hugeint_t \<Rightarrow> nat \<Rightarrow> byte" where
  "huge_byte h i = (if i < 8 then byte_of (uint (hg_lower h)) i else byte_of (uint (hg_upper h)) (i - 8))"

definition EncodeDecimal :: "hugeint_ops \<Rightarrow> byte list \<Rightarrow> hugeint_t \<Rightarrow> byte \<Rightarrow> byte list res" where
  "EncodeDecimal H buffer v p =
     (let byte_size = GetDecimalByteSize p; is_negative = sint (hg_upper v) < 0
      in bind_res (if is_negative then hg_negate H v else Ret v) (\<lambda>abs_value.
         Ret (buffer @ [of_nat byte_size, if is_negative then 0 else 1] @ map (huge_byte abs_value) [0..<byte_size - 1])))"

subsection \<open>Binary data\<close>

definition EncodeBinary :: "byte list \<Rightarrow> byte list \<Rightarrow> byte list" where
  "EncodeBinary buffer v =
     (let len = (of_nat (length v) :: u16) in buffer @ le_bytes 2 (uint len) @ take (unat len) v)"

definition UNKNOWN_PLP_LEN :: u64 where
  "UNKNOWN_PLP_LEN = 0xFFFFFFFFFFFFFFFE"

definition EncodeBinaryPLP :: "byte list \<Rightarrow> byte list \<Rightarrow> byte list" where
  "EncodeBinaryPLP buffer v =
     (let chunk_len = (of_nat (length v) :: u32)
      in buffer @ le_bytes 8 (uint UNKNOWN_PLP_LEN) @
         (if chunk_len > 0 then le_bytes 4 (uint chunk_len) @ take (unat chunk_len) v else []) @ [0, 0, 0, 0])"

subsection \<open>GUIDs\<close>

definition EncodeHugeIntToWire :: "hugeint_t \<Rightarrow> byte list" where
  "EncodeHugeIntToWire uuid =
     (let upper = hg_upper uuid XOR UUID_FLIP;
          be_bytes = map (\<lambda>i. byte_of (uint upper) (7 - i)) [0..<8] @ map (\<lambda>i. byte_of (uint (hg_lower uuid)) (7 - i)) [0..<8]
      in [be_bytes ! 3, be_bytes ! 2, be_bytes ! 1, be_bytes ! 0, be_bytes ! 5, be_bytes ! 4, be_bytes ! 7, be_bytes ! 6] @
         drop 8 be_bytes)"

definition EncodeGUID :: "byte list \<Rightarrow> hugeint_t \<Rightarrow> byte list" where
  "EncodeGUID buffer uuid =
     (let upper = hg_upper uuid XOR UUID_FLIP; lower = hg_lower uuid;
          be_bytes = map (\<lambda>i. byte_of (uint upper) (7 - i)) [0..<8] @ map (\<lambda>i. byte_of (uint lower) (7 - i)) [0..<8]
      in buffer @ [16] @ [be_bytes ! 3, be_bytes ! 2, be_bytes ! 1, be_bytes ! 0] @ [be_bytes ! 5, be_bytes ! 4] @
         [be_bytes ! 7, be_bytes ! 6] @ map (\<lambda>i. be_bytes ! i) [8..<16])"

subsection \<open>Dates and times\<close>

definition GetTimeByteSize :: "byte \<Rightarrow> nat" where
  "GetTimeByteSize sc = (if sc \<le> 2 then 3 else if sc \<le> 4 then 4 else 5)"

definition EncodeDate :: "byte list \<Rightarrow> int \<Rightarrow> byte list res" where
  "EncodeDate buffer v = bind_res (i32 (v + DAYS_FROM_0001_TO_EPOCH)) (\<lambda>days. Ret (buffer @ [3] @ le_bytes 3 days))"

definition SECS_PER_DAY :: int where
  "SECS_PER_DAY = 86400"

definition EncodeTime :: "byte list \<Rightarrow> int \<Rightarrow> byte \<Rightarrow> byte list res" where
  "EncodeTime buffer v sc =
     bind_res
       (if sc \<le> 6 then
          let divisor = times10 (6 - unat sc) 1
          in bind_res (i64 (v + divisor sdiv 2)) (\<lambda>rounded.
             let scaled_value = rounded sdiv divisor; per_day = times10 (unat sc) SECS_PER_DAY
             in Ret (if scaled_value \<ge> per_day then per_day - 1 else scaled_value))
        else i64 (v * 10))
       (\<lambda>scaled_value. let byte_size = GetTimeByteSize sc
          in Ret (buffer @ [of_nat byte_size] @ le_bytes byte_size scaled_value))"

definition EncodeDatetime2Raw :: "byte list \<Rightarrow> u64 \<Rightarrow> u32 \<Rightarrow> byte \<Rightarrow> byte list" where
  "EncodeDatetime2Raw buffer time_value date_value sc =
     (let time_size = GetTimeByteSize sc
      in buffer @ [of_nat (time_size + 3)] @ le_bytes time_size (uint time_value) @ le_bytes 3 (uint date_value))"

definition EncodeDatetimeOffsetRaw :: "byte list \<Rightarrow> u64 \<Rightarrow> u32 \<Rightarrow> int \<Rightarrow> byte \<Rightarrow> byte list" where
  "EncodeDatetimeOffsetRaw buffer time_value date_value offset_minutes sc =
     (let time_size = GetTimeByteSize sc
      in buffer @ [of_nat (time_size + 3 + 2)] @ le_bytes time_size (uint time_value) @ le_bytes 3 (uint date_value) @
         le_bytes 2 offset_minutes)"

definition TimestampToDatetime2Components :: "int \<Rightarrow> byte \<Rightarrow> (u64 \<times> u32) res" where
  "TimestampToDatetime2Components total_micros sc =
     bind_res
       (if total_micros \<ge> 0 then Ret (total_micros sdiv MICROS_PER_DAY, total_micros smod MICROS_PER_DAY)
        else bind_res (i64 (total_micros - MICROS_PER_DAY)) (\<lambda>a.
             let days = (a + 1) sdiv MICROS_PER_DAY in Ret (days, total_micros - days * MICROS_PER_DAY)))
       (\<lambda>(days, time_micros).
          let date_value = (word_of_int (days + DAYS_FROM_0001_TO_EPOCH) :: u32)
          in if sc \<le> 6 then
               let divisor = times10 (6 - unat sc) 1 in Ret (word_of_int (time_micros sdiv divisor), date_value)
             else Ret (word_of_int (time_micros * 10), date_value))"

definition EncodeDatetime2 :: "byte list \<Rightarrow> int \<Rightarrow> byte \<Rightarrow> byte list res" where
  "EncodeDatetime2 buffer ts sc =
     bind_res (TimestampToDatetime2Components ts sc) (\<lambda>(time_value, date_value).
       Ret (EncodeDatetime2Raw buffer time_value date_value sc))"

definition EncodeDatetimeOffset :: "byte list \<Rightarrow> int \<Rightarrow> int \<Rightarrow> byte \<Rightarrow> byte list res" where
  "EncodeDatetimeOffset buffer ts offset_minutes sc =
     bind_res (TimestampToDatetime2Components ts sc) (\<lambda>(time_value, date_value).
       Ret (EncodeDatetimeOffsetRaw buffer time_value date_value offset_minutes sc))"

subsection \<open>NULL\<close>

definition EncodeNullFixed :: "byte list \<Rightarrow> byte list" where "EncodeNullFixed buffer = buffer @ [0]"
definition EncodeNullVariable :: "byte list \<Rightarrow> byte list" where "EncodeNullVariable buffer = buffer @ [0xFF, 0xFF]"
definition EncodeNullGUID :: "byte list \<Rightarrow> byte list" where "EncodeNullGUID buffer = buffer @ [0]"
definition EncodeNullDateTime :: "byte list \<Rightarrow> byte list" where "EncodeNullDateTime buffer = buffer @ [0]"
definition EncodeNullPLP :: "byte list \<Rightarrow> byte list" where "EncodeNullPLP buffer = buffer @ replicate 8 0xFF"

datatype NullWireKind = NullPlp | NullVariableUShort | NullFixed

fun EncodeNullOfKind :: "byte list \<Rightarrow> NullWireKind \<Rightarrow> byte list" where
  "EncodeNullOfKind buffer NullPlp = EncodeNullPLP buffer"
| "EncodeNullOfKind buffer NullVariableUShort = EncodeNullVariable buffer"
| "EncodeNullOfKind buffer NullFixed = EncodeNullFixed buffer"

definition NullMarkerSize :: "NullWireKind \<Rightarrow> nat" where
  "NullMarkerSize kind = (if kind = NullPlp then 8 else if kind = NullVariableUShort then 2 else 1)"

fun WriteNullMarker :: "byte list \<Rightarrow> nat \<Rightarrow> NullWireKind \<Rightarrow> byte list res" where
  "WriteNullMarker buf pos NullPlp = wr_block buf pos (replicate 8 0xFF)"
| "WriteNullMarker buf pos NullVariableUShort = wr_block buf pos [0xFF, 0xFF]"
| "WriteNullMarker buf pos NullFixed = wr_block buf pos [0]"

subsection \<open>What the row reader sees\<close>

text \<open>A value behind its one-byte length.\<close>

lemma ReadValue_counted:
  assumes "type_id c \<in> prefix1_types" "p \<noteq> []" "length p < 256" "type_id c = TDS_TYPE_UNIQUEIDENTIFIER \<Longrightarrow> length p = 16"
  shows "ReadValue c (of_nat (length p) # p @ rest) = Ret (1 + length p, p, False)"
proof -
  have plp: "\<not> IsPLPType c" using assms(1) IsPLP_types [of c] by (auto simp: type_sets)
  then have "wf_value c (WBytes p)" using assms by (simp add: wf_value_def)
  from ReadValue_enc [OF this, of rest] show ?thesis using assms(1) by (simp add: enc_value_def)
qed

lemma huge_bytes: "0 \<le> x \<Longrightarrow> in_i128 x \<Longrightarrow> n \<le> 16 \<Longrightarrow> map (huge_byte (huge x)) [0..<n] = le_bytes n x"
proof -
  assume x: "0 \<le> x" "in_i128 x" and n: "n \<le> 16"
  have "huge_byte (huge x) i = byte_of x i" if i: "i < 16" for i
  proof (rule word_uint_eqI, cases "i < 8")
    case True
    have "take_bit 8 (drop_bit (8 * i) (take_bit 64 x)) = take_bit 8 (drop_bit (8 * i) x)"
      using True by (auto simp: bit_eq_iff bit_simps)
    then show "uint (huge_byte (huge x) i) = uint (byte_of x i)"
      using True by (simp add: huge_byte_def huge_def uint_byte_of uint_word_of_int take_bit_eq_mod drop_bit_eq_div)
  next
    case False
    from x have "uint (word_of_int (x div 2 ^ 64) :: u64) = x div 2 ^ 64" by (subst uint_word_of_int) simp
    moreover have "(2::int) ^ (8 * i) = 2 ^ 64 * 2 ^ (8 * (i - 8))"
      using False by (subst power_add [symmetric]) simp
    then have "x div 2 ^ 64 div 2 ^ (8 * (i - 8)) = x div 2 ^ (8 * i)"
      by (simp add: zdiv_zmult2_eq)
    ultimately show "uint (huge_byte (huge x) i) = uint (byte_of x i)"
      using False by (simp add: huge_byte_def huge_def uint_byte_of)
  qed
  with n show ?thesis by (simp add: le_bytes_def)
qed

subsection \<open>GUIDs survive bulk load\<close>

lemma EncodeGUID_wire: "EncodeGUID buffer uuid = buffer @ 16 # EncodeHugeIntToWire uuid"
  by (simp add: EncodeGUID_def EncodeHugeIntToWire_def Let_def upt_conv_Cons numeral_eq_Suc)

lemma load64_bytes: "load64 [byte_of (uint w) 0, byte_of (uint w) (Suc 0), byte_of (uint w) 2, byte_of (uint w) 3,
    byte_of (uint w) 4, byte_of (uint w) 5, byte_of (uint w) 6, byte_of (uint w) 7] = w"
proof -
  have "le_bytes 8 (uint w) = [byte_of (uint w) 0, byte_of (uint w) 1, byte_of (uint w) 2, byte_of (uint w) 3,
    byte_of (uint w) 4, byte_of (uint w) 5, byte_of (uint w) 6, byte_of (uint w) 7]"
    by (simp add: le_bytes_def upt_conv_Cons numeral_eq_Suc)
  moreover have "load64 (le_bytes 8 (uint w)) = w"
    using uint_load64 [of "le_bytes 8 (uint w)"] le_nat_le_bytes [of 8 "uint w"] uint_lt2p [of w]
    by (intro word_uint_eqI) simp
  ultimately show ?thesis by simp
qed

lemma xor_flip: "(w XOR UUID_FLIP) XOR UUID_FLIP = (w :: u64)"
  by (simp add: xor.assoc)

lemma wire_shape:
  obtains b where "EncodeHugeIntToWire uuid = map b [4, 5, 6, 7, 2, 3, 0, 1] @ map (\<lambda>i. byte_of (uint (hg_lower uuid)) i) [7, 6, 5, 4, 3, 2, 1, 0]"
    and "b = byte_of (uint (hg_upper uuid XOR UUID_FLIP))"
  by (simp add: EncodeHugeIntToWire_def Let_def upt_conv_Cons numeral_eq_Suc)

lemma ConvertGuid_wire: "ConvertGuid (EncodeHugeIntToWire uuid) = Ret uuid"
proof -
  obtain b where w: "EncodeHugeIntToWire uuid = map b [4, 5, 6, 7, 2, 3, 0, 1] @ map (\<lambda>i. byte_of (uint (hg_lower uuid)) i) [7, 6, 5, 4, 3, 2, 1, 0]"
    and b: "b = byte_of (uint (hg_upper uuid XOR UUID_FLIP))" by (rule wire_shape)
  have "ReorderGuidBytes (EncodeHugeIntToWire uuid) =
      Ret (map b [7, 6, 5, 4, 3, 2, 1, 0] @ map (\<lambda>i. byte_of (uint (hg_lower uuid)) i) [7, 6, 5, 4, 3, 2, 1, 0])"
    unfolding w by (simp add: ReorderGuidBytes_def)
  moreover have "guid_of_bytes (map b [7, 6, 5, 4, 3, 2, 1, 0] @ map (\<lambda>i. byte_of (uint (hg_lower uuid)) i) [7, 6, 5, 4, 3, 2, 1, 0]) = uuid"
    by (simp add: guid_of_bytes_def be64_def b load64_bytes xor_flip)
  moreover have "length (EncodeHugeIntToWire uuid) = 16" unfolding w by simp
  ultimately show ?thesis by (simp add: ConvertGuid_Ret(1))
qed

lemma length_wire [simp]: "length (EncodeHugeIntToWire uuid) = 16"
  by (rule wire_shape [of uuid]) simp

lemma wire_ConvertGuid:
  assumes "length data = 16"
  shows "\<exists>u. ConvertGuid data = Ret u \<and> EncodeHugeIntToWire u = data"
proof -
  obtain a b c d e f g h i j k l m n p q where data: "data = [a, b, c, d, e, f, g, h, i, j, k, l, m, n, p, q]"
    using assms by (auto simp: length_Suc_conv numeral_eq_Suc)
  from ConvertGuid_Ret [of data] assms obtain u where
    u: "ConvertGuid data = Ret u" "u = guid_of_bytes [d, c, b, a, f, e, h, g, i, j, k, l, m, n, p, q]"
    by (auto simp: data ReorderGuidBytes_def)
  have bytes: "byte_of (uint (load64 bs)) x = bs ! x" if "length bs = 8" "x < 8" for bs x
  proof -
    have "le_bytes 8 (uint (load64 bs)) = bs" using that by (simp add: uint_load64 le_bytes_le_nat)
    then have "le_bytes 8 (uint (load64 bs)) ! x = bs ! x" by simp
    with that show ?thesis by (simp add: le_bytes_def)
  qed
  have "EncodeHugeIntToWire u = data"
    by (rule wire_shape [of u]) (simp add: u(2) guid_of_bytes_def be64_def xor_flip bytes data)
  with u show ?thesis by blast
qed

text \<open>C18: a UUID bulk-loaded into a UNIQUEIDENTIFIER column, read back by the row reader and decoded is the same UUID, and every
  sixteen bytes a server sends decode to a UUID whose encoding is those bytes: the byte order of the three leading
  fields and the flipped sign bit of DuckDB's storage are the same in both directions.\<close>

theorem guid_roundtrip:
  assumes "type_id c = TDS_TYPE_UNIQUEIDENTIFIER"
  shows "(\<exists>cell data. EncodeGUID buffer uuid = buffer @ cell \<and> ReadValue c (cell @ rest) = Ret (length cell, data, False) \<and>
      ConvertGuid data = Ret uuid) \<and>
    (length wire = 16 \<longrightarrow> (\<exists>u. ConvertGuid wire = Ret u \<and> EncodeGUID buffer u = buffer @ 16 # wire))"
proof -
  have "EncodeHugeIntToWire uuid \<noteq> []" using length_wire [of uuid] by (metis list.size(3) zero_neq_numeral)
  then have "ReadValue c ((16 # EncodeHugeIntToWire uuid) @ rest) = Ret (17, EncodeHugeIntToWire uuid, False)"
    using ReadValue_counted [of c "EncodeHugeIntToWire uuid" rest] assms by (simp add: prefix1_types_def)
  then have "\<exists>cell data. EncodeGUID buffer uuid = buffer @ cell \<and> ReadValue c (cell @ rest) = Ret (length cell, data, False) \<and>
      ConvertGuid data = Ret uuid"
    by (intro exI [of _ "16 # EncodeHugeIntToWire uuid"] exI [of _ "EncodeHugeIntToWire uuid"])
      (simp add: EncodeGUID_wire ConvertGuid_wire)
  moreover have "length wire = 16 \<longrightarrow> (\<exists>u. ConvertGuid wire = Ret u \<and> EncodeGUID buffer u = buffer @ 16 # wire)"
    using wire_ConvertGuid [of wire] by (auto simp: EncodeGUID_wire)
  ultimately show ?thesis by blast
qed

theorem guid_roundtrip_witness:
  "\<exists>cell data. EncodeGUID [9] (huge 5) = [9] @ cell \<and>
     ReadValue (fresh_column \<lparr> type_id := TDS_TYPE_UNIQUEIDENTIFIER \<rparr>) (cell @ [1]) = Ret (length cell, data, False) \<and>
     ConvertGuid data = Ret (huge 5)"
  using guid_roundtrip [of "fresh_column \<lparr> type_id := TDS_TYPE_UNIQUEIDENTIFIER \<rparr>" "[9]" "huge 5" "[1]" "[]"] by simp

subsection \<open>Binary data and NULL survive bulk load\<close>

lemma le_bytes_8_unknown: "le_bytes 8 (uint UNKNOWN_PLP_LEN) = [0xFE, 0xFF, 0xFF, 0xFF, 0xFF, 0xFF, 0xFF, 0xFF]"
  by code_simp

lemma byte_of_word:
  "byte_of (uint (w :: u32)) i = ucast (drop_bit (8 * i) w AND 0xFF)" "byte_of (uint (v :: u16)) i = ucast (drop_bit (8 * i) v AND 0xFF)"
  unfolding byte_of_def
  by (rule bit_word_eqI, simp add: bit_simps bit_word_of_int_iff bit_uint_iff flip: mask_eq_exp_minus_1)+

lemma le_bytes_word: "le_bytes 4 (uint (w :: u32)) = le32 w" "le_bytes 2 (uint (v :: u16)) = le16 v"
  by (simp_all add: le_bytes_def le32_def le16_def upt_conv_Cons numeral_eq_Suc byte_of_word)

subsection \<open>Decimals survive bulk load\<close>

lemma decimal_fits:
  assumes "1 \<le> p" "p \<le> 38" "\<bar>x\<bar> < (10::int) ^ unat p"
  shows "\<bar>x\<bar> < 2 ^ (8 * (GetDecimalByteSize p - 1))" "GetDecimalByteSize p - 1 \<le> 16" "0 < GetDecimalByteSize p - 1"
proof -
  have le: "(10::int) ^ unat p \<le> 10 ^ k" if "unat p \<le> k" for k using that by (intro power_increasing) auto
  have "unat p \<le> 38" using assms(2) by (simp add: word_le_nat_alt)
  then consider "p \<le> 9" | "\<not> p \<le> 9" "p \<le> 19" | "\<not> p \<le> 19" "p \<le> 28" | "\<not> p \<le> 28" by fastforce
  then have "10 ^ unat p \<le> (2::int) ^ (8 * (GetDecimalByteSize p - 1))"
  proof cases
    case 1
    with le [of 9] show ?thesis by (simp add: GetDecimalByteSize_def word_le_nat_alt)
  next
    case 2
    with le [of 19] show ?thesis by (simp add: GetDecimalByteSize_def word_le_nat_alt)
  next
    case 3
    with le [of 28] show ?thesis by (simp add: GetDecimalByteSize_def word_le_nat_alt)
  next
    case 4
    with le [of 38] \<open>unat p \<le> 38\<close> show ?thesis by (simp add: GetDecimalByteSize_def word_le_nat_alt)
  qed
  with assms(3) show "\<bar>x\<bar> < 2 ^ (8 * (GetDecimalByteSize p - 1))" by linarith
qed (simp_all add: GetDecimalByteSize_def)

text \<open>The payload of a decimal: a sign byte and the magnitude in the bytes of the precision.\<close>

definition decimal_payload :: "int \<Rightarrow> byte \<Rightarrow> byte list" where
  "decimal_payload x p = (if x < 0 then 0 else 1) # le_bytes (GetDecimalByteSize p - 1) \<bar>x\<bar>"

lemma length_decimal_payload [simp]: "length (decimal_payload x p) = GetDecimalByteSize p"
  by (simp add: decimal_payload_def GetDecimalByteSize_def)

lemma magnitude_payload:
  assumes "1 \<le> p" "p \<le> 38" "\<bar>x\<bar> < (10::int) ^ unat p"
  shows "magnitude (decimal_payload x p) (GetDecimalByteSize p) = \<bar>x\<bar>"
    and "decimal_value (decimal_payload x p) (GetDecimalByteSize p) = x"
proof -
  show "magnitude (decimal_payload x p) (GetDecimalByteSize p) = \<bar>x\<bar>"
    using decimal_fits [OF assms] by (simp add: magnitude_def decimal_payload_def le_nat_le_bytes)
  then show "decimal_value (decimal_payload x p) (GetDecimalByteSize p) = x"
    by (simp add: decimal_value_def) (simp add: decimal_payload_def)
qed

lemma decimal_in_i128: "(p :: byte) \<le> 38 \<Longrightarrow> \<bar>x\<bar> < (10::int) ^ unat p \<Longrightarrow> \<bar>x\<bar> < 2 ^ 127"
proof -
  assume a: "p \<le> 38" "\<bar>x\<bar> < (10::int) ^ unat p"
  have "(10::int) ^ unat p \<le> 10 ^ 38" using a by (intro power_increasing) (auto simp: word_le_nat_alt)
  with a(2) show ?thesis by simp
qed

context hugeint_laws begin

lemma EncodeDecimal_payload:
  assumes "p \<le> 38" "\<bar>hvalue v\<bar> < 10 ^ unat p"
  shows "EncodeDecimal H buffer v p = Ret (buffer @ of_nat (GetDecimalByteSize p) # decimal_payload (hvalue v) p)"
proof -
  have small: "\<bar>hvalue v\<bar> < 2 ^ 127" using assms by (rule decimal_in_i128)
  then have a: "in_i128 \<bar>hvalue v\<bar>" by auto
  have n: "GetDecimalByteSize p - 1 \<le> 16" by (simp add: GetDecimalByteSize_def)
  have "(if hvalue v < 0 then hg_negate H v else Ret v) = Ret (huge \<bar>hvalue v\<bar>)"
    using small negate_neg [of v] by simp
  with huge_bytes [OF _ a n] show ?thesis
    by (simp add: EncodeDecimal_def decimal_payload_def Let_def flip: hvalue_neg_iff)
qed

lemma ConvertDecimal_payload:
  assumes "1 \<le> p" "p \<le> 38" "\<bar>x\<bar> < 10 ^ unat p"
  shows "ConvertDecimal H (decimal_payload x p) (GetDecimalByteSize p) = Ret (huge x)"
  using ConvertDecimal_Ret [of "GetDecimalByteSize p" "decimal_payload x p"] magnitude_payload [OF assms]
    decimal_in_i128 [OF assms(2,3)] decimal_fits(3) [OF assms] by simp

end

lemma ReadValue_decimal:
  assumes "type_id c = TDS_TYPE_DECIMAL \<or> type_id c = TDS_TYPE_NUMERIC"
  shows "ReadValue c (of_nat (GetDecimalByteSize p) # decimal_payload x p @ rest) =
    Ret (1 + GetDecimalByteSize p, decimal_payload x p, False)"
proof -
  have "length (decimal_payload x p) < 256" by (simp add: GetDecimalByteSize_def)
  moreover have "decimal_payload x p \<noteq> []" by (simp add: decimal_payload_def)
  ultimately show ?thesis
    using ReadValue_counted [of c "decimal_payload x p" rest] assms by (auto simp: prefix1_types_def)
qed

subsection \<open>Dates and times survive bulk load\<close>

lemma GetTimeByteSize_eq: "GetTimeByteSize s = GetTimeByteLength s"
  by (simp add: GetTimeByteSize_def GetTimeByteLength_def)

text \<open>A day has at most \<open>86400 * 10 ^ s\<close> ticks, which fit in the bytes of the scale.\<close>

lemma ticks_fit:
  fixes t :: int
  assumes "s \<le> 7" "t < 86400 * 10 ^ unat s"
  shows "t < 2 ^ (8 * GetTimeByteLength s)"
proof -
  have le: "(10::int) ^ unat s \<le> 10 ^ k" if "unat s \<le> k" for k using that by (intro power_increasing) auto
  consider "s \<le> 2" | "\<not> s \<le> 2" "s \<le> 4" | "\<not> s \<le> 4" by fastforce
  then have "86400 * 10 ^ unat s \<le> (2::int) ^ (8 * GetTimeByteLength s)"
  proof cases
    case 1
    with le [of 2] show ?thesis by (simp add: GetTimeByteLength_def word_le_nat_alt)
  next
    case 2
    with le [of 4] show ?thesis by (simp add: GetTimeByteLength_def word_le_nat_alt)
  next
    case 3
    with le [of 7] assms(1) show ?thesis by (simp add: GetTimeByteLength_def word_le_nat_alt)
  qed
  with assms(2) show ?thesis by linarith
qed

lemma micros_of_ticks_low: "s \<le> 6 \<Longrightarrow> micros_of_ticks s t = t * 10 ^ (6 - s)"
proof -
  assume "s \<le> 6"
  then have "t * 10 ^ 6 = t * 10 ^ (6 - s) * 10 ^ s" by (simp add: mult.assoc flip: power_add)
  then show ?thesis unfolding micros_of_ticks_def by (metis nonzero_mult_div_cancel_right power_not_zero zero_neq_numeral)
qed

text \<open>Rounding to the nearest multiple.\<close>

lemma round_half:
  fixes v d :: int
  assumes "0 < d"
  shows "2 * \<bar>(v + d div 2) div d * d - v\<bar> \<le> d"
proof -
  define h m where "h = d div 2" and "m = (v + h) div d * d"
  have "m \<le> v + h" "v + h < m + d"
    using assms div_mult_mod_eq [of "v + h" d] pos_mod_sign [of d "v + h"] pos_mod_bound [of d "v + h"]
    unfolding m_def by linarith+
  moreover have "2 * h \<le> d" "d \<le> 2 * h + 1" by (simp_all add: h_def)
  ultimately have "2 * (m - v) \<le> d" "2 * (v - m) \<le> d" by presburger+
  then have "2 * \<bar>m - v\<bar> \<le> d" by (simp add: abs_if)
  then show ?thesis by (simp only: m_def h_def)
qed

text \<open>What \<open>EncodeTime\<close> makes of a time of day: the nearest tick, the last one of the day at the latest.\<close>

definition time_ticks :: "int \<Rightarrow> nat \<Rightarrow> int" where
  "time_ticks v s =
     (if s \<le> 6 then min ((v + 10 ^ (6 - s) div 2) div 10 ^ (6 - s)) (86400 * 10 ^ s - 1) else v * 10)"

lemma time_ticks_bounds:
  assumes "0 \<le> v" "v < 86400 * 10 ^ 6" "s \<le> 7"
  shows "0 \<le> time_ticks v s" "time_ticks v s < 86400 * 10 ^ s"
proof -
  have "0 \<le> (v + 10 ^ (6 - s) div 2) div 10 ^ (6 - s)" using assms(1) by (intro div_int_pos_iff [THEN iffD2]) simp
  moreover have "(1::int) \<le> 86400 * 10 ^ s" using one_le_power [of "10::int" s] by linarith
  ultimately show "0 \<le> time_ticks v s" using assms by (auto simp: time_ticks_def)
  show "time_ticks v s < 86400 * 10 ^ s"
  proof (cases "s \<le> 6")
    case False
    then have "s = 7" using assms by simp
    with assms show ?thesis by (simp add: time_ticks_def)
  qed (simp add: time_ticks_def)
qed

lemma EncodeTime_Ret:
  assumes "0 \<le> v" "v \<le> 86400 * 10 ^ 6" "s \<le> 7"
  shows "EncodeTime buffer v s =
    Ret (buffer @ of_nat (GetTimeByteLength s) # le_bytes (GetTimeByteLength s) (time_ticks v (unat s)))"
proof (cases "s \<le> 6")
  case True
  let ?d = "10 ^ (6 - unat s) :: int"
  have d: "0 < ?d" "?d \<le> 10 ^ 6" by (simp, intro power_increasing, simp_all)
  then have "?d div 2 \<le> ?d" "0 \<le> ?d div 2" using zdiv_mono2 [of ?d 1 2] by simp_all
  with d assms have r: "0 \<le> v + ?d div 2" "v + ?d div 2 < 2 ^ 63" by simp_all
  have "i64 (v + ?d sdiv 2) = Ret (v + ?d div 2)" using r d by (simp add: sdiv_nonneg i64_nonneg)
  moreover have "(v + ?d div 2) sdiv ?d = (v + ?d div 2) div ?d" using r d by (intro sdiv_nonneg)
  ultimately show ?thesis using True
    by (simp add: EncodeTime_def Let_def times10_eq time_ticks_def SECS_PER_DAY_def GetTimeByteSize_eq word_le_nat_alt min_def)
next
  case False
  then have "\<not> unat s \<le> 6" by (simp add: word_le_nat_alt)
  with False assms show ?thesis
    by (simp add: EncodeTime_def Let_def i64_def time_ticks_def GetTimeByteSize_eq)
qed

text \<open>A time of day comes back as the nearest tick, or as the last tick of the day.\<close>

definition near :: "int \<Rightarrow> int \<Rightarrow> nat \<Rightarrow> bool" where
  "near v v' s \<longleftrightarrow> (if s < 6 then 2 * \<bar>v' - v\<bar> \<le> 10 ^ (6 - s) \<or> v' = 86400 * 10 ^ 6 - 10 ^ (6 - s) \<and> v' < v else v' = v)"

lemma past_day: "D \<le> m \<Longrightarrow> 2 * \<bar>m - v\<bar> \<le> d \<Longrightarrow> 0 < d \<Longrightarrow> D - d < v" for m v d D :: int
  by presburger

lemma time_ticks_near:
  assumes "0 \<le> v" "v < 86400 * 10 ^ 6" "s \<le> 7"
  shows "near v (micros_of_ticks s (time_ticks v s)) s"
proof -
  consider "s < 6" | "s = 6" | "s = 7" using assms by linarith
  then show ?thesis
  proof cases
    case 1
    let ?d = "10 ^ (6 - s) :: int" and ?q = "(v + 10 ^ (6 - s) div 2) div 10 ^ (6 - s)"
    have m: "micros_of_ticks s t = t * ?d" for t using 1 by (simp add: micros_of_ticks_low)
    have day: "86400 * 10 ^ s * ?d = 86400 * 10 ^ 6" using 1 by (simp flip: power_add)
    note h = round_half [of ?d v]
    show ?thesis
    proof (cases "?q \<le> 86400 * 10 ^ s - 1")
      case True
      with 1 h m show ?thesis by (simp add: near_def time_ticks_def)
    next
      case False
      then have "86400 * 10 ^ s * ?d \<le> ?q * ?d" by (intro mult_right_mono) auto
      then have "86400 * 10 ^ 6 \<le> ?q * ?d" unfolding day .
      from past_day [OF this h] have "86400 * 10 ^ 6 - ?d < v" by simp
      with False 1 m day show ?thesis by (simp add: near_def time_ticks_def algebra_simps)
    qed
  qed (use assms in \<open>simp_all add: near_def time_ticks_def micros_of_ticks_def\<close>)
qed

lemma le_nat_le_bytes_small: "0 \<le> x \<Longrightarrow> x < 2 ^ (8 * n) \<Longrightarrow> int (le_nat (le_bytes n x)) = x"
  by (simp add: le_nat_le_bytes)

lemma ConvertTime_ticks:
  assumes "0 \<le> t" "t < 86400 * 10 ^ unat s" "s \<le> 7"
  shows "ConvertTime (le_bytes (GetTimeByteLength s) t) s = Ret (micros_of_ticks (unat s) t)"
  using ConvertTime_Ret [OF assms(3), of "le_bytes (GetTimeByteLength s) t"] le_nat_le_bytes_small [OF assms(1) ticks_fit [OF assms(3,2)]]
  by simp

lemma EncodeDate_Ret:
  "in_i32 (d + DAYS_FROM_0001_TO_EPOCH) \<Longrightarrow> EncodeDate buffer d = Ret (buffer @ 3 # le_bytes 3 (d + DAYS_FROM_0001_TO_EPOCH))"
  by (simp add: EncodeDate_def)

lemma ConvertDate_days:
  "0 \<le> n \<Longrightarrow> n < 2 ^ 24 \<Longrightarrow> ConvertDate (le_bytes 3 n) = Ret (n - DAYS_FROM_0001_TO_EPOCH)"
  using le_nat_le_bytes_small [of n 3] by (simp add: ConvertDate_Ret)

end
