(* ===== verification/Decimal_Codec.thy ===== *)
theory Decimal_Codec
  imports Bcp_Encoding Bcp_Column
begin

text \<open>
  The decimal codec, \<open>src/codec/decimal_codec.cpp\<close>: moving a mantissa to the target's scale, the check against the
  target's precision, the row path, the two columnar kernels and the choice between them, and the decoder. The
  reference is \<open>rescaled\<close>: multiplication when the scale grows, rounding half away from zero when it shrinks.
\<close>

subsection \<open>The row path\<close>

definition power_of_ten :: "nat \<Rightarrow> hugeint_t" where
  "power_of_ten n = huge (10 ^ n)"

text \<open>\<open>WidenVectorToHugeint\<close>\<close>

definition Widen :: "PhysicalType \<Rightarrow> int \<Rightarrow> hugeint_t res" where
  "Widen pt v =
     (if pt \<in> {PT_INT16, PT_INT32, PT_INT64, PT_INT128} then Ret (huge v)
      else if pt = PT_UINT64 then Ret \<lparr> hg_lower = word_of_int v, hg_upper = 0 \<rparr>
      else Throw ''codec::decimal::EncodeToBcp: unexpected PhysicalType for DECIMAL'')"

definition mantissa_range_message :: "hugeint_ops \<Rightarrow> hugeint_t \<Rightarrow> BCPColumnMetadata \<Rightarrow> string" where
  "mantissa_range_message H v col =
     ''MSSQL: DECIMAL value (mantissa '' @ hg_to_string H v @ '', scale '' @ to_string (unat (bc_scale col)) @ '') in column '' @
     [CHR 0x22] @ bc_name col @ [CHR 0x22] @ '' is out of range for DECIMAL('' @ to_string (unat (bc_precision col)) @ '','' @
     to_string (unat (bc_scale col)) @ '')''"

definition CheckMantissaFitsPrecision :: "hugeint_ops \<Rightarrow> hugeint_t \<Rightarrow> BCPColumnMetadata \<Rightarrow> unit res" where
  "CheckMantissaFitsPrecision H v col =
     (if bc_precision col = 0 \<or> bc_precision col > 38 then Ret ()
      else let max = hg_sub H (power_of_ten (unat (bc_precision col))) (huge 1)
        in bind_res (hg_negate H max) (\<lambda>min.
           if hg_gt H v max \<or> hg_gt H min v then Throw (mantissa_range_message H v col) else Ret ()))"

definition SourceScale :: "LogicalType \<Rightarrow> int" where
  "SourceScale ty = (if lt_id ty = DECIMAL_ID then uint (lt_scale ty) else 0)"

definition scale_gap_message :: "int \<Rightarrow> BCPColumnMetadata \<Rightarrow> string" where
  "scale_gap_message shift col =
     ''MSSQL: DECIMAL column '' @ [CHR 0x22] @ bc_name col @ [CHR 0x22] @ '' declares scale '' @ to_string (unat (bc_scale col)) @
     '' against a source of scale '' @ signed_string (uint (bc_scale col) - shift) @
     ''; the difference exceeds DECIMAL's 38-digit range''"

definition rescale_message :: "hugeint_ops \<Rightarrow> hugeint_t \<Rightarrow> int \<Rightarrow> BCPColumnMetadata \<Rightarrow> string" where
  "rescale_message H m shift col =
     ''MSSQL: DECIMAL value (mantissa '' @ hg_to_string H m @ '') in column '' @ [CHR 0x22] @ bc_name col @ [CHR 0x22] @
     '' does not fit DECIMAL('' @ to_string (unat (bc_precision col)) @ '','' @ to_string (unat (bc_scale col)) @
     '') once rescaled from scale '' @ signed_string (uint (bc_scale col) - shift)"

definition RescaleMantissa :: "hugeint_ops \<Rightarrow> hugeint_t \<Rightarrow> int \<Rightarrow> BCPColumnMetadata \<Rightarrow> hugeint_t res" where
  "RescaleMantissa H mantissa shift col =
     (if shift = 0 then Ret mantissa
      else if shift > 0 then
        (if shift > 38 then Throw (scale_gap_message shift col)
         else let limit = power_of_ten (nat (38 - shift))
           in bind_res (hg_negate H limit) (\<lambda>low.
              if hg_gt H mantissa limit \<or> hg_gt H low mantissa then Throw (rescale_message H mantissa shift col)
              else Ret (hg_mul H mantissa (power_of_ten (nat shift)))))
      else let down = - shift
        in if down > 38 then Ret (huge 0)
           else let divisor = power_of_ten (nat down); quotient = hg_div H mantissa divisor; remainder = hg_mod H mantissa divisor
             in bind_res (if hg_gt H (huge 0) remainder then hg_negate H remainder else Ret remainder) (\<lambda>abs_remainder.
                let half = hg_div H divisor (huge 2)
                in Ret (if \<not> hg_gt H half abs_remainder then
                     (if hg_gt H (huge 0) mantissa then hg_sub H quotient (huge 1) else hg_add H quotient (huge 1))
                   else quotient)))"

text \<open>The payload the row path writes behind the length byte.\<close>

definition ScatterToBcp_decimal :: "hugeint_ops \<Rightarrow> LogicalType \<Rightarrow> BCPColumnMetadata \<Rightarrow> int \<Rightarrow> byte list res" where
  "ScatterToBcp_decimal H src col v =
     bind_res (Widen (lt_physical src) v) (\<lambda>wide.
     bind_res (RescaleMantissa H wide (uint (bc_scale col) - SourceScale src) col) (\<lambda>x.
     bind_res (CheckMantissaFitsPrecision H x col) (\<lambda>_.
       let byte_size = GetDecimalByteSize (bc_precision col); is_negative = sint (hg_upper x) < 0
       in bind_res (if is_negative then hg_negate H x else Ret x) (\<lambda>abs_value.
          Ret ((if is_negative then 0 else 1) # map (huge_byte abs_value) [0..<byte_size - 1])))))"

text \<open>The row path grows the buffer before it fills the payload in; an exception leaves the buffer of an abandoned load longer, which
  the model, whose exceptions carry no buffer, does not show.\<close>

definition EncodeToBcp_decimal :: "hugeint_ops \<Rightarrow> LogicalType \<Rightarrow> BCPColumnMetadata \<Rightarrow> int \<Rightarrow> byte list \<Rightarrow> byte list res" where
  "EncodeToBcp_decimal H src col v buf =
     bind_res (ScatterToBcp_decimal H src col v) (\<lambda>payload.
       Ret (buf @ of_nat (GetDecimalByteSize (bc_precision col)) # payload))"

subsection \<open>The columnar kernels\<close>

definition NegateMag128 :: "hugeint_t \<Rightarrow> hugeint_t" where
  "NegateMag128 v = \<lparr> hg_lower = 0 - hg_lower v, hg_upper = NOT (hg_upper v) + (if hg_lower v = 0 then 1 else 0) \<rparr>"

text \<open>One value in the smallest type that holds \<open>mag\<close> bytes: 4 and 8 in a machine integer, 12 and 16 in a \<open>hugeint_t\<close>.\<close>

definition ScatterOne :: "nat \<Rightarrow> int \<Rightarrow> byte list" where
  "ScatterOne mag raw =
     (if mag = 4 then
        let v = (word_of_int raw :: u32); neg = sint v < 0; m = (if neg then 0 - v else v)
        in (if neg then 0 else 1) # le_bytes 4 (uint m)
      else if mag = 8 then
        let v = (word_of_int raw :: u64); neg = sint v < 0; m = (if neg then 0 - v else v)
        in (if neg then 0 else 1) # le_bytes 8 (uint m)
      else
        let v = huge raw; neg = sint (hg_upper v) < 0; m = (if neg then NegateMag128 v else v)
        in (if neg then 0 else 1) # map (huge_byte m) [0..<mag])"

definition ScatterFast_value :: "nat \<Rightarrow> int \<Rightarrow> byte list res" where
  "ScatterFast_value byte_size raw =
     Ret (of_nat byte_size # ScatterOne (if byte_size = 5 then 4 else if byte_size = 9 then 8 else if byte_size = 13 then 12 else 16) raw)"

definition ToHuge :: "PhysicalType \<Rightarrow> int \<Rightarrow> hugeint_t" where
  "ToHuge pt v = (if pt = PT_UINT64 then \<lparr> hg_lower = word_of_int v, hg_upper = 0 \<rparr> else huge v)"

definition ScatterGeneral_value ::
  "hugeint_ops \<Rightarrow> PhysicalType \<Rightarrow> int \<Rightarrow> nat \<Rightarrow> BCPColumnMetadata \<Rightarrow> int \<Rightarrow> byte list res" where
  "ScatterGeneral_value H pt shift byte_size col v =
     bind_res (RescaleMantissa H (ToHuge pt v) shift col) (\<lambda>x.
     bind_res (CheckMantissaFitsPrecision H x col) (\<lambda>_.
       let neg = sint (hg_upper x) < 0
       in bind_res (if neg then hg_negate H x else Ret x) (\<lambda>mag.
          Ret (of_nat byte_size # (if neg then 0 else 1) # map (huge_byte mag) [0..<byte_size - 1]))))"

definition decimal_fast :: "LogicalType \<Rightarrow> BCPColumnMetadata \<Rightarrow> bool" where
  "decimal_fast src col \<longleftrightarrow>
     uint (bc_scale col) - SourceScale src = 0 \<and> lt_id src = DECIMAL_ID \<and> lt_width src \<le> bc_precision col \<and>
     GetTypeIdSize (lt_physical src) \<le> GetDecimalByteSize (bc_precision col) - 1"

definition ScatterChunk_decimal :: "hugeint_ops \<Rightarrow> LogicalType \<Rightarrow> BCPColumnMetadata \<Rightarrow> int \<Rightarrow> byte list res" where
  "ScatterChunk_decimal H src col v =
     (let byte_size = GetDecimalByteSize (bc_precision col); shift = uint (bc_scale col) - SourceScale src; pt = lt_physical src
      in if pt \<in> {PT_INT16, PT_INT32, PT_INT64, PT_INT128} then
           (if decimal_fast src col then ScatterFast_value byte_size v else ScatterGeneral_value H pt shift byte_size col v)
         else if pt = PT_UINT64 then ScatterGeneral_value H pt shift byte_size col v
         else Throw ''codec::decimal::ScatterChunk: unexpected source PhysicalType'')"

subsection \<open>The decoder\<close>

text \<open>The storage of a DECIMAL depends on its precision.\<close>

definition DecodeFromTds_decimal :: "hugeint_ops \<Rightarrow> byte list \<Rightarrow> byte \<Rightarrow> int res" where
  "DecodeFromTds_decimal H bytes p =
     bind_res (ConvertDecimal H bytes (length bytes)) (\<lambda>x.
       Ret (if p \<le> 4 then sint (ucast (hg_lower x) :: u16) else if p \<le> 9 then sint (ucast (hg_lower x) :: u32)
            else if p \<le> 18 then sint (hg_lower x) else hvalue x))"

subsection \<open>Rescaling\<close>

definition half_away :: "int \<Rightarrow> int \<Rightarrow> int" where
  "half_away v d = sgn v * ((2 * \<bar>v\<bar> + d) div (2 * d))"

definition rescaled :: "int \<Rightarrow> int \<Rightarrow> int" where
  "rescaled v shift = (if shift \<ge> 0 then v * 10 ^ nat shift else half_away v (10 ^ nat (- shift)))"

lemma power_of_ten_value [simp]: "n \<le> 38 \<Longrightarrow> hvalue (power_of_ten n) = 10 ^ n"
proof -
  assume "n \<le> 38"
  then have "(10::int) ^ n \<le> 10 ^ 38" by (intro power_increasing) simp_all
  moreover have "(0::int) < 10 ^ n" by simp
  moreover have "(10::int) ^ 38 < 2 ^ 127" by simp
  ultimately have "in_i128 (10 ^ n)" by linarith
  then show ?thesis by (simp add: power_of_ten_def)
qed

lemma half_away_quotient:
  fixes v d :: int
  assumes "0 < d" "even d"
  shows "half_away v d = v sdiv d + (if d div 2 \<le> \<bar>v smod d\<bar> then (if v < 0 then -1 else 1) else 0)"
proof -
  define a q r where "a = \<bar>v\<bar>" and "q = a div d" and "r = a mod d"
  have aq: "a = q * d + r" "0 \<le> r" "r < d" "0 \<le> a"
    using assms(1) by (simp_all add: a_def q_def r_def)
  obtain h where h: "d = 2 * h" using assms(2) by (elim evenE)
  have up: "(2 * a + d) div (2 * d) = q + (if h \<le> r then 1 else 0)"
  proof (cases "h \<le> r")
    case True
    have "2 * a + d = (2 * r + d - 2 * d) + (q + 1) * (2 * d)" using aq by (simp add: algebra_simps)
    moreover have "0 \<le> 2 * r + d - 2 * d" "2 * r + d - 2 * d < 2 * d" using True h aq by linarith+
    ultimately show ?thesis using True assms(1) by (simp only: div_mult_self1) (simp add: div_pos_pos_trivial)
  next
    case False
    have "2 * a + d = (2 * r + d) + q * (2 * d)" using aq by (simp add: algebra_simps)
    moreover have "0 \<le> 2 * r + d" "2 * r + d < 2 * d" using False h aq by linarith+
    ultimately show ?thesis using False assms(1) by (simp only: div_mult_self1) (simp add: div_pos_pos_trivial)
  qed
  have "v sdiv d = sgn v * q" "\<bar>v smod d\<bar> = r"
    using assms(1) by (simp_all add: signed_divide_int_def signed_modulo_int_def q_def r_def a_def sgn_if abs_mult)
  moreover have "half_away v d = sgn v * (q + (if h \<le> r then 1 else 0))"
    unfolding half_away_def a_def [symmetric] up ..
  moreover have "d div 2 = h" "v = 0 \<longrightarrow> q = 0 \<and> r = 0" "0 < h" using h assms(1) by (simp_all add: q_def r_def a_def)
  ultimately show ?thesis by (auto simp: sgn_if)
qed

lemma half_away_i128: "1 < d \<Longrightarrow> in_i128 v \<Longrightarrow> in_i128 (half_away v d)"
proof -
  assume d: "1 < d" and v: "in_i128 v"
  define w q where "w = \<bar>v\<bar>" and "q = (2 * w + d) div (2 * d)"
  have q: "0 \<le> q" using d unfolding q_def w_def by (intro div_int_pos_iff [THEN iffD2]) simp
  have "q \<le> w" if "v \<noteq> 0"
  proof -
    have w: "1 \<le> w" using that by (simp add: w_def)
    then have "d \<le> 2 * w * (d - 1)" using d mult_mono [of 1 w "d - 1" "d - 1"] by (simp add: algebra_simps)
    then have "2 * w + d \<le> w * (2 * d)" by (simp add: algebra_simps)
    then have "q \<le> w * (2 * d) div (2 * d)" unfolding q_def using d by (intro zdiv_mono1) simp_all
    then show ?thesis using d by simp
  qed
  then show "in_i128 (half_away v d)"
    using q v unfolding half_away_def w_def [symmetric] q_def [symmetric] by (auto simp: sgn_if w_def)
qed

lemma fits_i128: "p \<noteq> 0 \<Longrightarrow> p \<le> 38 \<Longrightarrow> \<bar>x\<bar> < (10::int) ^ unat (p :: byte) \<Longrightarrow> in_i128 x \<and> in_i128 (- x)"
  using decimal_in_i128 [of p x] by (auto simp: abs_if split: if_splits)

context hugeint_laws begin

lemma RescaleMantissa_Ret:
  assumes "\<bar>shift\<bar> \<le> 38" "in_i128 v"
  shows "RescaleMantissa H (huge v) shift col =
    (if shift > 0 \<and> \<bar>v\<bar> > 10 ^ nat (38 - shift) then Throw (rescale_message H (huge v) shift col)
     else Ret (huge (rescaled v shift)))"
proof -
  consider "shift = 0" | "shift > 0" | "shift < 0" by linarith
  then show ?thesis
  proof cases
    case 1
    then show ?thesis by (simp add: RescaleMantissa_def rescaled_def)
  next
    case 2
    define l where "l = (10::int) ^ nat (38 - shift)"
    have limit: "hvalue (power_of_ten (nat (38 - shift))) = l" using 2 unfolding l_def by (intro power_of_ten_value) linarith
    have shift: "hvalue (power_of_ten (nat shift)) = 10 ^ nat shift" using 2 assms(1) by (intro power_of_ten_value) linarith
    have l: "0 < l" "l < 2 ^ 127"
    proof -
      have "(10::int) ^ nat (38 - shift) \<le> 10 ^ 38" using 2 by (intro power_increasing) simp_all
      then show "l < 2 ^ 127" by (simp add: l_def)
    qed (simp add: l_def)
    have neg: "hg_negate H (power_of_ten (nat (38 - shift))) = Ret (huge (- l))"
      using negate_nonneg [of "power_of_ten (nat (38 - shift))"] l(1) unfolding limit by simp
    have low: "hvalue (huge (- l)) = - l" using l by (intro hvalue_huge) simp
    have prod: "in_i128 (v * 10 ^ nat shift)" if "\<bar>v\<bar> \<le> l"
    proof -
      have "\<bar>v * 10 ^ nat shift\<bar> \<le> l * 10 ^ nat shift" using that by (simp add: abs_mult mult_right_mono)
      also have "\<dots> = 10 ^ 38" unfolding l_def using 2 assms(1) by (simp flip: power_add nat_add_distrib)
      finally show ?thesis by (simp add: abs_le_iff)
    qed
    have "RescaleMantissa H (huge v) shift col =
        (if hg_gt H (huge v) (power_of_ten (nat (38 - shift))) \<or> hg_gt H (huge (- l)) (huge v)
         then Throw (rescale_message H (huge v) shift col) else Ret (hg_mul H (huge v) (power_of_ten (nat shift))))"
      using 2 assms(1) by (simp add: RescaleMantissa_def Let_def neg)
    moreover have "hg_gt H (huge v) (power_of_ten (nat (38 - shift))) \<or> hg_gt H (huge (- l)) (huge v) \<longleftrightarrow> \<bar>v\<bar> > l"
      unfolding gt limit low hvalue_huge [OF assms(2)] by linarith
    moreover have "hg_mul H (huge v) (power_of_ten (nat shift)) = huge (v * 10 ^ nat shift)" if "\<bar>v\<bar> \<le> l"
      using mul [of "huge v" "power_of_ten (nat shift)"] prod [OF that] unfolding shift hvalue_huge [OF assms(2)] by simp
    ultimately show ?thesis using 2 by (auto simp: rescaled_def l_def)
  next
    case 3
    define n d where "n = nat (- shift)" and "d = (10::int) ^ n"
    have n: "0 < n" "n \<le> 38" using 3 assms(1) by (auto simp: n_def)
    have p: "hvalue (power_of_ten n) = d" unfolding d_def using n(2) by (rule power_of_ten_value)
    have d: "0 < d" "even d" "1 < d" using n(1) by (simp_all add: d_def)
    have quot: "hg_div H (huge v) (power_of_ten n) = huge (v sdiv d)" "hg_mod H (huge v) (power_of_ten n) = huge (v smod d)"
      using divide [of "power_of_ten n" "huge v"] modulo [of "power_of_ten n" "huge v"] d(1) assms(2) unfolding p by simp_all
    have r: "\<bar>v smod d\<bar> < d" using d(1) by (simp add: signed_modulo_int_def abs_mult sgn_if)
    have dmax: "d < 2 ^ 127" using power_increasing [of n 38 "10::int"] n(2) by (simp add: d_def)
    then have ri: "in_i128 (v smod d)" "in_i128 \<bar>v smod d\<bar>" using r by auto
    have absr: "(if hg_gt H (huge 0) (huge (v smod d)) then hg_negate H (huge (v smod d)) else Ret (huge (v smod d)))
        = Ret (huge \<bar>v smod d\<bar>)"
    proof -
      define m where "m = v smod d"
      have "in_i128 m" "in_i128 (- m)" using r dmax unfolding m_def by linarith+
      then show ?thesis
        using negate [of "huge m"] unfolding m_def [symmetric] gt by (simp add: abs_if)
    qed
    have half: "hg_div H (power_of_ten n) (huge 2) = huge (d div 2)"
      using divide [of "huge 2" "power_of_ten n"] d(1) unfolding p by (simp add: sdiv_nonneg)
    have hd: "in_i128 (d div 2)" using d(1) dmax by auto
    have q: "\<bar>v sdiv d\<bar> < 2 ^ 126"
    proof -
      have "\<bar>v sdiv d\<bar> = \<bar>v\<bar> div d" using d(1) by (simp add: signed_divide_int_def abs_mult sgn_if pos_imp_zdiv_nonneg_iff)
      also have "\<dots> \<le> \<bar>v\<bar> div 10" using zdiv_mono2 [of "\<bar>v\<bar>" 10 d] power_increasing [of 1 n "10::int"] n(1) by (simp add: d_def)
      finally show ?thesis using assms(2) by auto
    qed
    have step: "hg_sub H (huge (v sdiv d)) (huge 1) = huge (v sdiv d - 1)" "hg_add H (huge (v sdiv d)) (huge 1) = huge (v sdiv d + 1)"
    proof -
      define y where "y = v sdiv d"
      have "in_i128 y" "in_i128 (y - 1)" "in_i128 (y + 1)" using q unfolding y_def [symmetric] by auto
      then show "hg_sub H (huge (v sdiv d)) (huge 1) = huge (v sdiv d - 1)" "hg_add H (huge (v sdiv d)) (huge 1) = huge (v sdiv d + 1)"
        using sub [of "huge y" "huge 1"] add [of "huge y" "huge 1"] unfolding y_def [symmetric] by simp_all
    qed
    have "RescaleMantissa H (huge v) shift col = Ret (if \<not> hg_gt H (huge (d div 2)) (huge \<bar>v smod d\<bar>) then
        (if hg_gt H (huge 0) (huge v) then hg_sub H (huge (v sdiv d)) (huge 1) else hg_add H (huge (v sdiv d)) (huge 1))
        else huge (v sdiv d))"
      using 3 assms(1) quot absr half by (simp add: RescaleMantissa_def Let_def n_def cong: if_cong)
    also have "\<dots> = Ret (huge (half_away v d))"
      unfolding gt step using hvalue_huge [OF hd] hvalue_huge [OF ri(2)] hvalue_huge [OF assms(2)] half_away_quotient [OF d(1,2), of v]
      by auto
    finally show ?thesis using 3 by (simp add: rescaled_def d_def n_def)
  qed
qed

lemma CheckMantissa_Ret:
  assumes "bc_precision col \<noteq> 0" "bc_precision col \<le> 38" "in_i128 x"
  shows "CheckMantissaFitsPrecision H (huge x) col =
    (if \<bar>x\<bar> < 10 ^ unat (bc_precision col) then Ret () else Throw (mantissa_range_message H (huge x) col))"
proof -
  define m where "m = (10::int) ^ unat (bc_precision col) - 1"
  have u: "unat (bc_precision col) \<le> 38" using assms(2) by (simp add: word_le_nat_alt)
  have "(10::int) ^ unat (bc_precision col) \<le> 10 ^ 38" using u by (intro power_increasing) simp_all
  moreover have "(0::int) < 10 ^ unat (bc_precision col)" by simp
  ultimately have m: "0 \<le> m" "m < 2 ^ 127" unfolding m_def by simp_all
  have mi: "in_i128 m" "in_i128 (- m)" using m by linarith+
  have max: "hg_sub H (power_of_ten (unat (bc_precision col))) (huge 1) = huge m"
    using sub [of "power_of_ten (unat (bc_precision col))" "huge 1"] mi(1) by (simp add: power_of_ten_value [OF u] m_def)
  have min: "hg_negate H (huge m) = Ret (huge (- m))" using negate [of "huge m"] mi by simp
  have "hg_gt H (huge x) (huge m) \<or> hg_gt H (huge (- m)) (huge x) \<longleftrightarrow> \<not> \<bar>x\<bar> < 10 ^ unat (bc_precision col)"
    unfolding gt hvalue_huge [OF mi(1)] hvalue_huge [OF mi(2)] hvalue_huge [OF assms(3)] unfolding m_def by linarith
  moreover have "\<not> 38 < bc_precision col" using assms(2) by simp
  ultimately show ?thesis using assms(1) by (simp add: CheckMantissaFitsPrecision_def Let_def max min)
qed

text \<open>The value the wire carries, in either path.\<close>

lemma byte_size_16: "GetDecimalByteSize p - 1 \<le> 16"
  by (simp add: GetDecimalByteSize_def)

lemma after_check:
  assumes "in_i128 x" "in_i128 (- x)"
  shows "(let is_negative = sint (hg_upper (huge x)) < 0
      in bind_res (if is_negative then hg_negate H (huge x) else Ret (huge x)) (\<lambda>abs_value.
         Ret ((if is_negative then 0 else 1) # map (huge_byte abs_value) [0..<GetDecimalByteSize p - 1]))) = Ret (decimal_payload x p)"
proof -
  have n: "sint (hg_upper (huge x)) < 0 \<longleftrightarrow> x < 0" using assms(1) by (simp flip: hvalue_neg_iff)
  have "(if x < 0 then hg_negate H (huge x) else Ret (huge x)) = Ret (huge \<bar>x\<bar>)"
    using assms negate [of "huge x"] by (simp add: abs_if)
  moreover have "map (huge_byte (huge \<bar>x\<bar>)) [0..<GetDecimalByteSize p - 1] = le_bytes (GetDecimalByteSize p - 1) \<bar>x\<bar>"
    using assms byte_size_16 by (intro huge_bytes) (auto simp: abs_if)
  ultimately show ?thesis unfolding Let_def n by (simp only: bind_res.simps decimal_payload_def)
qed

lemma Widen_Ret: "stored pt v \<Longrightarrow> pt \<in> {PT_INT16, PT_INT32, PT_INT64, PT_INT128, PT_UINT64} \<Longrightarrow> Widen pt v = Ret (huge v) \<and> in_i128 v"
  by (cases pt) (auto simp: Widen_def huge_def)

text \<open>The row path: the payload of the rescaled value, or an exception when the target's precision does not hold it.\<close>

lemma Scatter_Ret:
  assumes "stored (lt_physical src) v" "lt_physical src \<in> {PT_INT16, PT_INT32, PT_INT64, PT_INT128, PT_UINT64}"
    "bc_precision col \<noteq> 0" "bc_precision col \<le> 38" "\<bar>uint (bc_scale col) - SourceScale src\<bar> \<le> 38"
  defines "x \<equiv> rescaled v (uint (bc_scale col) - SourceScale src)"
  shows "\<bar>x\<bar> < 10 ^ unat (bc_precision col) \<Longrightarrow> ScatterToBcp_decimal H src col v = Ret (decimal_payload x (bc_precision col))"
    and "\<not> \<bar>x\<bar> < 10 ^ unat (bc_precision col) \<Longrightarrow> \<exists>msg. ScatterToBcp_decimal H src col v = Throw msg"
proof -
  let ?shift = "uint (bc_scale col) - SourceScale src"
  note w = Widen_Ret [OF assms(1,2)]
  note r = RescaleMantissa_Ret [OF assms(5) conjunct2 [OF w]]
  have p: "(10::int) ^ unat (bc_precision col) \<le> 10 ^ 38"
    using assms(4) by (intro power_increasing) (simp_all add: word_le_nat_alt)
  have far: "10 ^ 38 < \<bar>x\<bar>" if "0 < ?shift" "10 ^ nat (38 - ?shift) < \<bar>v\<bar>"
  proof -
    have "(10::int) ^ 38 = 10 ^ nat (38 - ?shift) * 10 ^ nat ?shift" using that(1) assms(5) by (simp flip: power_add nat_add_distrib)
    also have "\<dots> < \<bar>v\<bar> * 10 ^ nat ?shift" using that(2) by (intro mult_strict_right_mono) simp_all
    finally show ?thesis using that(1) by (simp add: x_def rescaled_def abs_mult)
  qed
  have half: "in_i128 x" if "\<not> (0 < ?shift \<and> 10 ^ nat (38 - ?shift) < \<bar>v\<bar>)"
  proof (cases "0 < ?shift")
    case True
    have "\<bar>v\<bar> * 10 ^ nat ?shift \<le> 10 ^ nat (38 - ?shift) * 10 ^ nat ?shift" using that True by (intro mult_right_mono) simp_all
    also have "\<dots> = 10 ^ 38" using True assms(5) by (simp flip: power_add nat_add_distrib)
    finally have "\<bar>x\<bar> \<le> 10 ^ 38" using True by (simp add: x_def rescaled_def abs_mult)
    then show ?thesis by (auto simp: abs_le_iff)
  next
    case False
    then show ?thesis using w half_away_i128 [of "10 ^ nat (- ?shift)" v]
      by (cases "?shift = 0") (auto simp: x_def rescaled_def)
  qed
  show "ScatterToBcp_decimal H src col v = Ret (decimal_payload x (bc_precision col))" if f: "\<bar>x\<bar> < 10 ^ unat (bc_precision col)"
  proof -
    note i = fits_i128 [OF assms(3,4) f]
    have "RescaleMantissa H (huge v) ?shift col = Ret (huge x)" using r far f p by (auto simp: x_def)
    with w CheckMantissa_Ret [OF assms(3,4) conjunct1 [OF i]] f after_check [OF conjunct1 [OF i] conjunct2 [OF i], of "bc_precision col"]
    show ?thesis by (simp add: ScatterToBcp_decimal_def Let_def)
  qed
  show "\<exists>msg. ScatterToBcp_decimal H src col v = Throw msg" if f: "\<not> \<bar>x\<bar> < 10 ^ unat (bc_precision col)"
  proof (cases "0 < ?shift \<and> 10 ^ nat (38 - ?shift) < \<bar>v\<bar>")
    case True
    then show ?thesis using r w by (simp add: ScatterToBcp_decimal_def)
  next
    case False
    then have "RescaleMantissa H (huge v) ?shift col = Ret (huge x)" using r by (auto simp: x_def)
    with w CheckMantissa_Ret [OF assms(3,4) half [OF False]] f show ?thesis by (simp add: ScatterToBcp_decimal_def)
  qed
qed

end

subsection \<open>The fast kernel\<close>

lemma bind_res_assoc: "bind_res (bind_res r f) g = bind_res r (\<lambda>x. bind_res (f x) g)"
  by (cases r) simp_all

lemma NegateMag128_huge: "in_i128 x \<Longrightarrow> in_i128 (- x) \<Longrightarrow> NegateMag128 (huge x) = huge (- x)"
proof -
  define l u where "l = x mod 2 ^ 64" and "u = x div 2 ^ 64"
  have x: "x = u * 2 ^ 64 + l" "0 \<le> l" "l < 2 ^ 64" by (simp_all add: l_def u_def)
  have low: "(word_of_int x :: u64) = word_of_int l" by (rule word_uint_eqI) (simp only: uint_word_of_int l_def, simp)
  have zero: "(word_of_int l :: u64) = 0 \<longleftrightarrow> l = 0" using x(2,3) by (auto simp: word_uint_eq_iff uint_word_of_int)
  have "- x div 2 ^ 64 = - u - 1 + (if l = 0 then 1 else 0)"
    using x(2,3) by (intro int_div_pos_eq [where r = "if l = 0 then 0 else 2 ^ 64 - l"]) (auto simp: x(1))
  moreover have "x div 18446744073709551616 = u" by (simp add: u_def)
  ultimately show ?thesis by (simp add: NegateMag128_def huge_def low zero not_eq_complement)
qed

lemma sint_small:
  "in_i32 v \<Longrightarrow> sint (word_of_int v :: u32) = v" "in_i64 v \<Longrightarrow> sint (word_of_int v :: u64) = v"
  "- (2 ^ 15) \<le> v \<Longrightarrow> v < 2 ^ 15 \<Longrightarrow> sint (word_of_int v :: u16) = v"
  by (simp_all add: signed_of_int signed_take_bit_int_eq_self)

lemma ScatterOne_payload:
  assumes "in_i128 v" "in_i128 (- v)" "mag \<le> 16" "mag = 4 \<longrightarrow> in_i32 v" "mag = 8 \<longrightarrow> in_i64 v"
  shows "ScatterOne mag v = (if v < 0 then 0 else 1) # le_bytes mag \<bar>v\<bar>"
proof -
  have words: "le_bytes 4 (uint (word_of_int y :: u32)) = le_bytes 4 y" "le_bytes 8 (uint (word_of_int y :: u64)) = le_bytes 8 y" for y
    using le_bytes_mod [of 4 y] le_bytes_mod [of 8 y] by (simp_all add: uint_word_of_int)
  have neg: "sint (hg_upper (huge v)) < 0 \<longleftrightarrow> v < 0" using assms(1) by (simp flip: hvalue_neg_iff)
  have mags: "map (huge_byte (huge \<bar>v\<bar>)) [0..<mag] = le_bytes mag \<bar>v\<bar>"
    using assms by (intro huge_bytes) (auto simp: abs_if)
  have "(if v < 0 then NegateMag128 (huge v) else huge v) = huge \<bar>v\<bar>"
    using assms(1,2) NegateMag128_huge [of v] by (simp add: abs_if)
  then show ?thesis
    using assms(4,5) mags words [of "- v"] words [of v]
    by (auto simp: ScatterOne_def Let_def neg sint_small)
qed


context hugeint_laws begin

lemma fast_row:
  assumes "stored pt v" "pt \<in> {PT_INT16, PT_INT32, PT_INT64, PT_INT128}" "GetTypeIdSize pt \<le> GetDecimalByteSize p - 1"
    "in_i128 (- v)"
  shows "ScatterFast_value (GetDecimalByteSize p) v = Ret (of_nat (GetDecimalByteSize p) # decimal_payload v p)"
proof -
  define mag where "mag = GetDecimalByteSize p - 1"
  have i: "in_i128 v" using assms(1,2) by auto
  have m: "(if GetDecimalByteSize p = 5 then 4 else if GetDecimalByteSize p = 9 then 8 else if GetDecimalByteSize p = 13 then 12 else 16) = mag"
    "mag \<le> 16" by (simp_all add: GetDecimalByteSize_def mag_def)
  have "mag = 4 \<longrightarrow> in_i32 v" "mag = 8 \<longrightarrow> in_i64 v" using assms(1-3) unfolding mag_def [symmetric] by auto
  with ScatterOne_payload [OF i assms(4) m(2)] show ?thesis
    unfolding ScatterFast_value_def m(1) by (simp add: decimal_payload_def mag_def)
qed

lemma decimal_kernels:
  assumes "stored (lt_physical src) v" "lt_physical src \<in> {PT_INT16, PT_INT32, PT_INT64, PT_INT128, PT_UINT64}"
    "lt_id src = DECIMAL_ID \<Longrightarrow> lt_width src \<le> 38 \<and> \<bar>v\<bar> < 10 ^ unat (lt_width src)"
  shows "ScatterChunk_decimal H src col v = EncodeToBcp_decimal H src col v []"
proof (cases "decimal_fast src col \<and> lt_physical src \<noteq> PT_UINT64")
  case False
  then have "ScatterChunk_decimal H src col v = ScatterGeneral_value H (lt_physical src)
      (uint (bc_scale col) - SourceScale src) (GetDecimalByteSize (bc_precision col)) col v"
    using assms(2) by (auto simp: ScatterChunk_decimal_def Let_def)
  moreover have "Widen (lt_physical src) v = Ret (ToHuge (lt_physical src) v)" using assms(2) by (auto simp: Widen_def ToHuge_def)
  ultimately show ?thesis
    by (simp add: ScatterGeneral_value_def EncodeToBcp_decimal_def ScatterToBcp_decimal_def Let_def bind_res_assoc)
next
  case True
  let ?p = "bc_precision col"
  from True assms(3) have d: "lt_width src \<le> 38" "\<bar>v\<bar> < 10 ^ unat (lt_width src)" "lt_width src \<le> ?p"
    "uint (bc_scale col) - SourceScale src = 0" by (auto simp: decimal_fast_def)
  have i: "in_i128 v" "in_i128 (- v)" using decimal_in_i128 [OF d(1,2)] by (auto simp: abs_if split: if_splits)
  have "(10::int) ^ unat (lt_width src) \<le> 10 ^ unat ?p" using d(3) by (intro power_increasing) (simp_all add: word_le_nat_alt)
  with d(2) have "\<bar>v\<bar> < 10 ^ unat ?p" by linarith
  then have "CheckMantissaFitsPrecision H (huge v) col = Ret ()"
    using CheckMantissa_Ret [OF _ _ i(1), of col] by (cases "?p = 0 \<or> ?p > 38") (auto simp: CheckMantissaFitsPrecision_def)
  then have "EncodeToBcp_decimal H src col v [] = Ret (of_nat (GetDecimalByteSize ?p) # decimal_payload v ?p)"
    using Widen_Ret [OF assms(1,2)] d(4) after_check [OF i, of ?p]
    by (simp add: EncodeToBcp_decimal_def ScatterToBcp_decimal_def RescaleMantissa_def)
  moreover have "ScatterChunk_decimal H src col v = ScatterFast_value (GetDecimalByteSize ?p) v"
    using True assms(2) by (auto simp: ScatterChunk_decimal_def Let_def)
  ultimately show ?thesis using fast_row [OF assms(1) _ _ i(2), of ?p] True assms(2) by (auto simp: decimal_fast_def)
qed

end

subsection \<open>Decimals survive bulk load\<close>

text \<open>The decoder narrows to the storage of the precision without loss.\<close>

lemma narrow:
  "(ucast (word_of_int x :: u64) :: u16) = word_of_int x" "(ucast (word_of_int x :: u64) :: u32) = word_of_int x"
  by (rule bit_word_eqI, auto simp: bit_unsigned_iff bit_word_of_int_iff)+

lemma decode_payload:
  assumes "hugeint_laws H" "p \<noteq> 0" "p \<le> 38" "\<bar>x\<bar> < (10::int) ^ unat p"
  shows "DecodeFromTds_decimal H (decimal_payload x p) p = Ret x"
proof -
  have p: "1 \<le> p" using assms(2) by (simp add: word_le_nat_alt Suc_le_eq unat_gt_0)
  note c = hugeint_laws.ConvertDecimal_payload [OF assms(1) p assms(3,4)]
  have i: "in_i128 x" using fits_i128 [OF assms(2-4)] by simp
  have le: "\<bar>x\<bar> < 10 ^ k" if "unat p \<le> k" for k
    using assms(4) power_increasing [OF that, of "10::int"] by linarith
  have "sint (ucast (hg_lower (huge x)) :: u16) = x" if "p \<le> 4"
    using le [of 4] that by (simp add: huge_def word_le_nat_alt narrow sint_small)
  moreover have "sint (ucast (hg_lower (huge x)) :: u32) = x" if "p \<le> 9"
    using le [of 9] that unfolding huge_def by (simp add: word_le_nat_alt narrow, intro sint_small) auto
  moreover have "sint (hg_lower (huge x)) = x" if "p \<le> 18"
    using le [of 18] that unfolding huge_def by (simp add: word_le_nat_alt, intro sint_small) auto
  ultimately show ?thesis using c i by (simp add: DecodeFromTds_decimal_def)
qed

text \<open>C13: a DECIMAL or integer value bulk-loaded into a DECIMAL column is rescaled to the column's scale, exactly when the
  scale grows and rounded half away from zero when it shrinks. When the result has at most the column's precision in
  digits, the bytes written are read back by the row reader and decoded to exactly that value; when it has more the
  encoder throws and never writes an out-of-range mantissa.\<close>

theorem decimal_roundtrip:
  assumes "hugeint_laws H" "stored (lt_physical src) v"
    "lt_physical src \<in> {PT_INT16, PT_INT32, PT_INT64, PT_INT128, PT_UINT64}"
    "bc_precision col \<noteq> 0" "bc_precision col \<le> 38" "\<bar>uint (bc_scale col) - SourceScale src\<bar> \<le> 38"
    "type_id c = TDS_TYPE_DECIMAL \<or> type_id c = TDS_TYPE_NUMERIC" "precision c = bc_precision col"
    "x = rescaled v (uint (bc_scale col) - SourceScale src)"
  shows "if \<bar>x\<bar> < 10 ^ unat (bc_precision col)
    then \<exists>bytes payload. EncodeToBcp_decimal H src col v buf = Ret (buf @ bytes) \<and>
      ReadValue c (bytes @ rest) = Ret (length bytes, payload, False) \<and> DecodeFromTds_decimal H payload (precision c) = Ret x
    else \<exists>msg. EncodeToBcp_decimal H src col v buf = Throw msg"
proof (cases "\<bar>x\<bar> < 10 ^ unat (bc_precision col)")
  case True
  let ?p = "bc_precision col"
  let ?bytes = "of_nat (GetDecimalByteSize ?p) # decimal_payload x ?p"
  have "EncodeToBcp_decimal H src col v buf = Ret (buf @ ?bytes)"
    using hugeint_laws.Scatter_Ret(1) [OF assms(1-6)] True by (simp add: EncodeToBcp_decimal_def assms(9))
  moreover have "ReadValue c (?bytes @ rest) = Ret (length ?bytes, decimal_payload x ?p, False)"
    using ReadValue_decimal [OF assms(7)] by simp
  moreover have "DecodeFromTds_decimal H (decimal_payload x ?p) (precision c) = Ret x"
    unfolding assms(8) using assms(1,4,5) True by (rule decode_payload)
  ultimately show ?thesis using True by auto
next
  case False
  with hugeint_laws.Scatter_Ret(2) [OF assms(1-6)] show ?thesis by (auto simp: EncodeToBcp_decimal_def assms(9))
qed

definition decimal_21_1 :: LogicalType where
  "decimal_21_1 = \<lparr> lt_id = DECIMAL_ID, lt_physical = PT_INT128, lt_width = 21, lt_scale = 1 \<rparr>"

definition numeric_18_2 :: BCPColumnMetadata where
  "numeric_18_2 = \<lparr> bc_name = ''price'', bc_duckdb_type = decimal_21_1, bc_tds_type_token = 0x6C, bc_max_length = 9,
     bc_precision = 18, bc_scale = 2, bc_nullable = True,
     bc_collation = [0x09, 0x04, 0xD0, 0x00, 0x34], bc_collation_name = [], bc_null_only_source = False \<rparr>"

text \<open>The value 1.5 of a DECIMAL(21,1) arrives as 1.50 in a DECIMAL(18,2).\<close>

theorem decimal_roundtrip_witness:
  "\<exists>bytes payload. EncodeToBcp_decimal exact_ops decimal_21_1 numeric_18_2 15 [] = Ret ([] @ bytes) \<and>
     ReadValue (fresh_column \<lparr> type_id := TDS_TYPE_DECIMAL, precision := 18 \<rparr>) (bytes @ [7]) = Ret (length bytes, payload, False) \<and>
     DecodeFromTds_decimal exact_ops payload 18 = Ret 150"
  using decimal_roundtrip [OF exact.hugeint_laws_axioms, of decimal_21_1 15 numeric_18_2
      "fresh_column \<lparr> type_id := TDS_TYPE_DECIMAL, precision := 18 \<rparr>" 150 "[]" "[7]"]
  by (simp add: decimal_21_1_def numeric_18_2_def SourceScale_def rescaled_def)

text \<open>C14: the columnar kernels write for every source storage type, and for every value the type of the source admits,
  exactly the bytes the row path writes, and throw exactly when it throws. So the fast kernel, which checks nothing, is
  chosen only where nothing has to be checked.\<close>

theorem decimal_kernels_agree:
  assumes "hugeint_laws H" "stored (lt_physical src) v"
    "lt_physical src \<in> {PT_INT16, PT_INT32, PT_INT64, PT_INT128, PT_UINT64}"
    "lt_id src = DECIMAL_ID \<Longrightarrow> lt_width src \<le> 38 \<and> \<bar>v\<bar> < 10 ^ unat (lt_width src)"
  shows "ScatterChunk_decimal H src col v = EncodeToBcp_decimal H src col v []"
  using assms by (rule hugeint_laws.decimal_kernels)

definition decimal_19_0 :: LogicalType where
  "decimal_19_0 = \<lparr> lt_id = DECIMAL_ID, lt_physical = PT_INT128, lt_width = 19, lt_scale = 0 \<rparr>"

text \<open>The source DECIMAL(19,0), whose magnitude reaches the sign bit of 64.\<close>

theorem decimal_kernels_agree_witness:
  "ScatterChunk_decimal exact_ops decimal_19_0 (numeric_18_2 \<lparr> bc_precision := 19, bc_scale := 0 \<rparr>) 9223372036854775808 =
   EncodeToBcp_decimal exact_ops decimal_19_0 (numeric_18_2 \<lparr> bc_precision := 19, bc_scale := 0 \<rparr>) 9223372036854775808 []"
  by (rule decimal_kernels_agree [OF exact.hugeint_laws_axioms]) (simp_all add: decimal_19_0_def)

end
