(* ===== verification/Datetime_Codec.thy ===== *)
theory Datetime_Codec
  imports Bcp_Encoding Bcp_Column
begin

text \<open>
  The temporal codec, \<open>src/codec/datetime_codec.cpp\<close>: splitting a timestamp of any unit into the time and date fields of
  DATETIME2, the way back, the decoder of a temporal column, the encoder of the row path and the payloads of
  the columnar kernels. The reference for the narrowing conversions is \<open>to_scale\<close>: the nearest tick of the target
  scale on the whole time line, so that a carry past midnight needs no case of its own.
\<close>

subsection \<open>Units\<close>

definition SECONDS_PER_DAY :: int where
  "SECONDS_PER_DAY = 86400"

fun TicksPerSecondFor :: "LogicalTypeId \<Rightarrow> int res" where
  "TicksPerSecondFor TIMESTAMP_SEC = Ret 1"
| "TicksPerSecondFor TIMESTAMP_MS = Ret 1000"
| "TicksPerSecondFor TIMESTAMP_US = Ret 1000000"
| "TicksPerSecondFor TIMESTAMP_TZ = Ret 1000000"
| "TicksPerSecondFor TIMESTAMP_NS = Ret 1000000000"
| "TicksPerSecondFor _ = Throw ''TicksPerSecondFor: not a TIMESTAMP variant''"

definition Pow10 :: "byte \<Rightarrow> int res" where
  "Pow10 e = i64 (times10 (unat e) 1)"

subsection \<open>Splitting a timestamp\<close>

text \<open>Days since 1970 and the ticks within the day.\<close>

definition split_day :: "int \<Rightarrow> int \<Rightarrow> (int \<times> int) res" where
  "split_day raw per_day =
     (if raw \<ge> 0 then Ret (raw sdiv per_day, raw smod per_day)
      else bind_res (i64 (raw - per_day)) (\<lambda>a. let days = (a + 1) sdiv per_day in
           bind_res (i64 (days * per_day)) (\<lambda>start. Ret (days, raw - start))))"

definition ComputeDatetime2Components :: "int \<Rightarrow> LogicalTypeId \<Rightarrow> byte \<Rightarrow> (u64 \<times> u32) res" where
  "ComputeDatetime2Components raw_ticks source_type target_scale =
     bind_res (TicksPerSecondFor source_type) (\<lambda>source_per_sec.
     bind_res (split_day raw_ticks (source_per_sec * SECONDS_PER_DAY)) (\<lambda>(days, sub_day_ticks).
     let date_value = (word_of_int (days + DAYS_FROM_0001_TO_EPOCH) :: u32)
     in bind_res (Pow10 target_scale) (\<lambda>target_per_sec.
        if target_per_sec \<ge> source_per_sec then
          bind_res (i64 (sub_day_ticks * (target_per_sec sdiv source_per_sec))) (\<lambda>t. Ret (word_of_int t, date_value))
        else
          let divisor = source_per_sec sdiv target_per_sec
          in bind_res (i64 (sub_day_ticks + divisor sdiv 2)) (\<lambda>rounded.
             let scaled = rounded sdiv divisor; target_per_day = target_per_sec * SECONDS_PER_DAY
             in Ret (if scaled \<ge> target_per_day then (0, date_value + 1) else (word_of_int scaled, date_value))))))"

subsection \<open>Reading DATETIME2\<close>

definition INT64_MAX :: int where "INT64_MAX = 9223372036854775807"
definition INT64_MIN :: int where "INT64_MIN = - 9223372036854775808"

definition Datetime2WireToNativeUnit :: "byte list \<Rightarrow> nat \<Rightarrow> byte \<Rightarrow> LogicalTypeId \<Rightarrow> int option res" where
  "Datetime2WireToNativeUnit data time_len wire_scale target_type =
     bind_res (accum_le data time_len 0 0) (\<lambda>time_ticks. bind_res (rd_days data time_len) (\<lambda>days.
     let unix_days = days - DAYS_FROM_0001_TO_EPOCH
     in bind_res (Pow10 wire_scale) (\<lambda>wire_per_sec. bind_res (TicksPerSecondFor target_type) (\<lambda>target_per_sec.
        bind_res (if target_per_sec \<ge> wire_per_sec then i64 (time_ticks * (target_per_sec sdiv wire_per_sec))
                  else Ret (time_ticks sdiv (wire_per_sec sdiv target_per_sec))) (\<lambda>sub_day_ticks.
        let ticks_per_day = SECONDS_PER_DAY * target_per_sec
        in if unix_days > INT64_MAX sdiv ticks_per_day \<or> unix_days < INT64_MIN sdiv ticks_per_day then Ret None
           else bind_res (i64 (unix_days * ticks_per_day)) (\<lambda>days_ticks.
             if days_ticks > INT64_MAX - sub_day_ticks then Ret None
             else bind_res (i64 (days_ticks + sub_day_ticks)) (\<lambda>native. Ret (Some native))))))))"

definition Datetime2TimeByteLen :: "byte \<Rightarrow> nat" where
  "Datetime2TimeByteLen s = (if s \<le> 2 then 3 else if s \<le> 4 then 4 else 5)"

subsection \<open>Decoding a temporal column\<close>

definition FixedTemporalReadLen :: "ColumnMetadata \<Rightarrow> nat" where
  "FixedTemporalReadLen col =
     (let time_len = (if scale col \<le> 2 then 3 else if scale col \<le> 4 then 4 else 5); t = type_id col
      in if t = TDS_TYPE_DATE then 3 else if t = TDS_TYPE_TIME then time_len else if t = TDS_TYPE_DATETIME then 8
         else if t = TDS_TYPE_SMALLDATETIME then 4 else if t = TDS_TYPE_DATETIME2 then 3 + time_len
         else if t = TDS_TYPE_DATETIMEOFFSET then 5 + time_len else 0)"

datatype temporal = VDate int | VTime int | VTimestamp int | VNull

definition hex_digit :: "nat \<Rightarrow> char" where
  "hex_digit n = ''0123456789ABCDEF'' ! n"

definition hex02 :: "byte \<Rightarrow> string" where
  "hex02 b = [hex_digit (unat b div 16), hex_digit (unat b mod 16)]"

definition temporal_short_message :: "nat \<Rightarrow> nat \<Rightarrow> byte \<Rightarrow> string" where
  "temporal_short_message got required t =
     ''MSSQL: temporal column arrived with '' @ to_string got @ '' bytes where '' @ to_string required @
     '' were required (TDS type 0x'' @ hex02 t @ ''). The TDS stream is malformed.''"

definition DecodeFromTds_datetime :: "byte list \<Rightarrow> ColumnMetadata \<Rightarrow> LogicalTypeId \<Rightarrow> temporal res" where
  "DecodeFromTds_datetime bytes col target =
     (let required = FixedTemporalReadLen col; t = type_id col
      in if required \<noteq> 0 \<and> length bytes < required then Throw (temporal_short_message (length bytes) required t)
         else if t = TDS_TYPE_DATE then map_res VDate (ConvertDate bytes)
         else if t = TDS_TYPE_TIME then map_res VTime (ConvertTime bytes (scale col))
         else if t = TDS_TYPE_DATETIME then map_res VTimestamp (ConvertDatetime bytes)
         else if t = TDS_TYPE_SMALLDATETIME then map_res VTimestamp (ConvertSmallDatetime bytes)
         else if t = TDS_TYPE_DATETIME2 then
           map_res (\<lambda>native. case native of None \<Rightarrow> VNull | Some v \<Rightarrow> VTimestamp v)
             (Datetime2WireToNativeUnit bytes (Datetime2TimeByteLen (scale col)) (scale col) target)
         else if t = TDS_TYPE_DATETIMEN then
           (if length bytes = 8 then map_res VTimestamp (ConvertDatetime bytes)
            else if length bytes = 4 then map_res VTimestamp (ConvertSmallDatetime bytes)
            else Throw (''Invalid DATETIMEN length: '' @ to_string (length bytes)))
         else if t = TDS_TYPE_DATETIMEOFFSET then map_res VTimestamp (ConvertDatetimeOffset bytes (scale col))
         else Throw (''codec::datetime::DecodeFromTds: unexpected TDS type 0x'' @ hex02 t))"

subsection \<open>Encoding, one value at a time\<close>

definition EncodeToBcp_datetime ::
  "LogicalTypeId \<Rightarrow> LogicalTypeId \<Rightarrow> byte \<Rightarrow> int \<Rightarrow> byte list \<Rightarrow> byte list res" where
  "EncodeToBcp_datetime source_id target_id sc v buf =
     (if target_id = DATE_ID then EncodeDate buf v
      else if target_id = TIME_ID then EncodeTime buf v sc
      else if target_id \<in> {TIMESTAMP_US, TIMESTAMP_MS, TIMESTAMP_NS, TIMESTAMP_SEC} then
        (if source_id = DATE_ID then
           bind_res (i32 (v + DAYS_FROM_0001_TO_EPOCH)) (\<lambda>days. Ret (EncodeDatetime2Raw buf 0 (word_of_int days) sc))
         else bind_res (ComputeDatetime2Components v source_id sc) (\<lambda>(time_value, date_value).
                Ret (EncodeDatetime2Raw buf time_value date_value sc)))
      else if target_id = TIMESTAMP_TZ then
        bind_res (ComputeDatetime2Components v source_id sc) (\<lambda>(time_value, date_value).
          Ret (EncodeDatetimeOffsetRaw buf time_value date_value 0 sc))
      else Throw ''codec::datetime::EncodeToBcp: unexpected DuckDB type'')"

subsection \<open>The payloads of the columnar kernels\<close>

text \<open>Each kernel writes one value at its position: the length byte and the fields, through fixed-width copies.\<close>

definition dt2_fields :: "bool \<Rightarrow> int \<Rightarrow> int \<Rightarrow> int \<Rightarrow> int \<Rightarrow> int \<Rightarrow> (u64 \<times> u32) res" where
  "dt2_fields upscale per_day factor half per_day_target raw =
     bind_res (split_day raw per_day) (\<lambda>(days, sub).
     let date_value = (word_of_int (days + DAYS_FROM_0001_TO_EPOCH) :: u32)
     in if upscale then bind_res (i64 (sub * factor)) (\<lambda>t. Ret (word_of_int t, date_value))
        else bind_res (i64 (sub + half)) (\<lambda>rounded.
          let scaled = rounded sdiv factor
          in Ret (if scaled \<ge> per_day_target then (0, date_value + 1) else (word_of_int scaled, date_value))))"

definition ScatterDt2_value :: "bool \<Rightarrow> nat \<Rightarrow> int \<Rightarrow> int \<Rightarrow> int \<Rightarrow> int \<Rightarrow> nat \<Rightarrow> int \<Rightarrow> byte list res" where
  "ScatterDt2_value upscale time_bytes per_day factor half per_day_target total_size raw =
     bind_res (dt2_fields upscale per_day factor half per_day_target raw) (\<lambda>(time_value, date_value).
       Ret ([of_nat total_size] @ le_bytes time_bytes (uint time_value) @ le_bytes 3 (uint date_value)))"

definition ScatterDtOffset_value :: "bool \<Rightarrow> nat \<Rightarrow> int \<Rightarrow> int \<Rightarrow> int \<Rightarrow> int \<Rightarrow> nat \<Rightarrow> int \<Rightarrow> byte list res" where
  "ScatterDtOffset_value upscale time_bytes per_day factor half per_day_target total_size raw =
     bind_res (dt2_fields upscale per_day factor half per_day_target raw) (\<lambda>(time_value, date_value).
       Ret ([of_nat total_size] @ le_bytes time_bytes (uint time_value) @ le_bytes 3 (uint date_value) @ [0, 0]))"

definition ScatterTime_value :: "nat \<Rightarrow> bool \<Rightarrow> int \<Rightarrow> int \<Rightarrow> int \<Rightarrow> int \<Rightarrow> byte list res" where
  "ScatterTime_value time_bytes upscale factor half per_day micros =
     bind_res (if upscale then i64 (micros * factor) else bind_res (i64 (micros + half)) (\<lambda>r. Ret (r sdiv factor))) (\<lambda>t.
       let ticks = (word_of_int t :: u64);
           ticks = (if ticks \<ge> word_of_int per_day then word_of_int per_day - 1 else ticks)
       in Ret ([of_nat time_bytes] @ le_bytes time_bytes (uint ticks)))"

definition ScatterDate_value :: "int \<Rightarrow> byte list res" where
  "ScatterDate_value v = bind_res (i32 (v + DAYS_FROM_0001_TO_EPOCH)) (\<lambda>days. Ret ([3] @ le_bytes 3 days))"

definition ScatterDateAsDt2_value :: "nat \<Rightarrow> int \<Rightarrow> byte list res" where
  "ScatterDateAsDt2_value time_size v =
     bind_res (i32 (v + DAYS_FROM_0001_TO_EPOCH)) (\<lambda>days.
       Ret ([of_nat (time_size + 3)] @ replicate time_size 0 @ le_bytes 3 days))"

text \<open>The choice of the kernel and of its column constants.\<close>

definition ScatterChunk_datetime :: "LogicalTypeId \<Rightarrow> LogicalTypeId \<Rightarrow> byte \<Rightarrow> int \<Rightarrow> byte list res" where
  "ScatterChunk_datetime source_id target_id sc v =
     (if target_id = DATE_ID then ScatterDate_value v
      else if target_id = TIME_ID then
        bind_res (Pow10 sc) (\<lambda>target_per_sec.
          let up = (target_per_sec \<ge> 1000000);
              f = (if up then target_per_sec sdiv 1000000 else 1000000 sdiv target_per_sec);
              h = (if up then 0 else f sdiv 2); per_day = target_per_sec * SECONDS_PER_DAY
          in ScatterTime_value (GetTimeByteSize sc) up f h per_day v)
      else if source_id = DATE_ID then ScatterDateAsDt2_value (GetTimeByteSize sc) v
      else
        bind_res (TicksPerSecondFor source_id) (\<lambda>source_per_sec. bind_res (Pow10 sc) (\<lambda>target_per_sec.
          let per_day = source_per_sec * SECONDS_PER_DAY; upscale = (target_per_sec \<ge> source_per_sec);
              factor = (if upscale then target_per_sec sdiv source_per_sec else source_per_sec sdiv target_per_sec);
              half = (if upscale then 0 else factor sdiv 2); per_day_target = target_per_sec * SECONDS_PER_DAY;
              time_size = GetTimeByteSize sc
          in if target_id = TIMESTAMP_TZ then
               ScatterDtOffset_value upscale time_size per_day factor half per_day_target (time_size + 3 + 2) v
             else ScatterDt2_value upscale time_size per_day factor half per_day_target (time_size + 3) v)))"

subsection \<open>The columnar kernels write what the row path writes\<close>

lemma Datetime2TimeByteLen_eq: "Datetime2TimeByteLen s = GetTimeByteLength s"
  by (simp add: Datetime2TimeByteLen_def GetTimeByteLength_def)

lemma Pow10_Ret: "s \<le> 7 \<Longrightarrow> Pow10 s = Ret (10 ^ unat s)"
proof -
  assume "s \<le> 7"
  then have "(10::int) ^ unat s \<le> 10 ^ 7" by (intro power_increasing) (simp_all add: word_le_nat_alt)
  then have "i64 (10 ^ unat s) = Ret (10 ^ unat s)" by (intro i64_nonneg) simp_all
  then show ?thesis by (simp add: Pow10_def times10_eq)
qed

lemma le_bytes_uint: "8 * n \<le> LENGTH('a::len) \<Longrightarrow> le_bytes n (uint (word_of_int x :: 'a word)) = le_bytes n x"
proof -
  assume "8 * n \<le> LENGTH('a)"
  then have "(2::int) ^ (8 * n) dvd 2 ^ LENGTH('a)" by (rule le_imp_power_dvd)
  then have "x mod 2 ^ LENGTH('a) mod 2 ^ (8 * n) = x mod 2 ^ (8 * n)" by (rule mod_mod_cancel)
  then show ?thesis unfolding uint_word_of_int by (metis le_bytes_mod)
qed

lemma le_bytes_zero: "le_bytes n 0 = replicate n 0"
  by (rule nth_equalityI) (simp_all add: le_bytes_def byte_of_def)

lemma components_kernel:
  assumes "TicksPerSecondFor source = Ret u" "s \<le> 7"
  shows "ComputeDatetime2Components v source s =
    (let t = 10 ^ unat s; up = (t \<ge> u); factor = (if up then t sdiv u else u sdiv t)
     in dt2_fields up (u * SECONDS_PER_DAY) factor (if up then 0 else factor sdiv 2) (t * SECONDS_PER_DAY) v)"
  using assms
  by (cases "split_day v (u * SECONDS_PER_DAY)")
    (auto simp: ComputeDatetime2Components_def dt2_fields_def Pow10_Ret Let_def)

lemma ScatterTime_value_Ret:
  assumes "(if up then i64 (v * f) else bind_res (i64 (v + h)) (\<lambda>r. Ret (r sdiv f))) = Ret x"
    and "0 \<le> x" "x < 2 ^ 63" "0 < d" "d < 2 ^ 63" "n \<le> 8"
  shows "ScatterTime_value n up f h d v = Ret (of_nat n # le_bytes n (min x (d - 1)))"
proof -
  have "uint (word_of_int x :: u64) = x" "uint (word_of_int d :: u64) = d"
    using assms by (subst uint_word_of_int, simp)+
  then have "(word_of_int d \<le> (word_of_int x :: u64)) = (d \<le> x)" by (simp add: word_le_def)
  then have c: "(if (word_of_int x :: u64) \<ge> word_of_int d then word_of_int d - 1 else word_of_int x) = (word_of_int (min x (d - 1)) :: u64)"
    by (auto simp: min_def)
  have "8 * n \<le> LENGTH(64)" using assms by simp
  from le_bytes_uint [OF this] c assms(1) show ?thesis by (simp add: ScatterTime_value_def Let_def)
qed

lemma time_kernel:
  assumes "0 \<le> v" "v \<le> 86400 * 10 ^ 6" "s \<le> 7" and "s = 7 \<Longrightarrow> v < 86400 * 10 ^ 6"
  shows "ScatterChunk_datetime source TIME_ID s v = EncodeTime [] v s"
proof -
  have le: "unat s \<le> 7" using assms(3) by (simp add: word_le_nat_alt)
  let ?n = "GetTimeByteLength s" and ?t = "10 ^ unat s :: int" and ?d = "10 ^ (6 - unat s) :: int"
  have day: "0 < 86400 * ?t" "86400 * ?t < 2 ^ 63"
  proof -
    have "?t \<le> 10 ^ 7" using le by (intro power_increasing) simp_all
    then show "86400 * ?t < 2 ^ 63" by simp
  qed simp
  note n = GetTimeByteLength_bounds(2) [of s]
  note enc = EncodeTime_Ret [OF assms(1-3), of "[]"]
  have kern: "ScatterTime_value ?n up f h (86400 * ?t) v = Ret (of_nat ?n # le_bytes ?n (min x (86400 * ?t - 1)))"
    if "(if up then i64 (v * f) else bind_res (i64 (v + h)) (\<lambda>r. Ret (r sdiv f))) = Ret x" "0 \<le> x" "x < 2 ^ 63" for up f h x
    using ScatterTime_value_Ret [OF that day] n by simp
  consider "unat s = 7" | "unat s = 6" | "unat s < 6" using le by linarith
  then show ?thesis
  proof cases
    case 1
    then have "s = 7" by (simp add: word_unat_eq_iff)
    then have lt: "v < 86400 * 10 ^ 6" by (rule assms(4))
    from 1 have "time_ticks v (unat s) = v * 10" by (simp add: time_ticks_def)
    moreover have "i64 (v * 10) = Ret (v * 10)" using assms by (intro i64_nonneg) simp_all
    ultimately show ?thesis using 1 assms(1,3) lt enc kern [of True 10 0 "v * 10"]
      by (simp add: ScatterChunk_datetime_def Pow10_Ret GetTimeByteSize_eq SECONDS_PER_DAY_def sdiv_nonneg min_def)
  next
    case 2
    then have "time_ticks v (unat s) = min v (86400 * 10 ^ 6 - 1)" by (simp add: time_ticks_def)
    moreover have "i64 v = Ret v" using assms by (intro i64_nonneg) simp_all
    ultimately show ?thesis using 2 assms enc kern [of True 1 0 v]
      by (simp add: ScatterChunk_datetime_def Pow10_Ret GetTimeByteSize_eq SECONDS_PER_DAY_def sdiv_nonneg min_def)
  next
    case 3
    let ?q = "(v + ?d div 2) div ?d"
    have "?t * ?d = 10 ^ 6" using 3 by (simp flip: power_add)
    then have f: "1000000 sdiv ?t = ?d"
      by (simp add: sdiv_nonneg) (metis nonzero_mult_div_cancel_left power_not_zero zero_neq_numeral)
    have "?t \<le> 10 ^ 5" using 3 by (intro power_increasing) simp_all
    then have low: "\<not> 1000000 \<le> ?t" by simp
    have d: "0 < ?d" "?d \<le> 10 ^ 6" by (simp, intro power_increasing, simp_all)
    then have h: "?d div 2 \<le> ?d" "0 \<le> ?d div 2" using zdiv_mono2 [of ?d 1 2] by simp_all
    with d assms have r: "0 \<le> v + ?d div 2" "v + ?d div 2 < 2 ^ 62" by simp_all
    have q: "0 \<le> ?q" "?q < 2 ^ 63"
      using r d zdiv_mono2 [of "v + ?d div 2" 1 ?d] by (simp_all add: pos_imp_zdiv_nonneg_iff)
    have "i64 (v + ?d div 2) = Ret (v + ?d div 2)" using r by (intro i64_nonneg) simp_all
    moreover have "(v + ?d div 2) sdiv ?d = ?q" using r(1) d(1) by (rule sdiv_nonneg)
    ultimately have "(if False then i64 (v * ?d) else bind_res (i64 (v + ?d div 2)) (\<lambda>r. Ret (r sdiv ?d))) = Ret ?q"
      by (simp only: if_False bind_res.simps)
    from kern [OF this q] have "ScatterTime_value ?n False ?d (?d div 2) (86400 * ?t) v =
        Ret (of_nat ?n # le_bytes ?n (min ?q (86400 * ?t - 1)))" .
    moreover have "time_ticks v (unat s) = min ?q (86400 * ?t - 1)" using 3 by (simp add: time_ticks_def)
    ultimately have "ScatterTime_value ?n False ?d (?d div 2) (86400 * ?t) v = Ret (of_nat ?n # le_bytes ?n (time_ticks v (unat s)))"
      by (simp only:)
    moreover have "?d sdiv 2 = ?d div 2" by (simp add: sdiv_nonneg)
    ultimately show ?thesis using assms(3) enc f low
      by (simp add: ScatterChunk_datetime_def Pow10_Ret GetTimeByteSize_eq SECONDS_PER_DAY_def Let_def mult.commute [of _ 86400])
  qed
qed

lemma le_bytes_days: "le_bytes 3 (uint (word_of_int v + word_of_int w :: u32)) = le_bytes 3 (v + w)"
  using le_bytes_uint [of 3 "v + w", where 'a = 32] by simp

definition temporal_pair :: "LogicalTypeId \<Rightarrow> LogicalTypeId \<Rightarrow> bool" where
  "temporal_pair source target \<longleftrightarrow> target = DATE_ID \<or> target = TIME_ID \<or>
     target \<in> {TIMESTAMP_US, TIMESTAMP_MS, TIMESTAMP_NS, TIMESTAMP_SEC} \<or> target = TIMESTAMP_TZ \<and> source \<noteq> DATE_ID"

lemma kernels_agree:
  assumes "temporal_pair source target" "s \<le> 7"
    and "target = TIME_ID \<Longrightarrow> 0 \<le> v \<and> v \<le> 86400 * 10 ^ 6 \<and> (s = 7 \<longrightarrow> v < 86400 * 10 ^ 6)"
  shows "ScatterChunk_datetime source target s v = EncodeToBcp_datetime source target s v []"
proof -
  consider "target = DATE_ID" | "target = TIME_ID" | "target \<noteq> DATE_ID" "target \<noteq> TIME_ID" "source = DATE_ID"
    | "target \<noteq> DATE_ID" "target \<noteq> TIME_ID" "source \<noteq> DATE_ID" by blast
  then show ?thesis
  proof cases
    case 1
    then show ?thesis
      by (cases "in_i32 (v + DAYS_FROM_0001_TO_EPOCH)")
        (simp_all add: ScatterChunk_datetime_def EncodeToBcp_datetime_def ScatterDate_value_def EncodeDate_def i32_def)
  next
    case 2
    with time_kernel [of v s source] assms show ?thesis by (simp add: EncodeToBcp_datetime_def)
  next
    case 3
    with assms show ?thesis
      by (cases "in_i32 (v + DAYS_FROM_0001_TO_EPOCH)")
        (auto simp: temporal_pair_def ScatterChunk_datetime_def EncodeToBcp_datetime_def EncodeDatetime2Raw_def Let_def
          ScatterDateAsDt2_value_def i32_def le_bytes_days le_bytes_zero)
  next
    case 4
    show ?thesis
    proof (cases "\<exists>u. TicksPerSecondFor source = Ret u")
      case True
      then obtain u where u: "TicksPerSecondFor source = Ret u" by blast
      from assms 4 show ?thesis
        by (auto simp: temporal_pair_def ScatterChunk_datetime_def EncodeToBcp_datetime_def u Pow10_Ret components_kernel [OF u]
            ScatterDt2_value_def ScatterDtOffset_value_def EncodeDatetime2Raw_def EncodeDatetimeOffsetRaw_def GetTimeByteSize_eq
            Let_def le_bytes_zero numeral_2_eq_2)
    next
      case False
      with assms 4 show ?thesis
        by (cases source) (auto simp: temporal_pair_def ScatterChunk_datetime_def EncodeToBcp_datetime_def ComputeDatetime2Components_def)
    qed
  qed
qed

subsection \<open>The reference for narrowing\<close>

lemma unit_power: "TicksPerSecondFor ty = Ret u \<Longrightarrow> \<exists>k \<le> 9. u = 10 ^ k"
proof -
  assume "TicksPerSecondFor ty = Ret u"
  then have "u = 10 ^ 0 \<or> u = 10 ^ 3 \<or> u = 10 ^ 6 \<or> u = 10 ^ 9" by (cases ty) auto
  then show ?thesis by (elim disjE) (rule exI, erule conjI [rotated], simp)+
qed

lemma split_day_Ret:
  assumes "0 < per_day" "- (2 ^ 63) \<le> raw - per_day" "raw < 2 ^ 63"
  shows "split_day raw per_day = Ret (raw div per_day, raw mod per_day)"
proof (cases "0 \<le> raw")
  case True
  with assms(1) show ?thesis by (simp add: split_day_def sdiv_nonneg smod_nonneg)
next
  case False
  have "raw div per_day * per_day \<le> raw" "raw - per_day < raw div per_day * per_day"
    using assms(1) div_mult_mod_eq [of raw per_day] pos_mod_sign [of per_day raw] pos_mod_bound [of per_day raw] by linarith+
  with False assms have "in_i64 (raw div per_day * per_day)" by linarith
  then have "i64 (raw div per_day * per_day) = Ret (raw div per_day * per_day)" by (rule i64_Ret)
  moreover have "i64 (raw - per_day) = Ret (raw - per_day)" using False assms by (intro i64_Ret) linarith
  moreover have "(raw - per_day + 1) sdiv per_day = raw div per_day" using False assms by (intro sdiv_floor) simp_all
  ultimately show ?thesis using False by (simp add: split_day_def Let_def minus_div_mult_eq_mod)
qed

text \<open>The ticks of scale \<open>s\<close> nearest to a timestamp counted in \<open>10 ^ k\<close> per second.\<close>

definition to_scale :: "nat \<Rightarrow> nat \<Rightarrow> int \<Rightarrow> int" where
  "to_scale k s raw = (if k \<le> s then raw * 10 ^ (s - k) else (raw + 10 ^ (k - s) div 2) div 10 ^ (k - s))"

abbreviation day_ticks :: "nat \<Rightarrow> int" where "day_ticks s \<equiv> 86400 * 10 ^ s"

lemma day_ticks_split: "s \<le> k \<Longrightarrow> day_ticks k = day_ticks s * 10 ^ (k - s)"
  by (simp flip: power_add)

lemma day_ticks_less: "s \<le> 9 \<Longrightarrow> 0 < day_ticks s \<and> day_ticks s < 2 ^ 50"
proof -
  assume "s \<le> 9"
  then have "(10::int) ^ s \<le> 10 ^ 9" by (intro power_increasing) simp_all
  then show ?thesis by simp
qed

lemma round_split:
  fixes days sub D d h :: int
  assumes "0 < d" "0 < D" "0 \<le> sub" "sub < D * d" "0 \<le> h" "h < d"
  shows "(days * (D * d) + sub + h) div d = days * D + (sub + h) div d" "0 \<le> (sub + h) div d" "(sub + h) div d \<le> D"
proof -
  have "days * (D * d) + sub + h = (sub + h) + (days * D) * d" by (simp add: algebra_simps)
  then show "(days * (D * d) + sub + h) div d = days * D + (sub + h) div d" using assms(1) by (simp only: div_mult_self1)
  show "0 \<le> (sub + h) div d" using assms by (simp add: pos_imp_zdiv_nonneg_iff)
  have "sub + h < (D + 1) * d" using assms by (simp add: algebra_simps)
  then show "(sub + h) div d \<le> D" using assms(1) div_mult_mod_eq [of "sub + h" d] pos_mod_sign [of d "sub + h"]
      mult_right_mono [of "D + 1" "(sub + h) div d" d] by linarith
qed

lemma carry_day:
  fixes days q D :: int
  assumes "0 < D" "0 \<le> q" "q \<le> D"
  shows "(days * D + q) div D = days + (if q \<ge> D then 1 else 0) \<and> (days * D + q) mod D = (if q \<ge> D then 0 else q)"
proof (cases "q < D")
  case True
  with assms show ?thesis by simp
next
  case False
  with assms have "q = D" by simp
  with assms show ?thesis by simp
qed

lemma components_to_scale:
  assumes "TicksPerSecondFor source = Ret (10 ^ k)" "k \<le> 9" "s \<le> 7"
    and "- (2 ^ 63) \<le> raw - day_ticks k" "raw < 2 ^ 63"
  shows "ComputeDatetime2Components raw source s =
    Ret (word_of_int (to_scale k (unat s) raw mod day_ticks (unat s)),
         word_of_int (to_scale k (unat s) raw div day_ticks (unat s) + DAYS_FROM_0001_TO_EPOCH))"
proof -
  let ?s = "unat s" and ?days = "raw div day_ticks k" and ?sub = "raw mod day_ticks k"
  have s: "?s \<le> 7" using assms(3) by (simp add: word_le_nat_alt)
  have pd: "10 ^ k * SECONDS_PER_DAY = day_ticks k" by (simp add: SECONDS_PER_DAY_def)
  have k: "0 < day_ticks k" "day_ticks k < 2 ^ 50" using day_ticks_less [OF assms(2)] by simp_all
  have ds: "0 < day_ticks ?s" "day_ticks ?s < 2 ^ 50" using day_ticks_less [of ?s] s by simp_all
  have sub: "0 \<le> ?sub" "?sub < day_ticks k" using k(1) by (rule pos_mod_sign, rule pos_mod_bound)
  note split = split_day_Ret [OF k(1) assms(4,5)]
  show ?thesis
  proof (cases "k \<le> ?s")
    case True
    let ?m = "10 ^ (?s - k) :: int"
    have m: "(10::int) ^ ?s = ?m * 10 ^ k" "0 < ?m" using True by (simp_all flip: power_add)
    then have up: "10 ^ k \<le> (10::int) ^ ?s" "10 ^ ?s sdiv (10::int) ^ k = ?m" by (simp_all add: power_increasing True sdiv_nonneg)
    have D: "day_ticks ?s = day_ticks k * ?m" using True by (rule day_ticks_split)
    have "?sub * ?m < day_ticks k * ?m" using sub m by (intro mult_strict_right_mono)
    then have "?sub * ?m < 2 ^ 50" using ds(2) [unfolded D] by (rule less_trans)
    moreover have "(2::int) ^ 50 < 2 ^ 63" by simp
    ultimately have "?sub * ?m < 2 ^ 63" by (rule less_trans)
    moreover have "0 \<le> ?sub * ?m" using sub m by simp
    ultimately have "i64 (?sub * ?m) = Ret (?sub * ?m)" by (intro i64_nonneg)
    moreover have "to_scale k ?s raw div day_ticks ?s = ?days" "to_scale k ?s raw mod day_ticks ?s = ?sub * ?m"
      unfolding D to_scale_def using True m by (simp_all add: div_mult_mult2 mod_mult_mult2)
    ultimately show ?thesis using up
      by (simp add: components_kernel [OF assms(1,3)] dt2_fields_def Let_def pd split)
  next
    case False
    let ?d = "10 ^ (k - ?s) :: int"
    have d: "(10::int) ^ k = 10 ^ ?s * ?d" "0 < ?d" using False by (simp_all flip: power_add)
    have big: "1 < ?d" using False by (intro one_less_power) simp_all
    have "(10::int) ^ ?s < 10 ^ k" using False by (intro power_strict_increasing) simp_all
    then have down1: "\<not> 10 ^ k \<le> (10::int) ^ ?s" by simp
    have "10 ^ k sdiv (10::int) ^ ?s = 10 ^ k div 10 ^ ?s" by (rule sdiv_nonneg) simp_all
    also have "\<dots> = ?d" unfolding d(1) by (rule nonzero_mult_div_cancel_left) simp
    finally have down: "\<not> 10 ^ k \<le> (10::int) ^ ?s" "10 ^ k sdiv (10::int) ^ ?s = ?d" using down1 by simp_all
    have D: "day_ticks k = day_ticks ?s * ?d" using False by (intro day_ticks_split) simp
    have h: "0 \<le> ?d div 2" "?d div 2 < ?d" "?d sdiv 2 = ?d div 2"
      using big d(2) int_div_less_self [of ?d 2] sdiv_nonneg [of ?d 2] by linarith+
    have "?d \<le> day_ticks k" unfolding D using d(2) ds(1) mult_right_mono [of 1 "day_ticks ?s" ?d] by linarith
    moreover have "(2::int) ^ 50 + 2 ^ 50 < 2 ^ 63" by simp
    ultimately have i: "i64 (?sub + ?d div 2) = Ret (?sub + ?d div 2)" using sub h k by (intro i64_nonneg) linarith+
    have sd: "(?sub + ?d div 2) sdiv ?d = (?sub + ?d div 2) div ?d" using sub h d by (intro sdiv_nonneg) linarith+
    have raw: "raw = ?days * (day_ticks ?s * ?d) + ?sub" unfolding D [symmetric] by (rule div_mult_mod_eq [symmetric])
    have sub3: "?sub < day_ticks ?s * ?d" using sub(2) by (simp only: D [symmetric])
    note r = round_split(1) [OF d(2) ds(1) sub(1) sub3 h(1,2), of ?days] round_split(2,3) [OF d(2) ds(1) sub(1) sub3 h(1,2)]
    have T: "to_scale k ?s raw = ?days * day_ticks ?s + (?sub + ?d div 2) div ?d"
      unfolding to_scale_def using False r(1) raw by (simp only: if_False)
    have parts: "to_scale k ?s raw div day_ticks ?s = ?days + (if (?sub + ?d div 2) div ?d \<ge> day_ticks ?s then 1 else 0)"
      "to_scale k ?s raw mod day_ticks ?s = (if (?sub + ?d div 2) div ?d \<ge> day_ticks ?s then 0 else (?sub + ?d div 2) div ?d)"
      unfolding T using carry_day [OF ds(1) r(2,3)] by blast+
    have pt: "10 ^ ?s * SECONDS_PER_DAY = day_ticks ?s" by (simp add: SECONDS_PER_DAY_def)
    have "ComputeDatetime2Components raw source s =
        Ret (if (?sub + ?d div 2) div ?d \<ge> day_ticks ?s then (0, word_of_int (?days + DAYS_FROM_0001_TO_EPOCH) + 1)
             else (word_of_int ((?sub + ?d div 2) div ?d), word_of_int (?days + DAYS_FROM_0001_TO_EPOCH)))"
      by (simp only: components_kernel [OF assms(1,3)] dt2_fields_def Let_def pd pt split down h(3) i sd bind_res.simps prod.case
          if_False refl)
    then show ?thesis unfolding parts by (simp add: add.commute add.left_commute)
  qed
qed

subsection \<open>Reading back\<close>

definition native_sub :: "nat \<Rightarrow> nat \<Rightarrow> int \<Rightarrow> int" where
  "native_sub k s t = (if s \<le> k then t * 10 ^ (k - s) else t div 10 ^ (s - k))"

lemma native_sub_bounds:
  assumes "0 \<le> t" "t < 2 ^ (8 * GetTimeByteLength s)" "k \<le> 9" "s \<le> 7"
  shows "0 \<le> native_sub k (unat s) t" "native_sub k (unat s) t < 2 ^ 62"
proof -
  let ?s = "unat s"
  have s: "?s \<le> 7" "s \<le> 2 \<longleftrightarrow> ?s \<le> 2" "s \<le> 4 \<longleftrightarrow> ?s \<le> 4" using assms(4) by (simp_all add: word_le_nat_alt)
  show "0 \<le> native_sub k ?s t" using assms(1) by (simp add: native_sub_def pos_imp_zdiv_nonneg_iff)
  have up: "t * 10 ^ (k - ?s) \<le> b * 10 ^ e" if "t \<le> b" "k - ?s \<le> e" for b e
    using that assms(1) by (intro mult_mono power_increasing) auto
  consider "?s \<le> 2" | "2 < ?s" "?s \<le> 4" | "4 < ?s" by linarith
  then have "t * 10 ^ (k - ?s) < 2 ^ 62"
  proof cases
    case 1
    with s assms(2) have "t \<le> 2 ^ 24" by (simp add: GetTimeByteLength_def)
    have "k - ?s \<le> 9" using assms(3) by linarith
    from up [OF \<open>t \<le> 2 ^ 24\<close> this] show ?thesis by simp
  next
    case 2
    with s assms(2) have "t \<le> 2 ^ 32" by (simp add: GetTimeByteLength_def)
    have "k - ?s \<le> 6" using 2 assms(3) by linarith
    from up [OF \<open>t \<le> 2 ^ 32\<close> this] show ?thesis by simp
  next
    case 3
    with s assms(2) have "t \<le> 2 ^ 40" by (simp add: GetTimeByteLength_def)
    have "k - ?s \<le> 4" using 3 assms(3) by linarith
    from up [OF \<open>t \<le> 2 ^ 40\<close> this] show ?thesis by simp
  qed
  moreover have "t div 10 ^ (?s - k) \<le> t" using assms(1) zdiv_mono2 [of t 1 "10 ^ (?s - k)"] by simp
  moreover have "t \<le> t * 10 ^ (k - ?s)" using assms(1) mult_left_mono [of 1 "10 ^ (k - ?s)" t] by simp
  ultimately show "native_sub k ?s t < 2 ^ 62" by (simp add: native_sub_def)
qed

text \<open>The value of a payload in ticks of the target's unit, and when the target can hold it.\<close>

definition wire_time :: "byte \<Rightarrow> byte list \<Rightarrow> int" where
  "wire_time s data = int (le_nat (take (GetTimeByteLength s) data))"

definition wire_days :: "byte \<Rightarrow> byte list \<Rightarrow> int" where
  "wire_days s data = int (le_nat (take 3 (drop (GetTimeByteLength s) data))) - DAYS_FROM_0001_TO_EPOCH"

definition native_value :: "nat \<Rightarrow> byte \<Rightarrow> byte list \<Rightarrow> int" where
  "native_value k s data = wire_days s data * day_ticks k + native_sub k (unat s) (wire_time s data)"

definition held :: "nat \<Rightarrow> byte \<Rightarrow> byte list \<Rightarrow> bool" where
  "held k s data \<longleftrightarrow> - (2 ^ 63) \<le> wire_days s data * day_ticks k \<and> native_value k s data < 2 ^ 63"

lemma sub_unit:
  assumes "s \<le> 7" "k \<le> 9" "0 \<le> t" "i64 (t * 10 ^ (k - unat s)) = Ret (t * 10 ^ (k - unat s))"
  shows "(if 10 ^ k \<ge> (10::int) ^ unat s then i64 (t * (10 ^ k sdiv 10 ^ unat s)) else Ret (t sdiv (10 ^ unat s sdiv 10 ^ k)))
    = Ret (native_sub k (unat s) t)"
proof (cases "unat s \<le> k")
  case True
  then have "(10::int) ^ k = 10 ^ unat s * 10 ^ (k - unat s)" by (simp flip: power_add)
  moreover have "10 ^ k sdiv (10::int) ^ unat s = 10 ^ k div 10 ^ unat s" by (rule sdiv_nonneg) simp_all
  ultimately have "10 ^ k sdiv (10::int) ^ unat s = 10 ^ (k - unat s)" by simp
  moreover have "(10::int) ^ unat s \<le> 10 ^ k" using True by (intro power_increasing) simp_all
  ultimately show ?thesis using True assms(4) by (simp only: if_True native_sub_def)
next
  case False
  then have "(10::int) ^ unat s = 10 ^ k * 10 ^ (unat s - k)" by (simp flip: power_add)
  moreover have "10 ^ unat s sdiv (10::int) ^ k = 10 ^ unat s div 10 ^ k" by (rule sdiv_nonneg) simp_all
  ultimately have "10 ^ unat s sdiv (10::int) ^ k = 10 ^ (unat s - k)" by simp
  moreover have "(10::int) ^ k < 10 ^ unat s" using False by (intro power_strict_increasing) simp_all
  moreover have "t sdiv 10 ^ (unat s - k) = t div 10 ^ (unat s - k)" using assms(3) by (rule sdiv_nonneg) simp
  ultimately show ?thesis using False by (simp add: native_sub_def)
qed

lemma day_guard:
  fixes ud d :: int
  assumes "0 < d"
  shows "(ud > INT64_MAX sdiv d \<or> ud < INT64_MIN sdiv d) \<longleftrightarrow> \<not> (- (2 ^ 63) \<le> ud * d \<and> ud * d < 2 ^ 63)"
proof -
  have q: "INT64_MAX sdiv d = INT64_MAX div d" "INT64_MIN sdiv d = - (2 ^ 63 div d)"
    using assms by (simp_all add: sdiv_nonneg sdiv_neg INT64_MAX_def INT64_MIN_def)
  have "ud \<le> m div d \<longleftrightarrow> ud * d \<le> m" for ud m :: int
  proof
    assume "ud \<le> m div d"
    then have "ud * d \<le> m div d * d" using assms by (intro mult_right_mono) simp_all
    then show "ud * d \<le> m" using div_mult_mod_eq [of m d] pos_mod_sign [OF assms, of m] by linarith
  next
    assume "ud * d \<le> m"
    then have "ud * d div d \<le> m div d" using assms by (rule zdiv_mono1)
    then show "ud \<le> m div d" using assms by simp
  qed
  from this [of ud INT64_MAX] this [of "- ud" "2 ^ 63"] show ?thesis
    unfolding q by (simp add: INT64_MAX_def not_less) linarith
qed

lemma Datetime2Wire_Ret:
  assumes "s \<le> 7" "TicksPerSecondFor ty = Ret (10 ^ k)" "k \<le> 9" "GetTimeByteLength s + 3 \<le> length data"
  shows "Datetime2WireToNativeUnit data (GetTimeByteLength s) s ty =
    Ret (if held k s data then Some (native_value k s data) else None)"
proof -
  let ?n = "GetTimeByteLength s" and ?t = "wire_time s data" and ?ud = "wire_days s data"
  have t: "accum_le data ?n 0 0 = Ret ?t" using assms(4) unfolding wire_time_def by (intro accum_le_Ret) simp
  have d: "rd_days data ?n = Ret (?ud + DAYS_FROM_0001_TO_EPOCH)" using assms(4) unfolding wire_days_def by (subst rd_days_Ret) simp_all
  from accum_le_bound [OF t] have tb: "0 \<le> ?t" "?t < 2 ^ (8 * ?n)" by simp_all
  note b = native_sub_bounds [OF tb assms(3,1)]
  have tp: "SECONDS_PER_DAY * 10 ^ k = day_ticks k" by (simp add: SECONDS_PER_DAY_def)
  have k: "0 < day_ticks k" by simp
  have u: "(if 10 ^ k \<ge> (10::int) ^ unat s then i64 (?t * (10 ^ k sdiv 10 ^ unat s)) else Ret (?t sdiv (10 ^ unat s sdiv 10 ^ k)))
      = Ret (native_sub k (unat s) ?t)"
  proof (cases "unat s \<le> k")
    case True
    with b have "i64 (?t * 10 ^ (k - unat s)) = Ret (?t * 10 ^ (k - unat s))" by (intro i64_nonneg) (simp_all add: native_sub_def)
    then show ?thesis by (intro sub_unit assms(1,3) tb(1))
  next
    case False
    have "?t < 2 ^ 40" using time_ticks_Ret(3) [OF assms(1) t] .
    then have "i64 ?t = Ret ?t" using tb(1) by (intro i64_nonneg) simp_all
    with False show ?thesis by (intro sub_unit assms(1,3) tb(1)) simp
  qed
  have "Datetime2WireToNativeUnit data ?n s ty =
      (if ?ud > INT64_MAX sdiv day_ticks k \<or> ?ud < INT64_MIN sdiv day_ticks k then Ret None
       else bind_res (i64 (?ud * day_ticks k)) (\<lambda>days_ticks.
         if days_ticks > INT64_MAX - native_sub k (unat s) ?t then Ret None
         else bind_res (i64 (days_ticks + native_sub k (unat s) ?t)) (\<lambda>native. Ret (Some native))))"
    using u by (simp only: Datetime2WireToNativeUnit_def t d Pow10_Ret [OF assms(1)] assms(2) bind_res.simps Let_def tp
        add_diff_cancel_right')
  also have "\<dots> = Ret (if held k s data then Some (native_value k s data) else None)"
  proof (cases "- (2 ^ 63) \<le> ?ud * day_ticks k \<and> ?ud * day_ticks k < 2 ^ 63")
    case False
    then show ?thesis using day_guard [OF k, of ?ud] b(1) unfolding held_def native_value_def by fastforce
  next
    case True
    define x y where "x = ?ud * day_ticks k" and "y = native_sub k (unat s) ?t"
    have xy: "- (2 ^ 63) \<le> x" "x < 2 ^ 63" "0 \<le> y" "y < 2 ^ 62" using True b by (simp_all add: x_def y_def)
    have "bind_res (i64 x) (\<lambda>days_ticks. if days_ticks > INT64_MAX - y then Ret None
        else bind_res (i64 (days_ticks + y)) (\<lambda>native. Ret (Some native))) = Ret (if x + y < 2 ^ 63 then Some (x + y) else None)"
      using xy by (auto simp: i64_def INT64_MAX_def)
    moreover have "held k s data \<longleftrightarrow> x + y < 2 ^ 63" "native_value k s data = x + y"
      using xy by (simp_all add: held_def native_value_def x_def y_def)
    moreover have "\<not> (?ud > INT64_MAX sdiv day_ticks k \<or> ?ud < INT64_MIN sdiv day_ticks k)"
      using True day_guard [OF k, of ?ud] by blast
    ultimately show ?thesis unfolding x_def [symmetric] y_def [symmetric] by (simp only: if_False)
  qed
  finally show ?thesis .
qed

subsection \<open>Timestamps survive bulk load\<close>

definition from_scale :: "nat \<Rightarrow> nat \<Rightarrow> int \<Rightarrow> int" where
  "from_scale k s t = (if s \<le> k then t * 10 ^ (k - s) else t div 10 ^ (s - k))"

lemma from_to_scale: "if k \<le> s then from_scale k s (to_scale k s raw) = raw
    else 2 * \<bar>from_scale k s (to_scale k s raw) - raw\<bar> \<le> 10 ^ (k - s)"
proof (cases "k \<le> s")
  case True
  then show ?thesis by (cases "k = s") (simp_all add: from_scale_def to_scale_def)
next
  case False
  then show ?thesis using round_half [of "10 ^ (k - s)" raw] by (simp add: from_scale_def to_scale_def)
qed

definition dt2_payload :: "byte \<Rightarrow> int \<Rightarrow> byte list" where
  "dt2_payload s t = le_bytes (GetTimeByteLength s) (t mod day_ticks (unat s)) @
     le_bytes 3 (t div day_ticks (unat s) + DAYS_FROM_0001_TO_EPOCH)"

lemma length_dt2_payload [simp]: "length (dt2_payload s t) = GetTimeByteLength s + 3"
  by (simp add: dt2_payload_def)

lemma dt2_payload_fields:
  assumes "s \<le> 7" "0 \<le> t div day_ticks (unat s) + DAYS_FROM_0001_TO_EPOCH" "t div day_ticks (unat s) + DAYS_FROM_0001_TO_EPOCH < 2 ^ 24"
  shows "wire_time s (dt2_payload s t @ rest) = t mod day_ticks (unat s)" "wire_days s (dt2_payload s t @ rest) = t div day_ticks (unat s)"
proof -
  let ?D = "day_ticks (unat s)"
  have "0 < ?D" by simp
  then have m: "0 \<le> t mod ?D" "t mod ?D < ?D" by (rule pos_mod_sign, rule pos_mod_bound)
  show "wire_time s (dt2_payload s t @ rest) = t mod ?D"
    using le_nat_le_bytes_small [OF m(1) ticks_fit [OF assms(1) m(2)]] by (simp add: wire_time_def dt2_payload_def)
  have "drop (GetTimeByteLength s) (dt2_payload s t @ rest) = le_bytes 3 (t div ?D + DAYS_FROM_0001_TO_EPOCH) @ rest"
    by (simp add: dt2_payload_def)
  then show "wire_days s (dt2_payload s t @ rest) = t div ?D"
    using le_nat_le_bytes_small [of "t div ?D + DAYS_FROM_0001_TO_EPOCH" 3] assms(2,3) by (simp add: wire_days_def)
qed

lemma from_scale_parts:
  "t div day_ticks s * day_ticks k + native_sub k s (t mod day_ticks s) = from_scale k s t"
proof (cases "s \<le> k")
  case True
  let ?m = "10 ^ (k - s) :: int"
  have "t div day_ticks s * (day_ticks s * ?m) + t mod day_ticks s * ?m = (t div day_ticks s * day_ticks s + t mod day_ticks s) * ?m"
    by (simp only: distrib_right mult.assoc)
  then show ?thesis unfolding day_ticks_split [OF True] div_mult_mod_eq native_sub_def from_scale_def using True by (simp only: if_True)
next
  case False
  let ?m = "10 ^ (s - k) :: int"
  have D: "day_ticks s = day_ticks k * ?m" using False by (intro day_ticks_split) simp
  have "t div day_ticks s * day_ticks k * ?m = t div day_ticks s * day_ticks s" by (metis D mult.assoc)
  then have "t div ?m = (t mod day_ticks s + (t div day_ticks s * day_ticks k) * ?m) div ?m"
    by (simp only: mod_div_mult_eq)
  also have "\<dots> = t div day_ticks s * day_ticks k + t mod day_ticks s div ?m" by (rule div_mult_self1) simp
  finally show ?thesis using False by (simp add: native_sub_def from_scale_def)
qed

lemma EncodeDatetime2Raw_payload:
  "EncodeDatetime2Raw buf (word_of_int (t mod day_ticks (unat s))) (word_of_int (t div day_ticks (unat s) + DAYS_FROM_0001_TO_EPOCH)) s =
    buf @ of_nat (GetTimeByteLength s + 3) # dt2_payload s t"
proof -
  have "8 * GetTimeByteLength s \<le> LENGTH(64)" using GetTimeByteLength_bounds(2) [of s] by simp
  from le_bytes_uint [OF this] show ?thesis
    by (simp add: EncodeDatetime2Raw_def Let_def GetTimeByteSize_eq dt2_payload_def le_bytes_days)
qed

lemma to_scale_day:
  assumes "0 < day_ticks k"
  shows "raw div day_ticks k \<le> to_scale k s raw div day_ticks s" "to_scale k s raw div day_ticks s \<le> raw div day_ticks k + 1"
proof -
  have Ds: "0 < day_ticks s" by simp
  have "raw div day_ticks k \<le> to_scale k s raw div day_ticks s \<and> to_scale k s raw div day_ticks s \<le> raw div day_ticks k + 1"
  proof (cases "k \<le> s")
    case True
    then show ?thesis by (simp add: to_scale_def day_ticks_split [of k s] div_mult_mult2)
  next
    case False
    let ?d = "10 ^ (k - s) :: int" and ?sub = "raw mod day_ticks k"
    have d: "0 < ?d" by simp
    have D: "day_ticks k = day_ticks s * ?d" using False by (intro day_ticks_split) simp
    have sub: "0 \<le> ?sub" "?sub < day_ticks k" using assms by (rule pos_mod_sign, rule pos_mod_bound)
    have sub2: "?sub < day_ticks s * ?d" using sub(2) by (simp only: D [symmetric])
    have h: "0 \<le> ?d div 2" "?d div 2 < ?d" using d int_div_less_self [of ?d 2] by (simp_all only: pos_imp_zdiv_nonneg_iff)
    have "raw = raw div day_ticks k * (day_ticks s * ?d) + ?sub" unfolding D [symmetric] by (rule div_mult_mod_eq [symmetric])
    then have "to_scale k s raw = raw div day_ticks k * day_ticks s + (?sub + ?d div 2) div ?d"
      using round_split(1) [OF d Ds sub(1) sub2 h, of "raw div day_ticks k"] False unfolding to_scale_def by (simp only: if_False)
    with carry_day [OF Ds round_split(2,3) [OF d Ds sub(1) sub2 h], of "raw div day_ticks k"] show ?thesis by (simp split: if_splits)
  qed
  then show "raw div day_ticks k \<le> to_scale k s raw div day_ticks s" "to_scale k s raw div day_ticks s \<le> raw div day_ticks k + 1"
    by blast+
qed

lemma ReadValue_dt2:
  assumes "type_id c = TDS_TYPE_DATETIME2"
  shows "ReadValue c (of_nat (GetTimeByteLength s + 3) # dt2_payload s t @ rest) = Ret (GetTimeByteLength s + 4, dt2_payload s t, False)"
proof -
  have "length (dt2_payload s t) < 256" "dt2_payload s t \<noteq> []"
    using GetTimeByteLength_bounds [of s] length_dt2_payload [of s t] by (auto simp del: length_dt2_payload)
  with ReadValue_counted [of c "dt2_payload s t" rest] assms show ?thesis by (simp add: prefix1_types_def)
qed

lemma decode_dt2:
  assumes "type_id c = TDS_TYPE_DATETIME2" "scale c \<le> 7" "TicksPerSecondFor ty = Ret (10 ^ k)" "k \<le> 9"
    and "GetTimeByteLength (scale c) + 3 \<le> length data"
  shows "DecodeFromTds_datetime data c ty =
    Ret (if held k (scale c) data then VTimestamp (native_value k (scale c) data) else VNull)"
  using assms(5) Datetime2Wire_Ret [OF assms(2,3,4,5)]
  by (simp add: DecodeFromTds_datetime_def assms(1) FixedTemporalReadLen_def Datetime2TimeByteLen_eq GetTimeByteLength_def Let_def)

text \<open>C12: a timestamp of any unit that is bulk loaded into a DATETIME2 column and read back is the same instant if
  the column's scale can express its unit, and otherwise the nearest tick of that scale, a carry past midnight
  included. The encoder does not overflow and the row reader takes exactly the bytes it wrote. The range of dates is the one
  whose day number fits the three bytes of the wire form.\<close>

theorem datetime2_roundtrip:
  assumes "TicksPerSecondFor source = Ret u" "target \<in> {TIMESTAMP_US, TIMESTAMP_MS, TIMESTAMP_NS, TIMESTAMP_SEC}"
    and "type_id c = TDS_TYPE_DATETIME2" "scale c \<le> 7"
    and "- (2 ^ 63) \<le> raw - 86400 * u" "raw + 86400 * u < 2 ^ 63"
    and "0 \<le> raw div (86400 * u) + DAYS_FROM_0001_TO_EPOCH" "raw div (86400 * u) + DAYS_FROM_0001_TO_EPOCH < 2 ^ 24 - 1"
  shows "\<exists>sent payload raw'. EncodeToBcp_datetime source target (scale c) raw buf = Ret (buf @ sent) \<and>
    ReadValue c (sent @ rest) = Ret (length sent, payload, False) \<and>
    DecodeFromTds_datetime payload c source = Ret (VTimestamp raw') \<and>
    (if u \<le> 10 ^ unat (scale c) then raw' = raw else 2 * \<bar>raw' - raw\<bar> \<le> u div 10 ^ unat (scale c))"
proof -
  obtain k where u: "u = 10 ^ k" and k: "k \<le> 9" using unit_power [OF assms(1)] by blast
  let ?s = "scale c" and ?D = "day_ticks (unat (scale c))"
  define t where "t = to_scale k (unat ?s) raw"
  define raw' where "raw' = from_scale k (unat ?s) t"
  have Dk: "0 < day_ticks k" by simp
  note day = to_scale_day [OF Dk, where raw = raw and s = "unat ?s", folded t_def]
  note range = assms(5-8) [unfolded u]
  have lt: "raw < 2 ^ 63" using range(2) Dk by linarith
  have comp: "ComputeDatetime2Components raw source ?s =
      Ret (word_of_int (t mod ?D), word_of_int (t div ?D + DAYS_FROM_0001_TO_EPOCH))"
    unfolding t_def using assms(1,4) u k range(1) lt by (intro components_to_scale) simp_all
  have days: "0 \<le> t div ?D + DAYS_FROM_0001_TO_EPOCH" "t div ?D + DAYS_FROM_0001_TO_EPOCH < 2 ^ 24"
    using day range(3,4) by linarith+
  let ?sent = "of_nat (GetTimeByteLength ?s + 3) # dt2_payload ?s t"
  have sent: "EncodeToBcp_datetime source target ?s raw buf = Ret (buf @ ?sent)"
    using assms(1,2) comp EncodeDatetime2Raw_payload [of buf t ?s] by (cases source) (auto simp: EncodeToBcp_datetime_def)
  note fields = dt2_payload_fields [OF assms(4) days, of "[]", simplified append_Nil2]
  have val: "native_value k ?s (dt2_payload ?s t) = raw'"
    unfolding native_value_def fields raw'_def by (rule from_scale_parts)
  have near: "if k \<le> unat ?s then raw' = raw else 2 * \<bar>raw' - raw\<bar> \<le> 10 ^ (k - unat ?s)"
    unfolding raw'_def t_def by (rule from_to_scale)
  have "raw' < 2 ^ 63"
  proof -
    have p: "(10::int) ^ (k - unat ?s) \<le> 10 ^ k" by (intro power_increasing) simp_all
    have "2 * \<bar>raw' - raw\<bar> \<le> 10 ^ k"
    proof (cases "k \<le> unat ?s")
      case True
      with near show ?thesis by simp
    next
      case False
      with near have "2 * \<bar>raw' - raw\<bar> \<le> 10 ^ (k - unat ?s)" by simp
      from order_trans [OF this p] show ?thesis .
    qed
    with range(2) show ?thesis by (simp add: abs_if split: if_splits)
  qed
  moreover have "- (2 ^ 63) \<le> t div ?D * day_ticks k"
  proof -
    have "raw - day_ticks k < raw div day_ticks k * day_ticks k"
      using div_mult_mod_eq [of raw "day_ticks k"] pos_mod_bound [OF Dk, of raw] by linarith
    moreover have "raw div day_ticks k * day_ticks k \<le> t div ?D * day_ticks k" using day(1) Dk by (intro mult_right_mono) simp_all
    ultimately show ?thesis using range(1) by linarith
  qed
  ultimately have "held k ?s (dt2_payload ?s t)" using val fields by (simp add: held_def)
  then have "DecodeFromTds_datetime (dt2_payload ?s t) c source = Ret (VTimestamp raw')"
    using decode_dt2 [OF assms(3,4) assms(1) [unfolded u] k, of "dt2_payload ?s t"] val by simp
  moreover have "if u \<le> 10 ^ unat ?s then raw' = raw else 2 * \<bar>raw' - raw\<bar> \<le> u div 10 ^ unat ?s"
  proof (cases "k \<le> unat ?s")
    case True
    with near u show ?thesis by simp
  next
    case False
    then have "u div 10 ^ unat ?s = 10 ^ (k - unat ?s)" unfolding u by (simp add: power_diff)
    with False near u show ?thesis by simp
  qed
  moreover have "ReadValue c (?sent @ rest) = Ret (length ?sent, dt2_payload ?s t, False)"
    using ReadValue_dt2 [OF assms(3), of ?s t rest] by simp
  ultimately show ?thesis using sent by blast
qed

definition dt2_column :: "byte \<Rightarrow> ColumnMetadata" where
  "dt2_column s = fresh_column\<lparr> type_id := TDS_TYPE_DATETIME2, scale := s \<rparr>"

text \<open>23:59:59.999999999 on 1969-12-31 into DATETIME2(3): the carry reaches the next day.\<close>

theorem datetime2_roundtrip_witness:
  "\<exists>sent payload raw'. EncodeToBcp_datetime TIMESTAMP_NS TIMESTAMP_US 3 (-1) [] = Ret sent \<and>
    ReadValue (dt2_column 3) sent = Ret (length sent, payload, False) \<and>
    DecodeFromTds_datetime payload (dt2_column 3) TIMESTAMP_NS = Ret (VTimestamp raw') \<and> 2 * \<bar>raw' + 1\<bar> \<le> 1000000"
  using datetime2_roundtrip [of TIMESTAMP_NS 1000000000 TIMESTAMP_US "dt2_column 3" "-1" "[]" "[]"]
  by (simp add: dt2_column_def DAYS_FROM_0001_TO_EPOCH_def)

subsection \<open>Times and dates survive bulk load\<close>

lemma ReadValue_counted_bytes:
  assumes "type_id c = TDS_TYPE_TIME \<or> type_id c = TDS_TYPE_DATE" "0 < length p" "length p < 256" "b = of_nat (length p)"
  shows "ReadValue c (b # p @ rest) = Ret (1 + length p, p, False)"
  using ReadValue_counted [of c p rest] assms by (auto simp: prefix1_types_def)

text \<open>C20: a time of day that is bulk loaded into a TIME column and read back is the nearest tick of the column's scale,
  except that it never reaches midnight: past the last tick of the day it is that tick. From scale 6 on it is exact.\<close>

theorem time_roundtrip:
  assumes "type_id c = TDS_TYPE_TIME" "scale c \<le> 7" "0 \<le> v" "v < 86400 * 10 ^ 6"
  shows "\<exists>sent payload v'. EncodeToBcp_datetime TIME_ID TIME_ID (scale c) v buf = Ret (buf @ sent) \<and>
    ReadValue c (sent @ rest) = Ret (length sent, payload, False) \<and>
    DecodeFromTds_datetime payload c ty = Ret (VTime v') \<and> near v v' (unat (scale c))"
proof -
  let ?s = "scale c" and ?n = "GetTimeByteLength (scale c)"
  let ?t = "time_ticks v (unat ?s)"
  let ?p = "le_bytes ?n ?t"
  have s: "unat ?s \<le> 7" using assms(2) by (simp add: word_le_nat_alt)
  note b = time_ticks_bounds [OF assms(3,4) s]
  have "EncodeToBcp_datetime TIME_ID TIME_ID ?s v buf = Ret (buf @ of_nat ?n # ?p)"
    using EncodeTime_Ret [OF assms(3) less_imp_le [OF assms(4)] assms(2), of buf] by (simp add: EncodeToBcp_datetime_def)
  moreover have "ReadValue c ((of_nat ?n # ?p) @ rest) = Ret (length (of_nat ?n # ?p :: byte list), ?p, False)"
    using ReadValue_counted_bytes [of c ?p "of_nat ?n" rest] GetTimeByteLength_bounds [of ?s] assms(1) by simp
  moreover have "DecodeFromTds_datetime ?p c ty = Ret (VTime (micros_of_ticks (unat ?s) ?t))"
    using ConvertTime_ticks [OF b assms(2)] assms(1)
    by (simp add: DecodeFromTds_datetime_def FixedTemporalReadLen_def GetTimeByteLength_def Let_def)
  ultimately show ?thesis using time_ticks_near [OF assms(3,4) s] by blast
qed

theorem time_roundtrip_witness:
  "\<exists>sent payload v'. EncodeToBcp_datetime TIME_ID TIME_ID 0 86399999999 [] = Ret sent \<and>
    ReadValue (fresh_column\<lparr> type_id := TDS_TYPE_TIME \<rparr>) sent = Ret (length sent, payload, False) \<and>
    DecodeFromTds_datetime payload (fresh_column\<lparr> type_id := TDS_TYPE_TIME \<rparr>) OTHER_ID = Ret (VTime v') \<and> near 86399999999 v' 0"
  using time_roundtrip [of "fresh_column\<lparr> type_id := TDS_TYPE_TIME \<rparr>" 86399999999 "[]" "[]" OTHER_ID]
  by (simp add: fresh_column_def)

lemma date_roundtrip:
  assumes "type_id c = TDS_TYPE_DATE" "0 \<le> d + DAYS_FROM_0001_TO_EPOCH" "d + DAYS_FROM_0001_TO_EPOCH < 2 ^ 24"
  shows "\<exists>payload. EncodeToBcp_datetime source DATE_ID s d buf = Ret (buf @ 3 # payload) \<and>
    ReadValue c (3 # payload @ rest) = Ret (4, payload, False) \<and> DecodeFromTds_datetime payload c ty = Ret (VDate d)"
proof -
  let ?p = "le_bytes 3 (d + DAYS_FROM_0001_TO_EPOCH)"
  have "EncodeToBcp_datetime source DATE_ID s d buf = Ret (buf @ 3 # ?p)"
    using assms by (simp add: EncodeToBcp_datetime_def EncodeDate_Ret)
  moreover have "ReadValue c (3 # ?p @ rest) = Ret (4, ?p, False)"
    using ReadValue_counted_bytes [of c ?p 3 rest] assms(1) by simp
  moreover have "DecodeFromTds_datetime ?p c ty = Ret (VDate d)"
    using assms ConvertDate_days [of "d + DAYS_FROM_0001_TO_EPOCH"]
    by (simp add: DecodeFromTds_datetime_def FixedTemporalReadLen_def Let_def)
  ultimately show ?thesis by blast
qed

subsection \<open>The decoder on arbitrary bytes\<close>

text \<open>C21: decoding a temporal value never reads outside it and never overflows, whatever the bytes: a value that is too short
  for its column is refused, and a DATETIME2 value is its exact instant in the target's unit, rounded down, or NULL
  when the target's 64 bits cannot hold it (or its day begins before their range).\<close>

theorem temporal_decoder_safe:
  assumes "scale c \<le> 7" "TicksPerSecondFor ty = Ret (10 ^ k)" "k \<le> 9"
  shows "((\<exists>v. DecodeFromTds_datetime bytes c ty = Ret v) \<or> (\<exists>m. DecodeFromTds_datetime bytes c ty = Throw m)) \<and>
    (type_id c = TDS_TYPE_DATETIME2 \<and> GetTimeByteLength (scale c) + 3 \<le> length bytes \<longrightarrow>
      DecodeFromTds_datetime bytes c ty =
        Ret (if held k (scale c) bytes then VTimestamp (native_value k (scale c) bytes) else VNull))"
proof -
  let ?n = "GetTimeByteLength (scale c)"
  have len: "FixedTemporalReadLen c \<le> length bytes" if "\<not> (FixedTemporalReadLen c \<noteq> 0 \<and> length bytes < FixedTemporalReadLen c)"
    using that by linarith
  have "(\<exists>v. DecodeFromTds_datetime bytes c ty = Ret v) \<or> (\<exists>m. DecodeFromTds_datetime bytes c ty = Throw m)"
  proof (cases "FixedTemporalReadLen c \<noteq> 0 \<and> length bytes < FixedTemporalReadLen c")
    case True
    then show ?thesis by (simp add: DecodeFromTds_datetime_def)
  next
    case False
    note l = len [OF False, unfolded FixedTemporalReadLen_def Let_def, folded GetTimeByteLength_def]
    have d: "type_id c = TDS_TYPE_DATE \<Longrightarrow> \<exists>v. ConvertDate bytes = Ret v"
      "type_id c = TDS_TYPE_TIME \<Longrightarrow> \<exists>v. ConvertTime bytes (scale c) = Ret v"
      "type_id c = TDS_TYPE_DATETIME \<Longrightarrow> \<exists>v. ConvertDatetime bytes = Ret v"
      "type_id c = TDS_TYPE_SMALLDATETIME \<Longrightarrow> \<exists>v. ConvertSmallDatetime bytes = Ret v"
      "type_id c = TDS_TYPE_DATETIME2 \<Longrightarrow> \<exists>v. Datetime2WireToNativeUnit bytes ?n (scale c) ty = Ret v"
      "type_id c = TDS_TYPE_DATETIMEOFFSET \<Longrightarrow> \<exists>v. ConvertDatetimeOffset bytes (scale c) = Ret v"
      using l by (simp_all add: ConvertDate_Ret ConvertTime_Ret [OF assms(1)] ConvertDatetime_Ret ConvertSmallDatetime_Ret
          Datetime2Wire_Ret [OF assms] ConvertDatetime2_Ret(2) [OF assms(1)])
    show ?thesis using False d ConvertDatetime_Ret [of bytes] ConvertSmallDatetime_Ret [of bytes]
      by (auto simp: DecodeFromTds_datetime_def Let_def Datetime2TimeByteLen_eq)
  qed
  then show ?thesis using decode_dt2 [OF _ assms] by blast
qed

theorem temporal_decoder_safe_witness:
  "DecodeFromTds_datetime [0xFF, 0xFF, 0xFF, 0xFF, 0xFF, 0xFF, 0xFF, 0xFF] (dt2_column 7) TIMESTAMP_NS = Ret VNull"
  using temporal_decoder_safe [of "dt2_column 7" TIMESTAMP_NS 9 "[0xFF, 0xFF, 0xFF, 0xFF, 0xFF, 0xFF, 0xFF, 0xFF]"]
  by (simp add: dt2_column_def held_def native_value_def native_sub_def wire_days_def wire_time_def GetTimeByteLength_def
      DAYS_FROM_0001_TO_EPOCH_def)

lemma time_24_scale_7:
  "EncodeToBcp_datetime source TIME_ID 7 86400000000 [] = Ret (5 # le_bytes 5 864000000000)"
  "ScatterChunk_datetime source TIME_ID 7 86400000000 = Ret (5 # le_bytes 5 863999999999)"
proof -
  show "EncodeToBcp_datetime source TIME_ID 7 86400000000 [] = Ret (5 # le_bytes 5 864000000000)"
    using EncodeTime_Ret [of 86400000000 7 "[]"] by (simp add: EncodeToBcp_datetime_def time_ticks_def GetTimeByteLength_def)
  show "ScatterChunk_datetime source TIME_ID 7 86400000000 = Ret (5 # le_bytes 5 863999999999)"
    using ScatterTime_value_Ret [of True 86400000000 10 0 864000000000 864000000000 5]
    by (simp add: ScatterChunk_datetime_def Pow10_Ret GetTimeByteSize_eq GetTimeByteLength_def SECONDS_PER_DAY_def sdiv_nonneg i64_nonneg)
qed

text \<open>C17: for every temporal pair and every value of its DuckDB type the columnar kernel writes the bytes the row path
  writes, or both fail alike, so the path a chunk takes does not change the data, with one exception: the end of the day,
  24:00:00, in a TIME column of scale 7. There the kernel stops at the last tick of the day and the row path writes
  the tick count of a full day, which is no time of SQL Server.\<close>

theorem temporal_kernels_agree:
  assumes "temporal_pair source target" "s \<le> 7" "target = TIME_ID \<Longrightarrow> 0 \<le> v \<and> v \<le> 86400 * 10 ^ 6"
  shows "if target = TIME_ID \<and> s = 7 \<and> v = 86400 * 10 ^ 6
    then EncodeToBcp_datetime source target s v [] = Ret (5 # le_bytes 5 (86400 * 10 ^ 7)) \<and>
      ScatterChunk_datetime source target s v = Ret (5 # le_bytes 5 (86400 * 10 ^ 7 - 1))
    else ScatterChunk_datetime source target s v = EncodeToBcp_datetime source target s v []"
proof (cases "target = TIME_ID \<and> s = 7 \<and> v = 86400 * 10 ^ 6")
  case True
  with time_24_scale_7 [of source] show ?thesis by simp
next
  case False
  with assms(3) have "target = TIME_ID \<Longrightarrow> 0 \<le> v \<and> v \<le> 86400 * 10 ^ 6 \<and> (s = 7 \<longrightarrow> v < 86400 * 10 ^ 6)" by auto
  from kernels_agree [OF assms(1,2) this] show ?thesis unfolding if_not_P [OF False] .
qed

theorem temporal_kernels_agree_witness:
  "ScatterChunk_datetime TIMESTAMP_NS TIMESTAMP_TZ 3 1700000000999999999 =
     EncodeToBcp_datetime TIMESTAMP_NS TIMESTAMP_TZ 3 1700000000999999999 [] \<and>
   EncodeToBcp_datetime TIME_ID TIME_ID 7 86400000000 [] = Ret (5 # le_bytes 5 864000000000) \<and>
   ScatterChunk_datetime TIME_ID TIME_ID 6 86400000000 = EncodeToBcp_datetime TIME_ID TIME_ID 6 86400000000 []"
  using temporal_kernels_agree [of TIMESTAMP_NS TIMESTAMP_TZ 3 1700000000999999999]
    temporal_kernels_agree [of TIME_ID TIME_ID 7 86400000000] temporal_kernels_agree [of TIME_ID TIME_ID 6 86400000000]
  by (simp add: temporal_pair_def)

end
