(* ===== verification/Scalar_Codec.thy ===== *)
theory Scalar_Codec
  imports Decimal_Codec Datetime_Codec
begin

text \<open>
  The remaining families of the bulk-load codecs: \<open>src/codec/type_family.cpp\<close>, \<open>integer_codec.cpp\<close>, \<open>boolean_codec.cpp\<close>,
  \<open>float_codec.cpp\<close>, \<open>binary_codec.cpp\<close> and \<open>uuid_codec.cpp\<close>. An encoder reads the value at the width the source stores
  and writes it in the form the target column declares; the two need not be the same type. A floating-point value is
  its bit pattern, and the two conversions between the formats are parameters.
\<close>

subsection \<open>Families\<close>

datatype TypeFamily = BooleanFamily | IntegerFamily | FloatFamily | DecimalFamily | MoneyFamily | StringFamily | BinaryFamily
  | DateTimeFamily | UuidFamily

definition FamilyFromTdsType :: "byte \<Rightarrow> TypeFamily res" where
  "FamilyFromTdsType t =
     (if t \<in> {TDS_TYPE_BIT, TDS_TYPE_BITN} then Ret BooleanFamily
      else if t \<in> {TDS_TYPE_TINYINT, TDS_TYPE_SMALLINT, TDS_TYPE_INT, TDS_TYPE_BIGINT, TDS_TYPE_INTN} then Ret IntegerFamily
      else if t \<in> {TDS_TYPE_REAL, TDS_TYPE_FLOAT, TDS_TYPE_FLOATN} then Ret FloatFamily
      else if t \<in> {TDS_TYPE_DECIMAL, TDS_TYPE_NUMERIC} then Ret DecimalFamily
      else if t \<in> {TDS_TYPE_MONEY, TDS_TYPE_SMALLMONEY, TDS_TYPE_MONEYN} then Ret MoneyFamily
      else if t \<in> {TDS_TYPE_BIGCHAR, TDS_TYPE_BIGVARCHAR, TDS_TYPE_NCHAR, TDS_TYPE_NVARCHAR, TDS_TYPE_XML} then Ret StringFamily
      else if t \<in> {TDS_TYPE_BIGBINARY, TDS_TYPE_BIGVARBINARY} then Ret BinaryFamily
      else if t \<in> {TDS_TYPE_DATE, TDS_TYPE_TIME, TDS_TYPE_DATETIME, TDS_TYPE_SMALLDATETIME, TDS_TYPE_DATETIME2,
        TDS_TYPE_DATETIMEN, TDS_TYPE_DATETIMEOFFSET} then Ret DateTimeFamily
      else if t = TDS_TYPE_UNIQUEIDENTIFIER then Ret UuidFamily
      else Throw (''Unsupported TDS type id 0x'' @ hex02 t @ '' for TypeFamily mapping''))"

text \<open>\<open>None\<close> is the exception for an unsupported DuckDB type.\<close>

fun FamilyFromLogicalType :: "LogicalTypeId \<Rightarrow> TypeFamily option" where
  "FamilyFromLogicalType BOOLEAN_ID = Some BooleanFamily"
| "FamilyFromLogicalType TINYINT_ID = Some IntegerFamily"
| "FamilyFromLogicalType UTINYINT_ID = Some IntegerFamily"
| "FamilyFromLogicalType SMALLINT_ID = Some IntegerFamily"
| "FamilyFromLogicalType USMALLINT_ID = Some IntegerFamily"
| "FamilyFromLogicalType INTEGER_ID = Some IntegerFamily"
| "FamilyFromLogicalType UINTEGER_ID = Some IntegerFamily"
| "FamilyFromLogicalType BIGINT_ID = Some IntegerFamily"
| "FamilyFromLogicalType UBIGINT_ID = Some IntegerFamily"
| "FamilyFromLogicalType HUGEINT_ID = Some IntegerFamily"
| "FamilyFromLogicalType FLOAT_ID = Some FloatFamily"
| "FamilyFromLogicalType DOUBLE_ID = Some FloatFamily"
| "FamilyFromLogicalType DECIMAL_ID = Some DecimalFamily"
| "FamilyFromLogicalType VARCHAR_ID = Some StringFamily"
| "FamilyFromLogicalType INTERVAL_ID = Some StringFamily"
| "FamilyFromLogicalType BLOB_ID = Some BinaryFamily"
| "FamilyFromLogicalType GEOMETRY_ID = Some BinaryFamily"
| "FamilyFromLogicalType DATE_ID = Some DateTimeFamily"
| "FamilyFromLogicalType TIME_ID = Some DateTimeFamily"
| "FamilyFromLogicalType TIMESTAMP_SEC = Some DateTimeFamily"
| "FamilyFromLogicalType TIMESTAMP_MS = Some DateTimeFamily"
| "FamilyFromLogicalType TIMESTAMP_US = Some DateTimeFamily"
| "FamilyFromLogicalType TIMESTAMP_NS = Some DateTimeFamily"
| "FamilyFromLogicalType TIMESTAMP_TZ = Some DateTimeFamily"
| "FamilyFromLogicalType UUID_ID = Some UuidFamily"
| "FamilyFromLogicalType _ = None"

text \<open>\<open>FormatValue<T>\<close>: reading a vector at a width it does not store is an internal error of DuckDB; only \<open>int8_t\<close> also reads
  a boolean, which the integer family relies on.\<close>

definition FormatValue :: "PhysicalType \<Rightarrow> LogicalType \<Rightarrow> int \<Rightarrow> int res" where
  "FormatValue pt src v = (if lt_physical src = pt \<or> pt = PT_INT8 \<and> lt_physical src = PT_BOOL then Ret v else Throw ''Expected unified vector format of another type'')"

subsection \<open>Integers\<close>

definition MaxDecimal38 :: "hugeint_ops \<Rightarrow> hugeint_t" where
  "MaxDecimal38 H = hg_sub H (power_of_ten 38) (huge 1)"

definition CheckHugeintFitsDecimal38 :: "hugeint_ops \<Rightarrow> hugeint_t \<Rightarrow> string \<Rightarrow> unit res" where
  "CheckHugeintFitsDecimal38 H v name =
     bind_res (hg_negate H (MaxDecimal38 H)) (\<lambda>min.
       if hg_gt H v (MaxDecimal38 H) \<or> hg_gt H min v
       then Throw (''MSSQL: HUGEINT value '' @ hg_to_string H v @ '' in column '' @ [CHR 0x22] @ name @ [CHR 0x22] @
         '' is out of range for DECIMAL(38,0) (max 38 digits)'')
       else Ret ())"

text \<open>A \<open>uhugeint_t\<close> is compared as an unsigned 128-bit value.\<close>

definition CheckUhugeintFitsDecimal38 :: "hugeint_ops \<Rightarrow> int \<Rightarrow> string \<Rightarrow> unit res" where
  "CheckUhugeintFitsDecimal38 H v name =
     (if v > uint (hg_upper (MaxDecimal38 H)) * 2 ^ 64 + uint (hg_lower (MaxDecimal38 H))
      then Throw (''MSSQL: UHUGEINT value '' @ to_string (nat v) @ '' in column '' @ [CHR 0x22] @ name @ [CHR 0x22] @
         '' is out of range for DECIMAL(38,0) (max 38 digits)'')
      else Ret ())"

definition ReadSourceInteger :: "LogicalType \<Rightarrow> int \<Rightarrow> hugeint_t res" where
  "ReadSourceInteger src v =
     (let pt = lt_physical src
      in if pt = PT_BOOL \<or> pt = PT_INT8 then map_res huge (FormatValue PT_INT8 src v)
         else if pt \<in> {PT_UINT8, PT_INT16, PT_UINT16, PT_INT32, PT_UINT32, PT_INT64, PT_INT128} then map_res huge (FormatValue pt src v)
         else if pt = PT_UINT64 then map_res (\<lambda>v. \<lparr> hg_lower = word_of_int v, hg_upper = 0 \<rparr>) (FormatValue pt src v)
         else Throw ''codec::integer::EncodeToBcp: unexpected source PhysicalType for an integer column'')"

definition range_message :: "string \<Rightarrow> BCPColumnMetadata \<Rightarrow> int \<Rightarrow> int \<Rightarrow> string" where
  "range_message shown col lo hi =
     ''MSSQL: integer value '' @ shown @ '' in column '' @ [CHR 0x22] @ bc_name col @ [CHR 0x22] @
     '' is out of range for the target column (accepts '' @ signed_string lo @ ''..'' @ signed_string hi @ '')''"

definition NarrowSourceInteger :: "hugeint_ops \<Rightarrow> hugeint_t \<Rightarrow> int \<Rightarrow> int \<Rightarrow> BCPColumnMetadata \<Rightarrow> int res" where
  "NarrowSourceInteger H v lo hi col =
     (if hg_gt H v (huge hi) \<or> hg_gt H (huge lo) v then Throw (range_message (hg_to_string H v) col lo hi) else hg_cast_i64 H v)"

definition narrowed :: "hugeint_ops \<Rightarrow> LogicalType \<Rightarrow> BCPColumnMetadata \<Rightarrow> int \<Rightarrow> int \<Rightarrow> int \<Rightarrow> int res" where
  "narrowed H src col lo hi v = bind_res (ReadSourceInteger src v) (\<lambda>w. NarrowSourceInteger H w lo hi col)"

definition EncodeToBcp_integer :: "hugeint_ops \<Rightarrow> LogicalType \<Rightarrow> BCPColumnMetadata \<Rightarrow> int \<Rightarrow> byte list \<Rightarrow> byte list res" where
  "EncodeToBcp_integer H src col v buf =
     (let target = lt_id (bc_duckdb_type col); pt = lt_physical src
      in if target = UTINYINT_ID then
           (if pt = PT_UINT8 then map_res (\<lambda>x. EncodeUInt8 buf (word_of_int x)) (FormatValue PT_UINT8 src v)
            else map_res (\<lambda>x. EncodeUInt8 buf (word_of_int x)) (narrowed H src col 0 255 v))
         else if target = TINYINT_ID \<or> target = SMALLINT_ID then
           (if pt = PT_INT16 then map_res (EncodeInt16 buf) (FormatValue PT_INT16 src v)
            else map_res (EncodeInt16 buf) (narrowed H src col (- (2 ^ 15)) (2 ^ 15 - 1) v))
         else if target = USMALLINT_ID then map_res (EncodeInt32 buf) (FormatValue PT_UINT16 src v)
         else if target = INTEGER_ID then
           (if pt = PT_INT32 then map_res (EncodeInt32 buf) (FormatValue PT_INT32 src v)
            else map_res (EncodeInt32 buf) (narrowed H src col (- (2 ^ 31)) (2 ^ 31 - 1) v))
         else if target = UINTEGER_ID then map_res (EncodeInt64 buf) (FormatValue PT_UINT32 src v)
         else if target = BIGINT_ID then
           (if pt = PT_INT64 then map_res (EncodeInt64 buf) (FormatValue PT_INT64 src v)
            else map_res (EncodeInt64 buf) (narrowed H src col (- (2 ^ 63)) (2 ^ 63 - 1) v))
         else if target = UBIGINT_ID then
           bind_res (FormatValue PT_UINT64 src v) (\<lambda>x. EncodeDecimal H buf \<lparr> hg_lower = word_of_int x, hg_upper = 0 \<rparr> (bc_precision col))
         else if target = HUGEINT_ID then
           bind_res (FormatValue PT_INT128 src v) (\<lambda>x. bind_res (CheckHugeintFitsDecimal38 H (huge x) (bc_name col)) (\<lambda>_.
             EncodeDecimal H buf (huge x) (bc_precision col)))
         else if target = UHUGEINT_ID then
           bind_res (FormatValue PT_UINT128 src v) (\<lambda>x. bind_res (CheckUhugeintFitsDecimal38 H x (bc_name col)) (\<lambda>_.
             EncodeDecimal H buf (huge x) (bc_precision col)))
         else Throw ''codec::integer::EncodeToBcp: unsupported type'')"

definition DecodeFromTds_integer :: "byte list \<Rightarrow> int res" where
  "DecodeFromTds_integer bytes =
     (if length bytes = 1 then Ret (int (le_nat bytes))
      else if length bytes = 2 then Ret (sint (word_of_nat (le_nat bytes) :: u16))
      else if length bytes = 4 then Ret (sint (word_of_nat (le_nat bytes) :: u32))
      else if length bytes = 8 then Ret (sint (word_of_nat (le_nat bytes) :: u64))
      else Throw (''codec::integer::DecodeFromTds: invalid integer length '' @ to_string (length bytes)))"

subsection \<open>Booleans, floats, binary data, UUIDs\<close>

definition EncodeToBcp_boolean :: "LogicalType \<Rightarrow> int \<Rightarrow> byte list \<Rightarrow> byte list res" where
  "EncodeToBcp_boolean src v buf = map_res (\<lambda>b. buf @ [1] @ [if b \<noteq> 0 then 1 else 0]) (FormatValue PT_BOOL src v)"

definition DecodeFromTds_boolean :: "byte list \<Rightarrow> bool" where
  "DecodeFromTds_boolean bytes \<longleftrightarrow> bytes \<noteq> [] \<and> bytes ! 0 \<noteq> 0"

record float_ops =
  to_double :: "u32 \<Rightarrow> u64"
  to_float :: "u64 \<Rightarrow> u32"

definition EncodeToBcp_float :: "float_ops \<Rightarrow> LogicalType \<Rightarrow> BCPColumnMetadata \<Rightarrow> int \<Rightarrow> byte list \<Rightarrow> byte list res" where
  "EncodeToBcp_float F src col v buf =
     (if lt_id src \<noteq> FLOAT_ID \<and> lt_id src \<noteq> DOUBLE_ID
      then Throw ''codec::float_family::EncodeToBcp: unexpected LogicalType''
      else bind_res (if lt_id src = FLOAT_ID then map_res (\<lambda>x. to_double F (word_of_int x)) (FormatValue PT_FLOAT src v)
                     else map_res word_of_int (FormatValue PT_DOUBLE src v)) (\<lambda>d.
        Ret (if lt_id (bc_duckdb_type col) = FLOAT_ID then EncodeFloat buf (to_float F d) else EncodeDouble buf d)))"

definition ClampBlobToBound :: "byte list \<Rightarrow> BCPColumnMetadata \<Rightarrow> byte list" where
  "ClampBlobToBound blob col =
     (let bound = unat (bc_max_length col) in if bound = 0 \<or> length blob \<le> bound then blob else take bound blob)"

definition EncodeToBcp_binary :: "BCPColumnMetadata \<Rightarrow> byte list \<Rightarrow> byte list \<Rightarrow> byte list" where
  "EncodeToBcp_binary col blob buf =
     (if bc_IsPLPType col then EncodeBinaryPLP buf blob else EncodeBinary buf (ClampBlobToBound blob col))"

definition EncodeToBcp_uuid :: "LogicalType \<Rightarrow> int \<Rightarrow> byte list \<Rightarrow> byte list res" where
  "EncodeToBcp_uuid src v buf = map_res (\<lambda>x. buf @ [16] @ EncodeHugeIntToWire (huge x)) (FormatValue PT_INT128 src v)"

subsection \<open>The integer encoder\<close>

context hugeint_laws begin

lemma NarrowSource_Ret:
  assumes "in_i128 v" "in_i64 lo" "in_i64 hi"
  shows "NarrowSourceInteger H (huge v) lo hi col =
    (if lo \<le> v \<and> v \<le> hi then Ret v else Throw (range_message (signed_string v) col lo hi))"
proof -
  have i: "in_i128 lo" "in_i128 hi" using assms(2,3) by auto
  note h = hvalue_huge [OF assms(1)] hvalue_huge [OF i(1)] hvalue_huge [OF i(2)]
  have "lo \<le> v \<and> v \<le> hi \<Longrightarrow> hg_cast_i64 H (huge v) = Ret v"
    using cast_i64 [of "huge v"] assms(2,3) h(1) by (metis (no_types, lifting) order_le_less_trans order_trans)
  then show ?thesis by (auto simp: NarrowSourceInteger_def gt shown h)
qed

text \<open>The range and the width of an integer column.\<close>

end

fun int_column :: "LogicalTypeId \<Rightarrow> (int \<times> int \<times> nat) option" where
  "int_column UTINYINT_ID = Some (0, 255, 1)"
| "int_column TINYINT_ID = Some (- (2 ^ 15), 2 ^ 15 - 1, 2)"
| "int_column SMALLINT_ID = Some (- (2 ^ 15), 2 ^ 15 - 1, 2)"
| "int_column INTEGER_ID = Some (- (2 ^ 31), 2 ^ 31 - 1, 4)"
| "int_column BIGINT_ID = Some (- (2 ^ 63), 2 ^ 63 - 1, 8)"
| "int_column _ = None"

abbreviation int_storage :: "PhysicalType set" where
  "int_storage \<equiv> {PT_BOOL, PT_INT8, PT_UINT8, PT_INT16, PT_UINT16, PT_INT32, PT_UINT32, PT_INT64, PT_UINT64, PT_INT128}"

lemma ReadSource_Ret: "stored (lt_physical src) v \<Longrightarrow> lt_physical src \<in> int_storage \<Longrightarrow> ReadSourceInteger src v = Ret (huge v) \<and> in_i128 v"
  by (auto simp: ReadSourceInteger_def FormatValue_def Let_def huge_def)

lemma le_bytes_1: "le_bytes (Suc 0) v = [word_of_int v]"
proof -
  have "byte_of v 0 = word_of_int v" by (rule word_uint_eqI) (simp add: uint_byte_of uint_word_of_int)
  then show ?thesis by (simp add: le_bytes_def)
qed

context hugeint_laws begin

lemma EncodeInteger_Ret:
  assumes "stored (lt_physical src) v" "lt_physical src \<in> int_storage" "int_column (lt_id (bc_duckdb_type col)) = Some (lo, hi, w)"
  shows "EncodeToBcp_integer H src col v buf =
    (if lo \<le> v \<and> v \<le> hi then Ret (buf @ of_nat w # le_bytes w v) else Throw (range_message (signed_string v) col lo hi))"
proof -
  note r = ReadSource_Ret [OF assms(1,2)]
  have n: "narrowed H src col lo' hi' v = (if lo' \<le> v \<and> v \<le> hi' then Ret v else Throw (range_message (signed_string v) col lo' hi'))"
    if "in_i64 lo'" "in_i64 hi'" for lo' hi'
    using r NarrowSource_Ret [OF conjunct2 [OF r] that] by (simp add: narrowed_def)
  have e: "EncodeUInt8 buf (word_of_int v) = buf @ 1 # le_bytes 1 v" by (simp add: EncodeUInt8_def le_bytes_1)
  show ?thesis
    using assms e
    by (cases "lt_id (bc_duckdb_type col)"; cases "lt_physical src")
      (simp_all add: n EncodeToBcp_integer_def Let_def FormatValue_def EncodeInt16_def EncodeInt32_def EncodeInt64_def, auto)
qed

end

lemma sint_le_bytes:
  assumes "LENGTH('a::len) = 8 * w" "- (2 ^ (8 * w - 1)) \<le> v" "v < 2 ^ (8 * w - 1)" "0 < w"
  shows "sint (word_of_nat (le_nat (le_bytes w v)) :: 'a word) = v"
proof -
  have "(word_of_nat (le_nat (le_bytes w v)) :: 'a word) = word_of_int (v mod 2 ^ (8 * w))"
    by (metis le_nat_le_bytes of_int_of_nat_eq)
  also have "\<dots> = word_of_int v" by (rule word_uint_eqI) (simp add: uint_word_of_int assms(1))
  finally show ?thesis using assms by (simp add: signed_of_int signed_take_bit_int_eq_self)
qed

lemma DecodeInteger_le_bytes:
  assumes "int_column t = Some (lo, hi, w)" "lo \<le> v" "v \<le> hi"
  shows "DecodeFromTds_integer (le_bytes w v) = Ret v"
proof -
  note s = sint_le_bytes
  have "int (le_nat (le_bytes 1 v)) = v mod 256" using le_nat_le_bytes [of 1 v] by simp
  moreover have "sint (word_of_nat (le_nat (le_bytes w v)) :: u16) = v" if "w = 2" using s [where 'a = 16] that assms by (cases t) simp_all
  moreover have "sint (word_of_nat (le_nat (le_bytes w v)) :: u32) = v" if "w = 4" using s [where 'a = 32] that assms by (cases t) simp_all
  moreover have "sint (word_of_nat (le_nat (le_bytes w v)) :: u64) = v" if "w = 8" using s [where 'a = 64] that assms by (cases t) simp_all
  ultimately show ?thesis using assms by (cases t) (auto simp: DecodeFromTds_integer_def)
qed

text \<open>C19: an integer of any source type bulk-loaded into a tinyint, smallint, int or bigint column is either refused with the range
  message, exactly when the column's type does not contain it, or its bytes are read back by the row reader and
  decoded to the same number; it never becomes a different one.\<close>

theorem integer_roundtrip:
  assumes "hugeint_laws H" "stored (lt_physical src) v" "lt_physical src \<in> int_storage"
    "int_column (lt_id (bc_duckdb_type col)) = Some (lo, hi, w)" "type_id c = TDS_TYPE_INTN"
  shows "if lo \<le> v \<and> v \<le> hi
    then \<exists>cell payload. EncodeToBcp_integer H src col v buf = Ret (buf @ cell) \<and>
      ReadValue c (cell @ rest) = Ret (length cell, payload, False) \<and> DecodeFromTds_integer payload = Ret v
    else EncodeToBcp_integer H src col v buf = Throw (range_message (signed_string v) col lo hi)"
proof (cases "lo \<le> v \<and> v \<le> hi")
  case True
  have w: "w \<in> {1, 2, 4, 8}" using assms(4) by (cases "lt_id (bc_duckdb_type col)") auto
  then have "le_bytes w v \<noteq> []" by (auto simp flip: length_greater_0_conv)
  with w have "ReadValue c ((of_nat w # le_bytes w v) @ rest) = Ret (length (of_nat w # le_bytes w v), le_bytes w v, False)"
    using ReadValue_counted [of c "le_bytes w v" rest] assms(5) by (auto simp: prefix1_types_def)
  moreover have "EncodeToBcp_integer H src col v buf = Ret (buf @ of_nat w # le_bytes w v)"
    using hugeint_laws.EncodeInteger_Ret [OF assms(1-4), of buf] True by simp
  ultimately show ?thesis using True DecodeInteger_le_bytes [OF assms(4)] by (simp only: simp_thms if_True) blast
next
  case False
  then show ?thesis using hugeint_laws.EncodeInteger_Ret [OF assms(1-4), of buf] by (simp only: if_False)
qed

definition lt_of :: "PhysicalType \<Rightarrow> LogicalType" where
  "lt_of pt = \<lparr> lt_id = OTHER_ID, lt_physical = pt, lt_width = 0, lt_scale = 0 \<rparr>"

definition int_column_type :: "LogicalTypeId \<Rightarrow> BCPColumnMetadata" where
  "int_column_type t = numeric_18_2 \<lparr> bc_duckdb_type := \<lparr> lt_id = t, lt_physical = PT_INT32, lt_width = 0, lt_scale = 0 \<rparr> \<rparr>"

theorem integer_roundtrip_witness:
  "(\<exists>cell payload. EncodeToBcp_integer exact_ops (lt_of PT_INT64) (int_column_type INTEGER_ID) (- 5) [] = Ret ([] @ cell) \<and>
      ReadValue (fresh_column \<lparr> type_id := TDS_TYPE_INTN \<rparr>) (cell @ []) = Ret (length cell, payload, False) \<and>
      DecodeFromTds_integer payload = Ret (- 5)) \<and>
   EncodeToBcp_integer exact_ops (lt_of PT_INT8) (int_column_type UTINYINT_ID) (- 1) [] =
     Throw (range_message (signed_string (- 1)) (int_column_type UTINYINT_ID) 0 255)"
  using integer_roundtrip [OF exact.hugeint_laws_axioms, of "lt_of PT_INT64" "- 5" "int_column_type INTEGER_ID" "- (2 ^ 31)" "2 ^ 31 - 1" 4
      "fresh_column \<lparr> type_id := TDS_TYPE_INTN \<rparr>" "[]" "[]"]
    integer_roundtrip [OF exact.hugeint_laws_axioms, of "lt_of PT_INT8" "- 1" "int_column_type UTINYINT_ID" 0 255 1
      "fresh_column \<lparr> type_id := TDS_TYPE_INTN \<rparr>" "[]" "[]"]
  by (simp add: int_column_type_def lt_of_def)

end
