(* ===== verification/String_Codec.thy ===== *)
theory String_Codec
  imports Chunk_Format Scalar_Codec Utf16_Contract
begin

text \<open>
  Text and binary columns of a bulk load: \<open>src/codec/string_codec.cpp\<close>. The row path encodes one value at a time; the
  columnar path plans a column first (\<open>PlanColumn\<close>: the bytes of every row, clamped to the column's bound) and then
  writes it (\<open>ScatterVarBlock\<close>). Both are shown to write the same bytes. Positions are natural numbers, lengths of a plan
  32-bit words as in the source; \<open>al p\<close> says that position \<open>p\<close> of the buffer has an odd address.
\<close>

subsection \<open>Helpers\<close>

definition IsAsciiRun :: "byte list \<Rightarrow> bool" where
  "IsAsciiRun d =
     (let words = length d div 8
      in list_all (\<lambda>k. ascii_chunk d (k * 8) AND 0x8080808080808080 = 0) [0..<words] \<and>
         list_all (\<lambda>i. d ! i AND 0x80 = 0) [words * 8..<length d])"

definition WidenAscii :: "byte list \<Rightarrow> nat \<Rightarrow> nat \<Rightarrow> byte list \<Rightarrow> byte list res" where
  "WidenAscii src n out =
     for_each (\<lambda>i buf. bind_res (rd src i) (\<lambda>b. bind_res (wr_block buf (out + 2 * i) [b]) (\<lambda>buf.
       wr_block buf (out + 2 * i + 1) [0]))) [0..<n]"

text \<open>The bytes and UTF-16 bytes the lead byte announces.\<close>

definition cp_sizes :: "byte \<Rightarrow> nat \<times> nat" where
  "cp_sizes lead = (if lead < 0x80 then (1, 2) else if lead < 0xE0 then (2, 2) else if lead < 0xF0 then (3, 2) else (4, 4))"

lemma cp_sizes_pos: "0 < fst (cp_sizes b)"
  by (simp add: cp_sizes_def)

function prefix_loop :: "byte list \<Rightarrow> nat \<Rightarrow> nat \<Rightarrow> nat \<Rightarrow> nat \<times> nat" where
  "prefix_loop data max_bytes i used =
     (if i < length data
      then let (cp, u16) = cp_sizes (data ! i)
        in if used + u16 > max_bytes then (i, used) else prefix_loop data max_bytes (i + cp) (used + u16)
      else (i, used))"
  by pat_completeness auto
termination
  by (relation "measure (\<lambda>(data, max_bytes, i, used). length data - i)") (auto dest: sym simp: cp_sizes_def split: if_splits)

declare prefix_loop.simps [simp del]

definition Utf8PrefixForUtf16Limit :: "byte list \<Rightarrow> nat \<Rightarrow> nat \<times> nat" where
  "Utf8PrefixForUtf16Limit data max_bytes = prefix_loop data max_bytes 0 0"

fun back_off :: "byte list \<Rightarrow> nat \<Rightarrow> nat" where
  "back_off data 0 = 0"
| "back_off data (Suc n) = (if data ! Suc n AND 0xC0 = 0x80 then back_off data n else Suc n)"

definition Utf8PrefixForByteLimit :: "byte list \<Rightarrow> nat \<Rightarrow> nat" where
  "Utf8PrefixForByteLimit data max_bytes = (if length data \<le> max_bytes then length data else back_off data max_bytes)"

definition plp_header :: "byte list" where
  "plp_header = le_bytes 8 (uint UNKNOWN_PLP_LEN)"

subsection \<open>The row path\<close>

definition AppendNVarcharNonPlp :: "simdutf \<Rightarrow> (nat \<Rightarrow> bool) \<Rightarrow> byte list \<Rightarrow> byte list \<Rightarrow> byte list res" where
  "AppendNVarcharNonPlp U al buf input =
     (let start = length buf; buf = resize (start + 2 + length input * 2) 0 buf
      in bind_res (Utf16LEEncodeDirect U (al (start + 2)) input (drop (start + 2) buf)) (\<lambda>(n, out).
         bind_res (wr_block (take (start + 2) buf @ out) start (le_bytes 2 (int n))) (\<lambda>buf.
           Ret (resize (start + 2 + n) 0 buf))))"

definition AppendNVarcharPlp :: "simdutf \<Rightarrow> (nat \<Rightarrow> bool) \<Rightarrow> byte list \<Rightarrow> byte list \<Rightarrow> byte list res" where
  "AppendNVarcharPlp U al buf input =
     (let start = length buf
      in if input = [] then
           bind_res (wr_block (resize (start + 8 + 4) 0 buf) start plp_header) (\<lambda>buf. wr_block buf (start + 8) [0, 0, 0, 0])
         else
           bind_res (wr_block (resize (start + 8 + 4 + length input * 2 + 4) 0 buf) start plp_header) (\<lambda>buf.
           bind_res (Utf16LEEncodeDirect U (al (start + 12)) input (drop (start + 12) buf)) (\<lambda>(n, out).
           bind_res (wr_block (take (start + 12) buf @ out) (start + 8) (le_bytes 4 (int n))) (\<lambda>buf.
           bind_res (wr_block buf (start + 12 + n) [0, 0, 0, 0]) (\<lambda>buf.
             Ret (resize (start + 8 + 4 + n + 4) 0 buf))))))"

definition EncodeNVarcharFromUtf8 ::
  "simdutf \<Rightarrow> (nat \<Rightarrow> bool) \<Rightarrow> byte list \<Rightarrow> BCPColumnMetadata \<Rightarrow> byte list \<Rightarrow> byte list res" where
  "EncodeNVarcharFromUtf8 U al utf8 col buf =
     (case Utf16LEByteLengthView U utf8 of (utf16_len, valid_utf8) \<Rightarrow>
      let (utf8_len, utf16_len) =
        (if \<not> bc_IsPLPType col \<and> utf16_len > unat (bc_max_length col) then Utf8PrefixForUtf16Limit utf8 (unat (bc_max_length col))
         else (length utf8, utf16_len))
      in bind_res (rd_block utf8 0 utf8_len) (\<lambda>utf8.
         if \<not> valid_utf8 then (if bc_IsPLPType col then AppendNVarcharPlp U al buf utf8 else AppendNVarcharNonPlp U al buf utf8)
         else let start = length buf
           in if bc_IsPLPType col then
                (if utf16_len = 0 then AppendNVarcharPlp U al buf utf8
                 else
                   bind_res (wr_block (resize (start + 8 + 4 + utf16_len + 4) 0 buf) start plp_header) (\<lambda>buf.
                   bind_res (wr_block buf (start + 8) (le_bytes 4 (int utf16_len))) (\<lambda>buf.
                   bind_res (Utf16LEEncodeValidDirect U (al (start + 12)) utf8 (drop (start + 12) buf)) (\<lambda>(n, out).
                     wr_block (take (start + 12) buf @ out) (start + 12 + utf16_len) [0, 0, 0, 0]))))
              else
                bind_res (wr_block (resize (start + 2 + utf16_len) 0 buf) start (le_bytes 2 (int utf16_len))) (\<lambda>buf.
                bind_res (Utf16LEEncodeValidDirect U (al (start + 2)) utf8 (drop (start + 2) buf)) (\<lambda>(n, out).
                  Ret (take (start + 2) buf @ out)))))"

definition EncodeVarcharUtf8 :: "byte list \<Rightarrow> BCPColumnMetadata \<Rightarrow> byte list \<Rightarrow> byte list res" where
  "EncodeVarcharUtf8 utf8 col buf =
     (let n = (if \<not> bc_IsPLPType col \<and> length utf8 > unat (bc_max_length col)
               then Utf8PrefixForByteLimit utf8 (unat (bc_max_length col)) else length utf8);
          start = length buf
      in bind_res (rd_block utf8 0 n) (\<lambda>utf8.
         if bc_IsPLPType col then
           bind_res (wr_block (resize (start + 8 + (if n > 0 then 4 + n else 0) + 4) 0 buf) start plp_header) (\<lambda>buf.
             if n > 0 then
               bind_res (wr_block buf (start + 8) (le_bytes 4 (int n))) (\<lambda>buf.
               bind_res (wr_block buf (start + 12) utf8) (\<lambda>buf. wr_block buf (start + 12 + n) [0, 0, 0, 0]))
             else wr_block buf (start + 8) [0, 0, 0, 0])
         else bind_res (wr_block (resize (start + 2 + n) 0 buf) start (le_bytes 2 (int n))) (\<lambda>buf. wr_block buf (start + 2) utf8)))"

text \<open>The encoder of a column, by the family of its DuckDB type first, and for text by the wire token. It gets the cell's text, for
  an INTERVAL the rendering of the value. The other families have encoders of their own (\<open>Scalar_Codec\<close> and the other
  codec theories).\<close>

definition ResolveTextEncoder :: "simdutf \<Rightarrow> (nat \<Rightarrow> bool) \<Rightarrow> BCPColumnMetadata \<Rightarrow> byte list \<Rightarrow> byte list \<Rightarrow> byte list res" where
  "ResolveTextEncoder U al col d buf =
     (case FamilyFromLogicalType (lt_id (bc_duckdb_type col)) of
        Some StringFamily \<Rightarrow>
          if bc_tds_type_token col = TDS_TYPE_BIGVARCHAR then EncodeVarcharUtf8 d col buf else EncodeNVarcharFromUtf8 U al d col buf
      | Some BinaryFamily \<Rightarrow> Ret (EncodeToBcp_binary col d buf)
      | _ \<Rightarrow> Throw ''not a text or binary column'')"

text \<open>The cell of a text or binary column, as the row loop sends it.\<close>

definition encode_text :: "simdutf \<Rightarrow> (nat \<Rightarrow> bool) \<Rightarrow> BCPColumnMetadata \<Rightarrow> vec \<Rightarrow> nat \<Rightarrow> byte list \<Rightarrow> byte list res" where
  "encode_text U al col v r buf =
     (if FormatIsNull v r then Ret (EncodeNullOfKind buf (if bc_IsPLPType col then NullPlp else NullVariableUShort))
      else ResolveTextEncoder U al col (str (cell_at v r)) buf)"

text \<open>A column whose DuckDB type and wire token belong together, as the resolver of the target sets them.\<close>

definition text_target :: "BCPColumnMetadata \<Rightarrow> bool" where
  "text_target col \<longleftrightarrow> FamilyFromLogicalType (lt_id (bc_duckdb_type col)) =
     Some (if bc_tds_type_token col = TDS_TYPE_BIGVARBINARY then BinaryFamily else StringFamily)"

subsection \<open>The columnar path\<close>

datatype VarKind = NVarcharKind | Utf8VarcharKind | BinaryKind

record StringColumnPlan =
  sp_lengths :: "u32 list"
  sp_wire :: "u32 list"
  sp_src_len :: "u32 list"
  sp_kind :: VarKind
  sp_all_ascii :: bool
  sp_truncated :: bool
  sp_plp :: bool

definition wire_size :: "bool \<Rightarrow> u32 \<Rightarrow> u32" where
  "wire_size plp len = (if \<not> plp then 2 + len else if len = 0 then 12 else 16 + len)"

definition clamp_row :: "vec \<Rightarrow> u32 \<Rightarrow> nat \<Rightarrow> StringColumnPlan \<Rightarrow> StringColumnPlan res" where
  "clamp_row v bound r plan =
     (if FormatIsNull v r then Ret (plan \<lparr> sp_src_len := (sp_src_len plan)[r := 0] \<rparr>)
      else let sv = str (cell_at v r); len = sp_lengths plan ! r;
          (src, len) =
            (if len > bound then
               (if sp_kind plan = NVarcharKind then
                  (case Utf8PrefixForUtf16Limit sv (unat bound) of (n, u) \<Rightarrow> (of_nat n, of_nat u))
                else if sp_kind plan = Utf8VarcharKind then
                  (let n = of_nat (Utf8PrefixForByteLimit sv (unat bound)) in (n, n))
                else (bound, bound))
             else (of_nat (length sv), len))
        in Ret (plan \<lparr> sp_lengths := (sp_lengths plan)[r := len], sp_src_len := (sp_src_len plan)[r := src],
             sp_wire := (sp_wire plan)[r := wire_size (sp_plp plan) len] \<rparr>))"

definition ClampToBound :: "vec \<Rightarrow> nat \<Rightarrow> u32 \<Rightarrow> StringColumnPlan \<Rightarrow> StringColumnPlan res" where
  "ClampToBound v rows bound plan =
     for_each (clamp_row v bound) [0..<rows] (plan \<lparr> sp_truncated := True, sp_src_len := replicate rows 0 \<rparr>)"

definition plan_row :: "simdutf \<Rightarrow> vec \<Rightarrow> u32 \<Rightarrow> nat \<Rightarrow> StringColumnPlan \<times> bool \<times> bool \<Rightarrow> (StringColumnPlan \<times> bool \<times> bool) res" where
  "plan_row U v bound r = (\<lambda>(plan, ascii, over).
     if FormatIsNull v r then
       Ret (plan \<lparr> sp_lengths := (sp_lengths plan)[r := 0], sp_wire := (sp_wire plan)[r := if sp_plp plan then 8 else 2] \<rparr>, ascii, over)
     else let sv = str (cell_at v r)
       in bind_res
            (if sp_kind plan \<noteq> NVarcharKind then Ret (of_nat (length sv), ascii)
             else if ascii \<and> IsAsciiRun sv then Ret (of_nat (length sv) * 2, ascii)
             else case Utf16LEByteLengthView U sv of (u16, valid) \<Rightarrow> if \<not> valid then More else Ret (of_nat u16, False))
            (\<lambda>(len, ascii). Ret
               (plan \<lparr> sp_lengths := (sp_lengths plan)[r := len], sp_wire := (sp_wire plan)[r := wire_size (sp_plp plan) len] \<rparr>,
                ascii, over \<or> len > bound)))"

text \<open>\<open>More\<close> is the answer \<open>false\<close>: the column cannot be planned. The first row is row 0, as in the one call of the source.\<close>

definition PlanColumn :: "simdutf \<Rightarrow> vec \<Rightarrow> nat \<Rightarrow> BCPColumnMetadata \<Rightarrow> StringColumnPlan res" where
  "PlanColumn U v rows col =
     bind_res
       (if bc_tds_type_token col = TDS_TYPE_BIGVARCHAR then Ret Utf8VarcharKind
        else if bc_tds_type_token col = TDS_TYPE_BIGVARBINARY then Ret BinaryKind
        else if bc_tds_type_token col = TDS_TYPE_NVARCHAR then Ret NVarcharKind else More) (\<lambda>kind.
     let plp = bc_IsPLPType col; bound = (if plp then 0xFFFFFFFF else ucast (bc_max_length col));
         plan = \<lparr> sp_lengths = replicate rows 0, sp_wire = replicate rows 0, sp_src_len = [], sp_kind = kind,
           sp_all_ascii = False, sp_truncated = False, sp_plp = plp \<rparr>
     in bind_res (for_each (plan_row U v bound) [0..<rows] (plan, True, False)) (\<lambda>(plan, ascii, over).
        let plan = plan \<lparr> sp_all_ascii := ascii \<and> kind = NVarcharKind \<rparr>
        in if over then ClampToBound v rows bound plan else Ret plan))"

definition write_payload :: "simdutf \<Rightarrow> (nat \<Rightarrow> bool) \<Rightarrow> vec \<Rightarrow> StringColumnPlan \<Rightarrow> nat \<Rightarrow> nat \<Rightarrow> byte list \<Rightarrow> byte list res" where
  "write_payload U al v plan r payload buf =
     (let len = unat (sp_lengths plan ! r); sv = str (cell_at v r);
          src_bytes = (if sp_truncated plan then unat (sp_src_len plan ! r) else length sv)
      in if sp_all_ascii plan then WidenAscii sv (len div 2) payload buf
         else if sp_kind plan = NVarcharKind then
           bind_res (rd_block sv 0 src_bytes) (\<lambda>sv.
           bind_res (Utf16LEEncodeValidDirect U (al payload) sv (drop payload buf)) (\<lambda>(n, written). Ret (take payload buf @ written)))
         else bind_res (rd_block sv 0 len) (wr_block buf payload))"

definition scatter_row ::
  "simdutf \<Rightarrow> (nat \<Rightarrow> bool) \<Rightarrow> vec \<Rightarrow> StringColumnPlan \<Rightarrow> nat \<Rightarrow> byte list \<times> nat list \<Rightarrow> (byte list \<times> nat list) res" where
  "scatter_row U al v plan r = (\<lambda>(buf, cursor).
     let out = cursor ! r; done = (\<lambda>buf. Ret (buf, cursor[r := out + unat (sp_wire plan ! r)]))
     in if FormatIsNull v r then bind_res (wr_block buf out (replicate (if sp_plp plan then 8 else 2) 0xFF)) done
        else let len = unat (sp_lengths plan ! r)
          in if \<not> sp_plp plan then
               bind_res (wr_block buf out (le_bytes 2 (int len))) (\<lambda>buf. bind_res (write_payload U al v plan r (out + 2) buf) done)
             else bind_res (wr_block buf out plp_header) (\<lambda>buf.
               if len = 0 then bind_res (wr_block buf (out + 8) [0, 0, 0, 0]) done
               else bind_res (wr_block buf (out + 8) (le_bytes 4 (int len))) (\<lambda>buf.
                    bind_res (wr_block buf (out + 12 + len) [0, 0, 0, 0]) (\<lambda>buf.
                    bind_res (write_payload U al v plan r (out + 12) buf) done))))"

definition ScatterVarBlock ::
  "simdutf \<Rightarrow> (nat \<Rightarrow> bool) \<Rightarrow> vec \<Rightarrow> StringColumnPlan \<Rightarrow> nat \<Rightarrow> nat \<Rightarrow> byte list \<times> nat list \<Rightarrow> (byte list \<times> nat list) res" where
  "ScatterVarBlock U al v plan r0 rend = for_each (scatter_row U al v plan) [r0..<rend]"

subsection \<open>Helpers meet their specification\<close>

lemma IsAsciiRun_iff: "IsAsciiRun d \<longleftrightarrow> (\<forall>b \<in> set d. unat b < 128)"
  using IsAsciiString_iff [of d] by (simp add: IsAsciiRun_def IsAsciiString_def)

lemma lead_sizes: "is_scalar c \<Longrightarrow> cp_sizes (hd (utf8_of_cp c)) = (length (utf8_of_cp c), 2 * length (utf16_of_cp c))"
  by (auto simp: is_scalar_def cp_sizes_def utf8_of_cp_def utf16_of_cp_def word_less_nat_alt unat_byte_small simp del: of_nat_add)

text \<open>The prefix of a text that fits consists of whole code points.\<close>

lemma prefix_loop_scalars:
  "list_all is_scalar cps \<Longrightarrow> used \<le> max_bytes \<Longrightarrow>
    \<exists>c1 c2. cps = c1 @ c2 \<and> used + 2 * length (utf16_enc c1) \<le> max_bytes \<and>
      (c2 = [] \<or> max_bytes < used + 2 * length (utf16_enc (c1 @ [hd c2]))) \<and>
      prefix_loop (pre @ utf8_enc cps) max_bytes (length pre) used =
        (length pre + length (utf8_enc c1), used + 2 * length (utf16_enc c1))"
proof (induction cps arbitrary: pre used)
  case Nil
  then show ?case by (subst prefix_loop.simps) simp
next
  case (Cons c cs)
  obtain b bs where u: "utf8_of_cp c = b # bs" by (cases "utf8_of_cp c") (simp_all add: utf8_of_cp_ne)
  with Cons.prems lead_sizes [of c] have l: "cp_sizes b = (length (utf8_of_cp c), 2 * length (utf16_of_cp c))" by simp
  have n: "(pre @ utf8_enc (c # cs)) ! length pre = b" "length pre < length (pre @ utf8_enc (c # cs))" by (simp_all add: u)
  have step: "prefix_loop (pre @ utf8_enc (c # cs)) max_bytes (length pre) used =
      (if used + 2 * length (utf16_of_cp c) > max_bytes then (length pre, used)
       else prefix_loop (pre @ utf8_enc (c # cs)) max_bytes (length pre + length (utf8_of_cp c)) (used + 2 * length (utf16_of_cp c)))"
    by (subst prefix_loop.simps) (simp only: n l if_True prod.case Let_def)
  show ?case
  proof (cases "used + 2 * length (utf16_of_cp c) > max_bytes")
    case True
    with Cons.prems step show ?thesis by (intro exI [of _ "[]"] exI [of _ "c # cs"]) simp
  next
    case False
    then have s: "prefix_loop (pre @ utf8_enc (c # cs)) max_bytes (length pre) used =
        prefix_loop ((pre @ utf8_of_cp c) @ utf8_enc cs) max_bytes (length (pre @ utf8_of_cp c)) (used + 2 * length (utf16_of_cp c))"
      unfolding step by simp
    have "list_all is_scalar cs" "used + 2 * length (utf16_of_cp c) \<le> max_bytes" using False Cons.prems(1) by simp_all
    from Cons.IH [OF this, of "pre @ utf8_of_cp c"] obtain c1 c2 where
      "cs = c1 @ c2" "used + 2 * length (utf16_of_cp c) + 2 * length (utf16_enc c1) \<le> max_bytes"
      "c2 = [] \<or> max_bytes < used + 2 * length (utf16_of_cp c) + 2 * length (utf16_enc (c1 @ [hd c2]))"
      "prefix_loop ((pre @ utf8_of_cp c) @ utf8_enc cs) max_bytes (length (pre @ utf8_of_cp c)) (used + 2 * length (utf16_of_cp c)) =
        (length (pre @ utf8_of_cp c) + length (utf8_enc c1), used + 2 * length (utf16_of_cp c) + 2 * length (utf16_enc c1))"
      by blast
    then show ?thesis unfolding s by - (rule exI [of _ "c # c1"], rule exI [of _ c2], simp add: add.assoc)
  qed
qed

lemma back_off_le: "back_off data n \<le> n"
  by (induction n) auto

lemma ByteLimit_le: "Utf8PrefixForByteLimit data n \<le> n \<and> Utf8PrefixForByteLimit data n \<le> length data" if "n < length data"
  using that back_off_le [of data n] by (simp add: Utf8PrefixForByteLimit_def)

lemma wr_block_behind: "k = length a \<Longrightarrow> length bs \<le> length c \<Longrightarrow> wr_block (a @ c) k bs = Ret (a @ bs @ drop (length bs) c)"
  by (simp add: wr_block_def)

lemma resize_grow: "n = length buf + k \<Longrightarrow> resize n x buf = buf @ replicate k x"
  by (simp add: resize_def)

lemma length_plp_header [simp]: "length plp_header = 8"
  by (simp add: plp_header_def)

definition framed :: "bool \<Rightarrow> byte list \<Rightarrow> byte list" where
  "framed plp p = (if \<not> plp then le_bytes 2 (int (length p)) @ p
     else plp_header @ (if p = [] then [] else le_bytes 4 (int (length p)) @ p) @ [0, 0, 0, 0])"

lemma EncodeVarcharUtf8_Ret:
  "EncodeVarcharUtf8 d col buf = Ret (buf @ framed (bc_IsPLPType col)
     (if \<not> bc_IsPLPType col \<and> length d > unat (bc_max_length col) then take (Utf8PrefixForByteLimit d (unat (bc_max_length col))) d else d))"
  using ByteLimit_le [of "unat (bc_max_length col)" d] wr_block_def
  by (auto simp: EncodeVarcharUtf8_def Let_def resize_grow wr_block_def framed_def min_def)

definition nvarchar_payload :: "simdutf \<Rightarrow> BCPColumnMetadata \<Rightarrow> byte list \<Rightarrow> byte list" where
  "nvarchar_payload U col d =
     Utf16LEEncode U (if \<not> bc_IsPLPType col \<and> length (Utf16LEEncode U d) > unat (bc_max_length col)
       then take (fst (Utf8PrefixForUtf16Limit d (unat (bc_max_length col)))) d else d)"

lemma unit_bytes_Nil [simp]: "unit_bytes us = [] \<longleftrightarrow> us = []"
  by (cases us) (simp_all add: le16_def)

context simdutf_contract begin

lemma View_valid: "Utf16LEByteLengthView U d = (n, True) \<Longrightarrow> \<exists>cps. list_all is_scalar cps \<and> d = utf8_enc cps \<and> n = 2 * length (utf16_enc cps)"
  using length_utf8
  by (cases "d = []") (fastforce simp: Utf16LEByteLengthView_def validate_utf8_iff Let_def intro: exI [of _ "[]"] split: if_splits)+

lemma View_scalars: "list_all is_scalar cps \<Longrightarrow> Utf16LEByteLengthView U (utf8_enc cps) = (2 * length (utf16_enc cps), True)"
  by (auto simp: Utf16LEByteLengthView_def validate_utf8_iff length_utf8 Let_def)

lemma ValidDirect_scalars:
  "list_all is_scalar cps \<Longrightarrow> 2 * length (utf16_enc cps) \<le> length out \<Longrightarrow> Utf16LEEncodeValidDirect U unaligned (utf8_enc cps) out =
     Ret (2 * length (utf16_enc cps), unit_bytes (utf16_enc cps) @ drop (2 * length (utf16_enc cps)) out)"
  using EncodeValidDirect_eq [OF View_scalars] by (simp add: Encode_scalars)

lemma prefix_scalars:
  assumes "list_all is_scalar cps"
  shows "\<exists>c1 c2. cps = c1 @ c2 \<and> 2 * length (utf16_enc c1) \<le> m \<and> (c2 = [] \<or> m < 2 * length (utf16_enc (c1 @ [hd c2]))) \<and>
    Utf8PrefixForUtf16Limit (utf8_enc cps) m = (length (utf8_enc c1), 2 * length (utf16_enc c1))"
  using prefix_loop_scalars [OF assms, of 0 m "[]"] by (simp add: Utf8PrefixForUtf16Limit_def)

text \<open>What is sent of a text: all of it, or the code points that fit.\<close>

lemma nvarchar_cut:
  assumes "list_all is_scalar cps"
  obtains c1 c2 where "cps = c1 @ c2" "c2 = [] \<or> \<not> bc_IsPLPType col \<and> unat (bc_max_length col) < 2 * length (utf16_enc (c1 @ [hd c2]))"
    "list_all is_scalar c1" "nvarchar_payload U col (utf8_enc cps) = unit_bytes (utf16_enc c1)"
    "\<not> bc_IsPLPType col \<longrightarrow> 2 * length (utf16_enc c1) \<le> unat (bc_max_length col)"
    "(if \<not> bc_IsPLPType col \<and> 2 * length (utf16_enc cps) > unat (bc_max_length col)
      then Utf8PrefixForUtf16Limit (utf8_enc cps) (unat (bc_max_length col)) else (length (utf8_enc cps), 2 * length (utf16_enc cps))) =
     (length (utf8_enc c1), 2 * length (utf16_enc c1))"
    "take (length (utf8_enc c1)) (utf8_enc cps) = utf8_enc c1" "length (utf8_enc c1) \<le> length (utf8_enc cps)"
proof (cases "\<not> bc_IsPLPType col \<and> 2 * length (utf16_enc cps) > unat (bc_max_length col)")
  case True
  from prefix_scalars [OF assms, of "unat (bc_max_length col)"] obtain c1 c2 where c: "cps = c1 @ c2"
    "2 * length (utf16_enc c1) \<le> unat (bc_max_length col)"
    "c2 = [] \<or> unat (bc_max_length col) < 2 * length (utf16_enc (c1 @ [hd c2]))"
    "Utf8PrefixForUtf16Limit (utf8_enc cps) (unat (bc_max_length col)) = (length (utf8_enc c1), 2 * length (utf16_enc c1))" by blast
  with assms have s: "list_all is_scalar c1" by simp
  have t: "take (length (utf8_enc c1)) (utf8_enc cps) = utf8_enc c1" by (simp add: c(1))
  have p: "nvarchar_payload U col (utf8_enc cps) = unit_bytes (utf16_enc c1)"
    using True c(4) by (simp add: nvarchar_payload_def Encode_scalars [OF assms] Encode_scalars [OF s] t)
  show ?thesis using that [of c1 c2] c p s True by simp
next
  case False
  then show ?thesis using that [of cps "[]"] assms by (auto simp: nvarchar_payload_def Encode_scalars)
qed

lemma EncodeNVarchar_Ret:
  assumes "list_all is_scalar cps"
  shows "EncodeNVarcharFromUtf8 U al (utf8_enc cps) col buf = Ret (buf @ framed (bc_IsPLPType col) (nvarchar_payload U col (utf8_enc cps)))"
proof -
  obtain c1 c2 where c1: "list_all is_scalar c1"
    "nvarchar_payload U col (utf8_enc cps) = unit_bytes (utf16_enc c1)"
    "(if \<not> bc_IsPLPType col \<and> 2 * length (utf16_enc cps) > unat (bc_max_length col)
      then Utf8PrefixForUtf16Limit (utf8_enc cps) (unat (bc_max_length col)) else (length (utf8_enc cps), 2 * length (utf16_enc cps))) =
     (length (utf8_enc c1), 2 * length (utf16_enc c1))"
    "take (length (utf8_enc c1)) (utf8_enc cps) = utf8_enc c1" "length (utf8_enc c1) \<le> length (utf8_enc cps)" by (rule nvarchar_cut [OF assms, of col]) blast
  have r: "rd_block (utf8_enc cps) 0 (length (utf8_enc c1)) = Ret (utf8_enc c1)" using c1(4,5) by simp
  note v = ValidDirect_scalars [OF c1(1)]
  show ?thesis
    unfolding EncodeNVarcharFromUtf8_def View_scalars [OF assms] prod.case Let_def c1(2,3) r bind_res.simps
    using v by (auto simp: AppendNVarcharPlp_def Let_def resize_grow wr_block_def framed_def)
qed

end

subsection \<open>The plan of a column\<close>

definition var_payload :: "simdutf \<Rightarrow> VarKind \<Rightarrow> BCPColumnMetadata \<Rightarrow> byte list \<Rightarrow> byte list" where
  "var_payload U kind col d =
     (if kind = NVarcharKind then nvarchar_payload U col d
      else if \<not> bc_IsPLPType col \<and> length d > unat (bc_max_length col) then
        (if kind = Utf8VarcharKind then take (Utf8PrefixForByteLimit d (unat (bc_max_length col))) d else take (unat (bc_max_length col)) d)
      else d)"

definition var_cell :: "simdutf \<Rightarrow> VarKind \<Rightarrow> BCPColumnMetadata \<Rightarrow> vec \<Rightarrow> nat \<Rightarrow> byte list" where
  "var_cell U kind col v r =
     (if FormatIsNull v r then replicate (if bc_IsPLPType col then 8 else 2) 0xFF
      else framed (bc_IsPLPType col) (var_payload U kind col (str (cell_at v r))))"

definition raw_len :: "simdutf \<Rightarrow> VarKind \<Rightarrow> byte list \<Rightarrow> nat" where
  "raw_len U kind d = (if kind = NVarcharKind then length (Utf16LEEncode U d) else length d)"

definition plan_bound :: "BCPColumnMetadata \<Rightarrow> u32" where
  "plan_bound col = (if bc_IsPLPType col then 0xFFFFFFFF else ucast (bc_max_length col))"

lemma ascii_scalars: "\<forall>b \<in> set d. unat b < 128 \<Longrightarrow> \<exists>cps. list_all is_scalar cps \<and> d = utf8_enc cps"
proof (rule exI, rule conjI)
  assume a: "\<forall>b \<in> set d. unat b < 128"
  then show "list_all is_scalar (map unat d)" by (force simp: list_all_iff is_scalar_def)
  show "d = utf8_enc (map unat d)" using a by (induction d) (auto simp: utf8_of_cp_def)
qed

lemma utf16_le_utf8: "length (utf16_enc cps) \<le> length (utf8_enc cps)"
proof (induction cps)
  case (Cons c cs)
  have "length (utf16_of_cp c) \<le> length (utf8_of_cp c)" by (simp add: utf16_of_cp_def utf8_of_cp_def)
  with Cons show ?case by simp
qed simp

definition text_ok :: "VarKind \<Rightarrow> byte list \<Rightarrow> bool" where
  "text_ok kind d \<longleftrightarrow> kind = NVarcharKind \<longrightarrow> (\<exists>cps. list_all is_scalar cps \<and> d = utf8_enc cps)"

text \<open>What measuring a row contributes, and the loop invariant.\<close>

definition measured :: "simdutf \<Rightarrow> VarKind \<Rightarrow> BCPColumnMetadata \<Rightarrow> vec \<Rightarrow> StringColumnPlan \<Rightarrow> nat \<Rightarrow> bool" where
  "measured U kind col v plan r \<longleftrightarrow>
     (if FormatIsNull v r then sp_wire plan ! r = (if bc_IsPLPType col then 8 else 2)
      else text_ok kind (str (cell_at v r)) \<and> unat (sp_lengths plan ! r) = raw_len U kind (str (cell_at v r)) \<and>
        sp_wire plan ! r = wire_size (bc_IsPLPType col) (sp_lengths plan ! r))"

definition plan_shape :: "VarKind \<Rightarrow> BCPColumnMetadata \<Rightarrow> nat \<Rightarrow> StringColumnPlan \<Rightarrow> bool" where
  "plan_shape kind col rows plan \<longleftrightarrow> sp_kind plan = kind \<and> sp_plp plan = bc_IsPLPType col \<and>
     length (sp_lengths plan) = rows \<and> length (sp_wire plan) = rows"

definition plan_inv :: "simdutf \<Rightarrow> VarKind \<Rightarrow> BCPColumnMetadata \<Rightarrow> vec \<Rightarrow> nat \<Rightarrow> nat \<Rightarrow> StringColumnPlan \<times> bool \<times> bool \<Rightarrow> bool" where
  "plan_inv U kind col v rows k = (\<lambda>(plan, ascii, over).
     plan_shape kind col rows plan \<and> \<not> sp_truncated plan \<and> (\<forall>r<k. measured U kind col v plan r) \<and>
     (ascii \<and> kind = NVarcharKind \<longrightarrow> (\<forall>r<k. \<not> FormatIsNull v r \<longrightarrow> (\<forall>b \<in> set (str (cell_at v r)). unat b < 128))) \<and>
     (over \<longleftrightarrow> (\<exists>r<k. \<not> FormatIsNull v r \<and> raw_len U kind (str (cell_at v r)) > unat (plan_bound col))))"

context simdutf_contract begin

lemma raw_len_bound: "text_ok kind d \<Longrightarrow> length d < 2 ^ 30 \<Longrightarrow> raw_len U kind d < 2 ^ 31"
proof (cases "kind = NVarcharKind")
  case True
  assume "text_ok kind d" "length d < 2 ^ 30"
  with True obtain cps where "list_all is_scalar cps" "d = utf8_enc cps" by (auto simp: text_ok_def)
  with True \<open>length d < 2 ^ 30\<close> utf16_le_utf8 [of cps] show ?thesis by (simp add: raw_len_def Encode_scalars)
qed (simp add: raw_len_def)

lemma ascii_len: "\<forall>b \<in> set d. unat b < 128 \<Longrightarrow> length (Utf16LEEncode U d) = length d * 2"
  by (simp add: Encode_eq General_ascii)

lemma plan_row_inv:
  assumes "plan_inv U kind col v rows r s" "r < rows" "\<not> FormatIsNull v r \<longrightarrow> length (str (cell_at v r)) < 2 ^ 30"
    "plan_row U v (plan_bound col) r s = Ret s'"
  shows "plan_inv U kind col v rows (Suc r) s'"
proof -
  obtain plan ascii over where s: "s = (plan, ascii, over)" by (cases s)
  note shape = assms(1) [unfolded s plan_inv_def prod.case plan_shape_def]
  show ?thesis
  proof (cases "FormatIsNull v r")
    case True
    with assms(4) s have s': "s' = (plan \<lparr> sp_lengths := (sp_lengths plan)[r := 0],
        sp_wire := (sp_wire plan)[r := if sp_plp plan then 8 else 2] \<rparr>, ascii, over)" by (auto simp: plan_row_def)
    show ?thesis using shape True assms(2)
      by (auto simp: s' plan_inv_def plan_shape_def measured_def less_Suc_eq nth_list_update)
  next
    case False
    let ?d = "str (cell_at v r)"
    from assms(4) s False shape obtain len ascii' where m:
      "(if kind \<noteq> NVarcharKind then Ret (of_nat (length ?d), ascii)
        else if ascii \<and> IsAsciiRun ?d then Ret (of_nat (length ?d) * 2, ascii)
        else case Utf16LEByteLengthView U ?d of (u16, valid) \<Rightarrow> if \<not> valid then More else Ret (of_nat u16, False)) = Ret (len, ascii')"
      and s': "s' = (plan \<lparr> sp_lengths := (sp_lengths plan)[r := len],
        sp_wire := (sp_wire plan)[r := wire_size (sp_plp plan) len] \<rparr>, ascii', over \<or> len > plan_bound col)"
      by (auto simp: plan_row_def Let_def bind_res_Ret_iff)
    have t: "text_ok kind ?d \<and> len = of_nat (raw_len U kind ?d) \<and> (ascii' \<longrightarrow> ascii) \<and>
        (ascii' \<and> kind = NVarcharKind \<longrightarrow> (\<forall>b \<in> set ?d. unat b < 128))"
    proof (cases "kind = NVarcharKind \<and> \<not> (ascii \<and> IsAsciiRun ?d)")
      case True
      then obtain n where "Utf16LEByteLengthView U ?d = (n, True)" "len = of_nat n" "\<not> ascii'"
        using m by (cases "Utf16LEByteLengthView U ?d") (auto split: if_splits)
      with True View_valid [of ?d n] show ?thesis by (auto simp: text_ok_def raw_len_def Encode_scalars)
    next
      case False
      then show ?thesis
        using m ascii_scalars [of ?d] ascii_len [of ?d] by (auto simp: text_ok_def raw_len_def IsAsciiRun_iff split: if_splits)
    qed
    then have "raw_len U kind ?d < 2 ^ 31" using raw_len_bound assms(3) False by blast
    then have u: "unat len = raw_len U kind ?d" using t by (simp add: u32_unat)
    show ?thesis using shape False assms(2) t u
      by (auto simp: s' plan_inv_def plan_shape_def measured_def less_Suc_eq nth_list_update word_less_nat_alt)
  qed
qed

end

text \<open>What the plan says of a row when it is finished.\<close>

definition planned_row :: "simdutf \<Rightarrow> VarKind \<Rightarrow> BCPColumnMetadata \<Rightarrow> vec \<Rightarrow> StringColumnPlan \<Rightarrow> nat \<Rightarrow> bool" where
  "planned_row U kind col v plan r \<longleftrightarrow>
     (if FormatIsNull v r then sp_wire plan ! r = (if bc_IsPLPType col then 8 else 2)
      else let sv = str (cell_at v r); len = unat (sp_lengths plan ! r);
          k = (if sp_truncated plan then unat (sp_src_len plan ! r) else length sv)
        in len = length (var_payload U kind col sv) \<and> sp_wire plan ! r = wire_size (bc_IsPLPType col) (sp_lengths plan ! r) \<and>
           len < 2 ^ 31 \<and>
           (if kind = NVarcharKind
            then k \<le> length sv \<and> var_payload U kind col sv = Utf16LEEncode U (take k sv) \<and> text_ok kind (take k sv) \<and> text_ok kind sv
            else len \<le> length sv \<and> var_payload U kind col sv = take len sv))"

lemma planned_row_cong:
  "sp_wire p ! r = sp_wire q ! r \<Longrightarrow> sp_lengths p ! r = sp_lengths q ! r \<Longrightarrow> sp_truncated p = sp_truncated q \<Longrightarrow>
     sp_src_len p ! r = sp_src_len q ! r \<Longrightarrow> planned_row U kind col v p r = planned_row U kind col v q r"
  by (simp add: planned_row_def)

lemma measured_cong:
  "sp_wire p ! r = sp_wire q ! r \<Longrightarrow> sp_lengths p ! r = sp_lengths q ! r \<Longrightarrow> measured U kind col v p r = measured U kind col v q r"
  by (simp add: measured_def)

definition planned :: "simdutf \<Rightarrow> VarKind \<Rightarrow> BCPColumnMetadata \<Rightarrow> vec \<Rightarrow> nat \<Rightarrow> StringColumnPlan \<Rightarrow> bool" where
  "planned U kind col v rows plan \<longleftrightarrow> plan_shape kind col rows plan \<and> (\<forall>r<rows. planned_row U kind col v plan r) \<and>
     (sp_all_ascii plan \<longrightarrow> kind = NVarcharKind \<and> (\<forall>r<rows. \<not> FormatIsNull v r \<longrightarrow> (\<forall>b \<in> set (str (cell_at v r)). unat b < 128)))"

definition column_kind :: "BCPColumnMetadata \<Rightarrow> VarKind option" where
  "column_kind col =
     (if bc_tds_type_token col = TDS_TYPE_BIGVARCHAR then Some Utf8VarcharKind
      else if bc_tds_type_token col = TDS_TYPE_BIGVARBINARY then Some BinaryKind
      else if bc_tds_type_token col = TDS_TYPE_NVARCHAR then Some NVarcharKind else None)"

abbreviation small_strings :: "vec \<Rightarrow> nat \<Rightarrow> bool" where
  "small_strings v rows \<equiv> \<forall>r<rows. \<not> FormatIsNull v r \<longrightarrow> length (str (cell_at v r)) < 2 ^ 30"

lemma plan_bound_eq: "unat (plan_bound col) = (if bc_IsPLPType col then 2 ^ 32 - 1 else unat (bc_max_length col))"
  by (simp add: plan_bound_def unsigned_ucast_eq take_bit_nat_eq_self_iff u16_less order_less_trans [OF u16_less])

definition pieces :: "simdutf \<Rightarrow> VarKind \<Rightarrow> BCPColumnMetadata \<Rightarrow> vec \<Rightarrow> nat \<Rightarrow> nat \<Rightarrow> (nat \<times> byte list) list" where
  "pieces U kind col v r out =
     (if FormatIsNull v r then [(out, replicate (if bc_IsPLPType col then 8 else 2) 0xFF)]
      else let p = var_payload U kind col (str (cell_at v r))
        in if \<not> bc_IsPLPType col then [(out, le_bytes 2 (int (length p))), (out + 2, p)]
           else if p = [] then [(out, plp_header), (out + 8, [0, 0, 0, 0])]
           else [(out, plp_header), (out + 8, le_bytes 4 (int (length p))), (out + 12 + length p, [0, 0, 0, 0]), (out + 12, p)])"

definition clamp_inv :: "simdutf \<Rightarrow> VarKind \<Rightarrow> BCPColumnMetadata \<Rightarrow> vec \<Rightarrow> nat \<Rightarrow> bool \<Rightarrow> nat \<Rightarrow> StringColumnPlan \<Rightarrow> bool" where
  "clamp_inv U kind col v rows ascii k plan \<longleftrightarrow> plan_shape kind col rows plan \<and> sp_truncated plan \<and> sp_all_ascii plan = ascii \<and>
     length (sp_src_len plan) = rows \<and> (\<forall>r<k. planned_row U kind col v plan r) \<and> (\<forall>r<rows. k \<le> r \<longrightarrow> measured U kind col v plan r)"

context simdutf_contract begin

lemma unclamped:
  assumes "text_ok kind d" "raw_len U kind d \<le> unat (plan_bound col)"
  shows "length (var_payload U kind col d) = raw_len U kind d \<and>
    var_payload U kind col d = (if kind = NVarcharKind then Utf16LEEncode U d else d)"
  using assms by (auto simp: var_payload_def raw_len_def nvarchar_payload_def plan_bound_eq split: if_splits)

lemma clamped:
  assumes "text_ok kind d" "raw_len U kind d > unat (plan_bound col)" "raw_len U kind d < 2 ^ 31" "length d < 2 ^ 30" "bound = plan_bound col"
    "(src, len) = (if kind = NVarcharKind then (case Utf8PrefixForUtf16Limit d (unat bound) of (n, u) \<Rightarrow> (of_nat n, of_nat u))
       else if kind = Utf8VarcharKind then (let n = of_nat (Utf8PrefixForByteLimit d (unat bound)) in (n, n)) else (bound, bound))"
  shows "unat len = length (var_payload U kind col d) \<and> unat len < 2 ^ 31 \<and>
    (if kind = NVarcharKind then unat src \<le> length d \<and> var_payload U kind col d = Utf16LEEncode U (take (unat src) d) \<and> text_ok kind (take (unat src) d)
     else unat len \<le> length d \<and> var_payload U kind col d = take (unat len) d)"
proof -
  from assms(2,3) have plp: "\<not> bc_IsPLPType col" and b: "unat bound = unat (bc_max_length col)" "unat bound < raw_len U kind d"
    by (auto simp: plan_bound_eq assms(5) split: if_splits)
  show ?thesis
  proof (cases kind)
    case NVarcharKind
    with assms(1) obtain cps where c: "list_all is_scalar cps" "d = utf8_enc cps" by (auto simp: text_ok_def)
    from prefix_scalars [OF c(1), of "unat bound"] obtain c1 c2 where c1: "cps = c1 @ c2" "2 * length (utf16_enc c1) \<le> unat bound"
      "Utf8PrefixForUtf16Limit d (unat bound) = (length (utf8_enc c1), 2 * length (utf16_enc c1))" using c(2) by blast
    then have t: "take (length (utf8_enc c1)) d = utf8_enc c1" "length (utf8_enc c1) \<le> length d" using c(2) by simp_all
    have l: "2 * length (utf16_enc c1) < 2 ^ 31" using c1(2) b(2) assms(3) by linarith
    have e: "len = of_nat (2 * length (utf16_enc c1))" "src = of_nat (length (utf8_enc c1))"
      using assms(6) c1(3) NVarcharKind by auto
    have u: "unat len = 2 * length (utf16_enc c1)" "unat src = length (utf8_enc c1)"
      unfolding e using l t(2) assms(4) by (intro u32_unat; simp)+
    have p: "var_payload U kind col d = Utf16LEEncode U (utf8_enc c1)"
      using plp b c1(3) t(1) NVarcharKind by (simp add: var_payload_def nvarchar_payload_def raw_len_def)
    from c(1) c1(1) have s: "list_all is_scalar c1" by simp
    show ?thesis using NVarcharKind p u l t s by (auto simp: Encode_scalars text_ok_def)
  next
    case Utf8VarcharKind
    then have n: "unat bound < length d" using b(2) by (simp add: raw_len_def)
    have "unat len = Utf8PrefixForByteLimit d (unat bound)"
      using assms(4,6) Utf8VarcharKind ByteLimit_le [OF n] by (simp add: u32_unat Let_def)
    then show ?thesis using Utf8VarcharKind plp b n assms(4) ByteLimit_le [OF n] by (simp add: var_payload_def)
  next
    case BinaryKind
    then have n: "unat bound < length d" using b(2) by (simp add: raw_len_def)
    with assms(4,6) BinaryKind plp b show ?thesis by (simp add: var_payload_def)
  qed
qed

lemma clamp_row_inv:
  assumes "clamp_inv U kind col v rows ascii r plan" "r < rows" "small_strings v rows" "clamp_row v (plan_bound col) r plan = Ret plan'"
  shows "clamp_inv U kind col v rows ascii (Suc r) plan'"
proof -
  note inv = assms(1) [unfolded clamp_inv_def plan_shape_def]
  have step: ?thesis if "plan' = plan \<lparr> sp_lengths := (sp_lengths plan)[r := len], sp_src_len := (sp_src_len plan)[r := src],
      sp_wire := (sp_wire plan)[r := w] \<rparr>" "planned_row U kind col v plan' r" for len src w
  proof -
    have "planned_row U kind col v plan' i = planned_row U kind col v plan i" if "i \<noteq> r" for i
      using that by (intro planned_row_cong) (simp_all add: \<open>plan' = _\<close>)
    moreover have "measured U kind col v plan' i = measured U kind col v plan i" if "i \<noteq> r" for i
      using that by (intro measured_cong) (simp_all add: \<open>plan' = _\<close>)
    ultimately show ?thesis using inv that(2)
      by (auto simp: clamp_inv_def plan_shape_def less_Suc_eq that(1))
  qed
  show ?thesis
  proof (cases "FormatIsNull v r")
    case True
    with assms(4) have "plan' = plan \<lparr> sp_src_len := (sp_src_len plan)[r := 0] \<rparr>" by (simp add: clamp_row_def)
    then have p: "plan' = plan \<lparr> sp_lengths := (sp_lengths plan)[r := sp_lengths plan ! r],
        sp_src_len := (sp_src_len plan)[r := 0], sp_wire := (sp_wire plan)[r := sp_wire plan ! r] \<rparr>" by (cases plan) simp
    from inv assms(2) have m: "measured U kind col v plan r" by simp
    with True assms(2) inv have "planned_row U kind col v plan' r" by (simp add: p planned_row_def measured_def)
    then show ?thesis by (rule step [OF p])
  next
    case False
    let ?d = "str (cell_at v r)"
    from inv assms(2) False have m: "text_ok kind ?d" "unat (sp_lengths plan ! r) = raw_len U kind ?d"
      "sp_wire plan ! r = wire_size (bc_IsPLPType col) (sp_lengths plan ! r)" by (auto simp: measured_def)
    from assms(2,3) False have d: "length ?d < 2 ^ 30" by simp
    note r31 = raw_len_bound [OF m(1) d]
    obtain src len where sl: "(src, len) = (if sp_lengths plan ! r > plan_bound col
      then (if kind = NVarcharKind then (case Utf8PrefixForUtf16Limit ?d (unat (plan_bound col)) of (n, u) \<Rightarrow> (of_nat n, of_nat u))
        else if kind = Utf8VarcharKind then (let n = of_nat (Utf8PrefixForByteLimit ?d (unat (plan_bound col))) in (n, n))
        else (plan_bound col, plan_bound col)) else (of_nat (length ?d), sp_lengths plan ! r))"
      by (metis surj_pair)
    from inv have k: "sp_kind plan = kind" "sp_plp plan = bc_IsPLPType col"
      and w: "length (sp_lengths plan) = rows" "length (sp_wire plan) = rows" "length (sp_src_len plan) = rows" "sp_truncated plan" by blast+
    from assms(4) have p: "plan' = plan \<lparr> sp_lengths := (sp_lengths plan)[r := len], sp_src_len := (sp_src_len plan)[r := src],
        sp_wire := (sp_wire plan)[r := wire_size (bc_IsPLPType col) len] \<rparr>"
      unfolding clamp_row_def if_not_P [OF False] Let_def k sl [unfolded Let_def, symmetric] by simp
    have "unat len = length (var_payload U kind col ?d) \<and> unat len < 2 ^ 31 \<and>
      (if kind = NVarcharKind then unat src \<le> length ?d \<and> var_payload U kind col ?d = Utf16LEEncode U (take (unat src) ?d) \<and> text_ok kind (take (unat src) ?d)
       else unat len \<le> length ?d \<and> var_payload U kind col ?d = take (unat len) ?d)"
    proof (cases "sp_lengths plan ! r > plan_bound col")
      case True
      with m(2) have g: "raw_len U kind ?d > unat (plan_bound col)" by (simp only: word_less_nat_alt)
      from clamped [OF m(1) g r31 d refl sl [unfolded if_P [OF True]]] show ?thesis .
    next
      case False
      with m(2) have g: "raw_len U kind ?d \<le> unat (plan_bound col)" by (simp only: word_less_nat_alt not_less)
      from sl [unfolded if_not_P [OF False]] have e: "src = of_nat (length ?d)" "len = sp_lengths plan ! r" by simp_all
      have src: "unat src = length ?d" unfolding e(1) using d by (intro u32_unat) simp
      note u = unclamped [OF m(1) g]
      have l: "unat len = length (var_payload U kind col ?d)" "unat len < 2 ^ 31" using conjunct1 [OF u] m(2) r31 unfolding e(2) by simp_all
      have t: "if kind = NVarcharKind then var_payload U kind col ?d = Utf16LEEncode U ?d
        else length ?d = unat len \<and> var_payload U kind col ?d = ?d" using conjunct2 [OF u] m(2) unfolding e(2) raw_len_def by (cases "kind = NVarcharKind") simp_all
      show ?thesis
        using l t m(1) unfolding src take_all [OF order_refl] by (cases "kind = NVarcharKind") (simp_all only: if_True if_False simp_thms order_refl take_all)
    qed
    moreover have f: "sp_lengths plan' ! r = len" "sp_src_len plan' ! r = src" "sp_truncated plan'"
      "sp_wire plan' ! r = wire_size (bc_IsPLPType col) len" using w assms(2) by (simp_all add: p)
    ultimately have "planned_row U kind col v plan' r"
      using m(1) False unfolding planned_row_def if_not_P [OF False] Let_def f if_P [OF f(3)] if_bool_eq_conj by blast
    then show ?thesis by (rule step [OF p])
  qed
qed

lemma PlanColumn_planned:
  assumes "PlanColumn U v rows col = Ret plan" "small_strings v rows"
  shows "\<exists>kind. column_kind col = Some kind \<and> planned U kind col v rows plan"
proof -
  from assms(1) obtain kind plan0 ascii over where k: "column_kind col = Some kind"
    and l: "for_each (plan_row U v (plan_bound col)) [0..<rows]
      (\<lparr> sp_lengths = replicate rows 0, sp_wire = replicate rows 0, sp_src_len = [], sp_kind = kind,
         sp_all_ascii = False, sp_truncated = False, sp_plp = bc_IsPLPType col \<rparr>, True, False) = Ret (plan0, ascii, over)"
    and f: "(if over then ClampToBound v rows (plan_bound col) (plan0 \<lparr> sp_all_ascii := ascii \<and> kind = NVarcharKind \<rparr>)
      else Ret (plan0 \<lparr> sp_all_ascii := ascii \<and> kind = NVarcharKind \<rparr>)) = Ret plan"
    unfolding PlanColumn_def column_kind_def plan_bound_def [symmetric] Let_def
    by (auto simp: bind_res_Ret_iff split: if_splits)
  have "plan_inv U kind col v rows rows (plan0, ascii, over)"
  proof (rule for_upto_inv [where I = "plan_inv U kind col v rows", OF _ _ l])
    fix r s s' assume "r < rows" "plan_inv U kind col v rows r s" "plan_row U v (plan_bound col) r s = Ret s'"
    then show "plan_inv U kind col v rows (Suc r) s'" using plan_row_inv assms(2) by blast
  qed (simp add: plan_inv_def plan_shape_def)
  then have inv: "plan_shape kind col rows plan0" "\<not> sp_truncated plan0" "\<And>r. r < rows \<Longrightarrow> measured U kind col v plan0 r"
    "ascii \<and> kind = NVarcharKind \<Longrightarrow> \<forall>r<rows. \<not> FormatIsNull v r \<longrightarrow> (\<forall>b \<in> set (str (cell_at v r)). unat b < 128)"
    "over \<longleftrightarrow> (\<exists>r<rows. \<not> FormatIsNull v r \<and> raw_len U kind (str (cell_at v r)) > unat (plan_bound col))"
    unfolding plan_inv_def prod.case by blast+
  show ?thesis
  proof (cases over)
    case True
    let ?start = "plan0 \<lparr> sp_all_ascii := ascii \<and> kind = NVarcharKind, sp_truncated := True, sp_src_len := replicate rows 0 \<rparr>"
    from f True have c: "for_each (clamp_row v (plan_bound col)) [0..<rows] ?start = Ret plan" by (simp add: ClampToBound_def)
    have "measured U kind col v ?start r" if "r < rows" for r
      using inv(3) [OF that] by (simp add: measured_def)
    moreover have "plan_shape kind col rows ?start" using inv(1) by (simp add: plan_shape_def)
    ultimately have "clamp_inv U kind col v rows (ascii \<and> kind = NVarcharKind) 0 ?start" by (simp add: clamp_inv_def)
    then have "clamp_inv U kind col v rows (ascii \<and> kind = NVarcharKind) rows plan"
      by (rule for_upto_inv [where I = "clamp_inv U kind col v rows (ascii \<and> kind = NVarcharKind)", rotated, OF _ c])
        (rule clamp_row_inv [OF _ _ assms(2)])
    then show ?thesis using k inv(4) by (auto simp: clamp_inv_def planned_def)
  next
    case False
    with f have p: "plan = plan0 \<lparr> sp_all_ascii := ascii \<and> kind = NVarcharKind \<rparr>" by simp
    have "planned_row U kind col v plan r" if r: "r < rows" for r
    proof (cases "FormatIsNull v r")
      case True
      with inv(3) [OF r] show ?thesis by (simp add: p planned_row_def measured_def)
    next
      case notnull: False
      let ?d = "str (cell_at v r)"
      from inv(3) [OF r] notnull have m: "text_ok kind ?d" "unat (sp_lengths plan ! r) = raw_len U kind ?d"
        "sp_wire plan ! r = wire_size (bc_IsPLPType col) (sp_lengths plan ! r)" by (auto simp: measured_def p)
      from False inv(5) r notnull have "raw_len U kind ?d \<le> unat (plan_bound col)" by (meson not_less)
      note u = unclamped [OF m(1) this]
      have b: "raw_len U kind ?d < 2 ^ 31" using raw_len_bound [OF m(1)] assms(2) r notnull by blast
      have t: "\<not> sp_truncated plan" using inv(2) by (simp add: p)
      have e: "length (var_payload U kind col ?d) = raw_len U kind ?d"
        "kind = NVarcharKind \<Longrightarrow> var_payload U kind col ?d = Utf16LEEncode U ?d" "kind \<noteq> NVarcharKind \<Longrightarrow> var_payload U kind col ?d = ?d"
        "kind \<noteq> NVarcharKind \<Longrightarrow> raw_len U kind ?d = length ?d"
        using conjunct1 [OF u] conjunct2 [OF u] by (simp, simp, simp, simp add: raw_len_def)
      show ?thesis
        unfolding planned_row_def if_not_P [OF notnull] Let_def m(2,3) if_not_P [OF t] e(1) if_bool_eq_conj take_all [OF order_refl]
        using m(1) b e(2-4) notnull by auto
    qed
    moreover have "plan_shape kind col rows plan" "sp_all_ascii plan \<longleftrightarrow> ascii \<and> kind = NVarcharKind"
      using inv(1) by (simp_all add: p plan_shape_def)
    ultimately show ?thesis using k inv(4) unfolding planned_def by blast
  qed
qed

text \<open>The three ways to write a payload are one block write.\<close>

lemma WidenAscii_eq:
  "n \<le> length src \<Longrightarrow> out + 2 * n \<le> length buf \<Longrightarrow> WidenAscii src n out buf = wr_block buf out (widen (take n src))"
proof (induction n)
  case 0
  then show ?case by (simp add: WidenAscii_def widen_def wr_block_def)
next
  case (Suc n)
  have w: "widen (take (Suc n) src) = widen (take n src) @ [src ! n] @ [0]" using Suc.prems(1) by (simp add: widen_def take_Suc_conv_app_nth)
  have l: "length (widen (take n src)) = 2 * n" using Suc.prems(1) by simp
  have "WidenAscii src (Suc n) out buf = bind_res (WidenAscii src n out buf) (\<lambda>buf.
      bind_res (wr_block buf (out + 2 * n) [src ! n]) (\<lambda>buf. wr_block buf (out + 2 * n + 1) [0]))"
    using Suc.prems(1) by (simp add: WidenAscii_def for_each_append)
  also have "\<dots> = wr_block buf out (widen (take (Suc n) src))"
    unfolding w using Suc l by (simp add: wr_block_def min_def, linarith)
  finally show ?case .
qed

lemma write_payload_eq:
  assumes "planned U kind col v rows plan" "r < rows" "\<not> FormatIsNull v r"
    "pos + length (var_payload U kind col (str (cell_at v r))) \<le> length buf"
  shows "write_payload U al v plan r pos buf = wr_block buf pos (var_payload U kind col (str (cell_at v r)))"
proof -
  let ?d = "str (cell_at v r)" and ?p = "var_payload U kind col (str (cell_at v r))"
  define k where "k = (if sp_truncated plan then unat (sp_src_len plan ! r) else length ?d)"
  from assms(1,2) have row: "planned_row U kind col v plan r" and kind: "sp_kind plan = kind"
    and asc: "sp_all_ascii plan \<longrightarrow> kind = NVarcharKind \<and> (\<forall>b \<in> set ?d. unat b < 128)"
    using assms(3) by (auto simp: planned_def plan_shape_def)
  have row': "unat (sp_lengths plan ! r) = length ?p \<and> sp_wire plan ! r = wire_size (bc_IsPLPType col) (sp_lengths plan ! r) \<and>
      unat (sp_lengths plan ! r) < 2 ^ 31 \<and>
      (if kind = NVarcharKind then k \<le> length ?d \<and> ?p = Utf16LEEncode U (take k ?d) \<and> text_ok kind (take k ?d) \<and> text_ok kind ?d
       else unat (sp_lengths plan ! r) \<le> length ?d \<and> ?p = take (unat (sp_lengths plan ! r)) ?d)"
    using row assms(3) unfolding planned_row_def Let_def k_def by meson
  then have len: "unat (sp_lengths plan ! r) = length ?p" by blast
  have nv: "kind = NVarcharKind \<longrightarrow> k \<le> length ?d \<and> ?p = Utf16LEEncode U (take k ?d) \<and> text_ok kind (take k ?d)"
    using row' unfolding if_bool_eq_conj by blast
  have raw: "kind \<noteq> NVarcharKind \<longrightarrow> length ?p \<le> length ?d \<and> ?p = take (length ?p) ?d"
    using row' unfolding len if_bool_eq_conj by blast
  show ?thesis
  proof (cases "kind = NVarcharKind")
    case True
    with nv have n: "k \<le> length ?d" "?p = Utf16LEEncode U (take k ?d)" and t: "text_ok kind (take k ?d)" by blast+
    show ?thesis
    proof (cases "sp_all_ascii plan")
      case True
      with asc have a: "\<forall>b \<in> set (take k ?d). unat b < 128" by (meson in_set_takeD)
      then have p: "?p = widen (take k ?d)" unfolding n(2) by (simp add: Encode_eq General_ascii)
      then have l: "length ?p = 2 * k" using n(1) by simp
      then have "length ?p div 2 = k" by simp
      then have "write_payload U al v plan r pos buf = WidenAscii ?d k pos buf"
        using True unfolding write_payload_def Let_def len by (simp only: if_True)
      also have "\<dots> = wr_block buf pos (widen (take k ?d))" by (rule WidenAscii_eq) (use n(1) l assms(4) in linarith)+
      finally show ?thesis unfolding p .
    next
      case False
      from t True obtain c1 where c: "list_all is_scalar c1" "take k ?d = utf8_enc c1" by (auto simp: text_ok_def)
      have p: "?p = unit_bytes (utf16_enc c1)" unfolding n(2) c(2) by (rule Encode_scalars [OF c(1)])
      have "write_payload U al v plan r pos buf = bind_res (Utf16LEEncodeValidDirect U (al pos) (utf8_enc c1) (drop pos buf))
          (\<lambda>(n, written). Ret (take pos buf @ written))"
        using False True n(1) c(2) unfolding write_payload_def Let_def kind k_def [symmetric] by simp
      also have "\<dots> = wr_block buf pos ?p"
        using assms(4) unfolding p by (subst ValidDirect_scalars [OF c(1)]) (simp_all add: wr_block_def add.commute)
      finally show ?thesis .
    qed
  next
    case False
    with raw have n: "length ?p \<le> length ?d" "take (length ?p) ?d = ?p" by metis+
    have "rd_block ?d 0 (length ?p) = Ret ?p" using n by (simp add: rd_block_def)
    then show ?thesis using False asc unfolding write_payload_def Let_def kind len by auto
  qed
qed

lemma framed_size: "length p < 2 ^ 31 \<Longrightarrow> unat (wire_size plp (of_nat (length p))) = length (framed plp p)"
proof -
  assume l: "length p < 2 ^ 31"
  have w: "wire_size plp (of_nat (length p)) = of_nat (length (framed plp p))"
    using l by (auto simp: wire_size_def framed_def word_of_nat_eq_0_iff dest: nat_dvd_not_less)
  show ?thesis unfolding w using l by (intro u32_unat) (simp add: framed_def)
qed

text \<open>One row of the columnar path: the writes of its cell, in the order of the source.\<close>

lemma scatter_row_pieces:
  assumes "planned U kind col v rows plan" "r < rows" "cursor ! r + length (var_cell U kind col v r) \<le> length buf"
  shows "scatter_row U al v plan r (buf, cursor) =
    map_res (\<lambda>buf. (buf, cursor[r := cursor ! r + length (var_cell U kind col v r)]))
      (for_each write_at (pieces U kind col v r (cursor ! r)) buf)"
proof -
  let ?p = "var_payload U kind col (str (cell_at v r))"
  from assms(1,2) have row: "planned_row U kind col v plan r" and plp: "sp_plp plan = bc_IsPLPType col"
    by (auto simp: planned_def plan_shape_def)
  show ?thesis
  proof (cases "FormatIsNull v r")
    case True
    with row have w: "sp_wire plan ! r = (if bc_IsPLPType col then 8 else 2)" by (simp add: planned_row_def)
    show ?thesis using True by (auto simp: scatter_row_def plp w Let_def pieces_def var_cell_def write_at_def bind_Ret_map)
  next
    case False
    then have c: "var_cell U kind col v r = framed (bc_IsPLPType col) ?p" by (simp add: var_cell_def)
    from row False have f: "unat (sp_lengths plan ! r) = length ?p" "sp_wire plan ! r = wire_size (bc_IsPLPType col) (sp_lengths plan ! r)"
      "length ?p < 2 ^ 31" unfolding planned_row_def Let_def by metis+
    have "sp_lengths plan ! r = of_nat (length ?p)" unfolding f(1) [symmetric] by simp
    then have w: "unat (sp_wire plan ! r) = length (framed (bc_IsPLPType col) ?p)" unfolding f(2) using framed_size [OF f(3)] by simp
    have pay: "write_payload U al v plan r (cursor ! r + k) b = wr_block b (cursor ! r + k) ?p"
      if "length b = length buf" "k = (if bc_IsPLPType col then 12 else 2)" "?p \<noteq> [] \<or> \<not> bc_IsPLPType col" for b k
      using assms(3) that by (intro write_payload_eq [OF assms(1,2) False]) (auto simp: c framed_def split: if_splits)
    show ?thesis
    proof (cases "bc_IsPLPType col")
      case True
      then show ?thesis using False pay [of _ 12]
        by (simp add: scatter_row_def plp Let_def f(1) w c pieces_def write_at_def map_res_bind bind_Ret_map wr_block_length cong: bind_res_cong)
    next
      case plain: False
      then show ?thesis using False pay [of _ 2]
        by (simp add: scatter_row_def plp Let_def f(1) w c pieces_def write_at_def map_res_bind bind_Ret_map wr_block_length cong: bind_res_cong)
    qed
  qed
qed

end

lemma pieces_hold:
  assumes "holds t out (var_cell U kind col v r)"
  shows "\<forall>w \<in> set (pieces U kind col v r out). holds t (fst w) (snd w)"
    "covered (pieces U kind col v r out) = {out..<out + length (var_cell U kind col v r)}"
  using assms by (auto simp: var_cell_def pieces_def framed_def holds_append add.assoc Let_def split: if_splits)

context simdutf_contract begin

lemma scatter_row_writes:
  assumes "planned U kind col v rows plan" "r < rows" "holds t (cursor ! r) (var_cell U kind col v r)" "agree buf t W"
  shows "\<exists>buf'. scatter_row U al v plan r (buf, cursor) = Ret (buf', cursor[r := cursor ! r + length (var_cell U kind col v r)]) \<and>
    agree buf' t (W \<union> {cursor ! r..<cursor ! r + length (var_cell U kind col v r)})"
proof -
  have "cursor ! r + length (var_cell U kind col v r) \<le> length buf" using assms(3,4) by (simp add: holds_def agree_def)
  from scatter_row_pieces [OF assms(1,2) this] writes_agree [OF assms(4) pieces_hold(1) [OF assms(3)]] pieces_hold(2) [OF assms(3)]
  show ?thesis by fastforce
qed

lemma planned_cell:
  assumes "planned U kind col v rows plan" "r < rows"
  shows "unat (sp_wire plan ! r) = length (var_cell U kind col v r)" "\<not> FormatIsNull v r \<Longrightarrow> text_ok kind (str (cell_at v r))"
proof -
  let ?p = "var_payload U kind col (str (cell_at v r))"
  from assms have row: "planned_row U kind col v plan r" by (simp add: planned_def)
  show "unat (sp_wire plan ! r) = length (var_cell U kind col v r)"
  proof (cases "FormatIsNull v r")
    case True
    with row show ?thesis by (simp add: planned_row_def var_cell_def)
  next
    case False
    with row have f: "unat (sp_lengths plan ! r) = length ?p" "sp_wire plan ! r = wire_size (bc_IsPLPType col) (sp_lengths plan ! r)"
      "length ?p < 2 ^ 31" unfolding planned_row_def Let_def by metis+
    have "sp_lengths plan ! r = of_nat (length ?p)" unfolding f(1) [symmetric] by simp
    with f framed_size [OF f(3)] False show ?thesis by (simp add: var_cell_def)
  qed
  show "text_ok kind (str (cell_at v r))" if "\<not> FormatIsNull v r"
    using row that unfolding planned_row_def Let_def by (cases "kind = NVarcharKind") (metis, simp add: text_ok_def)
qed

lemma binary_cell:
  assumes "bc_max_length col \<noteq> 0" "length d < 2 ^ 30"
  shows "EncodeToBcp_binary col d buf = buf @ framed (bc_IsPLPType col) (var_payload U BinaryKind col d)"
proof (cases "bc_IsPLPType col")
  case True
  have l: "unat (of_nat (length d) :: u32) = length d" using assms(2) by (intro u32_unat) simp
  then have u: "uint (of_nat (length d) :: u32) = int (length d)" by (metis uint_nat)
  have "of_nat (length d) > (0 :: u32) \<longleftrightarrow> d \<noteq> []" by (metis l length_0_conv neq_iff unat_0 word_gt_0 unat_eq_zero)
  with True l u show ?thesis
    by (simp add: EncodeToBcp_binary_def EncodeBinaryPLP_def framed_def var_payload_def plp_header_def Let_def)
next
  case False
  let ?c = "ClampBlobToBound d col"
  have c: "?c = var_payload U BinaryKind col d" "length ?c \<le> unat (bc_max_length col)"
    using False assms(1) by (auto simp: ClampBlobToBound_def var_payload_def Let_def unat_eq_zero)
  then have l: "unat (of_nat (length ?c) :: u16) = length ?c" using u16_less [of "bc_max_length col"] by (intro u16_unat) simp
  then have "uint (of_nat (length ?c) :: u16) = int (length ?c)" by (metis uint_nat)
  with False l show ?thesis by (simp add: EncodeToBcp_binary_def EncodeBinary_def framed_def Let_def c(1))
qed

lemma encode_text_cell:
  assumes "column_kind col = Some kind" "\<not> FormatIsNull v r \<Longrightarrow> text_ok kind (str (cell_at v r)) \<and> length (str (cell_at v r)) < 2 ^ 30"
    "bc_tds_type_token col = TDS_TYPE_BIGVARBINARY \<Longrightarrow> bc_max_length col \<noteq> 0" "text_target col"
  shows "encode_text U al col v r buf = Ret (buf @ var_cell U kind col v r)"
proof (cases "FormatIsNull v r")
  case True
  then show ?thesis by (simp add: encode_text_def var_cell_def EncodeNullPLP_def EncodeNullVariable_def numeral_2_eq_2)
next
  case False
  let ?d = "str (cell_at v r)"
  consider "kind = NVarcharKind" | "kind = Utf8VarcharKind" | "kind = BinaryKind" by (cases kind)
  then show ?thesis
  proof cases
    case 1
    with assms(2) False obtain cps where c: "list_all is_scalar cps" "?d = utf8_enc cps" by (auto simp: text_ok_def)
    have "EncodeNVarcharFromUtf8 U al ?d col buf = Ret (buf @ framed (bc_IsPLPType col) (nvarchar_payload U col ?d))"
      unfolding c(2) by (rule EncodeNVarchar_Ret [OF c(1)])
    with 1 assms(1,4) False show ?thesis
      by (auto simp: encode_text_def ResolveTextEncoder_def text_target_def var_cell_def var_payload_def column_kind_def Let_def split: if_splits)
  next
    case 2
    with assms(1,4) False show ?thesis
      by (auto simp: encode_text_def ResolveTextEncoder_def text_target_def var_cell_def var_payload_def column_kind_def Let_def EncodeVarcharUtf8_Ret split: if_splits)
  next
    case 3
    with assms False have t: "bc_tds_type_token col = TDS_TYPE_BIGVARBINARY" "bc_tds_type_token col \<noteq> TDS_TYPE_BIGVARCHAR"
      by (auto simp: column_kind_def split: if_splits)
    with 3 False show ?thesis using binary_cell [OF assms(3) [OF t(1)], of ?d buf] assms(2,4)
      by (simp add: encode_text_def ResolveTextEncoder_def text_target_def var_cell_def Let_def)
  qed
qed

end

subsection \<open>A column of text on both paths\<close>

lemma sum_wire:
  assumes "simdutf_contract U" "planned U kind col v rows plan"
  shows "map unat (sp_wire plan) = map (length \<circ> var_cell U kind col v) [0..<rows]"
  using simdutf_contract.planned_cell(1) [OF assms] assms(2) by (intro nth_equalityI) (auto simp: planned_def plan_shape_def)

text \<open>C15: whenever the columnar path can plan a text or binary column (of any length kind, with NULLs, with values over the column's
  bound), the row path sends every value of it, clamped to the bound in the same way, and what the columnar path writes into a
  buffer of the planned size, whatever the buffer held before, is byte for byte what the row path sends. Values are shorter
  than 2^30 bytes, since the plan computes lengths in 32 bits, and a varbinary column declares a length other than 0, on which the
  two clamping routines differ.\<close>

theorem text_columns_agree:
  assumes "simdutf_contract U" "text_target col" "PlanColumn U v rows col = Ret plan" "small_strings v rows"
    "bc_tds_type_token col = TDS_TYPE_BIGVARBINARY \<Longrightarrow> bc_max_length col \<noteq> 0"
    "length dst = sum_list (map unat (sp_wire plan))"
  shows "\<exists>column cursor. for_each (encode_text U al col v) [0..<rows] [] = Ret column \<and>
    ScatterVarBlock U al' v plan 0 rows (dst, map (\<lambda>r. sum_list (take r (map unat (sp_wire plan)))) [0..<rows]) = Ret (column, cursor)"
proof -
  from simdutf_contract.PlanColumn_planned [OF assms(1,3,4)] obtain kind where k: "column_kind col = Some kind"
    and p: "planned U kind col v rows plan" by blast
  define cs where "cs = map (var_cell U kind col v) [0..<rows]"
  have "encode_text U al col v r s = Ret (s @ var_cell U kind col v r)" if "r \<in> set [0..<rows]" for r s
    using simdutf_contract.encode_text_cell [OF assms(1) k, of v r al s] simdutf_contract.planned_cell(2) [OF assms(1) p] that assms(2,4,5) by auto
  then have row: "for_each (encode_text U al col v) [0..<rows] [] = Ret (concat cs)"
    using for_each_concat [of "[0..<rows]" "encode_text U al col v" "var_cell U kind col v" "[]"] by (simp add: cs_def)
  have w: "map unat (sp_wire plan) = map length cs" using sum_wire [OF assms(1) p] by (simp add: cs_def)
  have l: "length dst = length (concat cs)" "length cs = rows" using assms(6) by (simp_all add: w length_concat cs_def)
  have o: "sum_list (take r (map unat (sp_wire plan))) = offset cs r" for r by (simp add: w offset_def length_concat take_map)
  have "outcome (for_each (scatter_row U al' v plan) [0..<rows] (dst, map (offset cs) [0..<rows])) (\<forall>r \<in> set [0..<rows]. True)
    (\<lambda>(buf', c'). advanced (set [0..<rows]) (\<lambda>r. cs ! r) (map (offset cs) [0..<rows]) c' \<and>
      agree buf' (concat cs) ({} \<union> cells_at (set [0..<rows]) (\<lambda>r. cs ! r) (map (offset cs) [0..<rows])))"
  proof (rule for_each_cursor [where n = rows])
    fix r b c W assume r: "r \<in> set [0..<rows]" and h: "holds (concat cs) (c ! r) (cs ! r)" "agree b (concat cs) W"
    then have e: "var_cell U kind col v r = cs ! r" by (simp add: cs_def)
    from simdutf_contract.scatter_row_writes [OF assms(1) p, of r "concat cs" c, unfolded e, OF _ h] r
    show "outcome (scatter_row U al' v plan r (b, c)) True (\<lambda>(buf', c'). c' = c[r := c ! r + length (cs ! r)] \<and>
      agree buf' (concat cs) (W \<union> {c ! r..<c ! r + length (cs ! r)}))" by (auto simp: outcome_def)
  qed (use l in \<open>auto simp: agree_init holds_concat\<close>)
  then obtain buf cursor where r: "ScatterVarBlock U al' v plan 0 rows (dst, map (offset cs) [0..<rows]) = Ret (buf, cursor)"
    and "agree buf (concat cs) (\<Union>r<rows. {offset cs r..<offset cs r + length (cs ! r)})"
    by (auto simp: ScatterVarBlock_def outcome_def cells_at_def atLeast0LessThan)
  moreover have "{0..<length (concat cs)} \<subseteq> (\<Union>r<rows. {offset cs r..<offset cs r + length (cs ! r)})"
    using offset_covers [of _ cs rows] l(2) offset_all [of cs rows] by fastforce
  ultimately have "buf = concat cs" by (blast intro: agree_full)
  with row r show ?thesis unfolding o by blast
qed

definition nvarchar_column :: "u16 \<Rightarrow> BCPColumnMetadata" where
  "nvarchar_column n = numeric_18_2 \<lparr> bc_duckdb_type := \<lparr> lt_id = VARCHAR_ID, lt_physical = PT_VARCHAR, lt_width = 0, lt_scale = 0 \<rparr>,
     bc_tds_type_token := TDS_TYPE_NVARCHAR, bc_max_length := n \<rparr>"

text \<open>Three rows, the second NULL, the third longer than nvarchar(2).\<close>

definition three_texts :: vec where
  "three_texts = \<lparr> v_type = \<lparr> lt_id = VARCHAR_ID, lt_physical = PT_VARCHAR, lt_width = 0, lt_scale = 0 \<rparr>, v_sel = None,
     v_valid = Some [True, False, True], v_data = [Str [0x61], Str [], Str [0x61, 0x62, 0x63]] \<rparr>"

lemma three_texts_plan:
  "PlanColumn ref_simdutf three_texts 3 (nvarchar_column 4) = Ret \<lparr> sp_lengths = [2, 0, 4], sp_wire = [4, 2, 6], sp_src_len = [1, 0, 2],
     sp_kind = NVarcharKind, sp_all_ascii = True, sp_truncated = True, sp_plp = False \<rparr>"
  by code_simp

theorem text_columns_agree_witness:
  "\<exists>plan column cursor. PlanColumn ref_simdutf three_texts 3 (nvarchar_column 4) = Ret plan \<and>
    for_each (encode_text ref_simdutf odd (nvarchar_column 4) three_texts) [0..<3] [] = Ret column \<and>
    ScatterVarBlock ref_simdutf even three_texts plan 0 3
      (replicate 12 0xAA, map (\<lambda>r. sum_list (take r (map unat (sp_wire plan)))) [0..<3]) = Ret (column, cursor)"
proof -
  have "small_strings three_texts 3"
    by (simp add: three_texts_def cell_at_def get_index_def less_Suc_eq numeral_3_eq_3)
  moreover have "bc_tds_type_token (nvarchar_column 4) = TDS_TYPE_BIGVARBINARY \<Longrightarrow> bc_max_length (nvarchar_column 4) \<noteq> 0"
    by (simp add: nvarchar_column_def)
  moreover have "text_target (nvarchar_column 4)" by (simp add: text_target_def nvarchar_column_def)
  ultimately show ?thesis
    using text_columns_agree [OF ref.simdutf_contract_axioms _ three_texts_plan, of "replicate 12 0xAA" odd even] three_texts_plan by auto
qed

subsection \<open>Text survives bulk load up to the column's bound\<close>

lemma ReadValue_framed:
  assumes "type_id c = TDS_TYPE_NVARCHAR" "IsPLPType c = plp" "if plp then length p < 2 ^ 32 else length p < 0xFFFF"
  shows "ReadValue c (framed plp p @ rest) = Ret (length (framed plp p), p, False)"
proof -
  have t: "type_id c \<notin> prefix1_types" "type_id c \<in> varlen_types" by (simp_all add: assms(1) type_sets)
  show ?thesis
  proof (cases plp)
    case False
    then have "wf_value c (WBytes p)" using assms t by (simp add: wf_value_def)
    moreover have "enc_value c (WBytes p) = framed plp p"
      using False t assms(3) le_bytes_word(2) [of "of_nat (length p)"] by (simp add: enc_value_def framed_def uint_nat u16_unat)
    ultimately show ?thesis using ReadValue_enc [of c "WBytes p" rest] by simp
  next
    case True
    define cs where "cs = (if p = [] then [] else [p])"
    have "plp_total plp_header \<noteq> PLP_NULL_MARKER"
      by code_simp
    then have "wf_value c (WChunks plp_header cs)" using assms True by (simp add: wf_value_def cs_def)
    moreover have "enc_value c (WChunks plp_header cs) = framed plp p"
      using True assms(3) le_bytes_word(1) [of "of_nat (length p)"]
      by (simp add: enc_value_def framed_def uint_nat u32_unat cs_def enc_chunk_def) (simp add: le32_def)
    ultimately show ?thesis using ReadValue_enc [of c "WChunks plp_header cs" rest] by (simp add: cs_def)
  qed
qed

text \<open>C16: a text of less than 2^30 bytes bulk loaded into an nvarchar column, read back by the row reader and decoded is the
  text itself, or, when it exceeds the column's bound, its longest prefix of whole characters that fits: the encoder clamps
  such a value (the header of the codec still says that it refuses it), no character is ever cut in half and
  no more is dropped than has to be. An nvarchar(max) column loses nothing.\<close>

theorem nvarchar_roundtrip:
  assumes "simdutf_contract U" "list_all is_scalar text" "length (utf8_enc text) < 2 ^ 30"
    "type_id c = TDS_TYPE_NVARCHAR" "IsPLPType c = bc_IsPLPType col"
  shows "\<exists>kept dropped cell payload. text = kept @ dropped \<and>
    EncodeNVarcharFromUtf8 U al (utf8_enc text) col buf = Ret (buf @ cell) \<and>
    ReadValue c (cell @ rest) = Ret (length cell, payload, False) \<and> Utf16LEDecode U payload = utf8_enc kept \<and>
    (bc_IsPLPType col \<longrightarrow> dropped = []) \<and>
    (\<not> bc_IsPLPType col \<longrightarrow> length payload \<le> unat (bc_max_length col) \<and>
       (dropped = [] \<or> unat (bc_max_length col) < 2 * length (utf16_enc (kept @ [hd dropped]))))"
proof -
  obtain kept dropped where k: "text = kept @ dropped" "dropped = [] \<or> \<not> bc_IsPLPType col \<and> unat (bc_max_length col) < 2 * length (utf16_enc (kept @ [hd dropped]))"
    "list_all is_scalar kept" "nvarchar_payload U col (utf8_enc text) = unit_bytes (utf16_enc kept)"
    "\<not> bc_IsPLPType col \<longrightarrow> 2 * length (utf16_enc kept) \<le> unat (bc_max_length col)"
    by (rule simdutf_contract.nvarchar_cut [OF assms(1,2), of col]) blast
  let ?p = "unit_bytes (utf16_enc kept)"
  have "length (utf16_enc kept) \<le> length (utf8_enc text)" using utf16_le_utf8 [of kept] by (simp add: k(1))
  moreover have "\<not> bc_IsPLPType col \<longrightarrow> length ?p < 0xFFFF"
    using k(5) u16_less [of "bc_max_length col"] by (auto simp: bc_IsPLPType_def word_unat_eq_iff)
  ultimately have "if bc_IsPLPType col then length ?p < 2 ^ 32 else length ?p < 0xFFFF" using assms(3) by simp
  note read = ReadValue_framed [OF assms(4,5) this, of rest]
  have "Utf16LEDecode U ?p = utf8_enc kept" by (simp add: simdutf_contract.Decode_eq [OF assms(1)] k(3))
  with k read simdutf_contract.EncodeNVarchar_Ret [OF assms(1,2), of al col buf] show ?thesis
    by (intro exI [of _ kept] exI [of _ dropped] exI [of _ "framed (bc_IsPLPType col) ?p"] exI [of _ ?p]) auto
qed

definition smileys :: "nat list" where
  "smileys = [0x61, 0x1F600, 0x62]"

text \<open>An nvarchar(2): the character outside the BMP does not fit behind the letter.\<close>

theorem nvarchar_roundtrip_witness:
  "\<exists>kept dropped cell payload. smileys = kept @ dropped \<and>
    EncodeNVarcharFromUtf8 ref_simdutf odd (utf8_enc smileys) (nvarchar_column 4) [] = Ret ([] @ cell) \<and>
    ReadValue (fresh_column \<lparr> type_id := TDS_TYPE_NVARCHAR, max_length := 4 \<rparr>) (cell @ []) = Ret (length cell, payload, False) \<and>
    Utf16LEDecode ref_simdutf payload = utf8_enc kept \<and> length payload \<le> 4 \<and>
    (dropped = [] \<or> 4 < 2 * length (utf16_enc (kept @ [hd dropped])))"
proof -
  have "list_all is_scalar smileys" "length (utf8_enc smileys) < 2 ^ 30"
    by (simp_all add: smileys_def is_scalar_def utf8_of_cp_def)
  moreover have "IsPLPType (fresh_column \<lparr> type_id := TDS_TYPE_NVARCHAR, max_length := 4 \<rparr>) = bc_IsPLPType (nvarchar_column 4)"
    "\<not> bc_IsPLPType (nvarchar_column 4)" "unat (bc_max_length (nvarchar_column 4)) = 4"
    by (simp_all add: IsPLPType_def bc_IsPLPType_def nvarchar_column_def)
  ultimately show ?thesis
    using nvarchar_roundtrip [OF ref.simdutf_contract_axioms, of smileys "fresh_column \<lparr> type_id := TDS_TYPE_NVARCHAR, max_length := 4 \<rparr>"
      "nvarchar_column 4" odd "[]" "[]"] by simp
qed

text \<open>The prefix of an ill-formed text can end behind the text: a lead byte announces bytes that are not there. The row path then
  reads behind the value.\<close>

theorem ill_formed_prefix_overruns:
  "let d = [0xFF, 0x61, 0x62, 0x63, 0xFF, 0x61, 0x62, 0x63, 0xC3]
   in Utf8PrefixForUtf16Limit d 10 = (length d + 1, 10) \<and>
      EncodeNVarcharFromUtf8 ref_simdutf odd d (nvarchar_column 10) [] = OOB"
  by code_simp

end
