(* ===== verification/Spec2Isabelle.thy ===== *)
theory Spec2Isabelle
  imports Result_Set Login_Reply Connection_Machine Pool_Properties String_Codec
begin

text \<open>
  The SQL Server extension for DuckDB, at the level of its own TDS protocol stack.

  \<^bold>\<open>The program.\<close> The extension speaks the TDS protocol to SQL Server with a client of its own
  (\<open>src/tds\<close>). A \<open>TdsConnection\<close> owns a \<open>TdsSocket\<close>, drives it through PRELOGIN, the TLS switch and one of
  three logins (password, access token, integrated), then sends SQL batches in packets and reads replies.
  The socket assembles packets from whatever pieces the network delivers; the token parser consumes their
  payloads incrementally and hands columns, rows and messages to its caller; the row reader bounds and
  copies the values of a row. A \<open>ConnectionPool\<close> shares connections between threads and closes those that
  stay idle. Bulk load (\<open>src/codec\<close>, \<open>src/tds/encoding\<close>) turns DuckDB values into the rows of a BCP stream, and the
  same codecs decode the values of a result. On top sit the query layer and everything that talks to DuckDB.

  \<^bold>\<open>Vocabulary.\<close> \<open>Tds_Prelude\<close> has bytes, the outcome type \<open>res\<close> (\<open>Ret\<close> a result, \<open>Throw\<close> an exception,
  \<open>More\<close> not enough bytes yet, \<open>OOB\<close> an access outside the buffer: every read of the source is a checked
  read, so that memory safety is the theorem that \<open>OOB\<close> is not reached), and the composition of bytes into
  words. Machine integers are words of their C++ width; where the source computes in \<open>size_t\<close> and the
  values are bounded by a buffer, natural numbers are used. \<open>Action\<close> has the operations of an object with
  state: they return an outcome and the object; there \<open>More\<close> stands for a call that does not return.
  \<open>Incremental\<close> has the locale of a routine that measures one item of a partially received buffer (it
  stays inside, its answer depends on what it consumed, more bytes do not undo it) and the loop \<open>walk\<close>
  over the columns of a row; \<open>Column_Metadata\<close> and \<open>Row_Reader\<close> interpret it on the source's routines, and
  the token parser rests on the interpreted facts.

  \<^bold>\<open>Theories and sources.\<close>
  \<^item> \<open>Tds_Types\<close>: \<open>include/tds/tds_types.hpp\<close>. The enumerations and constants.
  \<^item> \<open>Tds_Packet\<close>: \<open>tds/tds_packet.cpp\<close>. The packet record, its append operations, \<open>Serialize\<close>, \<open>Parse\<close>
    with their round trip.
  \<^item> \<open>Utf16\<close>, \<open>Utf16_Contract\<close>: \<open>tds/encoding/utf16.cpp\<close>. The scalar converters, the replacing decoder and
    the front ends over the library \<open>simdutf\<close>. The library is the record \<open>simdutf\<close> of functions; what the code
    relies on is the locale \<open>simdutf_contract\<close>, and \<open>Utf16_Contract\<close> interprets it on reference converters,
    which shows that the contract can hold. The encoders agree with each other on every input, text survives the
    round trip, and ill-formed units are replaced.
  \<^item> \<open>Column_Metadata\<close>: \<open>tds/tds_column_metadata.cpp\<close>. The COLMETADATA parser: round trip, and
    well-formedness of whatever it accepts.
  \<^item> \<open>Row_Reader\<close>: \<open>tds/tds_row_reader.cpp\<close>. For every type the routine that copies a value, the one that
    steps over it, and the precomputed form of the second; they agree, stay inside the buffer, are
    insensitive to chunking, and read back what was encoded.
  \<^item> \<open>Token_Parser\<close>, \<open>Token_Stream\<close>, \<open>Result_Set\<close>: \<open>tds/tds_token_parser.cpp\<close>. \<open>Token_Parser\<close> is the parser
    object. \<open>Token_Stream\<close> has the abstract specification (\<open>token_spec\<close> for one token of a byte list,
    \<open>parse_stream\<close> for a reply) and the refinement proof; \<open>Result_Set\<close> draws the consequences for every
    chunking and for a whole result set.
  \<^item> \<open>Tds_Messages\<close>, \<open>Login7\<close>: the message builders of \<open>tds/tds_protocol.cpp\<close>. SQL batches, bulk load,
    tokens and splitting; the four LOGIN7 messages, which a receiver that follows their offsets reads back,
    and the limit on field lengths.
  \<^item> \<open>Login_Response\<close>, \<open>Login_Reply\<close>: the parsers of \<open>tds/tds_protocol.cpp\<close> for login replies, PRELOGIN
    replies and short replies. Termination and memory safety on every input, and the exact effect of
    a well-formed reply.
  \<^item> \<open>Socket_Framing\<close>: \<open>tds/tds_socket.cpp\<close>. The receive buffer with its cursor and framing limits, packets
    and messages from pieces; \<open>Send\<close>, \<open>Connect\<close>, \<open>EnableTls\<close> and \<open>Close\<close> by their effect on the object.
  \<^item> \<open>Machine_Int\<close>: signed machine integers (an operation whose result leaves the type is \<open>OOB\<close>, so a theorem that
    a routine returns includes the absence of overflow), C's division, bytes of a value, and the 128-bit integer of
    DuckDB. Its arithmetic is a library: the record \<open>hugeint_ops\<close> with the laws of the locale \<open>hugeint_laws\<close>,
    interpreted on exact integers.
  \<^item> \<open>Value_Encoding\<close>, \<open>Bcp_Encoding\<close>: \<open>tds/encoding/datetime_encoding.cpp\<close>, \<open>decimal_encoding.cpp\<close>, \<open>guid_encoding.cpp\<close> and
    the encoders of single values in \<open>bcp_row_encoder.cpp\<close>: decoders and encoders, and the round trips that hold between them.
  \<^item> \<open>Bcp_Column\<close>: \<open>include/copy/target_resolver.hpp\<close>. The target column, the types of DuckDB that the codecs name.
  \<^item> \<open>Decimal_Codec\<close>, \<open>Datetime_Codec\<close>, \<open>Scalar_Codec\<close>: \<open>codec/decimal_codec.cpp\<close>, \<open>codec/datetime_codec.cpp\<close>, and
    \<open>type_family.cpp\<close>, \<open>integer_codec.cpp\<close>, \<open>boolean_codec.cpp\<close>, \<open>float_codec.cpp\<close>, \<open>binary_codec.cpp\<close>, \<open>uuid_codec.cpp\<close>. A value
    either is refused or comes back as the value the column's type can hold (exactly, or rounded to its scale), and the
    columnar kernels write the bytes of the row path.
  \<^item> \<open>Chunk_Format\<close>, \<open>String_Codec\<close>: the unified vector format, loops that write into a buffer, and \<open>codec/string_codec.cpp\<close>:
    text and binary columns, planned and written column by column, equal to the row path and read back up to whole
    characters.
  \<^item> \<open>Connection\<close>, \<open>Connection_Login\<close>, \<open>Connection_Machine\<close>: \<open>tds/tds_connection.cpp\<close>. \<open>Connection\<close> has
    the object (one field of the record per member) and its operations, the three logins included.
    \<open>Connection_Login\<close> proves the contract of a login, for a single attempt, over routing hops and for the
    public operation. \<open>Connection_Machine\<close> runs every public operation from every reachable state, and
    states what a batch puts on the wire.
  \<^item> \<open>Connection_Pool\<close>, \<open>Pool_Invariant\<close>, \<open>Pool_Run\<close>, \<open>Pool_Acquire\<close>, \<open>Pool_Properties\<close>: \<open>tds/tds_connection_pool.cpp\<close>.
    The critical sections, their invariant, the runs that interleave the sections of any number of threads, a call
    of \<open>Acquire\<close> from its first section to its last with other threads in between, and what a caller may rely on.

  \<^bold>\<open>The environment.\<close> The operating system, the TLS library and time are inputs: a connection carries the
  list of what the network answers (data, a time-out with or without a message, or an error for a receive; success or error for a send, a dial, a
  TLS handshake) and a function from the number of readings to the clock's value. When such a list is exhausted
  the operation times out, so every operation has a result for
  every list. An authenticator is a record of functions, which may throw. What the pool does outside its mutex
  (the factory call, waiting) splits \<open>Acquire\<close> into sections, and everything can happen between two of them; holders of
  a connection may change it in any way that keeps the connection's own invariant.

  \<^bold>\<open>Termination and bounds.\<close> Loops over a buffer are functions with a measure. Loops that need not
  end are \<open>partial_function (option)\<close>: splitting a message with a packet size of 8 (no progress), assembling a
  message while the network goes on delivering; not returning is \<open>None\<close>, and the properties say when it is
  not. Draining the parser takes fuel, the length of the unread input plus 2, which \<open>Token_Stream\<close> proves to
  be enough, since every returned token shortens the input. A login makes at most 5 routing hops and 8 SSPI
  rounds, the source's own limits. A call of \<open>Acquire\<close> takes the list of the gaps between its sections: the number of
  wake-ups is not bounded by the source, and two sections after the deadline are enough. Pool runs bound the number of threads that create connections at
  one time by a parameter.

  \<^bold>\<open>What is not modelled.\<close> The operating system's sockets, polling, name resolution and the TLS byte
  stream; GSSAPI, SSPI and Azure authentication (system libraries, HTTP); debug output; timers other
  than as clock readings. Of the value codecs the decoding of staged columns and the rendering
  of SQL literals and of type names, and of the columnar encoder the layout of a chunk (its value kernels are
  modelled). Result streams, row staging, catalog, table scan, DML, COPY and the extension's entry points work on DuckDB's
  vectors, values, expressions and catalog classes, which are not part of the repository's own code; their SQL
  generation and decoding are written against those interfaces. The conversions between float and double are parameters.
\<close>

section \<open>Properties that span components\<close>

lemma prelogin_evaluates:
  "list_all (\<lambda>(e, f). case ParsePreloginResponse (pk_payload (BuildPreloginWithFedAuth e f)) of
       Ret r \<Rightarrow> pre_success r \<and> pre_encryption r = encryption_byte e \<and> pre_fedauth_echo r = f | _ \<Rightarrow> False)
     [(True, True), (True, False), (False, True), (False, False)]"
  by code_simp

lemma plain_prelogin_evaluates:
  "list_all (\<lambda>e. case ParsePreloginResponse (pk_payload (BuildPrelogin e)) of
       Ret r \<Rightarrow> pre_success r \<and> pre_encryption r = encryption_byte e \<and> \<not> pre_fedauth_echo r | _ \<Rightarrow> False)
     [True, False]"
  by code_simp

text \<open>The PRELOGIN messages the client builds are well formed for the protocol's own reader: for
  every combination of encryption and federated authentication, following the option headers to their
  data yields the requested encryption mode and the federated-authentication flag, and the option list is
  terminated.\<close>

theorem prelogin_roundtrip:
  "(\<exists>r. ParsePreloginResponse (pk_payload (BuildPreloginWithFedAuth use_encrypt fedauth)) = Ret r \<and>
      pre_success r \<and> pre_encryption r = encryption_byte use_encrypt \<and> pre_fedauth_echo r = fedauth) \<and>
   (\<exists>r. ParsePreloginResponse (pk_payload (BuildPrelogin use_encrypt)) = Ret r \<and>
      pre_success r \<and> pre_encryption r = encryption_byte use_encrypt \<and> \<not> pre_fedauth_echo r)"
  using prelogin_evaluates plain_prelogin_evaluates
  by (cases use_encrypt; cases fedauth) (auto split: res.splits)

end
